(* ===== verification/Clipper_Prelude.thy ===== *)
theory Clipper_Prelude
  imports Main "HOL-Library.Word"
begin

text \<open>
  The shared vocabulary of the development: the machine integer types of the Rust sources, the
  ways a Rust computation can stop with a panic, sequencing of fallible computations, and the
  part of the standard library's \<open>BTreeMap\<close> the sources use.

  A \<open>HashMap\<close> whose iteration order is never observed is a HOL map \<open>'k \<rightharpoonup> 'v\<close>.  A
  \<open>BTreeMap\<close> is observed through ordered range queries, so it is an association list that is kept
  strictly ascending in its keys (\<open>bt_ok\<close>); the interface locale \<open>ordered_map\<close> collects the laws
  the clients rely on, and the interpretation \<open>bt\<close> discharges them for the list operations.
\<close>

unbundle bit_operations_syntax

named_theorems res_simps \<open>equations that move through sequenced fallible computations\<close>
named_theorems bt_simps \<open>lookup after insertion and removal in an ordered map\<close>

section \<open>Machine integers and bytes\<close>

type_synonym u8 = "8 word"
type_synonym u16 = "16 word"
type_synonym u32 = "32 word"
type_synonym u64 = "64 word"
type_synonym u128 = "128 word"
type_synonym bytes = "u8 list"

text \<open>A byte string literal \<open>b"..."\<close> of the sources.\<close>

definition ascii :: "string \<Rightarrow> bytes" where
  "ascii s = map (\<lambda>c. word_of_nat (of_char c)) s"

section \<open>Panics and sequencing\<close>

datatype panic =
    AssertFailed
  | UnwrapFailed
  | ExpectFailed
  | UnreachableCode
  | UnimplementedCode
  | SliceOutOfRange
  | ArithOverflow
  | NoReturn
  | DivByZero

type_synonym 'a res = "panic + 'a"

fun res_bind :: "'e + 'a \<Rightarrow> ('a \<Rightarrow> 'e + 'b) \<Rightarrow> 'e + 'b" where
  "res_bind (Inl e) f = Inl e"
| "res_bind (Inr x) f = f x"

lemma res_bind_cong [fundef_cong]:
  "m = m' \<Longrightarrow> (\<And>x. m' = Inr x \<Longrightarrow> f x = g x) \<Longrightarrow> res_bind m f = res_bind m' g"
  by (cases m') auto

lemma res_bind_Inr_iff [res_simps]:
  "res_bind m f = Inr y \<longleftrightarrow> (\<exists>x. m = Inr x \<and> f x = Inr y)"
  by (cases m) auto

lemma res_bind_Inl_iff [res_simps]:
  "res_bind m f = Inl e \<longleftrightarrow> m = Inl e \<or> (\<exists>x. m = Inr x \<and> f x = Inl e)"
  by (cases m) auto

lemma res_bind_assoc [res_simps]:
  "res_bind (res_bind m f) g = res_bind m (\<lambda>x. res_bind (f x) g)"
  by (cases m) auto

text \<open>\<open>Option::unwrap\<close> and \<open>Option::expect\<close>.\<close>

definition unwrap :: "'a option \<Rightarrow> 'a res" where
  "unwrap x = (case x of None \<Rightarrow> Inl UnwrapFailed | Some v \<Rightarrow> Inr v)"

definition expect :: "'a option \<Rightarrow> 'a res" where
  "expect x = (case x of None \<Rightarrow> Inl ExpectFailed | Some v \<Rightarrow> Inr v)"

lemma unwrap_simps [simp]: "unwrap None = Inl UnwrapFailed" "unwrap (Some v) = Inr v"
  by (simp_all add: unwrap_def)

lemma expect_simps [simp]: "expect None = Inl ExpectFailed" "expect (Some v) = Inr v"
  by (simp_all add: expect_def)

text \<open>
  A loop that may run forever is a partial function to \<open>option\<close>; where the caller's model has no
  such layer of its own, running forever is the value \<open>NoReturn\<close>.
\<close>

definition returned :: "'a res option \<Rightarrow> 'a res" where
  "returned x = (case x of None \<Rightarrow> Inl NoReturn | Some r \<Rightarrow> r)"

lemma returned_simps [simp]: "returned None = Inl NoReturn" "returned (Some r) = r"
  by (simp_all add: returned_def)

lemma returned_Inr [res_simps]: "returned x = Inr y \<longleftrightarrow> x = Some (Inr y)"
  by (cases x) simp_all

text \<open>The slice \<open>&xs[n..]\<close>, which panics when \<open>n\<close> is past the end.\<close>

definition slice_from :: "nat \<Rightarrow> 'a list \<Rightarrow> 'a list res" where
  "slice_from n xs = (if n \<le> length xs then Inr (drop n xs) else Inl SliceOutOfRange)"

section \<open>Ordered maps\<close>

type_synonym ('k, 'v) btree = "('k \<times> 'v) list"

fun bt_insert :: "'k::linorder \<Rightarrow> 'v \<Rightarrow> ('k, 'v) btree \<Rightarrow> ('k, 'v) btree" where
  "bt_insert k v [] = [(k, v)]"
| "bt_insert k v ((a, b) # m) =
     (if k < a then (k, v) # (a, b) # m
      else if k = a then (k, v) # m
      else (a, b) # bt_insert k v m)"

fun bt_remove :: "'k::linorder \<Rightarrow> ('k, 'v) btree \<Rightarrow> ('k, 'v) btree" where
  "bt_remove k [] = []"
| "bt_remove k ((a, b) # m) = (if k = a then m else (a, b) # bt_remove k m)"

definition bt_get :: "('k, 'v) btree \<Rightarrow> 'k \<Rightarrow> 'v option" where
  "bt_get m k = map_of m k"

text \<open>\<open>range(Included(k)..).next()\<close>, \<open>range(Excluded(k)..).next()\<close> and \<open>first_key_value()\<close>.\<close>

definition bt_first_ge :: "'k::linorder \<Rightarrow> ('k, 'v) btree \<Rightarrow> ('k \<times> 'v) option" where
  "bt_first_ge k m = find (\<lambda>(a, b). k \<le> a) m"

definition bt_first_gt :: "'k::linorder \<Rightarrow> ('k, 'v) btree \<Rightarrow> ('k \<times> 'v) option" where
  "bt_first_gt k m = find (\<lambda>(a, b). k < a) m"

definition bt_first :: "('k, 'v) btree \<Rightarrow> ('k \<times> 'v) option" where
  "bt_first m = (case m of [] \<Rightarrow> None | x # xs \<Rightarrow> Some x)"

definition bt_ok :: "('k::linorder, 'v) btree \<Rightarrow> bool" where
  "bt_ok m \<longleftrightarrow> sorted_wrt (<) (map fst m)"

lemma bt_ok_Nil [simp]: "bt_ok []"
  by (simp add: bt_ok_def)

lemma bt_ok_Cons [simp]:
  "bt_ok ((a, b) # m) \<longleftrightarrow> (\<forall>k \<in> fst ` set m. a < k) \<and> bt_ok m"
  by (simp add: bt_ok_def)

lemma fst_set_bt_insert: "fst ` set (bt_insert k v m) = insert k (fst ` set m)"
  by (induction k v m rule: bt_insert.induct) auto

lemma fst_set_bt_remove_subset: "fst ` set (bt_remove k m) \<subseteq> fst ` set m"
  by (induction k m rule: bt_remove.induct) auto

lemma bt_ok_insert: "bt_ok m \<Longrightarrow> bt_ok (bt_insert k v m)"
  by (induction k v m rule: bt_insert.induct) (auto simp: fst_set_bt_insert)

lemma bt_ok_remove: "bt_ok m \<Longrightarrow> bt_ok (bt_remove k m)"
  by (induction k m rule: bt_remove.induct)
    (auto dest!: subsetD [OF fst_set_bt_remove_subset, OF imageI])

lemma bt_get_Nil [simp]: "bt_get [] = Map.empty"
  by (simp add: bt_get_def fun_eq_iff)

lemma bt_get_dom: "dom (bt_get m) = fst ` set m"
  by (simp add: bt_get_def [abs_def] dom_map_of_conv_image_fst)

lemma bt_get_insert: "bt_ok m \<Longrightarrow> bt_get (bt_insert k v m) = (bt_get m)(k \<mapsto> v)"
proof (induction k v m rule: bt_insert.induct)
  case (2 k v a b m)
  then show ?case by (auto simp: bt_get_def fun_eq_iff)
qed (simp add: bt_get_def fun_eq_iff)

lemma bt_get_remove: "bt_ok m \<Longrightarrow> bt_get (bt_remove k m) = (bt_get m)(k := None)"
proof (induction k m rule: bt_remove.induct)
  case (2 k a b m)
  then have "k = a \<Longrightarrow> map_of m a = None"
    by (auto simp: map_of_eq_None_iff)
  with 2 show ?case by (auto simp: bt_get_def fun_eq_iff)
qed (simp add: bt_get_def fun_eq_iff)

lemma bt_first_ge_Some:
  assumes "bt_ok m" and "bt_first_ge k m = Some (a, b)"
  shows "k \<le> a \<and> bt_get m a = Some b \<and> (\<forall>c \<in> dom (bt_get m). k \<le> c \<longrightarrow> a \<le> c)"
  using assms
proof (induction m)
  case (Cons x m)
  obtain c d where x: "x = (c, d)" by (cases x)
  show ?case
  proof (cases "k \<le> c")
    case True
    with Cons.prems x show ?thesis
      by (auto simp: bt_first_ge_def bt_get_dom) (auto simp: bt_get_def)
  next
    case False
    with Cons x have "bt_first_ge k m = Some (a, b)" by (simp add: bt_first_ge_def)
    with Cons.IH Cons.prems x have IH:
      "k \<le> a \<and> bt_get m a = Some b \<and> (\<forall>c \<in> dom (bt_get m). k \<le> c \<longrightarrow> a \<le> c)"
      by simp
    with False x show ?thesis by (auto simp: bt_get_dom) (auto simp: bt_get_def)
  qed
qed (simp add: bt_first_ge_def)

lemma bt_first_ge_None:
  "bt_first_ge k m = None \<longleftrightarrow> (\<forall>c \<in> dom (bt_get m). c < k)"
  by (auto simp: bt_first_ge_def bt_get_dom find_None_iff not_le)

lemma bt_first_gt_Some:
  assumes "bt_ok m" and "bt_first_gt k m = Some (a, b)"
  shows "k < a \<and> bt_get m a = Some b \<and> (\<forall>c \<in> dom (bt_get m). k < c \<longrightarrow> a \<le> c)"
  using assms
proof (induction m)
  case (Cons x m)
  obtain c d where x: "x = (c, d)" by (cases x)
  show ?case
  proof (cases "k < c")
    case True
    with Cons.prems x show ?thesis
      by (auto simp: bt_first_gt_def bt_get_dom) (auto simp: bt_get_def)
  next
    case False
    with Cons x have "bt_first_gt k m = Some (a, b)" by (simp add: bt_first_gt_def)
    with Cons.IH Cons.prems x have IH:
      "k < a \<and> bt_get m a = Some b \<and> (\<forall>c \<in> dom (bt_get m). k < c \<longrightarrow> a \<le> c)"
      by simp
    with False x show ?thesis by (auto simp: bt_get_dom) (auto simp: bt_get_def)
  qed
qed (simp add: bt_first_gt_def)

lemma bt_first_gt_None:
  "bt_first_gt k m = None \<longleftrightarrow> (\<forall>c \<in> dom (bt_get m). c \<le> k)"
  by (auto simp: bt_first_gt_def bt_get_dom find_None_iff not_less)

lemma bt_first_Some:
  assumes "bt_ok m" and "bt_first m = Some (a, b)"
  shows "bt_get m a = Some b \<and> (\<forall>c \<in> dom (bt_get m). a \<le> c)"
  using assms by (cases m) (auto simp: bt_first_def bt_get_dom, auto simp: bt_get_def)

lemma bt_first_None: "bt_first m = None \<longleftrightarrow> dom (bt_get m) = {}"
  by (cases m) (auto simp: bt_first_def bt_get_dom)

lemma bt_get_Nil_iff: "dom (bt_get m) = {} \<longleftrightarrow> m = []"
  by (cases m) (auto simp: bt_get_dom)

lemma length_bt_remove:
  "bt_get m k \<noteq> None \<Longrightarrow> length (bt_remove k m) < length m"
  by (induction k m rule: bt_remove.induct) (auto simp: bt_get_def split: if_splits)

text \<open>
  The laws a client of \<open>BTreeMap\<close> relies on.  Two derived facts that every cursor proof needs are
  proved once here: a query that starts at a stored key finds that key, and a query that finds
  nothing at or above a key leaves only smaller keys.
\<close>

locale ordered_map =
  fixes ok :: "'m \<Rightarrow> bool"
    and get :: "'m \<Rightarrow> 'k::linorder \<Rightarrow> 'v option"
    and ins :: "'k \<Rightarrow> 'v \<Rightarrow> 'm \<Rightarrow> 'm"
    and rem :: "'k \<Rightarrow> 'm \<Rightarrow> 'm"
    and first_ge :: "'k \<Rightarrow> 'm \<Rightarrow> ('k \<times> 'v) option"
    and first :: "'m \<Rightarrow> ('k \<times> 'v) option"
  assumes ok_ins: "ok m \<Longrightarrow> ok (ins k v m)"
    and ok_rem: "ok m \<Longrightarrow> ok (rem k m)"
    and get_ins: "ok m \<Longrightarrow> get (ins k v m) = (get m)(k \<mapsto> v)"
    and get_rem: "ok m \<Longrightarrow> get (rem k m) = (get m)(k := None)"
    and first_ge_Some: "ok m \<Longrightarrow> first_ge k m = Some (a, b) \<Longrightarrow>
          k \<le> a \<and> get m a = Some b \<and> (\<forall>c \<in> dom (get m). k \<le> c \<longrightarrow> a \<le> c)"
    and first_ge_None: "first_ge k m = None \<longleftrightarrow> (\<forall>c \<in> dom (get m). c < k)"
    and first_Some: "ok m \<Longrightarrow> first m = Some (a, b) \<Longrightarrow>
          get m a = Some b \<and> (\<forall>c \<in> dom (get m). a \<le> c)"
    and first_None: "first m = None \<longleftrightarrow> dom (get m) = {}"
begin

lemma first_ge_stored:
  assumes "ok m" and "get m k = Some v"
  shows "first_ge k m = Some (k, v)"
proof (cases "first_ge k m")
  case None
  with assms(2) show ?thesis by (auto simp: first_ge_None)
next
  case (Some p)
  obtain a b where p: "p = (a, b)" by (cases p)
  from first_ge_Some [OF assms(1) Some [unfolded p]] assms(2) have "a = k" and "b = v"
    by (auto intro: antisym)
  with Some p show ?thesis by simp
qed

lemma first_ge_found:
  "ok m \<Longrightarrow> first_ge k m = Some (a, b) \<Longrightarrow> get m a = Some b"
  using first_ge_Some by blast

lemma first_found:
  "ok m \<Longrightarrow> first m = Some (a, b) \<Longrightarrow> get m a = Some b"
  using first_Some by blast

lemma wrap_found:
  assumes "ok m"
    and "(case first_ge k m of None \<Rightarrow> first m | Some x \<Rightarrow> Some x) = Some (a, b)"
  shows "get m a = Some b"
  using assms by (auto split: option.splits dest: first_ge_found first_found)

lemma wrap_none:
  "(case first_ge k m of None \<Rightarrow> first m | Some x \<Rightarrow> Some x) = None \<longleftrightarrow> dom (get m) = {}"
  using first_ge_None [of k m] by (cases "first_ge k m") (auto simp: first_None)

end

interpretation bt: ordered_map bt_ok bt_get bt_insert bt_remove bt_first_ge bt_first
  by unfold_locales
    (simp_all add: bt_ok_insert bt_ok_remove bt_get_insert bt_get_remove bt_first_ge_Some
      bt_first_ge_None bt_first_Some bt_first_None)

lemmas [bt_simps] = bt_ok_insert bt_ok_remove bt_get_insert bt_get_remove

end
