(* ===== verification/Byte_Text.thy ===== *)
theory Byte_Text
  imports Clipper_Prelude
begin

text \<open>
  Textual renderings of bytes: the display adapters \<open>Hex\<close> and \<open>Show\<close> of \<open>crates/misc/src/lib.rs\<close>
  and the \<open>HexDumper\<close> of \<open>crates/hexdump/src/lib.rs\<close>.  All output of these formatters is ASCII, so
  text is modelled as the list of bytes that is written.
\<close>

section \<open>Formatting primitives of the standard library\<close>

definition hex_digit :: "nat \<Rightarrow> u8" where
  "hex_digit n = (if n < 10 then word_of_nat (48 + n) else word_of_nat (87 + n))"

text \<open>The format \<open>{:02x}\<close> of a byte.\<close>

definition fmt_02x :: "u8 \<Rightarrow> bytes" where
  "fmt_02x b = [hex_digit (unat b div 16), hex_digit (unat b mod 16)]"

fun fmt_x :: "nat \<Rightarrow> bytes" where
  "fmt_x n = (if n < 16 then [hex_digit n] else fmt_x (n div 16) @ [hex_digit (n mod 16)])"

declare fmt_x.simps [simp del]

text \<open>The format \<open>{:04x}\<close> of a \<open>usize\<close>: zero padded to a width of at least four.\<close>

definition fmt_04x :: "nat \<Rightarrow> bytes" where
  "fmt_04x n = replicate (4 - length (fmt_x n)) 48 @ fmt_x n"

text \<open>\<open>slice::chunks\<close>.\<close>

fun chunks :: "nat \<Rightarrow> 'a list \<Rightarrow> 'a list list" where
  "chunks n xs = (if n = 0 \<or> xs = [] then [] else take n xs # chunks n (drop n xs))"

declare chunks.simps [simp del]

lemma chunks_Nil [simp]: "chunks n [] = []"
  by (simp add: chunks.simps)

lemma concat_chunks: "0 < n \<Longrightarrow> concat (chunks n xs) = xs"
proof (induction n xs rule: chunks.induct)
  case (1 n xs)
  then show ?case by (cases "xs = []") (simp_all add: chunks.simps [of n xs])
qed

lemma chunks_lengths:
  "0 < n \<Longrightarrow> c \<in> set (chunks n xs) \<Longrightarrow> 0 < length c \<and> length c \<le> n"
proof (induction n xs rule: chunks.induct)
  case (1 n xs)
  then show ?case by (auto simp: chunks.simps [of n xs] split: if_splits)
qed

lemma length_chunks: "0 < n \<Longrightarrow> length (chunks n xs) = (length xs + n - 1) div n"
proof (induction n xs rule: chunks.induct)
  case (1 n xs)
  show ?case
  proof (cases "xs = []")
    case True
    with 1 show ?thesis by (simp add: div_less)
  next
    case False
    with 1 have "length (chunks n xs) = Suc ((length xs - n + n - 1) div n)"
      by (simp add: chunks.simps [of n xs])
    also have "\<dots> = (length xs + n - 1) div n"
    proof (cases "n \<le> length xs")
      case True
      then have e: "length xs + n - 1 = n + (length xs - n + n - 1)"
        using 1 by simp
      have "Suc (k div n) = (n + k) div n" for k using 1 by (simp add: div_add_self1)
      with e show ?thesis by simp
    next
      case False
      with 1 \<open>xs \<noteq> []\<close> have "(length xs + n - 1) div n = 1"
        by (intro div_nat_eqI) (cases xs, auto)
      with False 1 show ?thesis by (simp add: div_less)
    qed
    finally show ?thesis .
  qed
qed

section \<open>The adapters \<open>Hex\<close> and \<open>Show\<close>\<close>

definition Hex :: "bytes \<Rightarrow> bytes" where
  "Hex bs = concat (map fmt_02x bs)"

text \<open>\<open>std::ascii::escape_default\<close>.\<close>

definition escape_default :: "u8 \<Rightarrow> bytes" where
  "escape_default ch =
     (if ch = 9 then [92, 116]
      else if ch = 13 then [92, 114]
      else if ch = 10 then [92, 110]
      else if ch = 39 then [92, 39]
      else if ch = 34 then [92, 34]
      else if ch = 92 then [92, 92]
      else if 32 \<le> ch \<and> ch \<le> 126 then [ch]
      else [92, 120] @ fmt_02x ch)"

definition Show :: "bytes \<Rightarrow> bytes" where
  "Show bs = [34] @ concat (map escape_default bs) @ [34]"

section \<open>The hex dumper\<close>

definition is_ascii_punctuation :: "u8 \<Rightarrow> bool" where
  "is_ascii_punctuation c \<longleftrightarrow>
     33 \<le> c \<and> c \<le> 47 \<or> 58 \<le> c \<and> c \<le> 64 \<or> 91 \<le> c \<and> c \<le> 96 \<or> 123 \<le> c \<and> c \<le> 126"

definition is_ascii_alphanumeric :: "u8 \<Rightarrow> bool" where
  "is_ascii_alphanumeric c \<longleftrightarrow>
     48 \<le> c \<and> c \<le> 57 \<or> 65 \<le> c \<and> c \<le> 90 \<or> 97 \<le> c \<and> c \<le> 122"

text \<open>
  The \<open>while let Some(group) = it.next()\<close> loop over the two-byte groups of a line: the text written
  and the remaining padding.  \<open>it.peek().is_some()\<close> asks whether a further group follows.
\<close>

fun dump_groups :: "bytes list \<Rightarrow> int \<Rightarrow> bytes \<times> int" where
  "dump_groups [] pad = ([], pad)"
| "dump_groups (g # gs) pad =
     (let out = concat (map fmt_02x g);
          pad = pad - 2 * int (length g);
          sep = (if gs \<noteq> [] then [32] else []);
          pad = (if gs \<noteq> [] then pad - 1 else pad);
          (rest, pad) = dump_groups gs pad
      in (out @ sep @ rest, pad))"

definition dump_char :: "u8 \<Rightarrow> u8" where
  "dump_char c = (if is_ascii_punctuation c \<or> is_ascii_alphanumeric c then c else 46)"

definition hex_column :: "bytes \<Rightarrow> bytes" where
  "hex_column line =
     (let (out, pad) = dump_groups (chunks 2 line) 42 in out @ replicate (nat pad) 32)"

definition dump_line :: "nat \<Rightarrow> bytes \<Rightarrow> bytes" where
  "dump_line pos line = fmt_04x pos @ [58, 32] @ hex_column line @ map dump_char line @ [10]"

fun dump_lines :: "nat \<Rightarrow> bytes list \<Rightarrow> bytes" where
  "dump_lines pos [] = []"
| "dump_lines pos (line # rest) = dump_line pos line @ dump_lines (pos + 16) rest"

definition HexDumper :: "bytes \<Rightarrow> bytes" where
  "HexDumper bs = dump_lines 0 (chunks 16 bs)"

lemma length_fmt_02x [simp]: "length (fmt_02x b) = 2"
  by (simp add: fmt_02x_def)

lemma length_Hex [simp]: "length (Hex bs) = 2 * length bs"
  by (induction bs) (simp_all add: Hex_def)

lemma Hex_Nil [simp]: "Hex [] = []"
  by (simp add: Hex_def)

lemma Hex_Cons [simp]: "Hex (b # bs) = fmt_02x b @ Hex bs"
  by (simp add: Hex_def)

text \<open>Every group costs the padding exactly what it writes.\<close>

lemma length_concat_fmt_02x [simp]: "length (concat (map fmt_02x g)) = 2 * length g"
  by (induction g) simp_all

lemma dump_groups_length: "int (length (fst (dump_groups gs pad))) + snd (dump_groups gs pad) = pad"
proof (induction gs arbitrary: pad)
  case (Cons g gs)
  show ?case
  proof (cases "gs = []")
    case False
    have "int (length (fst (dump_groups gs (pad - 2 * int (length g) - 1)))) +
        snd (dump_groups gs (pad - 2 * int (length g) - 1)) = pad - 2 * int (length g) - 1"
      by (rule Cons.IH)
    with False show ?thesis
      by (cases "dump_groups gs (pad - 2 * int (length g) - 1)") (simp add: Let_def)
  qed simp
qed simp

lemma dump_groups_pad:
  "snd (dump_groups gs pad) = pad - 2 * int (length (concat gs)) - int (length gs - 1)"
proof (induction gs arbitrary: pad)
  case (Cons g gs)
  show ?case
  proof (cases "gs = []")
    case False
    then have "snd (dump_groups (g # gs) pad) = snd (dump_groups gs (pad - 2 * int (length g) - 1))"
      by (simp add: Let_def split: prod.splits)
    also have "\<dots> = pad - 2 * int (length g) - 1 - 2 * int (length (concat gs)) - int (length gs - 1)"
      by (rule Cons.IH)
    finally show ?thesis using False by (cases gs) simp_all
  qed simp
qed simp

lemma length_hex_column:
  assumes "length line \<le> 16"
  shows "length (hex_column line) = 42"
proof -
  let ?d = "dump_groups (chunks 2 line) 42"
  have "snd ?d = 42 - 2 * int (length line) - int ((length line + 1) div 2 - 1)"
    by (simp add: dump_groups_pad concat_chunks length_chunks)
  with assms have "0 \<le> snd ?d" by linarith
  with dump_groups_length [of "chunks 2 line" 42] show ?thesis
    by (cases ?d) (simp add: hex_column_def)
qed

lemma unat_hex_digit:
  assumes "k < 16"
  shows "unat (hex_digit k) = (if k < 10 then 48 + k else 87 + k)"
proof -
  have "unat (word_of_nat m :: u8) = m" if "m < 256" for m
    using that by (simp add: unat_of_nat)
  with assms show ?thesis by (simp add: hex_digit_def del: of_nat_add)
qed

lemma hex_digit_inj:
  assumes "m < 16" "n < 16" "hex_digit m = hex_digit n"
  shows "m = n"
proof -
  from assms(3) have "unat (hex_digit m) = unat (hex_digit n)" by simp
  with assms(1,2) show ?thesis by (auto simp: unat_hex_digit split: if_splits)
qed

lemma u8_high_nibble: "unat (x :: u8) div 16 < 16"
  proof -
  have "unat x < 2 ^ LENGTH(8)" by (rule unsigned_less)
  then show ?thesis by (simp add: less_mult_imp_div_less)
qed

lemma fmt_02x_inj: "fmt_02x a = fmt_02x b \<Longrightarrow> a = b"
proof -
  assume "fmt_02x a = fmt_02x b"
  then have "hex_digit (unat a div 16) = hex_digit (unat b div 16)"
    and "hex_digit (unat a mod 16) = hex_digit (unat b mod 16)"
    by (simp_all add: fmt_02x_def)
  moreover have "unat x div 16 < 16" for x :: u8
    by (rule u8_high_nibble)
  ultimately have "unat a div 16 = unat b div 16" "unat a mod 16 = unat b mod 16"
    using hex_digit_inj by (auto)
  then show "a = b" by (metis div_mod_decomp word_unat_eq_iff)
qed

lemma Hex_inj: "Hex xs = Hex ys \<Longrightarrow> xs = ys"
proof (induction xs arbitrary: ys)
  case Nil
  then show ?case by (cases ys) (auto simp: fmt_02x_def)
next
  case (Cons x xs)
  then obtain y zs where ys: "ys = y # zs" by (cases ys) (auto simp: fmt_02x_def)
  with Cons.prems have "fmt_02x x = fmt_02x y" "Hex xs = Hex zs"
    by (auto simp: append_eq_append_conv)
  with ys Cons.IH show ?case by (auto dest: fmt_02x_inj)
qed

text \<open>Hex text consists of hex digits, so it never contains a separator of the key log format.\<close>

lemma hex_digit_range: "n < 16 \<Longrightarrow> 48 \<le> unat (hex_digit n) \<and> unat (hex_digit n) \<le> 102"
  by (simp add: unat_hex_digit)

lemma fmt_02x_range: "c \<in> set (fmt_02x b) \<Longrightarrow> 48 \<le> unat c \<and> unat c \<le> 102"
proof -
  have "unat b div 16 < 16" by (rule u8_high_nibble)
  then show "c \<in> set (fmt_02x b) \<Longrightarrow> 48 \<le> unat c \<and> unat c \<le> 102"
    using hex_digit_range [of "unat b div 16"] hex_digit_range [of "unat b mod 16"]
    by (auto simp: fmt_02x_def)
qed

lemma Hex_range: "c \<in> set (Hex bs) \<Longrightarrow> 48 \<le> unat c \<and> unat c \<le> 102"
  unfolding Hex_def using fmt_02x_range by (auto)

end
