(* ===== verification/Key_Db.thy ===== *)
theory Key_Db
  imports Byte_Text "HOL-Library.Sublist"
begin

text \<open>
  The key database of \<open>crates/net_decode/src/key_db.rs\<close>: secrets indexed by client random, filled
  from the lines of an SSLKEYLOGFILE and written back as one.

  \<open>hex::decode\<close> belongs to a third-party crate and is the parameter \<open>hex_decode\<close> of the loading
  operations.  The iteration order of the \<open>HashMap\<close> behind \<open>to_key_log\<close> is not specified, so it is
  the parameter \<open>order\<close>, a list of the stored client randoms.
\<close>

section \<open>Types\<close>

datatype ClientRandom = ClientRandom bytes

datatype Secret = Secret bytes

datatype SecretType =
    Tls12ClientMasterSecret
  | ClientEarlyTrafficSecret
  | ClientHandshakeTrafficSecret
  | ServerHandshakeTrafficSecret
  | ServerTrafficSecret0
  | ClientTrafficSecret0
  | ExporterSecret

fun fmt_ClientRandom :: "ClientRandom \<Rightarrow> bytes" where
  "fmt_ClientRandom (ClientRandom bs) = Hex bs"

fun fmt_Secret :: "Secret \<Rightarrow> bytes" where
  "fmt_Secret (Secret bs) = Hex bs"

definition try_from :: "bytes \<Rightarrow> SecretType option" where
  "try_from v =
     (if v = ascii ''CLIENT_RANDOM'' then Some Tls12ClientMasterSecret
      else if v = ascii ''CLIENT_EARLY_TRAFFIC_SECRET'' then Some ClientEarlyTrafficSecret
      else if v = ascii ''CLIENT_HANDSHAKE_TRAFFIC_SECRET'' then Some ClientHandshakeTrafficSecret
      else if v = ascii ''SERVER_HANDSHAKE_TRAFFIC_SECRET'' then Some ServerHandshakeTrafficSecret
      else if v = ascii ''CLIENT_TRAFFIC_SECRET_0'' then Some ClientTrafficSecret0
      else if v = ascii ''SERVER_TRAFFIC_SECRET_0'' then Some ServerTrafficSecret0
      else if v = ascii ''EXPORTER_SECRET'' then Some ExporterSecret
      else None)"

fun fmt_SecretType :: "SecretType \<Rightarrow> bytes" where
  "fmt_SecretType Tls12ClientMasterSecret = ascii ''CLIENT_RANDOM''"
| "fmt_SecretType ClientEarlyTrafficSecret = ascii ''CLIENT_EARLY_TRAFFIC_SECRET''"
| "fmt_SecretType ClientHandshakeTrafficSecret = ascii ''CLIENT_HANDSHAKE_TRAFFIC_SECRET''"
| "fmt_SecretType ServerHandshakeTrafficSecret = ascii ''SERVER_HANDSHAKE_TRAFFIC_SECRET''"
| "fmt_SecretType ClientTrafficSecret0 = ascii ''CLIENT_TRAFFIC_SECRET_0''"
| "fmt_SecretType ServerTrafficSecret0 = ascii ''SERVER_TRAFFIC_SECRET_0''"
| "fmt_SecretType ExporterSecret = ascii ''EXPORTER_SECRET''"

record ConnectionKeys =
  ck_keys :: "(SecretType \<times> Secret) list"

record KeyDB =
  kd_keys :: "ClientRandom \<rightharpoonup> ConnectionKeys"

definition KeyDB_default :: KeyDB where
  "KeyDB_default = \<lparr>kd_keys = Map.empty\<rparr>"

section \<open>Operations\<close>

text \<open>\<open>Iterator::find_map\<close> and \<open>slice::split\<close>.\<close>

fun find_map :: "('a \<Rightarrow> 'b option) \<Rightarrow> 'a list \<Rightarrow> 'b option" where
  "find_map f [] = None"
| "find_map f (x # xs) = (case f x of Some y \<Rightarrow> Some y | None \<Rightarrow> find_map f xs)"

fun split_on :: "'a \<Rightarrow> 'a list \<Rightarrow> 'a list list" where
  "split_on c [] = [[]]"
| "split_on c (x # xs) =
     (if x = c then [] # split_on c xs
      else (case split_on c xs of [] \<Rightarrow> [[x]] | y # ys \<Rightarrow> (x # y) # ys))"

definition lookup_secret :: "KeyDB \<Rightarrow> ClientRandom \<Rightarrow> SecretType \<Rightarrow> Secret option" where
  "lookup_secret db client_random typ =
     Option.bind (kd_keys db client_random)
       (\<lambda>sess. find_map (\<lambda>(t, k). if t = typ then Some k else None) (ck_keys sess))"

definition on_secret :: "ClientRandom \<Rightarrow> SecretType \<Rightarrow> Secret \<Rightarrow> KeyDB \<Rightarrow> KeyDB" where
  "on_secret client_random secret_type secret db =
     db\<lparr>kd_keys := (kd_keys db)(client_random \<mapsto>
       (case kd_keys db client_random of
          Some e \<Rightarrow> e\<lparr>ck_keys := ck_keys e @ [(secret_type, secret)]\<rparr>
        | None \<Rightarrow> \<lparr>ck_keys = [(secret_type, secret)]\<rparr>))\<rparr>"

definition do_line :: "(bytes \<Rightarrow> bytes option) \<Rightarrow> bytes \<Rightarrow> (SecretType \<times> bytes \<times> bytes) option" where
  "do_line hex_decode line =
     (if prefix [35] line then None
      else case split_on 32 line of
          [ty, client_random, secret] \<Rightarrow>
            Option.bind (try_from ty) (\<lambda>ty.
            Option.bind (hex_decode client_random) (\<lambda>client_random.
            Option.bind (hex_decode secret) (\<lambda>secret. Some (ty, client_random, secret))))
        | _ \<Rightarrow> None)"

text \<open>
  The loop of \<open>load_key_log\<close> over the lines.  The second component is the sequence of calls of the
  \<open>on_secret\<close> callback.
\<close>

fun load_lines ::
  "(bytes \<Rightarrow> bytes option) \<Rightarrow> bytes list \<Rightarrow> KeyDB \<Rightarrow>
   KeyDB \<times> (ClientRandom \<times> SecretType \<times> Secret) list" where
  "load_lines hex_decode [] db = (db, [])"
| "load_lines hex_decode (line # rest) db =
     (case do_line hex_decode line of
        Some (ty, client_random, secret) \<Rightarrow>
          (let db = on_secret (ClientRandom client_random) ty (Secret secret) db;
               (db, calls) = load_lines hex_decode rest db
           in (db, (ClientRandom client_random, ty, Secret secret) # calls))
      | None \<Rightarrow> load_lines hex_decode rest db)"

definition load_key_log ::
  "(bytes \<Rightarrow> bytes option) \<Rightarrow> bytes \<Rightarrow> KeyDB \<Rightarrow>
   KeyDB \<times> (ClientRandom \<times> SecretType \<times> Secret) list" where
  "load_key_log hex_decode key_log db = load_lines hex_decode (split_on 10 key_log) db"

definition log_line :: "ClientRandom \<Rightarrow> SecretType \<times> Secret \<Rightarrow> bytes" where
  "log_line random = (\<lambda>(ty, secret).
     fmt_SecretType ty @ [32] @ fmt_ClientRandom random @ [32] @ fmt_Secret secret @ [10])"

definition to_key_log :: "ClientRandom list \<Rightarrow> KeyDB \<Rightarrow> bytes" where
  "to_key_log order db =
     concat (map (\<lambda>random.
       (case kd_keys db random of
          Some secrets \<Rightarrow> concat (map (log_line random) (ck_keys secrets))
        | None \<Rightarrow> [])) order)"

section \<open>Splitting\<close>

lemma split_on_not_Nil [simp]: "split_on c xs \<noteq> []"
  by (induction xs) (auto split: list.splits)

lemma split_on_absent: "c \<notin> set xs \<Longrightarrow> split_on c xs = [xs]"
  by (induction xs) auto

lemma split_on_append:
  "c \<notin> set xs \<Longrightarrow> split_on c (xs @ c # ys) = xs # split_on c ys"
  by (induction xs) auto

lemma split_on_join: "split_on c (xs @ c # ys) = split_on c xs @ split_on c ys"
  by (induction xs) (auto split: list.splits)

section \<open>Secret types\<close>

lemma ascii_map: "ascii s = map (\<lambda>c. word_of_nat (of_char c)) s"
  by (simp add: ascii_def)

lemma try_from_fmt [simp]: "try_from (fmt_SecretType t) = Some t"
  by (cases t) (simp_all add: try_from_def ascii_def)

lemma fmt_of_try_from: "try_from v = Some t \<Longrightarrow> v = fmt_SecretType t"
  by (auto simp: try_from_def split: if_splits)

lemma fmt_SecretType_no_separator:
  "32 \<notin> set (fmt_SecretType t)" "10 \<notin> set (fmt_SecretType t)"
  by (cases t; simp add: ascii_def)+

lemma fmt_SecretType_head: "\<exists>c cs. fmt_SecretType t = c # cs \<and> c \<noteq> 35"
  by (cases t) (simp_all add: ascii_def)

lemma Hex_no_separator [simp]: "32 \<notin> set (Hex bs)" "10 \<notin> set (Hex bs)"
  using Hex_range by fastforce+

section \<open>Loading\<close>

lemma load_lines_append:
  "load_lines hx (xs @ ys) db =
     (let (db1, c1) = load_lines hx xs db; (db2, c2) = load_lines hx ys db1 in (db2, c1 @ c2))"
  by (induction xs arbitrary: db) (auto simp: Let_def split: option.splits prod.splits)

text \<open>The database after a load is the one obtained by replaying the callback's calls.\<close>

lemma load_lines_calls:
  "load_lines hx xs db = (db', calls) \<Longrightarrow>
   db' = fold (\<lambda>(cr, ty, s). on_secret cr ty s) calls db"
  by (induction xs arbitrary: db db' calls)
    (auto simp: Let_def split: option.splits prod.splits)

lemma kd_keys_on_secret:
  "kd_keys (on_secret cr ty s db) cr' =
     (if cr' = cr then
        Some \<lparr>ck_keys = (case kd_keys db cr of Some e \<Rightarrow> ck_keys e | None \<Rightarrow> []) @ [(ty, s)]\<rparr>
      else kd_keys db cr')"
  by (auto simp: on_secret_def split: option.splits)

lemma find_map_append:
  "find_map f (xs @ ys) = (case find_map f xs of Some y \<Rightarrow> Some y | None \<Rightarrow> find_map f ys)"
  by (induction xs) (auto split: option.splits)

lemma lookup_secret_on_secret:
  "lookup_secret (on_secret cr ty s db) cr' ty' =
     (case lookup_secret db cr' ty' of
        Some k \<Rightarrow> Some k
      | None \<Rightarrow> if cr' = cr \<and> ty' = ty then Some s else None)"
  by (auto simp: lookup_secret_def kd_keys_on_secret find_map_append split: option.splits)

lemma lookup_secret_default [simp]: "lookup_secret KeyDB_default cr ty = None"
  by (simp add: lookup_secret_def KeyDB_default_def)

text \<open>A database as \<open>on_secret\<close> builds it: no client random has an empty list of secrets.\<close>

definition db_ok :: "KeyDB \<Rightarrow> bool" where
  "db_ok db \<longleftrightarrow> (\<forall>cr e. kd_keys db cr = Some e \<longrightarrow> ck_keys e \<noteq> [])"

lemma db_ok_default: "db_ok KeyDB_default"
  by (simp add: db_ok_def KeyDB_default_def)

lemma db_ok_on_secret: "db_ok db \<Longrightarrow> db_ok (on_secret cr ty s db)"
  by (auto simp: db_ok_def kd_keys_on_secret)

lemma db_ok_load_lines: "db_ok db \<Longrightarrow> db_ok (fst (load_lines hx xs db))"
  by (induction xs arbitrary: db)
    (auto simp: Let_def db_ok_on_secret split: option.splits prod.splits, metis db_ok_on_secret fst_conv)

section \<open>Writing and reading back\<close>

lemma do_line_log_line:
  assumes "\<And>bs. hex_decode (Hex bs) = Some bs"
  shows "do_line hex_decode
           (fmt_SecretType ty @ 32 # fmt_ClientRandom (ClientRandom cr) @ 32 # fmt_Secret (Secret s)) =
         Some (ty, cr, s)"
proof -
  obtain c cs where hd: "fmt_SecretType ty = c # cs" "c \<noteq> 35"
    using fmt_SecretType_head by blast
  have "split_on 32 (fmt_SecretType ty @ 32 # Hex cr @ 32 # Hex s) = [fmt_SecretType ty, Hex cr, Hex s]"
    by (simp add: split_on_append split_on_absent fmt_SecretType_no_separator)
  moreover have "\<not> prefix [35] (fmt_SecretType ty @ 32 # Hex cr @ 32 # Hex s)"
    using hd by simp
  ultimately show ?thesis using assms by (simp add: do_line_def)
qed

definition add_all :: "ClientRandom \<Rightarrow> (SecretType \<times> Secret) list \<Rightarrow> KeyDB \<Rightarrow> KeyDB" where
  "add_all cr kss db = fold (\<lambda>(ty, s). on_secret cr ty s) kss db"

lemma load_log_lines:
  assumes "\<And>bs. hex_decode (Hex bs) = Some bs"
  shows "fst (load_lines hex_decode (split_on 10 (concat (map (log_line cr) kss) @ rest)) db) =
         fst (load_lines hex_decode (split_on 10 rest) (add_all cr kss db))"
proof (induction kss arbitrary: db)
  case (Cons k kss)
  obtain ty s where k: "k = (ty, Secret s)" by (metis Secret.exhaust surj_pair)
  obtain r where cr: "cr = ClientRandom r" by (cases cr)
  let ?line = "fmt_SecretType ty @ 32 # fmt_ClientRandom cr @ 32 # fmt_Secret (Secret s)"
  have no_nl: "10 \<notin> set ?line"
    by (simp add: cr fmt_SecretType_no_separator)
  have "split_on 10 (concat (map (log_line cr) (k # kss)) @ rest) =
      split_on 10 (?line @ 10 # (concat (map (log_line cr) kss) @ rest))"
    by (simp add: log_line_def k)
  also have "\<dots> = ?line # split_on 10 (concat (map (log_line cr) kss) @ rest)"
    using no_nl by (rule split_on_append)
  finally show ?case
    using do_line_log_line [of hex_decode ty r s] assms Cons.IH
    by (simp add: cr k add_all_def Let_def split: prod.splits) (metis fst_conv)
qed (simp add: add_all_def)

lemma kd_keys_add_all:
  "kd_keys (add_all cr kss db) cr' =
     (if cr' = cr \<and> kss \<noteq> [] then
        Some \<lparr>ck_keys = (case kd_keys db cr of Some e \<Rightarrow> ck_keys e | None \<Rightarrow> []) @ kss\<rparr>
      else kd_keys db cr')"
  unfolding add_all_def
  by (induction kss arbitrary: db) (auto simp: kd_keys_on_secret split: option.splits prod.splits)

lemma load_to_key_log:
  assumes dec: "\<And>bs. hex_decode (Hex bs) = Some bs"
    and ok: "db_ok db" and "distinct order" and "set order \<subseteq> dom (kd_keys db)"
    and "\<forall>cr \<in> set order. kd_keys db0 cr = None"
  shows "kd_keys (fst (load_lines hex_decode (split_on 10 (to_key_log order db)) db0)) cr =
         (if cr \<in> set order then kd_keys db cr else kd_keys db0 cr)"
  using assms(3-)
proof (induction order arbitrary: db0)
  case Nil
  then show ?case by (simp add: to_key_log_def do_line_def)
next
  case (Cons r order)
  from Cons.prems obtain e where e: "kd_keys db r = Some e" by auto
  with ok have ne: "ck_keys e \<noteq> []" by (auto simp: db_ok_def)
  let ?db1 = "add_all r (ck_keys e) db0"
  have "fst (load_lines hex_decode (split_on 10 (to_key_log (r # order) db)) db0) =
      fst (load_lines hex_decode (split_on 10 (to_key_log order db)) ?db1)"
    using load_log_lines [OF dec] by (simp add: to_key_log_def e)
  moreover have "\<forall>cr \<in> set order. kd_keys ?db1 cr = None"
    using Cons.prems by (auto simp: kd_keys_add_all)
  ultimately have "kd_keys (fst (load_lines hex_decode (split_on 10 (to_key_log (r # order) db)) db0)) cr =
      (if cr \<in> set order then kd_keys db cr else kd_keys ?db1 cr)"
    using Cons by simp
  moreover have "kd_keys ?db1 r = kd_keys db r"
    using Cons.prems e ne by (simp add: kd_keys_add_all)
  moreover have "cr \<noteq> r \<Longrightarrow> kd_keys ?db1 cr = kd_keys db0 cr"
    by (simp add: kd_keys_add_all)
  ultimately show ?case by auto
qed

section \<open>What a key log guarantees\<close>

text \<open>
  C8. Writing a key database with \<open>to_key_log\<close> and loading the text into an empty database gives the
  database back, with the secrets of every connection in the same order, whatever order the hash
  map is iterated in.  The hex decoder is only assumed to invert the encoder.
\<close>

theorem key_log_round_trip:
  assumes "\<And>bs. hex_decode (Hex bs) = Some bs"
    and "db_ok db" and "distinct order" and "set order = dom (kd_keys db)"
  shows "fst (load_key_log hex_decode (to_key_log order db) KeyDB_default) = db"
proof -
  have "kd_keys (fst (load_key_log hex_decode (to_key_log order db) KeyDB_default)) = kd_keys db"
  proof
    fix cr
    show "kd_keys (fst (load_key_log hex_decode (to_key_log order db) KeyDB_default)) cr = kd_keys db cr"
      using load_to_key_log [OF assms(1-3), of KeyDB_default cr] assms(4)
      by (auto simp: load_key_log_def KeyDB_default_def)
  qed
  then show ?thesis by simp
qed

text \<open>A decoder of pairs of hex digits, as an instance of that assumption.\<close>

definition hex_value :: "u8 \<Rightarrow> nat option" where
  "hex_value c =
     (let n = unat c
      in if 48 \<le> n \<and> n \<le> 57 then Some (n - 48)
         else if 97 \<le> n \<and> n \<le> 102 then Some (n - 87)
         else if 65 \<le> n \<and> n \<le> 70 then Some (n - 55) else None)"

fun decode_pairs :: "bytes \<Rightarrow> bytes option" where
  "decode_pairs [] = Some []"
| "decode_pairs [c] = None"
| "decode_pairs (c # d # cs) =
     Option.bind (hex_value c) (\<lambda>h. Option.bind (hex_value d) (\<lambda>l.
     map_option (\<lambda>bs. word_of_nat (16 * h + l) # bs) (decode_pairs cs)))"

lemma hex_value_digit: "k < 16 \<Longrightarrow> hex_value (hex_digit k) = Some k"
  by (simp add: hex_value_def unat_hex_digit Let_def)

lemma decode_pairs_Hex [simp]: "decode_pairs (Hex bs) = Some bs"
proof (induction bs)
  case (Cons b bs)
  have "unat b div 16 < 16" by (rule u8_high_nibble)
  then have "decode_pairs (fmt_02x b @ Hex bs) =
      Some (word_of_nat (16 * (unat b div 16) + unat b mod 16) # bs)"
    using Cons by (simp add: fmt_02x_def hex_value_digit del: of_nat_add of_nat_mult)
  also have "16 * (unat b div 16) + unat b mod 16 = unat b" by simp
  finally show ?case by simp
qed simp

definition example_db :: KeyDB where
  "example_db =
     on_secret (ClientRandom [1]) ExporterSecret (Secret [2, 171])
       (on_secret (ClientRandom [1]) Tls12ClientMasterSecret (Secret [5])
         (on_secret (ClientRandom [3, 4]) ServerTrafficSecret0 (Secret []) KeyDB_default))"

theorem key_log_round_trip_witness:
  "fst (load_key_log decode_pairs (to_key_log [ClientRandom [3, 4], ClientRandom [1]] example_db) KeyDB_default) =
   example_db"
proof (rule key_log_round_trip)
  show "db_ok example_db" by (simp add: example_db_def db_ok_on_secret db_ok_default)
  show "set [ClientRandom [3, 4], ClientRandom [1]] = dom (kd_keys example_db)"
    by (auto simp: example_db_def on_secret_def KeyDB_default_def)
qed simp_all

lemma lookup_secret_load_lines:
  "lookup_secret (fst (load_lines hex_decode xs db)) cr ty =
     (case lookup_secret db cr ty of
        Some s \<Rightarrow> Some s
      | None \<Rightarrow> find_map (\<lambda>(cr', ty', s). if cr' = cr \<and> ty' = ty then Some s else None)
                  (snd (load_lines hex_decode xs db)))"
  by (induction xs arbitrary: db)
    (auto simp: Let_def case_prod_unfold lookup_secret_on_secret split: option.splits)

text \<open>
  C36. A secret once known is never replaced: loading any further key log keeps the answer of
  \<open>lookup_secret\<close>, and a secret unknown before is answered with the first one the callback reports
  for that connection and type.
\<close>

theorem lookup_secret_load:
  "lookup_secret (fst (load_key_log hex_decode key_log db)) cr ty =
     (case lookup_secret db cr ty of
        Some s \<Rightarrow> Some s
      | None \<Rightarrow> find_map (\<lambda>(cr', ty', s). if cr' = cr \<and> ty' = ty then Some s else None)
                  (snd (load_key_log hex_decode key_log db)))"
  unfolding load_key_log_def by (rule lookup_secret_load_lines)

text \<open>
  C37. A key log can be fed in pieces cut at line ends: loading two pieces one after the other leaves
  the same database and reports the same secrets, in the same order, as loading them at once.
\<close>

theorem load_key_log_pieces:
  "load_key_log hex_decode (first @ 10 # second) db =
     (let (db1, calls1) = load_key_log hex_decode first db;
          (db2, calls2) = load_key_log hex_decode second db1
      in (db2, calls1 @ calls2))"
  by (simp add: load_key_log_def split_on_join load_lines_append)

text \<open>A line that ends in a carriage return is not read, as the comment on the loop says.\<close>

theorem crlf_line_ignored:
  "load_key_log decode_pairs (ascii ''CLIENT_RANDOM 01 02'' @ [13, 10]) KeyDB_default = (KeyDB_default, [])"
  by (simp add: load_key_log_def do_line_def ascii_def try_from_def hex_value_def Let_def)

end
