(* ===== verification/Listener_Stack.thy ===== *)
theory Listener_Stack
  imports Key_Db
begin

text \<open>
  Flow identities (\<open>IPTarget\<close> of \<open>crates/net_decode/src/chomp.rs\<close>) and the messages that travel
  down the stack of listeners (\<open>crates/net_decode/src/listener.rs\<close>).

  A Rust listener owns the next listener and calls it.  No such call returns anything to its caller,
  so a listener is modelled as a step that returns its new state together with the calls it makes
  on the next listener, in order; \<open>feed\<close> runs a listener on such a sequence of calls, and the
  composition of two layers feeds the calls of the upper one to the lower one.  A panic anywhere
  ends the run, as it does in the program.

  The headers produced by the packet parser \<open>pktparse\<close> are records of the fields the sources read.
\<close>

section \<open>Packet headers and flow identities\<close>

type_synonym Ipv4Addr = u32
type_synonym Ipv6Addr = u128

datatype IPProtocol = IPProtocol_TCP | IPProtocol_Other u8

record IPv4Header =
  v4_source_addr :: Ipv4Addr
  v4_dest_addr :: Ipv4Addr
  v4_protocol :: IPProtocol

record IPv6Header =
  v6_source_addr :: Ipv6Addr
  v6_dest_addr :: Ipv6Addr
  v6_next_header :: IPProtocol

datatype IPHeader = IPHeader_V4 IPv4Header | IPHeader_V6 IPv6Header

fun proto :: "IPHeader \<Rightarrow> IPProtocol" where
  "proto (IPHeader_V4 v4) = v4_protocol v4"
| "proto (IPHeader_V6 v6) = v6_next_header v6"

record TcpHeader =
  source_port :: u16
  dest_port :: u16
  sequence_no :: u32
  ack_no :: u32
  flag_syn :: bool
  flag_ack :: bool
  flag_rst :: bool
  flag_fin :: bool

text \<open>Client port, server port, client address, server address.\<close>

datatype IPTarget =
    IPTarget_V4 u16 u16 Ipv4Addr Ipv4Addr
  | IPTarget_V6 u16 u16 Ipv6Addr Ipv6Addr

fun from_headers :: "IPHeader \<Rightarrow> TcpHeader \<Rightarrow> IPTarget" where
  "from_headers (IPHeader_V4 v4) tcp =
     IPTarget_V4 (source_port tcp) (dest_port tcp) (v4_source_addr v4) (v4_dest_addr v4)"
| "from_headers (IPHeader_V6 v6) tcp =
     IPTarget_V6 (source_port tcp) (dest_port tcp) (v6_source_addr v6) (v6_dest_addr v6)"

fun server_port :: "IPTarget \<Rightarrow> u16" where
  "server_port (IPTarget_V4 cp sp ci si) = sp"
| "server_port (IPTarget_V6 cp sp ci si) = sp"

fun flip :: "IPTarget \<Rightarrow> IPTarget" where
  "flip (IPTarget_V4 sport dport sip dip) = IPTarget_V4 dport sport dip sip"
| "flip (IPTarget_V6 sport dport sip dip) = IPTarget_V6 dport sport dip sip"

lemma flip_flip [simp]: "flip (flip t) = t"
  by (cases t) simp_all

lemma flip_eq_iff: "flip s = t \<longleftrightarrow> s = flip t"
  by auto

section \<open>Messages\<close>

text \<open>The types that index a \<open>TypeMap\<close> of timings; the sources use this one.\<close>

datatype TypeId = TlsConnectionStart

type_synonym Nanos = u64
type_synonym 'v TypeMap = "TypeId \<rightharpoonup> 'v"

definition typemap_get :: "TypeId \<Rightarrow> 'v TypeMap \<Rightarrow> 'v option" where
  "typemap_get t m = m t"

definition typemap_insert :: "TypeId \<Rightarrow> 'v \<Rightarrow> 'v TypeMap \<Rightarrow> 'v TypeMap" where
  "typemap_insert t v m = m(t \<mapsto> v)"

record TimingInfo =
  received_on_wire :: Nanos
  other_times :: "Nanos TypeMap"

datatype ProtocolName = ProtocolName bytes

text \<open>The two kinds of side data that the sources send.\<close>

datatype SideData =
    NewKeyReceived SecretType ClientRandom Secret
  | ALPNCompleted IPTarget "ProtocolName list"

record MessageMeta =
  mm_timing :: TimingInfo
  mm_target :: IPTarget
  mm_to_client :: bool

text \<open>One call of a listener: \<open>on_data\<close> with its four arguments, or \<open>on_side_data\<close>.\<close>

datatype 'm listener_call =
    OnData TimingInfo IPTarget bool 'm
  | OnSideData SideData

type_synonym ('s, 'm, 'n) listener = "'s \<Rightarrow> 'm listener_call \<Rightarrow> ('s \<times> 'n listener_call list) res"

section \<open>Running a listener on a sequence of calls\<close>

fun feed :: "('s, 'm, 'n) listener \<Rightarrow> 's \<Rightarrow> 'm listener_call list \<Rightarrow> ('s \<times> 'n listener_call list) res" where
  "feed l s [] = Inr (s, [])"
| "feed l s (c # cs) =
     res_bind (l s c) (\<lambda>(s, out).
     res_bind (feed l s cs) (\<lambda>(s, out'). Inr (s, out @ out')))"

lemma feed_append:
  "feed l s (xs @ ys) =
     res_bind (feed l s xs) (\<lambda>(s, out).
     res_bind (feed l s ys) (\<lambda>(s, out'). Inr (s, out @ out')))"
proof (induction xs arbitrary: s)
  case Nil
  show ?case by (cases "feed l s ys") auto
next
  case (Cons c xs)
  show ?case
  proof (cases "l s c")
    case (Inr p)
    obtain s1 o1 where p: "p = (s1, o1)" by (cases p)
    show ?thesis
    proof (cases "feed l s1 xs")
      case (Inr q)
      obtain s2 o2 where "q = (s2, o2)" by (cases q)
      with Inr \<open>l s c = Inr p\<close> p show ?thesis
        by (cases "feed l s2 ys") (auto simp: Cons.IH split: prod.splits)
    qed (simp add: \<open>l s c = Inr p\<close> p Cons.IH)
  qed simp
qed

text \<open>Two layers, the calls of the upper one fed to the lower one.\<close>

definition stack ::
  "('s, 'm, 'n) listener \<Rightarrow> ('t, 'n, 'o) listener \<Rightarrow> ('s \<times> 't, 'm, 'o) listener" where
  "stack upper lower = (\<lambda>(s, t) c.
     res_bind (upper s c) (\<lambda>(s, calls).
     res_bind (feed lower t calls) (\<lambda>(t, out). Inr ((s, t), out))))"

text \<open>
  The contract of a listener with an invariant on its state and a relation between the state before
  and after (what a step may only increase): both carry over from single calls to sequences.
\<close>

locale listener_contract =
  fixes step :: "('s, 'm, 'n) listener"
    and inv :: "'s \<Rightarrow> bool"
    and le :: "'s \<Rightarrow> 's \<Rightarrow> bool"
  assumes le_refl: "le s s"
    and le_trans: "le s t \<Longrightarrow> le t u \<Longrightarrow> le s u"
    and step_inv: "inv s \<Longrightarrow> step s c = Inr (s', out) \<Longrightarrow> inv s'"
    and step_le: "inv s \<Longrightarrow> step s c = Inr (s', out) \<Longrightarrow> le s s'"
begin

lemma feed_contract: "inv s \<Longrightarrow> feed step s cs = Inr (s', out) \<Longrightarrow> inv s' \<and> le s s'"
proof (induction cs arbitrary: s out)
  case Nil
  then show ?case by (auto intro: le_refl)
next
  case (Cons c cs)
  from Cons.prems obtain s1 o1 o2 where s1: "step s c = Inr (s1, o1)" and r: "feed step s1 cs = Inr (s', o2)"
    by (auto simp: res_simps split: prod.splits)
  from Cons.prems(1) s1 have "inv s1" and "le s s1" by (blast intro: step_inv step_le)+
  with Cons.IH [OF \<open>inv s1\<close> r] show ?case by (blast intro: le_trans)
qed

lemma feed_inv: "inv s \<Longrightarrow> feed step s cs = Inr (s', out) \<Longrightarrow> inv s'"
  using feed_contract by blast

lemma feed_le: "inv s \<Longrightarrow> feed step s cs = Inr (s', out) \<Longrightarrow> le s s'"
  using feed_contract by blast

end

end
