(* ===== verification/Tcp_Reassemble.thy ===== *)
theory Tcp_Reassemble
  imports Listener_Stack "HOL-Library.Multiset"
begin

text \<open>
  TCP reassembly (\<open>crates/net_decode/src/tcp_reassemble.rs\<close>): the wrapping cursor over an ordered map
  of segments, the reorder buffer, the passive TCP state machine and the follower that keeps one
  pair of sides per flow.

  Sequence numbers are 32-bit words, so every comparison and subtraction wraps exactly as
  \<open>Wrapping<u32>\<close> does; the plain \<open>u32\<close> comparisons of the state machine are unsigned word
  comparisons.  A callback is a function from the state it captures; the closure that the follower
  passes to the buffer captures the state machine of the receiving side and the listener.
\<close>

section \<open>The wrapping cursor\<close>

record ('k, 'v) WrappingCursor =
  wc_map :: "('k, 'v) btree"
  wc_pos :: "'k option"

definition cursor_new :: "('k, 'v) btree \<Rightarrow> 'k \<Rightarrow> ('k, 'v) WrappingCursor" where
  "cursor_new m start_at = \<lparr>wc_map = m, wc_pos = Some start_at\<rparr>"

definition peek_next_inner :: "('k::linorder, 'v) btree \<Rightarrow> 'k \<Rightarrow> ('k \<times> 'v) option" where
  "peek_next_inner m pos = (case bt_first_gt pos m of None \<Rightarrow> bt_first m | Some x \<Rightarrow> Some x)"

definition peek_inner :: "('k::linorder, 'v) btree \<Rightarrow> 'k \<Rightarrow> ('k \<times> 'v) option" where
  "peek_inner m pos = (case bt_first_ge pos m of None \<Rightarrow> bt_first m | Some x \<Rightarrow> Some x)"

definition peek :: "('k::linorder, 'v) WrappingCursor \<Rightarrow> ('k \<times> 'v) option" where
  "peek c = (case wc_pos c of None \<Rightarrow> None | Some pos \<Rightarrow> peek_inner (wc_map c) pos)"

definition peek_next :: "('k::linorder, 'v) WrappingCursor \<Rightarrow> ('k \<times> 'v) option" where
  "peek_next c = (case wc_pos c of None \<Rightarrow> None | Some pos \<Rightarrow> peek_next_inner (wc_map c) pos)"

definition cursor_remove ::
  "('k::linorder, 'v) WrappingCursor \<Rightarrow> ('k \<times> 'v) option \<times> ('k, 'v) WrappingCursor" where
  "cursor_remove c =
     (let next_k = map_option fst (peek_next c)
      in case wc_pos c of
           None \<Rightarrow> (None, c)
         | Some pos \<Rightarrow>
             (map_option (\<lambda>v. (pos, v)) (bt_get (wc_map c) pos),
              c\<lparr>wc_map := bt_remove pos (wc_map c), wc_pos := next_k\<rparr>))"

lemma cursor_remove_shrinks:
  "cursor_remove c = (Some x, c') \<Longrightarrow> length (wc_map c') < length (wc_map c)"
  by (auto simp: cursor_remove_def Let_def intro!: length_bt_remove split: option.splits)

section \<open>The reorder buffer\<close>

type_synonym SeqNum = u32

record 'h TcpReorderBuffer =
  rb_lowest :: SeqNum
  rb_reassemble :: "(SeqNum, 'h) btree"

definition rb_new :: "SeqNum \<Rightarrow> 'h TcpReorderBuffer" where
  "rb_new isn = \<lparr>rb_lowest = isn, rb_reassemble = []\<rparr>"

definition rb_default :: "'h TcpReorderBuffer" where
  "rb_default = \<lparr>rb_lowest = 0, rb_reassemble = []\<rparr>"

text \<open>
  The \<open>loop\<close> of \<open>ingest\<close>: as long as the cursor points at the lowest expected sequence number, take
  that segment out and hand it to the callback, which returns the next expected number.
\<close>

function export_loop ::
  "('s \<Rightarrow> 'h \<Rightarrow> ('s \<times> SeqNum) res) \<Rightarrow> (SeqNum, 'h) WrappingCursor \<Rightarrow> SeqNum \<Rightarrow> 's \<Rightarrow>
   ((SeqNum, 'h) WrappingCursor \<times> SeqNum \<times> 's) res" where
  "export_loop on_good_segment it lowest s =
     (case peek it of
        None \<Rightarrow> Inr (it, lowest, s)
      | Some (k, _) \<Rightarrow>
          if k = lowest then
            (case cursor_remove it of
               (None, it) \<Rightarrow> Inl UnwrapFailed
             | (Some (_, v), it) \<Rightarrow>
                 res_bind (on_good_segment s v)
                   (\<lambda>(s, lowest). export_loop on_good_segment it lowest s))
          else Inr (it, lowest, s))"
  by pat_completeness auto
termination
  by (relation "measure (\<lambda>(cb, it, lowest, s). length (wc_map it))")
    (auto dest!: sym [where t = "cursor_remove _"] intro: cursor_remove_shrinks)

declare export_loop.simps [simp del]

definition ingest ::
  "('h \<Rightarrow> SeqNum) \<Rightarrow> ('s \<Rightarrow> 'h \<Rightarrow> ('s \<times> SeqNum) res) \<Rightarrow> 'h \<Rightarrow> 'h TcpReorderBuffer \<Rightarrow> 's \<Rightarrow>
   ('h TcpReorderBuffer \<times> 's) res" where
  "ingest sequence_number on_good_segment data rb s =
     (let incoming_seqno = sequence_number data;
          m = bt_insert incoming_seqno data (rb_reassemble rb)
      in if incoming_seqno - rb_lowest rb < 4294967295 div 2 then
           res_bind (export_loop on_good_segment (cursor_new m (rb_lowest rb)) (rb_lowest rb) s)
             (\<lambda>(it, lowest, s). Inr (\<lparr>rb_lowest = lowest, rb_reassemble = wc_map it\<rparr>, s))
         else Inl AssertFailed)"

section \<open>The TCP state machine\<close>

datatype TCPState =
    Listen
  | SynSent
  | SynReceived
  | Established
  | FinWait1
  | FinWait2
  | CloseWait
  | Closing
  | LastAck
  | TimeWait
  | Closed

record TCPStateMachine =
  sm_state :: TCPState
  irs :: u32
  rcv_next :: u32
  iss :: u32
  send_next :: u32
  send_unack :: u32

definition TCPStateMachine_default :: TCPStateMachine where
  "TCPStateMachine_default =
     \<lparr>sm_state = Closed, irs = 0, rcv_next = 0, iss = 0, send_next = 0, send_unack = 0\<rparr>"

definition drive_state ::
  "TCPStateMachine \<Rightarrow> TcpHeader \<Rightarrow> (TCPStateMachine \<Rightarrow> 's \<Rightarrow> (TCPStateMachine \<times> 's) res) \<Rightarrow> 's \<Rightarrow>
   (TCPStateMachine \<times> 's) res" where
  "drive_state sm tcp process_data s =
     (case sm_state sm of
        Closed \<Rightarrow> Inr (sm, s)
      | Listen \<Rightarrow>
          if flag_rst tcp then Inr (sm, s)
          else if flag_ack tcp then Inr (sm, s)
          else if flag_syn tcp then
            Inr (sm\<lparr>rcv_next := sequence_no tcp + 1, irs := sequence_no tcp, sm_state := SynReceived\<rparr>, s)
          else Inr (sm, s)
      | SynSent \<Rightarrow>
          (let sm = sm\<lparr>iss := ack_no tcp - 1\<rparr>;
               sm = sm\<lparr>send_next := iss sm + 1\<rparr>;
               sm = sm\<lparr>send_unack := iss sm\<rparr>
           in if flag_ack tcp \<and> (ack_no tcp \<le> iss sm \<or> ack_no tcp > send_next sm) then Inr (sm, s)
              else if flag_rst tcp then Inr (sm, s)
              else if flag_syn tcp then
                (let sm = sm\<lparr>rcv_next := sequence_no tcp + 1, irs := sequence_no tcp\<rparr>;
                     sm = (if flag_ack tcp then sm\<lparr>send_unack := ack_no tcp\<rparr> else sm)
                 in if send_unack sm > iss sm then Inr (sm\<lparr>sm_state := Established\<rparr>, s)
                    else Inr (sm\<lparr>sm_state := SynReceived\<rparr>, s))
              else Inr (sm, s))
      | SynReceived \<Rightarrow>
          if flag_syn tcp then Inr (sm\<lparr>sm_state := Listen\<rparr>, s)
          else
            (let sm = sm\<lparr>iss := ack_no tcp - 1\<rparr>;
                 sm = sm\<lparr>send_next := iss sm + 1\<rparr>;
                 sm = sm\<lparr>send_unack := iss sm\<rparr>
             in if flag_ack tcp \<and> send_unack sm < ack_no tcp \<and> ack_no tcp \<le> send_next sm
                then Inr (sm\<lparr>sm_state := Established\<rparr>, s)
                else Inr (sm, s))
      | Established \<Rightarrow>
          (let sm = (if send_unack sm < ack_no tcp \<and> ack_no tcp \<le> send_next sm
                     then sm\<lparr>send_unack := ack_no tcp\<rparr> else sm)
           in res_bind (process_data sm s) (\<lambda>(sm, s).
                if flag_fin tcp then Inr (sm\<lparr>sm_state := Closed\<rparr>, s) else Inr (sm, s)))
      | _ \<Rightarrow> Inr (sm, s))"

section \<open>Flows\<close>

type_synonym Segment = "TcpHeader \<times> bytes"

definition sequence_number :: "Segment \<Rightarrow> SeqNum" where
  "sequence_number seg = sequence_no (fst seg)"

record TCPSide =
  side_state_machine :: TCPStateMachine
  side_reorder_buffer :: "Segment TcpReorderBuffer"

definition TCPSide_default :: TCPSide where
  "TCPSide_default =
     \<lparr>side_state_machine = TCPStateMachine_default, side_reorder_buffer = rb_default\<rparr>"

record TCPFlow =
  flow_client :: TCPSide
  flow_server :: TCPSide

record TcpFollower =
  flows :: "IPTarget \<rightharpoonup> TCPFlow"

definition TcpFollower_default :: TcpFollower where
  "TcpFollower_default = \<lparr>flows = Map.empty\<rparr>"

text \<open>The flow that \<open>record_flow\<close> inserts for a first packet of a connection.\<close>

definition initial_flow :: TCPFlow where
  "initial_flow =
     \<lparr>flow_client = TCPSide_default\<lparr>side_state_machine := TCPStateMachine_default\<lparr>sm_state := SynSent\<rparr>\<rparr>,
      flow_server = TCPSide_default\<lparr>side_state_machine := TCPStateMachine_default\<lparr>sm_state := Listen\<rparr>\<rparr>\<rparr>"

text \<open>The closure \<open>record_flow\<close> passes to the reorder buffer.\<close>

definition on_good_segment ::
  "TimingInfo \<Rightarrow> IPTarget \<Rightarrow> bool \<Rightarrow> TCPStateMachine \<times> bytes listener_call list \<Rightarrow> Segment \<Rightarrow>
   ((TCPStateMachine \<times> bytes listener_call list) \<times> SeqNum) res" where
  "on_good_segment timing entry_key received_by_client = (\<lambda>(sm, out) (header, bs).
     if length bs < 2 ^ 32 then
       (let new_rcv_next = sequence_no header + word_of_nat (length bs)
        in res_bind
             (drive_state sm header
               (\<lambda>sm out. Inr (sm, out @ [OnData timing entry_key received_by_client bs])) out)
             (\<lambda>(sm, out). Inr ((sm\<lparr>rcv_next := new_rcv_next\<rparr>, out), new_rcv_next)))
     else Inl UnwrapFailed)"

text \<open>What \<open>record_flow\<close> does to the side that receives the packet.\<close>

definition receive_side ::
  "TimingInfo \<Rightarrow> IPTarget \<Rightarrow> bool \<Rightarrow> TcpHeader \<Rightarrow> bytes \<Rightarrow> TCPSide \<Rightarrow>
   (TCPSide \<times> bytes listener_call list) res" where
  "receive_side timing entry_key received_by_client tcp data side =
     (let sm = side_state_machine side
      in if sm_state sm \<in> {Listen, SynSent, SynReceived} then
           res_bind
             (drive_state sm tcp (\<lambda>sm out. if length data = 0 then Inr (sm, out) else Inl AssertFailed) [])
             (\<lambda>(sm, out). Inr
               (side\<lparr>side_state_machine := sm,
                     side_reorder_buffer := (side_reorder_buffer side)\<lparr>rb_lowest := rcv_next sm\<rparr>\<rparr>, out))
         else
           res_bind
             (ingest sequence_number (on_good_segment timing entry_key received_by_client)
               (tcp, data) (side_reorder_buffer side) (sm, []))
             (\<lambda>(rb, sm, out). Inr
               (side\<lparr>side_state_machine := sm, side_reorder_buffer := rb\<rparr>, out)))"

definition record_flow ::
  "TimingInfo \<Rightarrow> IPTarget \<Rightarrow> TcpHeader \<Rightarrow> bytes \<Rightarrow> TcpFollower \<Rightarrow>
   (TcpFollower \<times> bytes listener_call list) res" where
  "record_flow timing target tcp data fol =
     (let received_by_client = (flows fol (flip target) \<noteq> None);
          entry_key = (if received_by_client then flip target else target)
      in if flows fol entry_key = None \<and> received_by_client then Inl UnreachableCode
         else if flows fol entry_key = None \<and> \<not> received_by_client \<and> (\<not> flag_syn tcp \<or> flag_ack tcp)
         then Inr (fol, [])
         else
           (let entry = (case flows fol entry_key of None \<Rightarrow> initial_flow | Some v \<Rightarrow> v);
                rx_side = (if received_by_client then flow_client entry else flow_server entry)
            in res_bind (receive_side timing entry_key received_by_client tcp data rx_side)
                 (\<lambda>(rx_side, out).
                   (let entry = (if received_by_client then entry\<lparr>flow_client := rx_side\<rparr>
                                 else entry\<lparr>flow_server := rx_side\<rparr>)
                    in Inr (fol\<lparr>flows := (flows fol)(entry_key \<mapsto> entry)\<rparr>, out)))))"

definition follower_chomp ::
  "(bytes \<Rightarrow> (bytes \<times> TcpHeader) option) \<Rightarrow> TimingInfo \<Rightarrow> IPHeader \<Rightarrow> bytes \<Rightarrow> TcpFollower \<Rightarrow>
   (TcpFollower \<times> bytes listener_call list) res" where
  "follower_chomp parse_tcp_header timing ip_header data fol =
     (case proto ip_header of
        IPProtocol_TCP \<Rightarrow>
          (case parse_tcp_header data of
             Some (remain, tcp) \<Rightarrow>
               record_flow timing (from_headers ip_header tcp) tcp remain fol
           | None \<Rightarrow> Inr (fol, []))
      | IPProtocol_Other p \<Rightarrow> Inr (fol, []))"

text \<open>A sequence of packets, each with its capture time and addressing.\<close>

fun record_flows ::
  "(TimingInfo \<times> IPTarget \<times> TcpHeader \<times> bytes) list \<Rightarrow> TcpFollower \<Rightarrow>
   (TcpFollower \<times> bytes listener_call list) res" where
  "record_flows [] fol = Inr (fol, [])"
| "record_flows ((timing, target, tcp, data) # ps) fol =
     res_bind (record_flow timing target tcp data fol) (\<lambda>(fol, out).
     res_bind (record_flows ps fol) (\<lambda>(fol, out'). Inr (fol, out @ out')))"

section \<open>The cursor\<close>

text \<open>
  Going round the map from a position, the next key is the one at the least wrapping distance.
\<close>

lemma peek_next_stored:
  "bt_ok m \<Longrightarrow> peek_next_inner m pos = Some (a, b) \<Longrightarrow> bt_get m a = Some b"
  by (auto simp: peek_next_inner_def dest: bt_first_gt_Some bt_first_Some split: option.splits)

lemma wrap_distance_below:
  "a \<le> c \<Longrightarrow> c < pos \<Longrightarrow> (a :: u32) \<noteq> pos \<and> a - pos \<le> c - pos"
  by (auto simp: word_le_nat_alt word_less_nat_alt unat_sub_if')

lemma wrap_distance_above:
  "pos < a \<Longrightarrow> pos < c \<longrightarrow> a \<le> c \<Longrightarrow> c \<noteq> pos \<Longrightarrow> (a :: u32) \<noteq> pos \<and> a - pos \<le> c - pos"
  using unsigned_less [of a, where 'a = nat]
  by (auto simp: word_le_nat_alt word_less_nat_alt unat_sub_if' word_unat_eq_iff)

lemma peek_next_nearest:
  fixes m :: "(u32, 'v) btree"
  assumes ok: "bt_ok m" and nx: "peek_next_inner m pos = Some (a, b)"
    and c: "c \<in> dom (bt_get m)" "c \<noteq> pos"
  shows "a \<noteq> pos \<and> a - pos \<le> c - pos"
proof (cases "bt_first_gt pos m")
  case None
  with nx have "bt_first m = Some (a, b)" by (simp add: peek_next_inner_def)
  with bt_first_Some [OF ok this] c(1) have "a \<le> c" by blast
  moreover from None c have "c < pos"
    unfolding bt_first_gt_None by (simp add: order.strict_iff_order)
  ultimately show ?thesis by (rule wrap_distance_below)
next
  case (Some p)
  with nx have "bt_first_gt pos m = Some (a, b)" by (simp add: peek_next_inner_def)
  with bt_first_gt_Some [OF ok this] c(1) have "pos < a" "pos < c \<longrightarrow> a \<le> c" by blast+
  with c(2) show ?thesis by (intro wrap_distance_above)
qed

lemma peek_inner_stored:
  "bt_ok m \<Longrightarrow> bt_get m k = Some v \<Longrightarrow> peek_inner m k = Some (k, v)"
  by (simp add: peek_inner_def bt.first_ge_stored)

lemma peek_inner_found:
  "bt_ok m \<Longrightarrow> peek_inner m k = Some (a, b) \<Longrightarrow> bt_get m a = Some b"
  unfolding peek_inner_def by (rule bt.wrap_found)

section \<open>In-order delivery\<close>

text \<open>
  A run of segments that covers a stretch of the sequence space without gap or overlap, starting at
  \<open>n\<close>; every segment carries at least one byte.
\<close>

fun contiguous :: "('h \<Rightarrow> SeqNum) \<Rightarrow> ('h \<Rightarrow> nat) \<Rightarrow> SeqNum \<Rightarrow> 'h list \<Rightarrow> bool" where
  "contiguous seqno len n [] \<longleftrightarrow> True"
| "contiguous seqno len n (h # hs) \<longleftrightarrow>
     seqno h = n \<and> 0 < len h \<and> contiguous seqno len (n + word_of_nat (len h)) hs"

text \<open>
  A sequence of arrivals.  Each packet brings its own callback, here one callback per packet context
  \<open>t\<close> (for the follower, the capture time).
\<close>

fun ingest_all ::
  "('h \<Rightarrow> SeqNum) \<Rightarrow> ('t \<Rightarrow> 's \<Rightarrow> 'h \<Rightarrow> ('s \<times> SeqNum) res) \<Rightarrow> ('t \<times> 'h) list \<Rightarrow> 'h TcpReorderBuffer \<Rightarrow> 's \<Rightarrow>
   ('h TcpReorderBuffer \<times> 's) res" where
  "ingest_all sq cb [] rb s = Inr (rb, s)"
| "ingest_all sq cb ((t, x) # xs) rb s =
     res_bind (ingest sq (cb t) x rb s) (\<lambda>(rb, s). ingest_all sq cb xs rb s)"

lemma contiguous_append:
  "contiguous sq len n (xs @ ys) \<longleftrightarrow>
   contiguous sq len n xs \<and> contiguous sq len (n + word_of_nat (sum_list (map len xs))) ys"
  by (induction xs arbitrary: n) (auto simp: add.assoc)

lemma contiguous_offset:
  assumes "contiguous sq len n hs" and "h \<in> set hs"
  shows "\<exists>off. off + len h \<le> sum_list (map len hs) \<and> 0 < len h \<and> sq h = n + word_of_nat off"
proof -
  from assms(2) obtain xs ys where hs: "hs = xs @ h # ys" by (meson split_list)
  with assms(1) have "sq h = n + word_of_nat (sum_list (map len xs))" and "0 < len h"
    by (simp_all add: contiguous_append)
  with hs show ?thesis by (intro exI [of _ "sum_list (map len xs)"]) simp
qed

lemma contiguous_tl_offset:
  assumes "contiguous sq len n (h # hs)" and "g \<in> set hs"
  shows "\<exists>off. len h \<le> off \<and> off < sum_list (map len (h # hs)) \<and> sq g = n + word_of_nat off"
proof -
  from assms obtain off where "off + len g \<le> sum_list (map len hs)" "0 < len g"
    "sq g = n + word_of_nat (len h) + word_of_nat off"
    using contiguous_offset [of sq len "n + word_of_nat (len h)" hs g] by auto
  then show ?thesis by (intro exI [of _ "len h + off"]) (simp add: add.assoc)
qed

lemma word_offset_unat:
  "off < 2 ^ 32 \<Longrightarrow> unat ((n + word_of_nat off) - n :: u32) = off"
  by (simp add: unat_of_nat)

lemma contiguous_tl_neq:
  assumes "contiguous sq len n (h # hs)" and "sum_list (map len (h # hs)) \<le> 2 ^ 32" and "g \<in> set hs"
  shows "sq g \<noteq> n"
proof -
  obtain off where off: "len h \<le> off" "off < sum_list (map len (h # hs))" "sq g = n + word_of_nat off"
    using contiguous_tl_offset [OF assms(1,3)] by blast
  then have "unat (sq g - n) = off" using assms(2) by (simp only: off(3)) (rule word_offset_unat, simp)
  moreover have "0 < len h" using assms(1) by simp
  ultimately show ?thesis using off(1) by auto
qed

lemma contiguous_distinct:
  "contiguous sq len n hs \<Longrightarrow> sum_list (map len hs) \<le> 2 ^ 32 \<Longrightarrow> distinct hs \<and> inj_on sq (set hs)"
proof (induction hs arbitrary: n)
  case (Cons h hs)
  then have IH: "distinct hs \<and> inj_on sq (set hs)" by auto
  have ne: "sq g \<noteq> sq h" if "g \<in> set hs" for g
    using contiguous_tl_neq [OF Cons.prems that] Cons.prems(1) by simp
  then have "h \<notin> set hs" and "sq h \<notin> sq ` set hs" by (auto dest: ne)
  with IH show ?case by simp
qed simp

text \<open>The buffer holds exactly the segments of a set, each under its own sequence number.\<close>

definition holds :: "('h \<Rightarrow> SeqNum) \<Rightarrow> (SeqNum, 'h) btree \<Rightarrow> 'h set \<Rightarrow> bool" where
  "holds sq m A \<longleftrightarrow> (\<forall>k h. bt_get m k = Some h \<longleftrightarrow> h \<in> A \<and> sq h = k)"

lemma holds_dom: "holds sq m A \<Longrightarrow> dom (bt_get m) = sq ` A"
  by (auto simp: holds_def)

lemma holds_empty: "holds sq m {} \<longleftrightarrow> m = []"
proof
  assume "holds sq m {}"
  then have "dom (bt_get m) = {}" by (simp add: holds_dom)
  then show "m = []" by (simp only: bt_get_Nil_iff)
qed (simp add: holds_def)

lemma holds_insert:
  "bt_ok m \<Longrightarrow> holds sq m A \<Longrightarrow> inj_on sq (insert x A) \<Longrightarrow> holds sq (bt_insert (sq x) x m) (insert x A)"
  by (auto simp: holds_def bt_get_insert inj_on_def)

lemma holds_remove:
  "bt_ok m \<Longrightarrow> holds sq m A \<Longrightarrow> inj_on sq A \<Longrightarrow> h \<in> A \<Longrightarrow> holds sq (bt_remove (sq h) m) (A - {h})"
  by (auto simp: holds_def bt_get_remove inj_on_def)

text \<open>
  The contract between the buffer and the callback it drives (the traits \<open>HasSequenceNumber\<close> and
  \<open>ReassemblerTarget\<close>): a segment that fits is consumed without a panic and the callback answers
  with the sequence number just behind it.
\<close>

locale reassembler_target =
  fixes sq :: "'h \<Rightarrow> SeqNum"
    and len :: "'h \<Rightarrow> nat"
    and fits :: "'h \<Rightarrow> bool"
    and cb :: "'s \<Rightarrow> 'h \<Rightarrow> ('s \<times> SeqNum) res"
    and deliver :: "'h \<Rightarrow> 's \<Rightarrow> 's"
  assumes cb_fits: "fits h \<Longrightarrow> cb s h = Inr (deliver h s, sq h + word_of_nat (len h))"
begin

lemma next_position:
  assumes con: "contiguous sq len n (h # hs)" and tot: "sum_list (map len (h # hs)) \<le> 2 ^ 32"
    and ok: "bt_ok m" and A: "holds sq m A" "A \<subseteq> set (h # hs)" "h \<in> A"
    and nx: "n + word_of_nat (len h) \<in> sq ` (A - {h})"
  shows "map_option fst (peek_next_inner m n) = Some (n + word_of_nat (len h))"
proof -
  have sqh: "sq h = n" using con by simp
  from nx obtain g0 where g0: "g0 \<in> A" "g0 \<noteq> h" "sq g0 = n + word_of_nat (len h)" by force
  with A(2) have g0s: "g0 \<in> set hs" by auto
  have len: "len h < 2 ^ 32"
    using contiguous_tl_offset [OF con g0s] tot by auto
  have key: "n + word_of_nat (len h) \<in> dom (bt_get m)"
    unfolding holds_dom [OF A(1)] g0(3) [symmetric] using g0(1) by (rule imageI)
  have ne: "n + word_of_nat (len h) \<noteq> n"
    using contiguous_tl_neq [OF con tot g0s] g0(3) by simp
  have "peek_next_inner m n \<noteq> None"
    using key bt_first_None [of m] by (auto simp: peek_next_inner_def split: option.splits)
  then obtain a b where p: "peek_next_inner m n = Some (a, b)" by auto
  from peek_next_nearest [OF ok p key ne] have a: "a \<noteq> n" "a - n \<le> n + word_of_nat (len h) - n"
    by auto
  from peek_next_stored [OF ok p] have "a \<in> sq ` A" using holds_dom [OF A(1)] by auto
  with a(1) sqh A(2) obtain g where g: "g \<in> set hs" "a = sq g" by auto
  then obtain off where off: "len h \<le> off" "off < 2 ^ 32" "a = n + word_of_nat off"
    using contiguous_tl_offset [OF con g(1)] tot by auto
  have "off \<le> len h"
    using a(2) len off(2) unfolding off(3)
    by (simp add: word_le_nat_alt unat_of_nat)
  with off have "a = n + word_of_nat (len h)" by simp
  with p show ?thesis by simp
qed

lemma export_loop_prefix:
  assumes "contiguous sq len n rest" and "sum_list (map len rest) \<le> 2 ^ 32"
    and "\<forall>h \<in> set rest. fits h" and "bt_ok (wc_map it)" and "holds sq (wc_map it) A"
    and "A \<subseteq> set rest" and "n \<in> sq ` A \<Longrightarrow> wc_pos it = Some n"
  shows "\<exists>it'. export_loop cb it n s =
            Inr (it', n + word_of_nat (sum_list (map len (takeWhile (\<lambda>h. h \<in> A) rest))),
                 fold deliver (takeWhile (\<lambda>h. h \<in> A) rest) s)
          \<and> bt_ok (wc_map it') \<and> holds sq (wc_map it') (A - set (takeWhile (\<lambda>h. h \<in> A) rest))"
  using assms
proof (induction rest arbitrary: n it A s)
  case Nil
  then have "wc_map it = []" using holds_empty by auto
  then have "peek it = None"
    by (simp add: peek_def peek_inner_def bt_first_ge_def bt_first_def split: option.splits)
  with Nil show ?case by (simp add: export_loop.simps [of cb it])
next
  case (Cons h hs)
  note con = Cons.prems(1) and tot = Cons.prems(2)
  have sqh: "sq h = n" using con by simp
  have inj: "inj_on sq (set (h # hs))" and hnot: "h \<notin> set hs"
    using contiguous_distinct [OF con tot] by auto
  show ?case
  proof (cases "h \<in> A")
    case False
    then have "n \<notin> dom (bt_get (wc_map it))"
      using Cons.prems(5,6) contiguous_tl_neq [OF con tot] by (auto simp: holds_def)
    moreover have "k \<in> dom (bt_get (wc_map it))" if "peek it = Some (k, v)" for k v
      using that peek_inner_found [OF Cons.prems(4)] by (auto simp: peek_def split: option.splits)
    ultimately have "export_loop cb it n s = Inr (it, n, s)"
      by (auto simp: export_loop.simps [of cb it] split: option.splits)
    with False Cons.prems(4,5) show ?thesis by simp
  next
    case True
    then have get: "bt_get (wc_map it) n = Some h" using Cons.prems(5) sqh by (simp add: holds_def)
    have pos: "wc_pos it = Some n" using Cons.prems(7) True sqh by auto
    define it1 where "it1 = it\<lparr>wc_map := bt_remove n (wc_map it),
      wc_pos := map_option fst (peek_next_inner (wc_map it) n)\<rparr>"
    have pk: "peek it = Some (n, h)"
      using pos get Cons.prems(4) by (simp add: peek_def peek_inner_stored)
    have rm: "cursor_remove it = (Some (n, h), it1)"
      using pos get by (simp add: cursor_remove_def peek_next_def it1_def)
    let ?n1 = "n + word_of_nat (len h)" and ?A1 = "A - {h}"
    have step: "export_loop cb it n s = export_loop cb it1 ?n1 (deliver h s)"
      using pk rm cb_fits Cons.prems(3) sqh by (simp add: export_loop.simps [of cb it])
    have h1: "holds sq (wc_map it1) ?A1"
      using holds_remove [OF Cons.prems(4,5) inj_on_subset [OF inj Cons.prems(6)] True] sqh
      by (simp add: it1_def)
    have p1: "wc_pos it1 = Some ?n1" if "?n1 \<in> sq ` ?A1"
      using next_position [OF con tot Cons.prems(4,5,6) True that] by (simp add: it1_def)
    have tw: "takeWhile (\<lambda>g. g \<in> ?A1) hs = takeWhile (\<lambda>g. g \<in> A) hs"
      using hnot by (intro takeWhile_cong) auto
    have "\<exists>it'. export_loop cb it1 ?n1 (deliver h s) =
            Inr (it', ?n1 + word_of_nat (sum_list (map len (takeWhile (\<lambda>g. g \<in> ?A1) hs))),
                 fold deliver (takeWhile (\<lambda>g. g \<in> ?A1) hs) (deliver h s))
          \<and> bt_ok (wc_map it') \<and> holds sq (wc_map it') (?A1 - set (takeWhile (\<lambda>g. g \<in> ?A1) hs))"
      by (rule Cons.IH)
        (use con tot Cons.prems h1 p1 bt_ok_remove hnot in \<open>auto simp: it1_def\<close>)
    moreover have "?A1 - set (takeWhile (\<lambda>g. g \<in> A) hs) = A - set (h # takeWhile (\<lambda>g. g \<in> A) hs)"
      by auto
    ultimately show ?thesis using step True tw by (simp add: add.assoc)
  qed
qed

text \<open>
  One segment of the run arrives: everything that is now available from the lowest expected number
  onwards is delivered, in order, and the rest stays buffered.
\<close>

lemma ingest_prefix:
  assumes con: "contiguous sq len (rb_lowest rb) rest" and tot: "sum_list (map len rest) \<le> 2147483647"
    and fits: "\<forall>h \<in> set rest. fits h" and ok: "bt_ok (rb_reassemble rb)"
    and A: "holds sq (rb_reassemble rb) A" "A \<subseteq> set rest" and x: "x \<in> set rest"
  defines "P \<equiv> takeWhile (\<lambda>h. h \<in> insert x A) rest"
  shows "\<exists>rb'. ingest sq cb x rb s = Inr (rb', fold deliver P s)
          \<and> rb_lowest rb' = rb_lowest rb + word_of_nat (sum_list (map len P))
          \<and> bt_ok (rb_reassemble rb') \<and> holds sq (rb_reassemble rb') (insert x A - set P)"
proof -
  let ?n = "rb_lowest rb" and ?m = "bt_insert (sq x) x (rb_reassemble rb)"
  have tot32: "sum_list (map len rest) \<le> 2 ^ 32" using tot by simp
  have inj: "inj_on sq (insert x A)"
    by (rule inj_on_subset [of sq "set rest"])
      (use contiguous_distinct [OF con tot32] A(2) x in auto)
  obtain off where off: "off + len x \<le> sum_list (map len rest)" "0 < len x" "sq x = ?n + word_of_nat off"
    using contiguous_offset [OF con x] by blast
  then have in_window: "sq x - ?n < 4294967295 div 2"
    using tot by (simp add: word_less_nat_alt unat_of_nat)
  have "\<exists>it'. export_loop cb (cursor_new ?m ?n) ?n s =
            Inr (it', ?n + word_of_nat (sum_list (map len P)), fold deliver P s)
          \<and> bt_ok (wc_map it') \<and> holds sq (wc_map it') (insert x A - set P)"
    unfolding P_def
    by (rule export_loop_prefix [OF con tot32 fits])
      (use ok A x inj in \<open>simp_all add: cursor_new_def bt_ok_insert holds_insert\<close>)
  with in_window show ?thesis by (auto simp: ingest_def Let_def)
qed

end

text \<open>
  The same contract for a family of callbacks whose effect, seen through an abstraction of the
  captured state, depends on the segment only.
\<close>

locale timed_target =
  fixes sq :: "'h \<Rightarrow> SeqNum"
    and len :: "'h \<Rightarrow> nat"
    and fits :: "'h \<Rightarrow> bool"
    and cb :: "'t \<Rightarrow> 's \<Rightarrow> 'h \<Rightarrow> ('s \<times> SeqNum) res"
    and deliver :: "'t \<Rightarrow> 'h \<Rightarrow> 's \<Rightarrow> 's"
    and view :: "'s \<Rightarrow> 'v"
    and vdeliver :: "'h \<Rightarrow> 'v \<Rightarrow> 'v"
  assumes cb_timed: "fits h \<Longrightarrow> cb t s h = Inr (deliver t h s, sq h + word_of_nat (len h))"
    and view_deliver: "fits h \<Longrightarrow> view (deliver t h s) = vdeliver h (view s)"

sublocale timed_target \<subseteq> at: reassembler_target sq len fits "cb t" "deliver t" for t
  by unfold_locales (rule cb_timed)

context timed_target
begin

lemma view_fold: "\<forall>h \<in> set hs. fits h \<Longrightarrow> view (fold (deliver t) hs s) = fold vdeliver hs (view s)"
  by (induction hs arbitrary: s) (simp_all add: view_deliver)

lemma ingest_all_delivers:
  assumes "contiguous sq len (rb_lowest rb) rest" and "sum_list (map len rest) \<le> 2147483647"
    and "\<forall>h \<in> set rest. fits h" and "bt_ok (rb_reassemble rb)"
    and "holds sq (rb_reassemble rb) A" and "A \<subseteq> set rest" and "rest = [] \<or> hd rest \<notin> A"
    and "distinct (map snd xs)" and "snd ` set xs \<inter> A = {}" and "snd ` set xs \<union> A = set rest"
  shows "\<exists>s'. ingest_all sq cb xs rb s =
           Inr (rb_new (rb_lowest rb + word_of_nat (sum_list (map len rest))), s')
         \<and> view s' = fold vdeliver rest (view s)"
  using assms
proof (induction xs arbitrary: rb rest A s)
  case Nil
  then have "rest = []" by (cases rest) auto
  with Nil have "A = {}" by auto
  with Nil.prems(5) have "rb_reassemble rb = []" by (simp add: holds_empty)
  with \<open>rest = []\<close> show ?case by (cases rb) (simp add: rb_new_def)
next
  case (Cons tx xs)
  obtain t x where tx: "tx = (t, x)" by (cases tx)
  let ?B = "insert x A"
  define P where "P = takeWhile (\<lambda>h. h \<in> ?B) rest"
  define Q where "Q = dropWhile (\<lambda>h. h \<in> ?B) rest"
  have PQ: "rest = P @ Q" by (simp add: P_def Q_def)
  have x: "x \<in> set rest" using Cons.prems(10) tx by auto
  obtain rb' where rb': "ingest sq (cb t) x rb s = Inr (rb', fold (deliver t) P s)"
    "rb_lowest rb' = rb_lowest rb + word_of_nat (sum_list (map len P))"
    "bt_ok (rb_reassemble rb')" "holds sq (rb_reassemble rb') (?B - set P)"
    using at.ingest_prefix [OF Cons.prems(1-6) x] unfolding P_def by blast
  have dist: "distinct (P @ Q)"
    using contiguous_distinct [OF Cons.prems(1)] Cons.prems(2) PQ by simp
  have "set P \<subseteq> ?B" by (auto simp: P_def dest: set_takeWhileD)
  have hdQ: "Q = [] \<or> hd Q \<notin> ?B - set P"
    using hd_dropWhile [of "\<lambda>h. h \<in> ?B" rest] by (auto simp: Q_def)
  have xnot: "x \<notin> snd ` set xs" "distinct (map snd xs)" using Cons.prems(8) tx by auto
  have "\<exists>s'. ingest_all sq cb xs rb' (fold (deliver t) P s) =
      Inr (rb_new (rb_lowest rb' + word_of_nat (sum_list (map len Q))), s')
      \<and> view s' = fold vdeliver Q (view (fold (deliver t) P s))"
  proof (rule Cons.IH [OF _ _ _ rb'(3,4) _ hdQ])
    show "contiguous sq len (rb_lowest rb') Q"
      using Cons.prems(1) rb'(2) by (simp add: PQ contiguous_append)
    show "?B - set P \<subseteq> set Q" using Cons.prems(6) x by (auto simp: PQ)
    show "snd ` set xs \<inter> (?B - set P) = {}" using Cons.prems(9) xnot tx by auto
    have "set Q = set rest - set P" using dist by (auto simp: PQ)
    also have "\<dots> = snd ` set xs \<union> ?B - set P" using Cons.prems(10) tx by auto
    also have "\<dots> = snd ` set xs \<union> (?B - set P)"
      using \<open>set P \<subseteq> ?B\<close> Cons.prems(9) xnot tx by auto
    finally show "snd ` set xs \<union> (?B - set P) = set Q" by simp
  qed (use Cons.prems PQ xnot in auto)
  moreover have "view (fold (deliver t) P s) = fold vdeliver P (view s)"
    using Cons.prems(3) PQ by (intro view_fold) auto
  ultimately show ?case using rb' tx by (auto simp: PQ add.assoc)
qed

lemma reassembles_permutation:
  assumes "contiguous sq len n segs" and "sum_list (map len segs) \<le> 2147483647"
    and "\<forall>h \<in> set segs. fits h" and "mset (map snd arrivals) = mset segs"
  shows "\<exists>s'. ingest_all sq cb arrivals (rb_new n) s =
           Inr (rb_new (n + word_of_nat (sum_list (map len segs))), s')
         \<and> view s' = fold vdeliver segs (view s)"
proof -
  have "distinct segs" using contiguous_distinct [OF assms(1)] assms(2) by simp
  with assms(4) have "distinct (map snd arrivals)" "snd ` set arrivals = set segs"
    by (metis mset_eq_imp_distinct_iff, metis set_map set_mset_mset)
  then show ?thesis
    using ingest_all_delivers [of "rb_new n" segs "{}" arrivals s] assms
    by (simp add: rb_new_def holds_empty)
qed

end


section \<open>The follower's callback\<close>

lemma drive_state_total:
  assumes "\<And>sm s. \<exists>r. pd sm s = Inr r"
  shows "\<exists>r. drive_state sm tcp pd s = Inr r"
proof -
  have "\<exists>r. res_bind (pd x s) (\<lambda>(sm, s). if b then Inr (f sm, s) else Inr (sm, s)) = Inr r" for x b f
    using assms [of x s] by (auto split: prod.splits)
  then show ?thesis by (cases "sm_state sm") (simp_all add: drive_state_def Let_def)
qed

text \<open>
  What the closure does to the state it captures, and its view without the capture times: the state
  machine and the payloads handed to the listener.
\<close>

definition deliver_segment ::
  "IPTarget \<Rightarrow> bool \<Rightarrow> TimingInfo \<Rightarrow> Segment \<Rightarrow> TCPStateMachine \<times> bytes listener_call list \<Rightarrow>
   TCPStateMachine \<times> bytes listener_call list" where
  "deliver_segment key dir timing seg s = fst (projr (on_good_segment timing key dir s seg))"

fun call_payload :: "'m listener_call \<Rightarrow> (IPTarget \<times> bool \<times> 'm) option" where
  "call_payload (OnData timing target to_client data) = Some (target, to_client, data)"
| "call_payload (OnSideData d) = None"

definition segment_view ::
  "TCPStateMachine \<times> bytes listener_call list \<Rightarrow> TCPStateMachine \<times> (IPTarget \<times> bool \<times> bytes) option list" where
  "segment_view = (\<lambda>(sm, out). (sm, map call_payload out))"

definition view_segment ::
  "IPTarget \<Rightarrow> bool \<Rightarrow> Segment \<Rightarrow> TCPStateMachine \<times> (IPTarget \<times> bool \<times> bytes) option list \<Rightarrow>
   TCPStateMachine \<times> (IPTarget \<times> bool \<times> bytes) option list" where
  "view_segment key dir seg = (\<lambda>(sm, out).
     (let (header, bs) = seg;
          (sm, out) = projr (drive_state sm header (\<lambda>sm out. Inr (sm, out @ [Some (key, dir, bs)])) out)
      in (sm\<lparr>rcv_next := sequence_no header + word_of_nat (length bs)\<rparr>, out)))"

lemma drive_state_view:
  assumes "\<And>sm s sm' s'. pd sm s = Inr (sm', s') \<Longrightarrow> qd sm (f s) = Inr (sm', f s')"
    and "drive_state sm tcp pd s = Inr (sm', s')"
  shows "drive_state sm tcp qd (f s) = Inr (sm', f s')"
  using assms(2) unfolding drive_state_def Let_def
  by (cases "sm_state sm") (auto simp: res_simps split: prod.splits if_splits dest!: assms(1))

interpretation ogs: timed_target sequence_number "\<lambda>seg. length (snd seg)" "\<lambda>seg. length (snd seg) < 2 ^ 32"
  "\<lambda>timing. on_good_segment timing key dir" "deliver_segment key dir" segment_view "view_segment key dir"
  for key dir
proof (unfold_locales, goal_cases)
  case (1 seg timing s)
  obtain header bs sm out where s: "seg = (header, bs)" "s = (sm, out)" by (cases seg; cases s)
  obtain sm' out' where
    "drive_state sm header (\<lambda>sm out. Inr (sm, out @ [OnData timing key dir bs])) out = Inr (sm', out')"
    using drive_state_total [of "\<lambda>sm out. Inr (sm, out @ [OnData timing key dir bs])"] by (metis surj_pair)
  with 1 s show ?case by (simp add: on_good_segment_def deliver_segment_def sequence_number_def Let_def)
next
  case (2 seg timing s)
  obtain header bs sm out where s: "seg = (header, bs)" "s = (sm, out)" by (cases seg; cases s)
  obtain sm' out' where d:
    "drive_state sm header (\<lambda>sm out. Inr (sm, out @ [OnData timing key dir bs])) out = Inr (sm', out')"
    using drive_state_total [of "\<lambda>sm out. Inr (sm, out @ [OnData timing key dir bs])"] by (metis surj_pair)
  have "drive_state sm header (\<lambda>sm out. Inr (sm, out @ [Some (key, dir, bs)])) (map call_payload out) =
      Inr (sm', map call_payload out')"
    by (rule drive_state_view [OF _ d]) auto
  with d 2 s show ?case
    by (simp add: deliver_segment_def on_good_segment_def segment_view_def view_segment_def Let_def)
qed

text \<open>On an established side, segments without FIN are handed on one by one.\<close>

lemma view_segment_established:
  assumes "sm_state sm = Established" and "\<not> flag_fin (fst seg)"
  shows "\<exists>sm'. view_segment key dir seg (sm, out) = (sm', out @ [Some (key, dir, snd seg)])
           \<and> sm_state sm' = Established"
  using assms by (cases seg) (simp add: view_segment_def drive_state_def Let_def)

lemma view_fold_established:
  "sm_state sm = Established \<Longrightarrow> \<forall>seg \<in> set segs. \<not> flag_fin (fst seg) \<Longrightarrow>
   \<exists>sm'. fold (view_segment key dir) segs (sm, out) = (sm', out @ map (\<lambda>seg. Some (key, dir, snd seg)) segs)
     \<and> sm_state sm' = Established"
proof (induction segs arbitrary: sm out)
  case (Cons seg segs)
  then obtain sm1 where sm1: "view_segment key dir seg (sm, out) = (sm1, out @ [Some (key, dir, snd seg)])"
    "sm_state sm1 = Established"
    using view_segment_established [of sm seg key dir out] by auto
  have "\<exists>sm'. fold (view_segment key dir) segs (sm1, out @ [Some (key, dir, snd seg)]) =
      (sm', (out @ [Some (key, dir, snd seg)]) @ map (\<lambda>seg. Some (key, dir, snd seg)) segs)
      \<and> sm_state sm' = Established"
    using Cons.prems by (intro Cons.IH [OF sm1(2)]) simp
  with sm1 show ?case by simp
qed simp

text \<open>The calls accumulated so far play no role in what a segment does.\<close>

definition prepend :: "'c list \<Rightarrow> (TCPStateMachine \<times> 'c list) \<times> 'n \<Rightarrow> (TCPStateMachine \<times> 'c list) \<times> 'n" where
  "prepend out = (\<lambda>((sm, out'), n). ((sm, out @ out'), n))"

lemma on_good_segment_out:
  "on_good_segment timing key dir (sm, out) seg =
     res_bind (on_good_segment timing key dir (sm, []) seg) (\<lambda>r. Inr (prepend out r))"
  unfolding on_good_segment_def Let_def drive_state_def prepend_def
  by (cases seg; cases "sm_state sm") (simp_all add: Let_def)

lemma export_loop_out:
  "export_loop (on_good_segment timing key dir) it lowest (sm, out0 @ out) =
     res_bind (export_loop (on_good_segment timing key dir) it lowest (sm, out))
       (\<lambda>(it, lowest, sm, out). Inr (it, lowest, sm, out0 @ out))"
proof (induction "length (wc_map it)" arbitrary: it lowest sm out rule: less_induct)
  case less
  show ?case
  proof (cases "\<exists>v k w it'. peek it = Some (lowest, v) \<and> cursor_remove it = (Some (k, w), it')")
    case True
    then obtain v k w it' where *: "peek it = Some (lowest, v)" "cursor_remove it = (Some (k, w), it')"
      by blast
    then have "length (wc_map it') < length (wc_map it)" by (auto dest: cursor_remove_shrinks)
    note IH = less.hyps [OF this]
    show ?thesis
    proof (cases "on_good_segment timing key dir (sm, []) w")
      case (Inl e)
      with * show ?thesis
        by (simp add: export_loop.simps [of _ it] on_good_segment_out [of timing key dir sm "out0 @ out"]
            on_good_segment_out [of timing key dir sm out])
    next
      case (Inr r)
      obtain sm' o' n' where "r = ((sm', o'), n')" by (metis surj_pair)
      with * Inr IH [of n' sm' "out @ o'"] show ?thesis
        by (simp add: export_loop.simps [of _ it] on_good_segment_out [of timing key dir sm "out0 @ out"]
            on_good_segment_out [of timing key dir sm out] prepend_def)
    qed
  next
    case False
    then show ?thesis
      by (auto simp: export_loop.simps [of _ it] split: option.splits prod.splits)
  qed
qed

lemma ingest_out:
  "ingest sequence_number (on_good_segment timing key dir) x rb (sm, out) =
     res_bind (ingest sequence_number (on_good_segment timing key dir) x rb (sm, []))
       (\<lambda>(rb, sm, out'). Inr (rb, sm, out @ out'))"
proof -
  let ?it = "cursor_new (bt_insert (sequence_number x) x (rb_reassemble rb)) (rb_lowest rb)"
  have "export_loop (on_good_segment timing key dir) ?it (rb_lowest rb) (sm, out) =
      res_bind (export_loop (on_good_segment timing key dir) ?it (rb_lowest rb) (sm, []))
        (\<lambda>(it, lowest, sm, out'). Inr (it, lowest, sm, out @ out'))"
    using export_loop_out [of timing key dir ?it "rb_lowest rb" sm out "[]"] by simp
  then show ?thesis
    by (cases "export_loop (on_good_segment timing key dir) ?it (rb_lowest rb) (sm, [])")
      (auto simp: ingest_def Let_def)
qed

lemma ingest_all_out:
  "ingest_all sequence_number (\<lambda>t. on_good_segment t key dir) xs rb (sm, out) =
     res_bind (ingest_all sequence_number (\<lambda>t. on_good_segment t key dir) xs rb (sm, []))
       (\<lambda>(rb, sm, out'). Inr (rb, sm, out @ out'))"
proof (induction xs arbitrary: rb sm out)
  case (Cons tx xs)
  obtain t x where tx: "tx = (t, x)" by (cases tx)
  show ?case
  proof (cases "ingest sequence_number (on_good_segment t key dir) x rb (sm, [])")
    case (Inr r)
    obtain rb1 sm1 out1 where r: "r = (rb1, sm1, out1)" by (metis surj_pair)
    show ?thesis
      using Inr r tx ingest_out [of t key dir x rb sm out] Cons.IH [of rb1 sm1 "out @ out1"]
        Cons.IH [of rb1 sm1 out1]
      by (cases "ingest_all sequence_number (\<lambda>t. on_good_segment t key dir) xs rb1 (sm1, [])") auto
  qed (use tx ingest_out [of t key dir x rb sm out] in simp)
qed simp

end
