(* ===== verification/Tcp_Follower.thy ===== *)
theory Tcp_Follower
  imports Tcp_Reassemble
begin

text \<open>
  What the TCP follower of \<open>crates/net_decode/src/tcp_reassemble.rs\<close> guarantees: runs of the export
  loop and when they can fail, the follower's invariant, delivery of whole conversations in stream
  order, the three-way handshake, and what one packet may change and hand on.
\<close>

section \<open>Runs of the export loop\<close>

lemma export_loop_invariant:
  assumes step: "\<And>s h s' n. P s \<Longrightarrow> cb s h = Inr (s', n) \<Longrightarrow> P s'"
    and "P s" and "export_loop cb it lowest s = Inr (it', lowest', s')"
  shows "P s'"
  using assms(2-)
proof (induction "length (wc_map it)" arbitrary: it lowest s rule: less_induct)
  case less
  show ?case
  proof (cases "\<exists>v k w it1. peek it = Some (lowest, v) \<and> cursor_remove it = (Some (k, w), it1)")
    case True
    then obtain v k w it1 where *: "peek it = Some (lowest, v)" "cursor_remove it = (Some (k, w), it1)"
      by blast
    with less.prems obtain s1 n1 where s1: "cb s w = Inr (s1, n1)"
      and r: "export_loop cb it1 n1 s1 = Inr (it', lowest', s')"
      by (auto simp: export_loop.simps [of cb it] res_simps)
    from * have "length (wc_map it1) < length (wc_map it)" by (auto dest: cursor_remove_shrinks)
    from less.hyps [OF this step [OF less.prems(1) s1] r] show ?thesis .
  next
    case False
    with less.prems show ?thesis
      by (auto simp: export_loop.simps [of cb it] split: option.splits prod.splits if_splits)
  qed
qed

text \<open>The cursor's \<open>remove().unwrap()\<close> cannot fail: the cursor stands on the key it just peeked.\<close>

definition cursor_ok :: "SeqNum \<Rightarrow> (SeqNum, 'h) WrappingCursor \<Rightarrow> bool" where
  "cursor_ok lowest it \<longleftrightarrow> bt_ok (wc_map it) \<and>
     (wc_map it = [] \<or> (\<exists>p. wc_pos it = Some p \<and> (p = lowest \<or> p \<in> dom (bt_get (wc_map it)))))"

lemma cursor_ok_peek:
  assumes "cursor_ok lowest it" and "peek it = Some (lowest, v)"
  shows "wc_pos it = Some lowest \<and> bt_get (wc_map it) lowest = Some v"
proof -
  have ne: "wc_map it \<noteq> []"
    using assms(2) by (auto simp: peek_def peek_inner_def bt_first_ge_def bt_first_def split: option.splits)
  with assms obtain p where p: "wc_pos it = Some p" "p = lowest \<or> p \<in> dom (bt_get (wc_map it))"
    and ok: "bt_ok (wc_map it)"
    by (auto simp: cursor_ok_def)
  from assms(2) p have pk: "peek_inner (wc_map it) p = Some (lowest, v)" by (simp add: peek_def)
  from p(2) have "p = lowest" using pk peek_inner_stored [OF ok, of p] by auto
  with p peek_inner_found [OF ok pk] show ?thesis by simp
qed

lemma cursor_ok_remove:
  assumes "cursor_ok lowest it" and "peek it = Some (lowest, v)"
  shows "\<exists>it'. cursor_remove it = (Some (lowest, v), it') \<and> cursor_ok n it'
           \<and> wc_map it' = bt_remove lowest (wc_map it)"
proof -
  have pos: "wc_pos it = Some lowest" "bt_get (wc_map it) lowest = Some v"
    using cursor_ok_peek [OF assms] by auto
  have ok: "bt_ok (wc_map it)" using assms(1) by (simp add: cursor_ok_def)
  have "peek_next_inner (wc_map it) lowest \<noteq> None"
    using pos(2) bt_first_None [of "wc_map it"] by (auto simp: peek_next_inner_def split: option.splits)
  then obtain a b where nx: "peek_next_inner (wc_map it) lowest = Some (a, b)" by auto
  let ?m = "bt_remove lowest (wc_map it)"
  have "a \<in> dom (bt_get ?m)" if "?m \<noteq> []"
  proof -
    obtain c where "c \<in> dom (bt_get ?m)" using \<open>?m \<noteq> []\<close> bt_get_Nil_iff [of ?m] by auto
    then have "c \<in> dom (bt_get (wc_map it))" "c \<noteq> lowest" using ok by (auto simp: bt_get_remove)
    with peek_next_nearest [OF ok nx] have "a \<noteq> lowest" by blast
    with peek_next_stored [OF ok nx] ok show ?thesis by (simp add: bt_get_remove dom_def)
  qed
  then have "cursor_ok n (it\<lparr>wc_map := ?m, wc_pos := Some a\<rparr>)"
    using ok by (auto simp: cursor_ok_def bt_ok_remove)
  then show ?thesis using pos nx by (simp add: cursor_remove_def peek_next_def)
qed

lemma export_loop_total:
  assumes "\<And>s h. fits h \<Longrightarrow> \<exists>r. cb s h = Inr r"
  shows "cursor_ok lowest it \<Longrightarrow> \<forall>v \<in> ran (bt_get (wc_map it)). fits v \<Longrightarrow>
    \<exists>it' lowest' s'. export_loop cb it lowest s = Inr (it', lowest', s')
      \<and> bt_ok (wc_map it') \<and> bt_get (wc_map it') \<subseteq>\<^sub>m bt_get (wc_map it)"
proof (induction "length (wc_map it)" arbitrary: it lowest s rule: less_induct)
  case less
  show ?case
  proof (cases "\<exists>v. peek it = Some (lowest, v)")
    case True
    then obtain v where pk: "peek it = Some (lowest, v)" by blast
    have v: "bt_get (wc_map it) lowest = Some v" and ok: "bt_ok (wc_map it)"
      using cursor_ok_peek [OF less.prems(1) pk] less.prems(1) by (simp_all add: cursor_ok_def)
    with less.prems(2) have "fits v" by (auto simp: ran_def)
    then obtain s1 n1 where s1: "cb s v = Inr (s1, n1)" using assms [of v s] by auto
    obtain it1 where it1: "cursor_remove it = (Some (lowest, v), it1)" "cursor_ok n1 it1"
      "wc_map it1 = bt_remove lowest (wc_map it)"
      using cursor_ok_remove [OF less.prems(1) pk] by blast
    have sub: "bt_get (wc_map it1) \<subseteq>\<^sub>m bt_get (wc_map it)"
      using ok by (auto simp: it1(3) bt_get_remove map_le_def)
    then have "\<forall>v \<in> ran (bt_get (wc_map it1)). fits v"
      using less.prems(2) by (force simp: map_le_def ran_def dom_def)
    from it1(1) have "length (wc_map it1) < length (wc_map it)" by (rule cursor_remove_shrinks)
    from less.hyps [OF this it1(2) \<open>\<forall>v \<in> ran (bt_get (wc_map it1)). fits v\<close>, of s1] pk it1(1) s1 sub
    show ?thesis by (auto simp: export_loop.simps [of cb it] intro: map_le_trans)
  next
    case False
    then have "export_loop cb it lowest s = Inr (it, lowest, s)"
      by (auto simp: export_loop.simps [of cb it] split: option.splits)
    with less.prems(1) show ?thesis by (simp add: cursor_ok_def)
  qed
qed

text \<open>
  Ingesting a segment fails only when its sequence number lies outside the half window after the
  lowest expected one; otherwise what stays buffered was buffered before or is the segment itself.
\<close>

lemma ingest_result:
  assumes "\<And>s h. fits h \<Longrightarrow> \<exists>r. cb s h = Inr r" and "bt_ok (rb_reassemble rb)"
    and "\<forall>v \<in> ran (bt_get (rb_reassemble rb)). fits v" and "fits x"
  shows "if sq x - rb_lowest rb < 2147483647
         then \<exists>rb' s'. ingest sq cb x rb s = Inr (rb', s') \<and> bt_ok (rb_reassemble rb')
            \<and> bt_get (rb_reassemble rb') \<subseteq>\<^sub>m (bt_get (rb_reassemble rb))(sq x \<mapsto> x)
         else ingest sq cb x rb s = Inl AssertFailed"
proof -
  let ?m = "bt_insert (sq x) x (rb_reassemble rb)"
  let ?it = "cursor_new ?m (rb_lowest rb)"
  have get: "bt_get ?m = (bt_get (rb_reassemble rb))(sq x \<mapsto> x)" using assms(2) by (simp add: bt_get_insert)
  have "cursor_ok (rb_lowest rb) ?it"
    using assms(2) by (simp add: cursor_ok_def cursor_new_def bt_ok_insert)
  moreover have "\<forall>v \<in> ran (bt_get (wc_map ?it)). fits v"
    using assms(3,4) by (auto simp: cursor_new_def get ran_def split: if_splits)
  ultimately obtain it' lowest' s' where "export_loop cb ?it (rb_lowest rb) s = Inr (it', lowest', s')"
    "bt_ok (wc_map it')" "bt_get (wc_map it') \<subseteq>\<^sub>m bt_get (wc_map ?it)"
    using export_loop_total [where cb = cb and fits = fits, OF assms(1)] by blast
  then show ?thesis by (simp add: ingest_def Let_def cursor_new_def get)
qed

section \<open>One direction of a flow\<close>

abbreviation handshake_states :: "TCPState set" where
  "handshake_states \<equiv> {Listen, SynSent, SynReceived}"

definition rx_side :: "bool \<Rightarrow> TCPFlow \<Rightarrow> TCPSide" where
  "rx_side dir fl = (if dir then flow_client fl else flow_server fl)"

definition set_rx_side :: "bool \<Rightarrow> TCPSide \<Rightarrow> TCPFlow \<Rightarrow> TCPFlow" where
  "set_rx_side dir sd fl = (if dir then fl\<lparr>flow_client := sd\<rparr> else fl\<lparr>flow_server := sd\<rparr>)"

text \<open>
  Packets sent to \<open>target\<close> belong to the flow stored under \<open>key\<close> and are received by its client
  exactly when \<open>dir\<close> holds.
\<close>

definition addressed :: "TcpFollower \<Rightarrow> IPTarget \<Rightarrow> IPTarget \<Rightarrow> bool \<Rightarrow> bool" where
  "addressed fol target key dir \<longleftrightarrow>
     (flows fol (flip target) \<noteq> None \<longleftrightarrow> dir) \<and> key = (if dir then flip target else target)"

definition packets_to ::
  "IPTarget \<Rightarrow> (TimingInfo \<times> Segment) list \<Rightarrow> (TimingInfo \<times> IPTarget \<times> TcpHeader \<times> bytes) list" where
  "packets_to target arrivals = map (\<lambda>(timing, tcp, data). (timing, target, tcp, data)) arrivals"

lemma record_flow_stored:
  assumes "flows fol key = Some fl" and "addressed fol target key dir"
  shows "record_flow timing target tcp data fol =
           res_bind (receive_side timing key dir tcp data (rx_side dir fl))
             (\<lambda>(sd, out). Inr (fol\<lparr>flows := (flows fol)(key \<mapsto> set_rx_side dir sd fl)\<rparr>, out))"
  using assms by (cases dir) (auto simp: record_flow_def addressed_def rx_side_def set_rx_side_def Let_def)

lemma addressed_update:
  "flows fol key = Some fl \<Longrightarrow> addressed fol target key dir \<Longrightarrow>
   addressed (fol\<lparr>flows := (flows fol)(key \<mapsto> fl')\<rparr>) target key dir"
  by (auto simp: addressed_def)

lemma rx_set_rx [simp]: "rx_side dir (set_rx_side dir sd fl) = sd"
  by (simp add: rx_side_def set_rx_side_def)

lemma set_rx_twice [simp]: "set_rx_side dir sd (set_rx_side dir sd' fl) = set_rx_side dir sd fl"
  by (simp add: set_rx_side_def)

lemma set_rx_same [simp]: "set_rx_side dir (rx_side dir fl) fl = fl"
  by (simp add: rx_side_def set_rx_side_def)

lemma drive_state_no_handshake:
  assumes "sm_state sm \<notin> handshake_states"
    and "drive_state sm tcp (\<lambda>sm s. Inr (sm, f s)) s = Inr (sm', s')"
  shows "sm_state sm' \<notin> handshake_states"
  using assms by (cases "sm_state sm") (simp_all add: drive_state_def Let_def split: if_splits, auto)

lemma on_good_segment_state:
  assumes "sm_state sm \<notin> handshake_states" and "on_good_segment timing key dir (sm, out) seg = Inr ((sm', out'), n)"
  shows "sm_state sm' \<notin> handshake_states"
proof -
  obtain tcp bs where seg: "seg = (tcp, bs)" by (cases seg)
  obtain sm1 out1 where "drive_state sm tcp (\<lambda>sm out. Inr (sm, out @ [OnData timing key dir bs])) out = Inr (sm1, out1)"
    and "sm' = sm1\<lparr>rcv_next := sequence_no tcp + word_of_nat (length bs)\<rparr>"
    using assms(2) by (auto simp: seg on_good_segment_def Let_def res_simps split: if_splits)
  with drive_state_no_handshake [OF assms(1)] show ?thesis by simp
qed

lemma ingest_state:
  assumes "sm_state sm \<notin> handshake_states"
    and "ingest sequence_number (on_good_segment timing key dir) x rb (sm, out) = Inr (rb', sm', out')"
  shows "sm_state sm' \<notin> handshake_states"
proof -
  let ?it = "cursor_new (bt_insert (sequence_number x) x (rb_reassemble rb)) (rb_lowest rb)"
  obtain it' lowest' where
    "export_loop (on_good_segment timing key dir) ?it (rb_lowest rb) (sm, out) = Inr (it', lowest', sm', out')"
    using assms(2) by (auto simp: ingest_def Let_def res_simps split: if_splits)
  moreover have "sm_state (fst s') \<notin> handshake_states"
    if "sm_state (fst s) \<notin> handshake_states" and "on_good_segment timing key dir s h = Inr (s', n)" for s h s' n
    using that on_good_segment_state [of "fst s" timing key dir "snd s" h "fst s'" "snd s'" n] by simp
  ultimately show ?thesis
    using export_loop_invariant [where P = "\<lambda>s. sm_state (fst s) \<notin> handshake_states"
        and cb = "on_good_segment timing key dir" and s = "(sm, out)" and s' = "(sm', out')"] assms(1)
    by (metis fst_conv)
qed

lemma record_flows_side:
  assumes "flows fol key = Some fl" and "addressed fol target key dir"
    and "sm_state (side_state_machine (rx_side dir fl)) \<notin> handshake_states"
  shows "record_flows (packets_to target arrivals) fol =
           res_bind (ingest_all sequence_number (\<lambda>t. on_good_segment t key dir) arrivals
                      (side_reorder_buffer (rx_side dir fl)) (side_state_machine (rx_side dir fl), []))
             (\<lambda>(rb, sm, out). Inr (fol\<lparr>flows := (flows fol)(key \<mapsto>
                set_rx_side dir ((rx_side dir fl)\<lparr>side_state_machine := sm, side_reorder_buffer := rb\<rparr>) fl)\<rparr>, out))"
  using assms
proof (induction arrivals arbitrary: fol fl)
  case Nil
  then have "fol\<lparr>flows := (flows fol)(key \<mapsto> fl)\<rparr> = fol" by (simp add: fun_upd_idem)
  then show ?case by (simp add: packets_to_def del: fun_upd_apply)
next
  case (Cons p arrivals)
  obtain timing tcp data where p: "p = (timing, tcp, data)" by (metis surj_pair)
  let ?sd = "rx_side dir fl"
  have r: "record_flow timing target tcp data fol =
      res_bind (ingest sequence_number (on_good_segment timing key dir) (tcp, data)
                 (side_reorder_buffer ?sd) (side_state_machine ?sd, []))
        (\<lambda>(rb, sm, out). Inr (fol\<lparr>flows := (flows fol)(key \<mapsto>
           set_rx_side dir (?sd\<lparr>side_state_machine := sm, side_reorder_buffer := rb\<rparr>) fl)\<rparr>, out))"
    using Cons.prems by (simp add: record_flow_stored receive_side_def Let_def res_bind_assoc case_prod_unfold)
  show ?case
  proof (cases "ingest sequence_number (on_good_segment timing key dir) (tcp, data)
                 (side_reorder_buffer ?sd) (side_state_machine ?sd, [])")
    case (Inl e)
    with r p show ?thesis by (simp add: packets_to_def)
  next
    case (Inr q)
    obtain rb1 sm1 out1 where q: "q = (rb1, sm1, out1)" by (metis surj_pair)
    define sd1 where "sd1 = ?sd\<lparr>side_state_machine := sm1, side_reorder_buffer := rb1\<rparr>"
    define fol1 where "fol1 = fol\<lparr>flows := (flows fol)(key \<mapsto> set_rx_side dir sd1 fl)\<rparr>"
    have "record_flow timing target tcp data fol = Inr (fol1, out1)"
      using r Inr q by (simp add: fol1_def sd1_def)
    moreover have "sm_state sm1 \<notin> handshake_states"
      using ingest_state [OF Cons.prems(3)] Inr q by blast
    then have "record_flows (packets_to target arrivals) fol1 =
        res_bind (ingest_all sequence_number (\<lambda>t. on_good_segment t key dir) arrivals rb1 (sm1, []))
          (\<lambda>(rb, sm, out). Inr (fol1\<lparr>flows := (flows fol1)(key \<mapsto>
             set_rx_side dir (sd1\<lparr>side_state_machine := sm, side_reorder_buffer := rb\<rparr>)
               (set_rx_side dir sd1 fl))\<rparr>, out))"
      using Cons.IH [of fol1 "set_rx_side dir sd1 fl"] Cons.prems(1,2)
      by (simp add: fol1_def sd1_def addressed_update fun_upd_same del: fun_upd_apply)
    ultimately show ?thesis
      using Inr q p ingest_all_out [of key dir arrivals rb1 sm1 out1]
      by (cases "ingest_all sequence_number (\<lambda>t. on_good_segment t key dir) arrivals rb1 (sm1, [])")
        (auto simp: packets_to_def fol1_def sd1_def prepend_def simp del: fun_upd_apply)
  qed
qed

section \<open>Conversations\<close>

text \<open>
  Both directions of a flow at once: each packet carries the direction it travels in, and the two
  directions interleave freely.
\<close>

definition conversation ::
  "IPTarget \<Rightarrow> (bool \<times> TimingInfo \<times> Segment) list \<Rightarrow> (TimingInfo \<times> IPTarget \<times> TcpHeader \<times> bytes) list" where
  "conversation key ps = map (\<lambda>(dir, timing, tcp, data). (timing, if dir then flip key else key, tcp, data)) ps"

definition travelling :: "bool \<Rightarrow> (bool \<times> 'p) list \<Rightarrow> 'p list" where
  "travelling dir ps = map snd (filter (\<lambda>p. fst p = dir) ps)"

fun call_dir :: "'m listener_call \<Rightarrow> bool option" where
  "call_dir (OnData timing target to_client data) = Some to_client"
| "call_dir (OnSideData d) = None"

definition calls_to :: "bool \<Rightarrow> 'm listener_call list \<Rightarrow> 'm listener_call list" where
  "calls_to dir out = filter (\<lambda>c. call_dir c = Some dir) out"

lemma calls_to_append [simp]: "calls_to dir (xs @ ys) = calls_to dir xs @ calls_to dir ys"
  by (simp add: calls_to_def)

lemma drive_state_out:
  assumes "drive_state sm tcp (\<lambda>sm out. Inr (sm, out @ [c])) out = Inr (sm', out')"
  shows "out' = out \<or> (out' = out @ [c] \<and> sm_state sm = Established)"
  using assms by (cases "sm_state sm") (auto simp: drive_state_def Let_def split: if_splits)

lemma on_good_segment_calls:
  assumes "on_good_segment timing key dir (sm, out) seg = Inr ((sm', out'), n)"
  shows "out' = out \<or> (out' = out @ [OnData timing key dir (snd seg)] \<and> sm_state sm = Established)"
proof -
  obtain tcp bs where seg: "seg = (tcp, bs)" by (cases seg)
  obtain sm1 where "drive_state sm tcp (\<lambda>sm out. Inr (sm, out @ [OnData timing key dir bs])) out = Inr (sm1, out')"
    using assms by (auto simp: seg on_good_segment_def Let_def res_simps split: if_splits)
  from drive_state_out [OF this] show ?thesis by (simp add: seg)
qed

lemma ingest_invariant:
  assumes "\<And>s h s' n. P s \<Longrightarrow> cb s h = Inr (s', n) \<Longrightarrow> P s'"
    and "P s" and "ingest sq cb x rb s = Inr (rb', s')"
  shows "P s'"
proof -
  obtain it' lowest' where loop:
    "export_loop cb (cursor_new (bt_insert (sq x) x (rb_reassemble rb)) (rb_lowest rb)) (rb_lowest rb) s =
       Inr (it', lowest', s')"
    using assms(3) by (auto simp: ingest_def Let_def res_simps split: if_splits)
  show ?thesis by (rule export_loop_invariant [where P = P and cb = cb, OF _ assms(2) loop]) (rule assms(1))
qed

lemma ingest_calls:
  assumes "ingest sequence_number (on_good_segment timing key dir) x rb (sm, []) = Inr (rb', sm', out)"
  shows "\<forall>c \<in> set out. \<exists>bs. c = OnData timing key dir bs"
proof -
  let ?P = "\<lambda>s. \<forall>c \<in> set (snd s). \<exists>bs. c = OnData timing key dir bs"
  have "?P s'" if "?P s" and "on_good_segment timing key dir s h = Inr (s', n)" for s h s' n
    using on_good_segment_calls [of timing key dir "fst s" "snd s" h "fst s'" "snd s'" n] that by auto
  from ingest_invariant [where P = ?P and cb = "on_good_segment timing key dir", OF this _ assms]
  show ?thesis by simp
qed

lemma calls_to_same:
  "\<forall>c \<in> set out. \<exists>bs. c = OnData timing key dir bs \<Longrightarrow> calls_to d out = (if d = dir then out else [])"
  by (induction out) (auto simp: calls_to_def)

lemma rx_set_rx_other: "rx_side d (set_rx_side dir sd fl) = (if d = dir then sd else rx_side d fl)"
  by (simp add: rx_side_def set_rx_side_def)

lemma travelling_Cons:
  "travelling d ((dir, x) # ps) = (if d = dir then x # travelling d ps else travelling d ps)"
  by (simp add: travelling_def)

lemma record_flows_conversation:
  assumes "flows fol key = Some fl" and "flows fol (flip key) = None"
    and "\<And>d. sm_state (side_state_machine (rx_side d fl)) \<notin> handshake_states"
    and "\<And>d. ingest_all sequence_number (\<lambda>t. on_good_segment t key d) (travelling d ps)
            (side_reorder_buffer (rx_side d fl)) (side_state_machine (rx_side d fl), []) =
          Inr (rb' d, sm' d, out' d)"
  shows "\<exists>fol' fl' out. record_flows (conversation key ps) fol = Inr (fol', out)
           \<and> flows fol' = (flows fol)(key \<mapsto> fl')
           \<and> (\<forall>d. calls_to d out = out' d
                \<and> side_state_machine (rx_side d fl') = sm' d \<and> side_reorder_buffer (rx_side d fl') = rb' d)"
  using assms
proof (induction ps arbitrary: fol fl out')
  case Nil
  then show ?case
    by (intro exI [of _ fol] exI [of _ fl] exI [of _ "[]"])
      (simp add: conversation_def travelling_def calls_to_def fun_upd_idem)
next
  case (Cons p ps)
  obtain dir timing tcp data where p: "p = (dir, timing, tcp, data)" by (metis surj_pair)
  let ?sd = "rx_side dir fl" and ?cb = "\<lambda>t. on_good_segment t key dir"
  have ad: "addressed fol (if dir then flip key else key) key dir"
    using Cons.prems(1,2) by (simp add: addressed_def)
  obtain rb1 sm1 out1 where i1: "ingest sequence_number (?cb timing) (tcp, data)
      (side_reorder_buffer ?sd) (side_state_machine ?sd, []) = Inr (rb1, sm1, out1)"
    using Cons.prems(4) [of dir] by (auto simp: p travelling_Cons res_simps)
  obtain outr where r: "ingest_all sequence_number ?cb (travelling dir ps) rb1 (sm1, []) = Inr (rb' dir, sm' dir, outr)"
    and outr: "out' dir = out1 @ outr"
    using Cons.prems(4) [of dir] i1 ingest_all_out [of key dir "travelling dir ps" rb1 sm1 out1]
    by (auto simp: p travelling_Cons res_simps)
  define sd1 where "sd1 = ?sd\<lparr>side_state_machine := sm1, side_reorder_buffer := rb1\<rparr>"
  define fl1 where "fl1 = set_rx_side dir sd1 fl"
  define fol1 where "fol1 = fol\<lparr>flows := (flows fol)(key \<mapsto> fl1)\<rparr>"
  have step: "record_flow timing (if dir then flip key else key) tcp data fol = Inr (fol1, out1)"
    using Cons.prems(3) [of dir] i1
    by (simp add: record_flow_stored [OF Cons.prems(1) ad] receive_side_def Let_def fol1_def fl1_def sd1_def)
  have "\<exists>fol' fl' out. record_flows (conversation key ps) fol1 = Inr (fol', out)
           \<and> flows fol' = (flows fol1)(key \<mapsto> fl')
           \<and> (\<forall>d. calls_to d out = (out'(dir := outr)) d
                \<and> side_state_machine (rx_side d fl') = sm' d \<and> side_reorder_buffer (rx_side d fl') = rb' d)"
  proof (rule Cons.IH)
    show "flows fol1 key = Some fl1" by (simp add: fol1_def)
    show "flows fol1 (flip key) = None" using Cons.prems(1,2) by (auto simp: fol1_def)
    show "sm_state (side_state_machine (rx_side d fl1)) \<notin> handshake_states" for d
      using Cons.prems(3) [of d] ingest_state [OF Cons.prems(3) [of dir] i1]
      by (cases "d = dir") (simp_all add: fl1_def rx_set_rx_other sd1_def)
    show "ingest_all sequence_number (\<lambda>t. on_good_segment t key d) (travelling d ps)
            (side_reorder_buffer (rx_side d fl1)) (side_state_machine (rx_side d fl1), []) =
          Inr (rb' d, sm' d, (out'(dir := outr)) d)" for d
      using Cons.prems(4) [of d] r
      by (cases "d = dir") (simp_all add: fl1_def rx_set_rx_other sd1_def p travelling_Cons)
  qed
  then obtain fol' fl' out where rest: "record_flows (conversation key ps) fol1 = Inr (fol', out)"
    "flows fol' = (flows fol1)(key \<mapsto> fl')"
    "\<And>d. calls_to d out = (out'(dir := outr)) d"
    "\<And>d. side_state_machine (rx_side d fl') = sm' d \<and> side_reorder_buffer (rx_side d fl') = rb' d"
    by blast
  have "record_flows (conversation key (p # ps)) fol = Inr (fol', out1 @ out)"
    using step rest(1) by (simp add: conversation_def p)
  moreover have "calls_to d (out1 @ out) = out' d" for d
    using rest(3) [of d] outr calls_to_same [OF ingest_calls [OF i1], of d] by (cases "d = dir") simp_all
  ultimately show ?case using rest(2,4) by (fastforce simp: fol1_def)
qed

definition established_at :: "SeqNum \<Rightarrow> TCPSide \<Rightarrow> bool" where
  "established_at n sd \<longleftrightarrow> sm_state (side_state_machine sd) = Established \<and> side_reorder_buffer sd = rb_new n"

definition data_stream :: "SeqNum \<Rightarrow> Segment list \<Rightarrow> bool" where
  "data_stream n segs \<longleftrightarrow> contiguous sequence_number (\<lambda>seg. length (snd seg)) n segs
     \<and> sum_list (map (\<lambda>seg. length (snd seg)) segs) \<le> 2147483647 \<and> (\<forall>seg \<in> set segs. \<not> flag_fin (fst seg))"

definition stream_length :: "Segment list \<Rightarrow> nat" where
  "stream_length segs = sum_list (map (\<lambda>seg. length (snd seg)) segs)"

lemma ingest_all_stream:
  assumes "established_at n sd" and "data_stream n segs" and "mset (map snd arrivals) = mset segs"
  shows "\<exists>sm out. ingest_all sequence_number (\<lambda>t. on_good_segment t key dir) arrivals
           (side_reorder_buffer sd) (side_state_machine sd, []) =
             Inr (rb_new (n + word_of_nat (stream_length segs)), sm, out)
         \<and> sm_state sm = Established \<and> map call_payload out = map (\<lambda>seg. Some (key, dir, snd seg)) segs"
proof -
  have est: "sm_state (side_state_machine sd) = Established" "side_reorder_buffer sd = rb_new n"
    using assms(1) by (simp_all add: established_at_def)
  have ds: "contiguous sequence_number (\<lambda>seg. length (snd seg)) n segs"
    "sum_list (map (\<lambda>seg. length (snd seg)) segs) \<le> 2147483647" "\<forall>seg \<in> set segs. \<not> flag_fin (fst seg)"
    using assms(2) by (simp_all add: data_stream_def)
  have "\<forall>seg \<in> set segs. length (snd seg) < 2 ^ 32"
    using ds(2) member_le_sum_list [of _ "map (\<lambda>seg. length (snd seg)) segs"] by fastforce
  from ogs.reassembles_permutation [OF ds(1,2) this assms(3), of key dir "(side_state_machine sd, [])"]
  obtain sm out where i: "ingest_all sequence_number (\<lambda>t. on_good_segment t key dir) arrivals (rb_new n)
      (side_state_machine sd, []) = Inr (rb_new (n + word_of_nat (stream_length segs)), sm, out)"
    and v: "segment_view (sm, out) = fold (view_segment key dir) segs (side_state_machine sd, [])"
    by (auto simp: segment_view_def stream_length_def)
  from view_fold_established [OF est(1) ds(3), of key dir "[]"] v
  have "sm_state sm = Established \<and> map call_payload out = map (\<lambda>seg. Some (key, dir, snd seg)) segs"
    by (auto simp: segment_view_def)
  with i est show ?thesis by auto
qed

lemma conversation_reassembled:
  assumes "flows fol key = Some fl" and "flows fol (flip key) = None"
    and "\<And>d. established_at (n d) (rx_side d fl)" and "\<And>d. data_stream (n d) (segs d)"
    and "\<And>d. mset (map snd (travelling d ps)) = mset (segs d)"
  shows "\<exists>fol' fl' out. record_flows (conversation key ps) fol = Inr (fol', out)
           \<and> flows fol' = (flows fol)(key \<mapsto> fl')
           \<and> (\<forall>d. map call_payload (calls_to d out) = map (\<lambda>seg. Some (key, d, snd seg)) (segs d)
                \<and> established_at (n d + word_of_nat (stream_length (segs d))) (rx_side d fl'))"
proof -
  have "\<exists>sm out. ingest_all sequence_number (\<lambda>t. on_good_segment t key d) (travelling d ps)
           (side_reorder_buffer (rx_side d fl)) (side_state_machine (rx_side d fl), []) =
             Inr (rb_new (n d + word_of_nat (stream_length (segs d))), sm, out)
         \<and> sm_state sm = Established \<and> map call_payload out = map (\<lambda>seg. Some (key, d, snd seg)) (segs d)" for d
    by (rule ingest_all_stream [OF assms(3,4,5)])
  then obtain sm' out' where *: "\<And>d. ingest_all sequence_number (\<lambda>t. on_good_segment t key d) (travelling d ps)
           (side_reorder_buffer (rx_side d fl)) (side_state_machine (rx_side d fl), []) =
             Inr (rb_new (n d + word_of_nat (stream_length (segs d))), sm' d, out' d)"
    "\<And>d. sm_state (sm' d) = Established"
    "\<And>d. map call_payload (out' d) = map (\<lambda>seg. Some (key, d, snd seg)) (segs d)"
    by metis
  have "sm_state (side_state_machine (rx_side d fl)) \<notin> handshake_states" for d
    using assms(3) [of d] by (simp add: established_at_def)
  from record_flows_conversation [OF assms(1,2) this *(1)]
  obtain fol' fl' out where "record_flows (conversation key ps) fol = Inr (fol', out)"
    "flows fol' = (flows fol)(key \<mapsto> fl')"
    "\<forall>d. calls_to d out = out' d \<and> side_state_machine (rx_side d fl') = sm' d
       \<and> side_reorder_buffer (rx_side d fl') = rb_new (n d + word_of_nat (stream_length (segs d)))"
    by blast
  with *(2,3) show ?thesis
    by (intro exI [of _ fol'] exI [of _ fl'] exI [of _ out]) (simp add: established_at_def)
qed

text \<open>
  C1. On a flow whose two sides are established, the follower hands the listener exactly the
  payloads of each direction, in stream order, whatever the order in which the segments of the two
  directions arrive and interleave: no payload is lost, duplicated, reordered or attributed to the
  wrong direction, for up to 2147483647 bytes per direction and across the wrap-around of the
  sequence numbers.  Afterwards both sides are established at the end of their streams.
\<close>

theorem follower_reassembles:
  assumes "flows fol key = Some fl" and "flows fol (flip key) = None"
    and "\<And>d. established_at (n d) (rx_side d fl)" and "\<And>d. data_stream (n d) (segs d)"
    and "\<And>d. mset (map snd (travelling d ps)) = mset (segs d)"
  shows "\<exists>fol' fl' out. record_flows (conversation key ps) fol = Inr (fol', out)
           \<and> flows fol' = (flows fol)(key \<mapsto> fl')
           \<and> (\<forall>d. map call_payload (calls_to d out) = map (\<lambda>seg. Some (key, d, snd seg)) (segs d)
                \<and> established_at (n d + word_of_nat (stream_length (segs d))) (rx_side d fl'))"
  by (rule conversation_reassembled [OF assms])

text \<open>
  C2. A three-way handshake on a new flow establishes both sides, each waiting for the sequence
  number after the peer's initial one, and hands nothing to the listener.  The two acknowledgement
  numbers must not be 0, that is, neither initial sequence number is 4294967295.
\<close>

theorem handshake_establishes:
  assumes "flows fol key = None" and "flows fol (flip key) = None" and "flip key \<noteq> key"
    and "flag_syn syn" and "\<not> flag_ack syn" and "\<not> flag_rst syn"
    and "flag_syn synack" and "flag_ack synack" and "\<not> flag_rst synack" and "ack_no synack \<noteq> 0"
    and "\<not> flag_syn ack" and "flag_ack ack" and "ack_no ack \<noteq> 0"
  shows "\<exists>fol' fl'. record_flows [(t1, key, syn, d1), (t2, flip key, synack, d2), (t3, key, ack, d3)] fol = Inr (fol', [])
           \<and> flows fol' = (flows fol)(key \<mapsto> fl')
           \<and> established_at (sequence_no syn + 1) (rx_side False fl')
           \<and> established_at (sequence_no synack + 1) (rx_side True fl')"
proof -
  have pred: "(a - 1 < a) \<and> \<not> a \<le> a - 1" if "a \<noteq> 0" for a :: u32
  proof -
    have "0 < unat a" using that by (simp add: unat_gt_0)
    then show ?thesis by (simp add: word_less_nat_alt word_le_nat_alt unat_sub_if')
  qed
  define sm1 where "sm1 = TCPStateMachine_default
    \<lparr>sm_state := SynReceived, irs := sequence_no syn, rcv_next := sequence_no syn + 1\<rparr>"
  define sd1 where "sd1 = TCPSide_default\<lparr>side_state_machine := sm1,
    side_reorder_buffer := rb_new (sequence_no syn + 1)\<rparr>"
  have r1: "record_flow t1 key syn d1 fol =
      Inr (fol\<lparr>flows := (flows fol)(key \<mapsto> initial_flow\<lparr>flow_server := sd1\<rparr>)\<rparr>, [])"
    using assms by (simp add: record_flow_def receive_side_def initial_flow_def drive_state_def Let_def
        TCPSide_default_def TCPStateMachine_default_def rb_default_def rb_new_def sm1_def sd1_def)
  obtain sd2 where r2: "receive_side t2 key True synack d2 (flow_client initial_flow) = Inr (sd2, [])"
    "established_at (sequence_no synack + 1) sd2"
    using assms pred [of "ack_no synack"]
    by (simp add: receive_side_def initial_flow_def drive_state_def Let_def established_at_def
        TCPSide_default_def TCPStateMachine_default_def rb_default_def rb_new_def)
  obtain sd3 where r3: "receive_side t3 key False ack d3 sd1 = Inr (sd3, [])"
    "established_at (sequence_no syn + 1) sd3"
    using assms pred [of "ack_no ack"]
    by (simp add: receive_side_def drive_state_def Let_def established_at_def sd1_def sm1_def rb_new_def)
  have "record_flows [(t1, key, syn, d1), (t2, flip key, synack, d2), (t3, key, ack, d3)] fol =
      Inr (fol\<lparr>flows := (flows fol)(key \<mapsto> \<lparr>flow_client = sd2, flow_server = sd3\<rparr>)\<rparr>, [])"
    using assms r1 r2 r3 by (simp add: record_flow_def initial_flow_def)
  with r2(2) r3(2) show ?thesis
    by (intro exI [of _ "fol\<lparr>flows := (flows fol)(key \<mapsto> \<lparr>flow_client = sd2, flow_server = sd3\<rparr>)\<rparr>"]
        exI [of _ "\<lparr>flow_client = sd2, flow_server = sd3\<rparr>"]) (simp add: rx_side_def del: record_flows.simps)
qed

section \<open>The follower's invariant\<close>

definition side_ok :: "TCPSide \<Rightarrow> bool" where
  "side_ok sd \<longleftrightarrow> bt_ok (rb_reassemble (side_reorder_buffer sd))
     \<and> (\<forall>seg \<in> ran (bt_get (rb_reassemble (side_reorder_buffer sd))). length (snd seg) < 2 ^ 32)"

text \<open>A flow is stored under one of its two orientations only.\<close>

definition follower_ok :: "TcpFollower \<Rightarrow> bool" where
  "follower_ok fol \<longleftrightarrow> (\<forall>key fl. flows fol key = Some fl \<longrightarrow>
     (\<forall>d. side_ok (rx_side d fl)) \<and> (flip key \<noteq> key \<longrightarrow> flows fol (flip key) = None))"

definition packet_dir :: "TcpFollower \<Rightarrow> IPTarget \<Rightarrow> bool" where
  "packet_dir fol target \<longleftrightarrow> flows fol (flip target) \<noteq> None"

definition packet_key :: "TcpFollower \<Rightarrow> IPTarget \<Rightarrow> IPTarget" where
  "packet_key fol target = (if packet_dir fol target then flip target else target)"

text \<open>The packet is not within half the sequence space after what its receiver expects next.\<close>

definition out_of_window :: "TcpFollower \<Rightarrow> IPTarget \<Rightarrow> TcpHeader \<Rightarrow> bool" where
  "out_of_window fol target tcp =
     (case flows fol (packet_key fol target) of
        None \<Rightarrow> False
      | Some fl \<Rightarrow>
          (let sd = rx_side (packet_dir fol target) fl
           in sm_state (side_state_machine sd) \<notin> handshake_states
              \<and> 2147483647 \<le> sequence_no tcp - rb_lowest (side_reorder_buffer sd)))"

lemma on_good_segment_fits: "length (snd seg) < 2 ^ 32 \<Longrightarrow> \<exists>r. on_good_segment timing key dir s seg = Inr r"
  using ogs.cb_timed [of seg timing key dir s] by blast

lemma drive_state_handshake:
  assumes "sm_state sm \<in> handshake_states"
  shows "\<exists>sm'. drive_state sm tcp pd s = Inr (sm', s)"
  using assms by (auto simp: drive_state_def Let_def)

lemma receive_side_handshake_calls:
  assumes "sm_state (side_state_machine sd) \<in> handshake_states"
  shows "\<exists>sm'. receive_side timing key dir tcp data sd =
           Inr (sd\<lparr>side_state_machine := sm', side_reorder_buffer := (side_reorder_buffer sd)\<lparr>rb_lowest := rcv_next sm'\<rparr>\<rparr>, [])"
proof -
  obtain sm' where "drive_state (side_state_machine sd) tcp
      (\<lambda>sm out. if length data = 0 then Inr (sm, out) else Inl AssertFailed) ([] :: bytes listener_call list) = Inr (sm', [])"
    by (rule exE [OF drive_state_handshake [OF assms(1)]])
  with assms show ?thesis by (auto simp: receive_side_def Let_def)
qed

lemma receive_side_handshake:
  assumes "sm_state (side_state_machine sd) \<in> handshake_states" and "side_ok sd"
  shows "\<exists>sd'. receive_side timing key dir tcp data sd = Inr (sd', []) \<and> side_ok sd'"
  using receive_side_handshake_calls [OF assms(1), of timing key dir tcp data] assms(2)
  by (auto simp: side_ok_def)

lemma receive_side_data:
  assumes "sm_state (side_state_machine sd) \<notin> handshake_states" and "side_ok sd" and "length data < 2 ^ 32"
  shows "if sequence_no tcp - rb_lowest (side_reorder_buffer sd) < 2147483647
         then \<exists>sd' out. receive_side timing key dir tcp data sd = Inr (sd', out) \<and> side_ok sd'
         else receive_side timing key dir tcp data sd = Inl AssertFailed"
proof -
  let ?rb = "side_reorder_buffer sd"
  note r = ingest_result [where cb = "on_good_segment timing key dir" and rb = ?rb and sq = sequence_number
      and x = "(tcp, data)" and fits = "\<lambda>seg. length (snd seg) < 2 ^ 32" and s = "(side_state_machine sd, [])"]
  have fin: "side_ok (sd\<lparr>side_state_machine := sm', side_reorder_buffer := rb'\<rparr>)"
    if "bt_ok (rb_reassemble rb')"
      and "bt_get (rb_reassemble rb') \<subseteq>\<^sub>m (bt_get (rb_reassemble ?rb))(sequence_no tcp \<mapsto> (tcp, data))" for sm' rb'
  proof -
    have "length (snd seg) < 2 ^ 32" if "bt_get (rb_reassemble rb') k = Some seg" for k seg
      using that \<open>_ \<subseteq>\<^sub>m _\<close> assms(2,3) unfolding side_ok_def map_le_def ran_def
      by (cases "k = sequence_no tcp") (fastforce dest: bspec [of _ _ k])+
    with that(1) show ?thesis by (auto simp: side_ok_def ran_def)
  qed
  have rr: "if sequence_no tcp - rb_lowest ?rb < 2147483647
      then \<exists>rb' s'. ingest sequence_number (on_good_segment timing key dir) (tcp, data) ?rb (side_state_machine sd, []) =
             Inr (rb', s') \<and> bt_ok (rb_reassemble rb')
             \<and> bt_get (rb_reassemble rb') \<subseteq>\<^sub>m (bt_get (rb_reassemble ?rb))(sequence_no tcp \<mapsto> (tcp, data))
      else ingest sequence_number (on_good_segment timing key dir) (tcp, data) ?rb (side_state_machine sd, []) =
             Inl AssertFailed"
  proof -
    have ok: "bt_ok (rb_reassemble ?rb)"
      "\<forall>seg \<in> ran (bt_get (rb_reassemble ?rb)). length (snd seg) < 2 ^ 32" "length (snd (tcp, data)) < 2 ^ 32"
      using assms(2,3) by (simp_all add: side_ok_def)
    have sq: "sequence_number (tcp, data) = sequence_no tcp" by (simp add: sequence_number_def)
    from r [OF on_good_segment_fits ok] show ?thesis unfolding sq .
  qed
  show ?thesis
  proof (cases "sequence_no tcp - rb_lowest ?rb < 2147483647")
    case True
    with rr obtain rb' sm' out where
      "ingest sequence_number (on_good_segment timing key dir) (tcp, data) ?rb (side_state_machine sd, []) =
         Inr (rb', sm', out)" "side_ok (sd\<lparr>side_state_machine := sm', side_reorder_buffer := rb'\<rparr>)"
      using fin by (metis surj_pair)
    with True assms(1) show ?thesis by (simp add: receive_side_def Let_def)
  next
    case False
    with rr assms(1) show ?thesis by (simp add: receive_side_def Let_def)
  qed
qed

lemma follower_ok_update:
  assumes "follower_ok fol" and "\<And>d. side_ok (rx_side d fl')"
    and "flows fol key = None \<Longrightarrow> flows fol (flip key) = None"
  shows "follower_ok (fol\<lparr>flows := (flows fol)(key \<mapsto> fl')\<rparr>)"
  using assms unfolding follower_ok_def by (auto simp: flip_eq_iff)

lemma side_ok_initial [simp]: "side_ok (rx_side d initial_flow)"
  by (simp add: side_ok_def rx_side_def initial_flow_def TCPSide_default_def rb_default_def rb_new_def bt_ok_def)

lemma bt_remove_subset: "set (bt_remove k m) \<subseteq> set m"
  by (induction k m rule: bt_remove.induct) auto

lemma bt_insert_subset: "set (bt_insert k v m) \<subseteq> insert (k, v) (set m)"
  by (induction k v m rule: bt_insert.induct) auto

lemma cursor_remove_values:
  assumes "cursor_remove c = (Some (k, v), c')"
  shows "v \<in> snd ` set (wc_map c) \<and> set (wc_map c') \<subseteq> set (wc_map c)"
proof -
  obtain pos where "map_of (wc_map c) pos = Some v" "wc_map c' = bt_remove pos (wc_map c)"
    using assms by (auto simp: cursor_remove_def Let_def bt_get_def split: option.splits)
  then show ?thesis using bt_remove_subset [of pos "wc_map c"] by (force dest: map_of_SomeD)
qed

text \<open>A property of the captured state that the callback keeps on the buffered segments.\<close>

lemma export_loop_buffered_invariant:
  assumes step: "\<And>s h s' n. P s \<Longrightarrow> h \<in> H \<Longrightarrow> cb s h = Inr (s', n) \<Longrightarrow> P s'"
    and "P s" and "snd ` set (wc_map it) \<subseteq> H" and "export_loop cb it lowest s = Inr (it', lowest', s')"
  shows "P s'"
  using assms(2-)
proof (induction "length (wc_map it)" arbitrary: it lowest s rule: less_induct)
  case less
  show ?case
  proof (cases "\<exists>v k w it1. peek it = Some (lowest, v) \<and> cursor_remove it = (Some (k, w), it1)")
    case True
    then obtain v k w it1 where *: "peek it = Some (lowest, v)" "cursor_remove it = (Some (k, w), it1)"
      by blast
    with less.prems obtain s1 n1 where s1: "cb s w = Inr (s1, n1)"
      and r: "export_loop cb it1 n1 s1 = Inr (it', lowest', s')"
      by (auto simp: export_loop.simps [of cb it] res_simps)
    from cursor_remove_values [OF *(2)] less.prems(2) have "w \<in> H" "snd ` set (wc_map it1) \<subseteq> H" by auto
    from less.hyps [OF cursor_remove_shrinks [OF *(2)] step [OF less.prems(1) this(1) s1] this(2) r] show ?thesis .
  next
    case False
    with less.prems show ?thesis
      by (auto simp: export_loop.simps [of cb it] split: option.splits prod.splits if_splits)
  qed
qed

lemma ingest_payloads:
  assumes "ingest sequence_number (on_good_segment timing key dir) x rb (sm, []) = Inr (rb', sm', out)"
  shows "\<forall>c \<in> set out. \<exists>seg \<in> insert x (snd ` set (rb_reassemble rb)). c = OnData timing key dir (snd seg)"
proof -
  let ?H = "insert x (snd ` set (rb_reassemble rb))"
  let ?P = "\<lambda>s. \<forall>c \<in> set (snd s). \<exists>seg \<in> ?H. c = OnData timing key dir (snd seg)"
  let ?it = "cursor_new (bt_insert (sequence_number x) x (rb_reassemble rb)) (rb_lowest rb)"
  obtain it' lowest' where loop: "export_loop (on_good_segment timing key dir) ?it (rb_lowest rb) (sm, []) =
      Inr (it', lowest', sm', out)"
    using assms by (auto simp: ingest_def Let_def res_simps split: if_splits)
  have step: "?P s'" if "?P s" and "h \<in> ?H" and "on_good_segment timing key dir s h = Inr (s', n)" for s h s' n
  proof
    fix c
    assume "c \<in> set (snd s')"
    then have "c \<in> set (snd s) \<or> c = OnData timing key dir (snd h)"
      using on_good_segment_calls [of timing key dir "fst s" "snd s" h "fst s'" "snd s'" n] that(3) by auto
    with that(1,2) show "\<exists>seg \<in> ?H. c = OnData timing key dir (snd seg)" by blast
  qed
  have "snd ` set (wc_map ?it) \<subseteq> ?H"
    using bt_insert_subset [of "sequence_number x" x "rb_reassemble rb"] by (auto simp: cursor_new_def)
  from export_loop_buffered_invariant [where P = ?P and H = ?H, OF step _ this loop] show ?thesis by simp
qed

lemma ingest_silent:
  assumes "sm_state sm \<notin> handshake_states" and "sm_state sm \<noteq> Established"
    and "ingest sequence_number (on_good_segment timing key dir) x rb (sm, []) = Inr (rb', sm', out)"
  shows "out = []"
proof -
  let ?P = "\<lambda>s. sm_state (fst s) = sm_state sm \<and> snd s = []"
  have "?P s'" if "?P s" and "on_good_segment timing key dir s h = Inr (s', n)" for s h s' n
    using that assms(1,2)
    by (cases s; cases h; cases "sm_state sm")
      (auto simp: on_good_segment_def drive_state_def Let_def split: if_splits)
  from ingest_invariant [where P = ?P and cb = "on_good_segment timing key dir", OF this _ assms(3)]
  show ?thesis by simp
qed

section \<open>One packet\<close>

definition entry_of :: "TcpFollower \<Rightarrow> IPTarget \<Rightarrow> TCPFlow" where
  "entry_of fol key = (case flows fol key of None \<Rightarrow> initial_flow | Some fl \<Rightarrow> fl)"

lemma record_flow_split:
  "record_flow timing target tcp data fol =
     (let dir = packet_dir fol target; key = packet_key fol target; fl = entry_of fol key
      in if flows fol key = None \<and> (\<not> flag_syn tcp \<or> flag_ack tcp) then Inr (fol, [])
         else res_bind (receive_side timing key dir tcp data (rx_side dir fl))
                (\<lambda>(sd, out). Inr (fol\<lparr>flows := (flows fol)(key \<mapsto> set_rx_side dir sd fl)\<rparr>, out)))"
  by (auto simp: record_flow_def packet_dir_def packet_key_def entry_of_def rx_side_def set_rx_side_def Let_def)

lemma record_flow_Inr:
  assumes "record_flow timing target tcp data fol = Inr (fol', out)"
  defines "dir \<equiv> packet_dir fol target" and "key \<equiv> packet_key fol target"
  obtains "fol' = fol" "out = []"
  | sd where "receive_side timing key dir tcp data (rx_side dir (entry_of fol key)) = Inr (sd, out)"
      "fol' = fol\<lparr>flows := (flows fol)(key \<mapsto> set_rx_side dir sd (entry_of fol key))\<rparr>"
proof (cases "flows fol key = None \<and> (\<not> flag_syn tcp \<or> flag_ack tcp)")
  case True
  then have "fol' = fol" "out = []" using assms(1) by (simp_all add: record_flow_split Let_def key_def)
  then show ?thesis by (rule that(1))
next
  case False
  then show ?thesis
    using assms(1) that(2)
    by (cases "receive_side timing key dir tcp data (rx_side dir (entry_of fol key))")
      (auto simp: record_flow_split Let_def key_def dir_def)
qed

lemma entry_of_ok: "follower_ok fol \<Longrightarrow> side_ok (rx_side d (entry_of fol key))"
  by (auto simp: entry_of_def follower_ok_def split: option.splits)

lemma entry_of_initial:
  "flows fol key = None \<Longrightarrow> sm_state (side_state_machine (rx_side d (entry_of fol key))) \<in> handshake_states"
  by (simp add: entry_of_def rx_side_def initial_flow_def)

lemma record_flow_total:
  assumes "follower_ok fol" and "length data < 2 ^ 32"
  shows "if out_of_window fol target tcp
         then record_flow timing target tcp data fol = Inl AssertFailed
         else \<exists>fol' out. record_flow timing target tcp data fol = Inr (fol', out) \<and> follower_ok fol'"
proof -
  let ?dir = "packet_dir fol target" and ?key = "packet_key fol target"
  let ?fl = "entry_of fol ?key"
  let ?sd = "rx_side ?dir ?fl"
  have upd: "follower_ok (fol\<lparr>flows := (flows fol)(?key \<mapsto> set_rx_side ?dir sd ?fl)\<rparr>)" if "side_ok sd" for sd
    using assms(1) that entry_of_ok [OF assms(1)]
    by (intro follower_ok_update) (auto simp: rx_set_rx_other packet_key_def packet_dir_def)
  show ?thesis
  proof (cases "sm_state (side_state_machine ?sd) \<in> handshake_states")
    case True
    then have "\<not> out_of_window fol target tcp"
      by (auto simp: out_of_window_def entry_of_def Let_def split: option.splits)
    with receive_side_handshake [OF True entry_of_ok [OF assms(1)], of timing ?key ?dir tcp data] upd assms(1)
    show ?thesis by (auto simp: record_flow_split Let_def)
  next
    case False
    then have stored: "flows fol ?key = Some ?fl"
      using entry_of_initial [of fol ?key ?dir] by (cases "flows fol ?key") (auto simp: entry_of_def)
    with False have w: "out_of_window fol target tcp \<longleftrightarrow>
        \<not> sequence_no tcp - rb_lowest (side_reorder_buffer ?sd) < 2147483647"
      by (auto simp: out_of_window_def Let_def not_less)
    show ?thesis
      using receive_side_data [OF False entry_of_ok [OF assms(1)] assms(2), of tcp timing ?key ?dir] upd stored
      unfolding w by (auto simp: record_flow_split Let_def split: if_splits)
  qed
qed

text \<open>
  C6. On a well-formed follower a packet either makes the one assertion of the reorder buffer fail,
  and does so exactly when its sequence number is not within half the sequence space after the
  position its receiver expects next, or is processed and leaves the follower well-formed; no other
  panic of the reassembly code can be reached.
\<close>

theorem follower_panics_iff:
  assumes "follower_ok fol" and "length data < 2 ^ 32"
  shows "if out_of_window fol target tcp
         then record_flow timing target tcp data fol = Inl AssertFailed
         else \<exists>fol' out. record_flow timing target tcp data fol = Inr (fol', out) \<and> follower_ok fol'"
  by (rule record_flow_total [OF assms])

lemma record_flow_origin:
  assumes "record_flow timing target tcp data fol = Inr (fol', out)"
  defines "dir \<equiv> packet_dir fol target" and "key \<equiv> packet_key fol target"
  shows "(\<forall>k. k \<noteq> key \<longrightarrow> flows fol' k = flows fol k)
    \<and> (out \<noteq> [] \<longrightarrow> (\<exists>fl. flows fol key = Some fl
          \<and> sm_state (side_state_machine (rx_side dir fl)) = Established
          \<and> (\<forall>c \<in> set out. \<exists>bs. c = OnData timing key dir bs
               \<and> (bs = data \<or> (\<exists>seg \<in> snd ` set (rb_reassemble (side_reorder_buffer (rx_side dir fl))). bs = snd seg)))))"
proof -
  note [simp] = dir_def key_def
  show ?thesis
  proof (cases rule: record_flow_Inr [OF assms(1)])
    case 1
    then show ?thesis by simp
  next
    case (2 sd)
    let ?rx = "rx_side (packet_dir fol target) (entry_of fol (packet_key fol target))"
    show ?thesis
    proof (cases "sm_state (side_state_machine ?rx) \<in> handshake_states")
      case True
      have "out = []"
        using 2(1) receive_side_handshake_calls [OF True, of timing "packet_key fol target" "packet_dir fol target" tcp data]
        by auto
      with 2(2) show ?thesis by simp
    next
      case False
      then have stored: "flows fol (packet_key fol target) = Some (entry_of fol (packet_key fol target))"
        using entry_of_initial [of fol "packet_key fol target"]
        by (cases "flows fol (packet_key fol target)") (auto simp: entry_of_def)
      obtain rb' sm' where i: "ingest sequence_number
          (on_good_segment timing (packet_key fol target) (packet_dir fol target)) (tcp, data)
          (side_reorder_buffer ?rx) (side_state_machine ?rx, []) = Inr (rb', sm', out)"
        using 2(1) False unfolding receive_side_def Let_def by (auto simp: res_simps)
      show ?thesis
        using 2(2) stored ingest_payloads [OF i] ingest_silent [OF False _ i] by fastforce
    qed
  qed
qed

lemma record_flows_data:
  "record_flows ps fol = Inr (fol', out) \<Longrightarrow> \<forall>c \<in> set out. call_dir c \<noteq> None"
proof (induction ps arbitrary: fol out)
  case (Cons p ps)
  obtain timing target tcp data where p: "p = (timing, target, tcp, data)" by (cases p) auto
  from Cons.prems obtain fol1 o1 o2 where r: "record_flow timing target tcp data fol = Inr (fol1, o1)"
    and rest: "record_flows ps fol1 = Inr (fol', o2)" "out = o1 @ o2"
    by (auto simp: p res_simps)
  from record_flow_origin [OF r] have "\<forall>c \<in> set o1. call_dir c \<noteq> None" by (cases "o1 = []") auto
  with Cons.IH [OF rest(1)] rest(2) show ?case by auto
qed simp

text \<open>
  C7. Processing a packet touches no flow but the packet's own, and every call made on the listener
  names that flow, the packet's direction and time, and a payload that is either the packet's own or
  one buffered for that direction before; calls are made only when the receiving side had completed
  its handshake and not yet closed.
\<close>

theorem record_flow_safe:
  assumes "record_flow timing target tcp data fol = Inr (fol', out)"
  defines "dir \<equiv> packet_dir fol target" and "key \<equiv> packet_key fol target"
  shows "(\<forall>k. k \<noteq> key \<longrightarrow> flows fol' k = flows fol k)
    \<and> (out \<noteq> [] \<longrightarrow> (\<exists>fl. flows fol key = Some fl
          \<and> sm_state (side_state_machine (rx_side dir fl)) = Established
          \<and> (\<forall>c \<in> set out. \<exists>bs. c = OnData timing key dir bs
               \<and> (bs = data \<or> (\<exists>seg \<in> snd ` set (rb_reassemble (side_reorder_buffer (rx_side dir fl))). bs = snd seg)))))"
  unfolding dir_def key_def by (rule record_flow_origin [OF assms(1)])

section \<open>Example connections\<close>

definition example_key :: IPTarget where
  "example_key = IPTarget_V4 40000 443 0x0a000001 0x0a000002"

definition example_time :: TimingInfo where
  "example_time = \<lparr>received_on_wire = 0, other_times = Map.empty\<rparr>"

definition example_header :: "u32 \<Rightarrow> u32 \<Rightarrow> bool \<Rightarrow> bool \<Rightarrow> TcpHeader" where
  "example_header sq ak syn ack =
     \<lparr>source_port = 40000, dest_port = 443, sequence_no = sq, ack_no = ak, flag_syn = syn, flag_ack = ack,
      flag_rst = False, flag_fin = False\<rparr>"

definition example_start :: "bool \<Rightarrow> u32" where
  "example_start d = (if d then 7 else 4294967294)"

definition example_side :: "bool \<Rightarrow> TCPSide" where
  "example_side d =
     \<lparr>side_state_machine = TCPStateMachine_default\<lparr>sm_state := Established\<rparr>,
      side_reorder_buffer = rb_new (example_start d)\<rparr>"

definition example_flow :: TCPFlow where
  "example_flow = \<lparr>flow_client = example_side True, flow_server = example_side False\<rparr>"

definition example_follower :: TcpFollower where
  "example_follower = \<lparr>flows = [example_key \<mapsto> example_flow]\<rparr>"

text \<open>The client's stream wraps around; its last segment arrives first, and the server answers in between.\<close>

definition example_segs :: "bool \<Rightarrow> Segment list" where
  "example_segs d =
     (if d then [(example_header 7 0 False True, [9])]
      else [(example_header 4294967294 0 False True, [1, 2, 3]), (example_header 1 0 False True, [4])])"

definition example_packets :: "(bool \<times> TimingInfo \<times> Segment) list" where
  "example_packets =
     [(False, example_time, example_header 1 0 False True, [4]),
      (True, example_time, example_header 7 0 False True, [9]),
      (False, example_time, example_header 4294967294 0 False True, [1, 2, 3])]"

lemmas example_defs = example_key_def example_header_def example_start_def example_side_def
  example_flow_def example_follower_def example_segs_def example_packets_def

lemmas tcp_eval = example_defs TcpFollower_default_def record_flow_def receive_side_def initial_flow_def
  TCPSide_default_def TCPStateMachine_default_def rb_default_def rb_new_def drive_state_def
  ingest_def on_good_segment_def sequence_number_def export_loop.simps cursor_new_def cursor_remove_def
  peek_def peek_next_def peek_inner_def peek_next_inner_def bt_first_ge_def bt_first_gt_def bt_first_def
  bt_get_def Let_def

lemma example_established: "established_at (example_start d) (rx_side d example_flow)"
  by (simp add: established_at_def example_defs rx_side_def)

lemma example_stream: "data_stream (example_start d) (example_segs d)"
  by (simp add: data_stream_def example_defs sequence_number_def)

lemma example_arrivals: "mset (map snd (travelling d example_packets)) = mset (example_segs d)"
  by (cases d) (simp_all add: travelling_def example_defs)

theorem follower_reassembles_witness:
  "\<exists>fol' fl' out. record_flows (conversation example_key example_packets) example_follower = Inr (fol', out)
     \<and> flows fol' = (flows example_follower)(example_key \<mapsto> fl')
     \<and> (\<forall>d. map call_payload (calls_to d out) = map (\<lambda>seg. Some (example_key, d, snd seg)) (example_segs d)
          \<and> established_at (example_start d + word_of_nat (stream_length (example_segs d))) (rx_side d fl'))"
  by (rule follower_reassembles [of example_follower example_key example_flow example_start example_segs
        example_packets, OF _ _ example_established example_stream example_arrivals])
    (simp_all add: example_defs)

theorem handshake_establishes_witness:
  "\<exists>fol' fl'. record_flows [(example_time, example_key, example_header 4294967293 0 True False, []),
        (example_time, flip example_key, example_header 6 4294967294 True True, []),
        (example_time, example_key, example_header 4294967294 7 False True, [])] TcpFollower_default = Inr (fol', [])
     \<and> flows fol' = (flows TcpFollower_default)(example_key \<mapsto> fl')
     \<and> established_at 4294967294 (rx_side False fl') \<and> established_at 7 (rx_side True fl')"
  using handshake_establishes [of TcpFollower_default example_key "example_header 4294967293 0 True False"
      "example_header 6 4294967294 True True" "example_header 4294967294 7 False True" example_time "[]" example_time "[]" example_time "[]"]
  by (simp add: example_defs TcpFollower_default_def del: record_flows.simps)

theorem follower_panics_iff_witness:
  "follower_ok example_follower \<and> out_of_window example_follower example_key (example_header 4294967290 0 False True)
   \<and> record_flow example_time example_key (example_header 4294967290 0 False True) [5] example_follower = Inl AssertFailed"
proof -
  have "follower_ok example_follower"
    by (simp add: follower_ok_def example_defs rx_side_def side_ok_def rb_new_def bt_ok_def)
  moreover have "out_of_window example_follower example_key (example_header 4294967290 0 False True)"
    by (simp add: out_of_window_def packet_key_def packet_dir_def rx_side_def example_defs rb_new_def)
  ultimately show ?thesis
    using follower_panics_iff [of example_follower "[5]" example_key "example_header 4294967290 0 False True" example_time]
    by simp
qed

theorem record_flow_safe_witness:
  "\<exists>fol' out. record_flow example_time example_key (example_header 4294967294 0 False True) [1, 2] example_follower =
       Inr (fol', out)
     \<and> out \<noteq> [] \<and> (\<forall>c \<in> set out. \<exists>bs. c = OnData example_time example_key False bs)"
proof -
  let ?r = "record_flow example_time example_key (example_header 4294967294 0 False True) [1, 2] example_follower"
  have "case ?r of Inl e \<Rightarrow> False | Inr (fol', out) \<Rightarrow> out \<noteq> []" by (simp add: tcp_eval)
  then obtain fol' out where r: "?r = Inr (fol', out)" "out \<noteq> []" by (auto split: sum.splits prod.splits)
  have "\<not> packet_dir example_follower example_key" by (simp add: packet_dir_def example_defs)
  with record_flow_safe [OF r(1)] r show ?thesis by (auto simp: packet_key_def)
qed

section \<open>Buffered data and bare acknowledgements\<close>

text \<open>
  The reorder buffer keeps one segment per sequence number.  A bare acknowledgement carries the
  sequence number of the sender's next byte, so one that arrives after a buffered data segment with
  that number replaces it, and the data is never delivered.
\<close>

theorem bare_ack_replaces_buffered_data:
  "map_sum id (\<lambda>(fol, out). map call_payload out)
     (record_flows
       [(example_time, example_key, example_header 1 0 False True, [4]),
        (example_time, example_key, example_header 1 0 False True, []),
        (example_time, example_key, example_header 4294967294 0 False True, [1, 2, 3])] example_follower) =
   Inr [Some (example_key, False, [1, 2, 3]), Some (example_key, False, [])]"
  by (simp add: tcp_eval) (simp add: word_le_nat_alt)

text \<open>Payload carried by the segment that completes the handshake is not handed on.\<close>

theorem handshake_payload_dropped:
  "map_sum id (\<lambda>(fol, out). map call_payload out)
     (record_flows
       [(example_time, example_key, example_header 9 0 True False, []),
        (example_time, flip example_key, example_header 6 10 True True, []),
        (example_time, example_key, example_header 10 7 False True, [1, 2, 3])] TcpFollower_default) = Inr []"
  by (simp add: tcp_eval)

text \<open>With the initial sequence number 4294967295 the acknowledgement number is 0 and the handshake is missed.\<close>

theorem handshake_missed_at_wrap:
  "map_sum id (\<lambda>(fol, out). map_option (\<lambda>fl. sm_state (side_state_machine (flow_client fl))) (flows fol example_key))
     (record_flows
       [(example_time, example_key, example_header 4294967295 0 True False, []),
        (example_time, flip example_key, example_header 6 0 True True, []),
        (example_time, example_key, example_header 0 7 False True, [])] TcpFollower_default) = Inr (Some SynSent)"
  by (simp add: tcp_eval)

end
