(* ===== verification/Big_Endian.thy ===== *)
theory Big_Endian
  imports Clipper_Prelude
begin

text \<open>
  Big-endian encodings of machine words: \<open>to_be_bytes\<close>, \<open>from_be_bytes\<close> and the cursors over byte
  buffers (\<open>put_u16\<close>, \<open>get_u32\<close> and the like) that the codecs use.
\<close>

primrec be_bytes :: "nat \<Rightarrow> 'w::len word \<Rightarrow> bytes" where
  "be_bytes 0 w = []"
| "be_bytes (Suc n) w = be_bytes n (drop_bit 8 w) @ [ucast w]"

definition from_be :: "bytes \<Rightarrow> 'w::len word" where
  "from_be bs = foldl (\<lambda>a b. push_bit 8 a OR ucast b) 0 bs"

lemma from_be_simps [simp]:
  "from_be [] = 0" "from_be (bs @ [b]) = push_bit 8 (from_be bs) OR ucast b"
  by (simp_all add: from_be_def)

lemma length_be_bytes [simp]: "length (be_bytes n w) = n"
  by (induction n arbitrary: w) simp_all

lemma from_be_bytes: "from_be (be_bytes n w) = (take_bit (8 * n) w :: 'w::len word)"
proof (induction n arbitrary: w)
  case (Suc n)
  have "push_bit 8 (take_bit (8 * n) (drop_bit 8 w)) OR ucast (ucast w :: u8) = take_bit (8 * Suc n) w"
    by (rule bit_word_eqI) (auto simp: bit_simps)
  with Suc.IH show ?case by simp
qed simp

lemma from_be_full: "LENGTH('w) \<le> 8 * n \<Longrightarrow> from_be (be_bytes n w) = (w :: 'w::len word)"
  by (simp add: from_be_bytes take_bit_word_eq_self)

lemma be_from_bytes:
  "8 * length bs \<le> LENGTH('w) \<Longrightarrow> be_bytes (length bs) (from_be bs :: 'w::len word) = bs"
proof (induction bs rule: rev_induct)
  case (snoc b bs)
  have l: "8 * length bs + 8 \<le> LENGTH('w)" using snoc.prems by simp
  have "drop_bit 8 (push_bit 8 (from_be bs :: 'w word) OR ucast b) = (from_be bs :: 'w word)"
  proof -
    have small: "from_be bs = (take_bit (8 * length bs) (from_be bs) :: 'w word)"
      using from_be_bytes [of "length bs" "from_be bs :: 'w word"] snoc.IH l by simp
    show ?thesis
      by (subst (1 2) small) (rule bit_word_eqI, use l in \<open>auto simp: bit_simps dest: bit_imp_le_length\<close>)
  qed
  moreover have "ucast (push_bit 8 (from_be bs :: 'w word) OR ucast b) = b"
    by (rule bit_word_eqI, use l in \<open>auto simp: bit_simps\<close>)
  ultimately show ?case using snoc.IH l by simp
qed simp

lemma unat_from_be_less:
  assumes "8 * length bs \<le> LENGTH('w)"
  shows "unat (from_be bs :: 'w::len word) < 2 ^ (8 * length bs)"
proof -
  have "from_be bs = (take_bit (8 * length bs) (from_be bs) :: 'w word)"
    using from_be_bytes [of "length bs" "from_be bs :: 'w word"] be_from_bytes [OF assms] by simp
  then have "unat (from_be bs :: 'w word) = take_bit (8 * length bs) (unat (from_be bs :: 'w word))"
    by (metis unsigned_take_bit_eq)
  then show ?thesis by (metis take_bit_nat_less_exp)
qed

end
