(* ===== verification/Tls_Codec.thy ===== *)
theory Tls_Codec
  imports Big_Endian "HOL-Library.Sublist"
begin

text \<open>
  The wire format of the bundled \<open>rustls\<close> (\<open>rustls-intercept/rustls/src/msgs\<close>): readers over a byte
  string, the codecs of integers, enums and length-prefixed payloads (\<open>codec.rs\<close>, \<open>base.rs\<close>,
  \<open>enums.rs\<close>) and TLS records (\<open>message.rs\<close>).

  What a codec promises is the locale \<open>codec_contract\<close>: reading an encoding gives the value back and
  leaves the reader after it, and nothing but encodings is read.
\<close>

section \<open>Errors\<close>

datatype KeyExchangeAlgorithm = KX_BulkOnly | KX_DH | KX_DHE | KX_RSA | KX_ECDH | KX_ECDHE

datatype InvalidMessage =
    HandshakePayloadTooLarge
  | InvalidCcs
  | InvalidContentType
  | InvalidCertificateStatusType
  | InvalidCertRequest
  | InvalidDhParams
  | InvalidEmptyPayload
  | InvalidKeyUpdate
  | InvalidServerName
  | MessageTooLarge
  | MessageTooShort
  | MissingData string
  | MissingKeyExchange
  | NoSignatureSchemes
  | TrailingData string
  | UnexpectedMessage string
  | UnknownProtocolVersion
  | UnsupportedCompression
  | UnsupportedCurveType
  | UnsupportedKeyExchangeAlgorithm KeyExchangeAlgorithm

section \<open>Readers\<close>

record Reader =
  rd_buffer :: bytes
  rd_cursor :: nat

definition Reader_init :: "bytes \<Rightarrow> Reader" where
  "Reader_init bs = \<lparr>rd_buffer = bs, rd_cursor = 0\<rparr>"

definition rd_left :: "Reader \<Rightarrow> nat" where
  "rd_left r = length (rd_buffer r) - rd_cursor r"

definition rd_take :: "nat \<Rightarrow> Reader \<Rightarrow> (bytes \<times> Reader) option" where
  "rd_take n r =
     (if rd_left r < n then None
      else Some (take n (drop (rd_cursor r) (rd_buffer r)), r\<lparr>rd_cursor := rd_cursor r + n\<rparr>))"

definition rd_sub :: "nat \<Rightarrow> Reader \<Rightarrow> InvalidMessage + Reader \<times> Reader" where
  "rd_sub n r = (case rd_take n r of Some (bs, r) \<Rightarrow> Inr (Reader_init bs, r) | None \<Rightarrow> Inl MessageTooShort)"

definition rd_rest :: "Reader \<Rightarrow> bytes \<times> Reader" where
  "rd_rest r = (drop (rd_cursor r) (rd_buffer r), r\<lparr>rd_cursor := length (rd_buffer r)\<rparr>)"

definition rd_any_left :: "Reader \<Rightarrow> bool" where
  "rd_any_left r \<longleftrightarrow> rd_cursor r < length (rd_buffer r)"

definition rd_expect_empty :: "string \<Rightarrow> Reader \<Rightarrow> InvalidMessage + unit" where
  "rd_expect_empty name r = (if rd_any_left r then Inl (TrailingData name) else Inr ())"

definition rd_used :: "Reader \<Rightarrow> nat" where
  "rd_used r = rd_cursor r"

type_synonym 'a codec_read = "Reader \<Rightarrow> InvalidMessage + 'a \<times> Reader"

text \<open>The operator \<open>?\<close> on what a codec has read.\<close>

definition rd_bind :: "InvalidMessage + 'a \<times> Reader \<Rightarrow> ('a \<Rightarrow> Reader \<Rightarrow> InvalidMessage + 'b) \<Rightarrow> InvalidMessage + 'b" where
  "rd_bind m f = (case m of Inl e \<Rightarrow> Inl e | Inr (x, r) \<Rightarrow> f x r)"

section \<open>Integers\<close>

definition u8_encode :: "u8 \<Rightarrow> bytes" where
  "u8_encode v = [v]"

definition u8_read :: "u8 codec_read" where
  "u8_read r = (case rd_take 1 r of Some ([b], r) \<Rightarrow> Inr (b, r) | _ \<Rightarrow> Inl (MissingData ''u8''))"

definition u16_encode :: "u16 \<Rightarrow> bytes" where
  "u16_encode v = be_bytes 2 v"

definition u16_read :: "u16 codec_read" where
  "u16_read r = (case rd_take 2 r of Some ([b1, b2], r) \<Rightarrow> Inr (from_be [b1, b2], r) | _ \<Rightarrow> Inl (MissingData ''u8''))"

text \<open>The type \<open>u24\<close> is a 32 bit integer of which the last three bytes are written.\<close>

definition u24_encode :: "u32 \<Rightarrow> bytes" where
  "u24_encode v = drop 1 (be_bytes 4 v)"

definition u24_read :: "u32 codec_read" where
  "u24_read r = (case rd_take 3 r of Some ([a, b, c], r) \<Rightarrow> Inr (from_be [0, a, b, c], r) | _ \<Rightarrow> Inl (MissingData ''u24''))"

definition u32_encode :: "u32 \<Rightarrow> bytes" where
  "u32_encode v = be_bytes 4 v"

definition u32_read :: "u32 codec_read" where
  "u32_read r = (case rd_take 4 r of Some ([a, b, c, d], r) \<Rightarrow> Inr (from_be [a, b, c, d], r) | _ \<Rightarrow> Inl (MissingData ''u32''))"

definition u64_encode :: "u64 \<Rightarrow> bytes" where
  "u64_encode v = be_bytes 8 v"

definition u64_read :: "u64 codec_read" where
  "u64_read r =
     (case rd_take 8 r of
        Some ([a, b, c, d, e, f, g, h], r) \<Rightarrow> Inr (from_be [a, b, c, d, e, f, g, h], r)
      | _ \<Rightarrow> Inl (MissingData ''u64''))"

section \<open>Enums\<close>

datatype ContentType = CT_ChangeCipherSpec | CT_Alert | CT_Handshake | CT_ApplicationData | CT_Heartbeat | CT_Unknown u8

fun ContentType_get_u8 :: "ContentType \<Rightarrow> u8" where
  "ContentType_get_u8 CT_ChangeCipherSpec = 0x14"
| "ContentType_get_u8 CT_Alert = 0x15"
| "ContentType_get_u8 CT_Handshake = 0x16"
| "ContentType_get_u8 CT_ApplicationData = 0x17"
| "ContentType_get_u8 CT_Heartbeat = 0x18"
| "ContentType_get_u8 (CT_Unknown x) = x"

definition ContentType_from :: "u8 \<Rightarrow> ContentType" where
  "ContentType_from x =
     (if x = 0x14 then CT_ChangeCipherSpec else if x = 0x15 then CT_Alert else if x = 0x16 then CT_Handshake
      else if x = 0x17 then CT_ApplicationData else if x = 0x18 then CT_Heartbeat else CT_Unknown x)"

definition ContentType_encode :: "ContentType \<Rightarrow> bytes" where
  "ContentType_encode t = u8_encode (ContentType_get_u8 t)"

definition ContentType_read :: "ContentType codec_read" where
  "ContentType_read r = (case u8_read r of Inr (x, r) \<Rightarrow> Inr (ContentType_from x, r) | Inl _ \<Rightarrow> Inl (MissingData ''ContentType''))"

datatype ProtocolVersion =
    SSLv2 | SSLv3 | TLSv1_0 | TLSv1_1 | TLSv1_2 | TLSv1_3 | DTLSv1_0 | DTLSv1_2 | DTLSv1_3 | PV_Unknown u16

fun ProtocolVersion_get_u16 :: "ProtocolVersion \<Rightarrow> u16" where
  "ProtocolVersion_get_u16 SSLv2 = 0x0200"
| "ProtocolVersion_get_u16 SSLv3 = 0x0300"
| "ProtocolVersion_get_u16 TLSv1_0 = 0x0301"
| "ProtocolVersion_get_u16 TLSv1_1 = 0x0302"
| "ProtocolVersion_get_u16 TLSv1_2 = 0x0303"
| "ProtocolVersion_get_u16 TLSv1_3 = 0x0304"
| "ProtocolVersion_get_u16 DTLSv1_0 = 0xFEFF"
| "ProtocolVersion_get_u16 DTLSv1_2 = 0xFEFD"
| "ProtocolVersion_get_u16 DTLSv1_3 = 0xFEFC"
| "ProtocolVersion_get_u16 (PV_Unknown x) = x"

definition ProtocolVersion_from :: "u16 \<Rightarrow> ProtocolVersion" where
  "ProtocolVersion_from x =
     (if x = 0x0200 then SSLv2 else if x = 0x0300 then SSLv3 else if x = 0x0301 then TLSv1_0
      else if x = 0x0302 then TLSv1_1 else if x = 0x0303 then TLSv1_2 else if x = 0x0304 then TLSv1_3
      else if x = 0xFEFF then DTLSv1_0 else if x = 0xFEFD then DTLSv1_2 else if x = 0xFEFC then DTLSv1_3
      else PV_Unknown x)"

definition ProtocolVersion_encode :: "ProtocolVersion \<Rightarrow> bytes" where
  "ProtocolVersion_encode v = u16_encode (ProtocolVersion_get_u16 v)"

definition ProtocolVersion_read :: "ProtocolVersion codec_read" where
  "ProtocolVersion_read r =
     (case u16_read r of Inr (x, r) \<Rightarrow> Inr (ProtocolVersion_from x, r) | Inl _ \<Rightarrow> Inl (MissingData ''ProtocolVersion''))"

section \<open>Length-prefixed payloads\<close>

text \<open>The certificate in a handshake has the format of \<open>PayloadU24\<close>.\<close>

definition PayloadU24_encode :: "bytes \<Rightarrow> bytes" where
  "PayloadU24_encode p = u24_encode (word_of_nat (length p)) @ p"

definition PayloadU24_read :: "bytes codec_read" where
  "PayloadU24_read r =
     rd_bind (u24_read r) (\<lambda>len r. rd_bind (rd_sub (unat len) r) (\<lambda>sub r. Inr (fst (rd_rest sub), r)))"

definition PayloadU16_encode :: "bytes \<Rightarrow> bytes" where
  "PayloadU16_encode p = u16_encode (word_of_nat (length p)) @ p"

definition PayloadU16_read :: "bytes codec_read" where
  "PayloadU16_read r =
     rd_bind (u16_read r) (\<lambda>len r. rd_bind (rd_sub (unat len) r) (\<lambda>sub r. Inr (fst (rd_rest sub), r)))"

definition PayloadU8_encode :: "bytes \<Rightarrow> bytes" where
  "PayloadU8_encode p = u8_encode (word_of_nat (length p)) @ p"

definition PayloadU8_read :: "bytes codec_read" where
  "PayloadU8_read r =
     rd_bind (u8_read r) (\<lambda>len r. rd_bind (rd_sub (unat len) r) (\<lambda>sub r. Inr (fst (rd_rest sub), r)))"

section \<open>Records\<close>

record OpaqueMessage =
  om_typ :: ContentType
  om_version :: ProtocolVersion
  om_payload :: bytes

datatype MessageError =
    ME_TooShortForHeader | ME_TooShortForLength | ME_InvalidEmptyPayload | ME_MessageTooLarge
  | ME_InvalidContentType | ME_UnknownProtocolVersion

definition MAX_PAYLOAD :: u16 where
  "MAX_PAYLOAD = 16384 + 2048"

definition OM_HEADER_SIZE :: u16 where
  "OM_HEADER_SIZE = 1 + 2 + 2"

definition MAX_WIRE_SIZE :: nat where
  "MAX_WIRE_SIZE = unat (MAX_PAYLOAD + OM_HEADER_SIZE)"

definition OpaqueMessage_read :: "Reader \<Rightarrow> MessageError + OpaqueMessage \<times> Reader" where
  "OpaqueMessage_read r =
     (case ContentType_read r of
        Inl _ \<Rightarrow> Inl ME_TooShortForHeader
      | Inr (typ, r) \<Rightarrow>
          if (case typ of CT_Unknown _ \<Rightarrow> True | _ \<Rightarrow> False) then Inl ME_InvalidContentType
          else case ProtocolVersion_read r of
              Inl _ \<Rightarrow> Inl ME_TooShortForHeader
            | Inr (version, r) \<Rightarrow>
                if (case version of PV_Unknown v \<Rightarrow> v AND 0xff00 \<noteq> 0x0300 | _ \<Rightarrow> False) then Inl ME_UnknownProtocolVersion
                else case u16_read r of
                    Inl _ \<Rightarrow> Inl ME_TooShortForHeader
                  | Inr (len, r) \<Rightarrow>
                      if typ \<noteq> CT_ApplicationData \<and> len = 0 then Inl ME_InvalidEmptyPayload
                      else if MAX_PAYLOAD \<le> len then Inl ME_MessageTooLarge
                      else case rd_sub (unat len) r of
                          Inl _ \<Rightarrow> Inl ME_TooShortForLength
                        | Inr (sub, r) \<Rightarrow>
                            Inr (\<lparr>om_typ = typ, om_version = version, om_payload = fst (rd_rest sub)\<rparr>, r))"

definition OpaqueMessage_encode :: "OpaqueMessage \<Rightarrow> bytes" where
  "OpaqueMessage_encode m =
     ContentType_encode (om_typ m) @ ProtocolVersion_encode (om_version m) @
     u16_encode (word_of_nat (length (om_payload m))) @ om_payload m"

section \<open>What a codec promises\<close>

definition remaining :: "Reader \<Rightarrow> bytes" where
  "remaining r = drop (rd_cursor r) (rd_buffer r)"

definition advance :: "nat \<Rightarrow> Reader \<Rightarrow> Reader" where
  "advance n r = r\<lparr>rd_cursor := rd_cursor r + n\<rparr>"

lemma remaining_simps [simp]:
  "remaining (Reader_init bs) = bs" "remaining (advance n r) = drop n (remaining r)"
  "advance n (advance m r) = advance (m + n) r" "rd_cursor (advance n r) = rd_cursor r + n"
  by (simp_all add: remaining_def Reader_init_def advance_def add.assoc add.commute)

lemma advance_inject [simp]: "advance m r = advance n r \<longleftrightarrow> m = n"
  by (auto dest: arg_cong [where f = rd_cursor])

lemma rd_take_remaining:
  "rd_take n r = (if length (remaining r) < n then None else Some (take n (remaining r), advance n r))"
  by (simp add: rd_take_def rd_left_def remaining_def advance_def)

lemma rd_sub_remaining:
  "rd_sub n r = (if length (remaining r) < n then Inl MessageTooShort else Inr (Reader_init (take n (remaining r)), advance n r))"
  by (simp add: rd_sub_def rd_take_remaining)

lemma rd_any_left_remaining: "rd_any_left r \<longleftrightarrow> remaining r \<noteq> []"
  by (auto simp: rd_any_left_def remaining_def)

lemma rd_take_sound: "rd_take n r = Some (bs, r') \<Longrightarrow> length bs = n \<and> prefix bs (remaining r) \<and> r' = advance n r"
  by (auto simp: rd_take_remaining take_is_prefix split: if_splits)

lemma rd_rest_init [simp]: "fst (rd_rest (Reader_init bs)) = bs"
  by (simp add: rd_rest_def Reader_init_def)

lemma rd_bind_simps [simp]: "rd_bind (Inr (x, r)) f = f x r" "rd_bind (Inl e) f = Inl e"
  by (simp_all add: rd_bind_def)

locale codec_contract =
  fixes encode :: "'a \<Rightarrow> bytes"
    and codec_read :: "'a codec_read"
    and valid :: "'a \<Rightarrow> bool"
  assumes read_encode: "valid x \<Longrightarrow> remaining r = encode x @ bs \<Longrightarrow> codec_read r = Inr (x, advance (length (encode x)) r)"
    and read_sound: "codec_read r = Inr (x, r') \<Longrightarrow>
      valid x \<and> prefix (encode x) (remaining r) \<and> r' = advance (length (encode x)) r"
    and encode_not_Nil: "encode x \<noteq> []"
begin

lemma read_moves: "codec_read r = Inr (x, r') \<Longrightarrow> \<exists>n. 0 < n \<and> n \<le> length (remaining r) \<and> r' = advance n r"
  using read_sound [of r x r'] encode_not_Nil [of x] by (auto dest: prefix_length_le)

end

section \<open>The codecs keep the promise\<close>

lemma be_bytes_numeral:
  "be_bytes 2 v = [ucast (drop_bit 8 v), ucast v]"
  "be_bytes 4 v = [ucast (drop_bit 24 v), ucast (drop_bit 16 v), ucast (drop_bit 8 v), ucast v]"
  "be_bytes 8 v = [ucast (drop_bit 56 v), ucast (drop_bit 48 v), ucast (drop_bit 40 v), ucast (drop_bit 32 v),
     ucast (drop_bit 24 v), ucast (drop_bit 16 v), ucast (drop_bit 8 v), ucast v]"
  by (simp_all add: eval_nat_numeral)

text \<open>Integers are read as the bytes that a big-endian encoding has.\<close>

lemma be_read_sound:
  assumes "rd_take n r = Some (bs, r')" and "8 * n \<le> LENGTH('w)"
  shows "prefix (be_bytes n (from_be bs :: 'w::len word)) (remaining r)
    \<and> r' = advance (length (be_bytes n (from_be bs :: 'w word))) r"
  using rd_take_sound [OF assms(1)] be_from_bytes [where 'w = 'w, of bs] assms(2) by auto

interpretation u8: codec_contract u8_encode u8_read "\<lambda>_. True"
proof unfold_locales
  show "True \<and> prefix (u8_encode x) (remaining r) \<and> r' = advance (length (u8_encode x)) r" if "u8_read r = Inr (x, r')" for x r r'
    using that by (auto simp: u8_read_def u8_encode_def dest: rd_take_sound split: option.splits list.splits)
qed (simp_all add: u8_encode_def u8_read_def rd_take_remaining)

interpretation u16: codec_contract u16_encode u16_read "\<lambda>_. True"
proof unfold_locales
  show "True \<and> prefix (u16_encode x) (remaining r) \<and> r' = advance (length (u16_encode x)) r" if "u16_read r = Inr (x, r')" for x r r'
    using that be_read_sound [where 'w = 16 and n = 2] by (auto simp: u16_read_def u16_encode_def split: option.splits list.splits)
  show "u16_read r = Inr (x, advance (length (u16_encode x)) r)" if "remaining r = u16_encode x @ bs" for x r bs
    using that from_be_full [of 2 x] by (simp add: u16_encode_def u16_read_def rd_take_remaining be_bytes_numeral)
qed (simp add: u16_encode_def be_bytes_numeral)

lemma from_be_zero [simp]: "from_be (0 # bs) = from_be bs"
  by (simp add: from_be_def)

interpretation u24: codec_contract u24_encode u24_read "\<lambda>v. v < 2 ^ 24"
proof unfold_locales
  show "x < 2 ^ 24 \<and> prefix (u24_encode x) (remaining r) \<and> r' = advance (length (u24_encode x)) r"
    if r: "u24_read r = Inr (x, r')" for x r r'
  proof -
    obtain a b c where t: "rd_take 3 r = Some ([a, b, c], r')" "x = from_be [a, b, c]"
      using r by (auto simp: u24_read_def split: option.splits list.splits)
    have "be_bytes 4 x = [0, a, b, c]" using be_from_bytes [where 'w = 32, of "[0, a, b, c]"] t(2) by (simp add: be_bytes_numeral)
    moreover have "x < 2 ^ 24" using unat_from_be_less [where 'w = 32, of "[a, b, c]"] t(2) by (simp add: word_less_nat_alt)
    ultimately show ?thesis using rd_take_sound [OF t(1)] by (simp add: u24_encode_def)
  qed
  show "u24_read r = Inr (x, advance (length (u24_encode x)) r)" if "x < 2 ^ 24" and "remaining r = u24_encode x @ bs" for x r bs
  proof -
    have "ucast (drop_bit 24 x) = (0 :: u8)" using that(1) by (simp add: drop_bit_eq_div div_word_less)
    with that(2) from_be_full [of 4 x] show ?thesis
      by (simp add: u24_encode_def u24_read_def rd_take_remaining be_bytes_numeral)
  qed
qed (simp add: u24_encode_def be_bytes_numeral)

interpretation u32: codec_contract u32_encode u32_read "\<lambda>_. True"
proof unfold_locales
  show "True \<and> prefix (u32_encode x) (remaining r) \<and> r' = advance (length (u32_encode x)) r" if "u32_read r = Inr (x, r')" for x r r'
    using that be_read_sound [where 'w = 32 and n = 4] by (auto simp: u32_read_def u32_encode_def split: option.splits list.splits)
  show "u32_read r = Inr (x, advance (length (u32_encode x)) r)" if "remaining r = u32_encode x @ bs" for x r bs
    using that from_be_full [of 4 x] by (simp add: u32_encode_def u32_read_def rd_take_remaining be_bytes_numeral)
qed (simp add: u32_encode_def be_bytes_numeral)

interpretation u64: codec_contract u64_encode u64_read "\<lambda>_. True"
proof unfold_locales
  show "True \<and> prefix (u64_encode x) (remaining r) \<and> r' = advance (length (u64_encode x)) r" if "u64_read r = Inr (x, r')" for x r r'
    using that be_read_sound [where 'w = 64 and n = 8] by (auto simp: u64_read_def u64_encode_def split: option.splits list.splits)
  show "u64_read r = Inr (x, advance (length (u64_encode x)) r)" if "remaining r = u64_encode x @ bs" for x r bs
    using that from_be_full [of 8 x] by (simp add: u64_encode_def u64_read_def rd_take_remaining be_bytes_numeral)
qed (simp add: u64_encode_def be_bytes_numeral)

lemma ContentType_from_get: "ContentType_get_u8 (ContentType_from x) = x"
  by (simp add: ContentType_from_def)

lemma ProtocolVersion_from_get: "ProtocolVersion_get_u16 (ProtocolVersion_from x) = x"
  by (simp add: ProtocolVersion_from_def)

text \<open>Enum values in normal form: a known code is not wrapped as unknown.\<close>

definition ContentType_ok :: "ContentType \<Rightarrow> bool" where
  "ContentType_ok t \<longleftrightarrow> ContentType_from (ContentType_get_u8 t) = t"

definition ProtocolVersion_ok :: "ProtocolVersion \<Rightarrow> bool" where
  "ProtocolVersion_ok v \<longleftrightarrow> ProtocolVersion_from (ProtocolVersion_get_u16 v) = v"

interpretation content_type: codec_contract ContentType_encode ContentType_read ContentType_ok
proof unfold_locales
  show "ContentType_ok x \<and> prefix (ContentType_encode x) (remaining r) \<and> r' = advance (length (ContentType_encode x)) r"
    if "ContentType_read r = Inr (x, r')" for x r r'
    using that by (auto simp: ContentType_read_def ContentType_ok_def ContentType_encode_def ContentType_from_get dest: u8.read_sound split: sum.splits)
  show "ContentType_read r = Inr (x, advance (length (ContentType_encode x)) r)"
    if "ContentType_ok x" "remaining r = ContentType_encode x @ bs" for x r bs
    using that u8.read_encode [where x = "ContentType_get_u8 x" and r = r and bs = bs]
    by (simp add: ContentType_read_def ContentType_encode_def ContentType_ok_def)
qed (simp add: ContentType_encode_def u8.encode_not_Nil)

interpretation protocol_version: codec_contract ProtocolVersion_encode ProtocolVersion_read ProtocolVersion_ok
proof unfold_locales
  show "ProtocolVersion_ok x \<and> prefix (ProtocolVersion_encode x) (remaining r) \<and> r' = advance (length (ProtocolVersion_encode x)) r"
    if "ProtocolVersion_read r = Inr (x, r')" for x r r'
    using that by (auto simp: ProtocolVersion_read_def ProtocolVersion_ok_def ProtocolVersion_encode_def ProtocolVersion_from_get dest: u16.read_sound split: sum.splits)
  show "ProtocolVersion_read r = Inr (x, advance (length (ProtocolVersion_encode x)) r)"
    if "ProtocolVersion_ok x" "remaining r = ProtocolVersion_encode x @ bs" for x r bs
    using that u16.read_encode [where x = "ProtocolVersion_get_u16 x" and r = r and bs = bs]
    by (simp add: ProtocolVersion_read_def ProtocolVersion_encode_def ProtocolVersion_ok_def)
qed (simp add: ProtocolVersion_encode_def u16.encode_not_Nil)

text \<open>A payload after its length, for any integer codec of the length.\<close>

context codec_contract
begin

lemma prefixed_sound:
  assumes "rd_bind (codec_read r) (\<lambda>len r. rd_bind (rd_sub (f len) r) (\<lambda>sub r. Inr (fst (rd_rest sub), r))) = Inr (p, r')"
  obtains len where "valid len" "f len = length p" "prefix (encode len @ p) (remaining r)" "r' = advance (length (encode len @ p)) r"
proof -
  obtain len r1 where 1: "codec_read r = Inr (len, r1)" using assms by (auto simp: rd_bind_def split: sum.splits)
  note s = read_sound [OF 1]
  then obtain tl where tl: "remaining r = encode len @ tl" by (auto simp: prefix_def)
  with assms 1 s have "f len \<le> length tl" "p = take (f len) tl" "r' = advance (length (encode len) + f len) r"
    by (auto simp: rd_sub_remaining split: if_splits)
  with s tl that [of len] show thesis by (simp add: take_is_prefix)
qed

lemma prefixed_encode:
  assumes "valid len" and "f len = length p" and "remaining r = (encode len @ p) @ bs"
  shows "rd_bind (codec_read r) (\<lambda>len r. rd_bind (rd_sub (f len) r) (\<lambda>sub r. Inr (fst (rd_rest sub), r))) =
    Inr (p, advance (length (encode len @ p)) r)"
  using read_encode [OF assms(1), of r "p @ bs"] assms(2,3) by (simp add: rd_sub_remaining)

end

lemma unat_length:
  "n < 2 ^ 8 \<Longrightarrow> unat (word_of_nat n :: u8) = n" "n < 2 ^ 16 \<Longrightarrow> unat (word_of_nat n :: u16) = n"
  "n < 2 ^ 24 \<Longrightarrow> unat (word_of_nat n :: u32) = n"
  unfolding unat_of_nat by simp_all

lemma unat_eq_word: "unat (w :: 'a::len word) = n \<Longrightarrow> w = word_of_nat n \<and> n < 2 ^ LENGTH('a)"
  using unsigned_less [of w] by (auto simp flip: of_nat_less_iff)

lemma length_less_24: "n < 2 ^ 24 \<Longrightarrow> (word_of_nat n :: u32) < 2 ^ 24"
  by (simp add: word_less_nat_alt unat_length [simplified])

interpretation payload_u8: codec_contract PayloadU8_encode PayloadU8_read "\<lambda>p. length p < 2 ^ 8"
proof unfold_locales
  show "length p < 2 ^ 8 \<and> prefix (PayloadU8_encode p) (remaining r) \<and> r' = advance (length (PayloadU8_encode p)) r"
    if "PayloadU8_read r = Inr (p, r')" for p r r'
    using that unfolding PayloadU8_read_def
    by (rule u8.prefixed_sound) (auto simp: PayloadU8_encode_def word_less_nat_alt dest!: unat_eq_word)
  show "PayloadU8_read r = Inr (p, advance (length (PayloadU8_encode p)) r)"
    if "length p < 2 ^ 8" "remaining r = PayloadU8_encode p @ bs" for p r bs
    using that unfolding PayloadU8_read_def PayloadU8_encode_def by (intro u8.prefixed_encode TrueI unat_length)
qed (simp add: PayloadU8_encode_def u8_encode_def)

interpretation payload_u16: codec_contract PayloadU16_encode PayloadU16_read "\<lambda>p. length p < 2 ^ 16"
proof unfold_locales
  show "length p < 2 ^ 16 \<and> prefix (PayloadU16_encode p) (remaining r) \<and> r' = advance (length (PayloadU16_encode p)) r"
    if "PayloadU16_read r = Inr (p, r')" for p r r'
    using that unfolding PayloadU16_read_def
    by (rule u16.prefixed_sound) (auto simp: PayloadU16_encode_def word_less_nat_alt dest!: unat_eq_word)
  show "PayloadU16_read r = Inr (p, advance (length (PayloadU16_encode p)) r)"
    if "length p < 2 ^ 16" "remaining r = PayloadU16_encode p @ bs" for p r bs
    using that unfolding PayloadU16_read_def PayloadU16_encode_def by (intro u16.prefixed_encode TrueI unat_length)
qed (simp add: PayloadU16_encode_def u16.encode_not_Nil)

interpretation payload_u24: codec_contract PayloadU24_encode PayloadU24_read "\<lambda>p. length p < 2 ^ 24"
proof unfold_locales
  show "length p < 2 ^ 24 \<and> prefix (PayloadU24_encode p) (remaining r) \<and> r' = advance (length (PayloadU24_encode p)) r"
    if "PayloadU24_read r = Inr (p, r')" for p r r'
    using that unfolding PayloadU24_read_def
    by (rule u24.prefixed_sound) (auto simp: PayloadU24_encode_def word_less_nat_alt dest!: unat_eq_word)
  show "PayloadU24_read r = Inr (p, advance (length (PayloadU24_encode p)) r)"
    if "length p < 2 ^ 24" "remaining r = PayloadU24_encode p @ bs" for p r bs
    using that unfolding PayloadU24_read_def PayloadU24_encode_def
    by (intro u24.prefixed_encode length_less_24 unat_length)
qed (simp add: PayloadU24_encode_def u24.encode_not_Nil)

section \<open>Records round-trip\<close>

text \<open>The bounds the reader checks.\<close>

definition OpaqueMessage_ok :: "OpaqueMessage \<Rightarrow> bool" where
  "OpaqueMessage_ok m \<longleftrightarrow>
     ContentType_ok (om_typ m) \<and> (\<forall>x. om_typ m \<noteq> CT_Unknown x)
     \<and> ProtocolVersion_ok (om_version m) \<and> (\<forall>v. om_version m = PV_Unknown v \<longrightarrow> v AND 0xff00 = 0x0300)
     \<and> length (om_payload m) < unat MAX_PAYLOAD \<and> (om_payload m = [] \<longrightarrow> om_typ m = CT_ApplicationData)"

lemma length_encodes [simp]:
  "length (u8_encode v) = 1" "length (u16_encode w) = 2" "length (ContentType_encode t) = 1" "length (ProtocolVersion_encode p) = 2"
  by (simp_all add: u8_encode_def u16_encode_def ContentType_encode_def ProtocolVersion_encode_def)

lemma unat_MAX_PAYLOAD: "unat MAX_PAYLOAD = 18432"
  by (simp add: MAX_PAYLOAD_def)

lemma OpaqueMessage_read_encode:
  assumes "OpaqueMessage_ok m" and "remaining r = OpaqueMessage_encode m @ bs"
  shows "OpaqueMessage_read r = Inr (m, advance (length (OpaqueMessage_encode m)) r)"
proof -
  have ok: "ContentType_ok (om_typ m)" "\<not> (case om_typ m of CT_Unknown _ \<Rightarrow> True | _ \<Rightarrow> False)"
      "ProtocolVersion_ok (om_version m)" "\<not> (case om_version m of PV_Unknown v \<Rightarrow> v AND 0xff00 \<noteq> 0x0300 | _ \<Rightarrow> False)"
    using assms(1) by (auto simp: OpaqueMessage_ok_def split: ContentType.splits ProtocolVersion.splits)
  let ?len = "word_of_nat (length (om_payload m)) :: u16"
  have n: "length (om_payload m) < 18432" using assms(1) by (simp add: OpaqueMessage_ok_def unat_MAX_PAYLOAD)
  then have len: "unat ?len = length (om_payload m)" by (simp add: unat_length)
  with n have l: "\<not> MAX_PAYLOAD \<le> ?len" "?len = 0 \<longleftrightarrow> om_payload m = []"
    by (auto simp: word_le_nat_alt unat_MAX_PAYLOAD unat_eq_0 [symmetric])
  have "remaining r = ContentType_encode (om_typ m) @ ProtocolVersion_encode (om_version m) @ u16_encode ?len @ om_payload m @ bs"
    using assms(2) by (simp add: OpaqueMessage_encode_def)
  from this content_type.read_encode [OF ok(1) this]
    protocol_version.read_encode [OF ok(3), of "advance (Suc 0) r" "u16_encode ?len @ om_payload m @ bs"]
    u16.read_encode [OF TrueI, of "advance (Suc (Suc (Suc 0))) r" ?len "om_payload m @ bs"]
  show ?thesis
    using ok l assms(1) by (auto simp: OpaqueMessage_read_def OpaqueMessage_ok_def OpaqueMessage_encode_def rd_sub_remaining len)
qed

text \<open>What is read is the encoding of a record within the bounds, in full.\<close>

lemma OpaqueMessage_read_sound:
  assumes "OpaqueMessage_read r = Inr (m, r')"
  shows "OpaqueMessage_ok m \<and> prefix (OpaqueMessage_encode m) (remaining r) \<and> r' = advance (length (OpaqueMessage_encode m)) r"
proof -
  obtain ty r1 where 1: "ContentType_read r = Inr (ty, r1)"
    and ct: "\<not> (case ty of CT_Unknown _ \<Rightarrow> True | _ \<Rightarrow> False)"
    using assms by (auto simp: OpaqueMessage_read_def split: sum.splits if_splits)
  obtain version r2 where 2: "ProtocolVersion_read r1 = Inr (version, r2)"
    and ver: "\<not> (case version of PV_Unknown v \<Rightarrow> v AND 0xff00 \<noteq> 0x0300 | _ \<Rightarrow> False)"
    using assms 1 ct by (auto simp: OpaqueMessage_read_def split: sum.splits if_splits)
  obtain len r3 where 3: "u16_read r2 = Inr (len, r3)"
    using assms 1 ct 2 ver by (auto simp: OpaqueMessage_read_def split: sum.splits if_splits)
  note reads = 1 2 3 ct ver
  have len: "\<not> (ty \<noteq> CT_ApplicationData \<and> len = 0)" "\<not> MAX_PAYLOAD \<le> len" "unat len \<le> length (remaining r3)"
    and m: "m = \<lparr>om_typ = ty, om_version = version, om_payload = take (unat len) (remaining r3)\<rparr>" "r' = advance (unat len) r3"
    using assms reads by (auto simp: OpaqueMessage_read_def rd_sub_remaining split: if_splits)
  obtain t1 t2 t3 where t: "remaining r = ContentType_encode ty @ t1" "remaining r1 = ProtocolVersion_encode version @ t2"
      "remaining r2 = u16_encode len @ t3"
    using content_type.read_sound [OF 1] protocol_version.read_sound [OF 2] u16.read_sound [OF 3] by (auto simp: prefix_def)
  have r: "r1 = advance 1 r" "r2 = advance 2 r1" "r3 = advance 2 r2" "ContentType_ok ty" "ProtocolVersion_ok version"
    using content_type.read_sound [OF 1] protocol_version.read_sound [OF 2] u16.read_sound [OF 3] by simp_all
  with t have rem: "t1 = ProtocolVersion_encode version @ t2" "t2 = u16_encode len @ t3" "remaining r3 = t3" by simp_all
  have l: "length (om_payload m) = unat len" using m(1) len(3) by simp
  then have "(word_of_nat (length (om_payload m)) :: u16) = len" by simp
  with t(1) rem m have "prefix (OpaqueMessage_encode m) (remaining r)"
    by (simp add: OpaqueMessage_encode_def take_is_prefix)
  moreover have "OpaqueMessage_ok m"
    using r(4,5) ct ver len(1,2) l m(1)
    by (auto simp: OpaqueMessage_ok_def word_le_nat_alt unat_eq_0 split: ContentType.splits ProtocolVersion.splits)
  ultimately show ?thesis using m r l by (simp add: OpaqueMessage_encode_def)
qed

text \<open>
  C26. A record is read exactly where its encoding stands: the reader accepts the bytes at its position
  if and only if they start with the encoding of a record within the bounds it checks, it returns that
  record, and it moves past that encoding and no further.  The bounds are a known content type, a version
  that is either one the library knows, SSL 2 and DTLS included, or of the form 0x03XX, less than 18432
  bytes of payload, and a payload that is empty only for application data.
\<close>

theorem record_codec_exact:
  "OpaqueMessage_read r = Inr (m, r') \<longleftrightarrow>
     OpaqueMessage_ok m \<and> prefix (OpaqueMessage_encode m) (remaining r) \<and> r' = advance (length (OpaqueMessage_encode m)) r"
  using OpaqueMessage_read_sound [of r m r'] OpaqueMessage_read_encode [of m r] by (auto simp: prefix_def)

text \<open>So records with the version of SSL 2 are read, although it is not of the form 0x03XX.\<close>

theorem sslv2_record_accepted:
  "\<exists>r. OpaqueMessage_read (Reader_init [22, 2, 0, 0, 1, 7]) =
     Inr (\<lparr>om_typ = CT_Handshake, om_version = SSLv2, om_payload = [7]\<rparr>, r)"
proof -
  have "OpaqueMessage_ok \<lparr>om_typ = CT_Handshake, om_version = SSLv2, om_payload = [7]\<rparr>"
    by (simp add: OpaqueMessage_ok_def ContentType_ok_def ContentType_from_def ProtocolVersion_ok_def ProtocolVersion_from_def unat_MAX_PAYLOAD)
  from OpaqueMessage_read_encode [OF this, of "Reader_init [22, 2, 0, 0, 1, 7]" "[]"] show ?thesis
    by (simp add: OpaqueMessage_encode_def ContentType_encode_def ProtocolVersion_encode_def u8_encode_def u16_encode_def
        be_bytes_def Reader_init_def remaining_def)
qed

end
