(* ===== verification/Tls_Parse.thy ===== *)
theory Tls_Parse
  imports Tls_Codec
begin

text \<open>
  Parsers with lists (\<open>msgs/codec.rs\<close>): the codec of \<open>Vec\<close>, whose loop runs forever if an element is
  read from no bytes, so a parser is a function into \<open>option\<close>, and the encoders with their debug
  assertions.

  The locale \<open>parse_contract\<close> is what the parsers of messages promise: they return, and what they
  return is encoded as the bytes they have read.  The lists of elements that promise this, and that
  are read from at least one byte (\<open>element_contract\<close>), promise it too.  Byte strings are limited to
  what a deframed handshake message can have, because a list with a length of three bytes is cut at
  its maximum.
\<close>

type_synonym 'a parse = "Reader \<Rightarrow> (InvalidMessage + 'a \<times> Reader) option"

definition parse_of :: "'a codec_read \<Rightarrow> 'a parse" where
  "parse_of rd r = Some (rd r)"

text \<open>The operator \<open>?\<close>.\<close>

definition p_bind ::
  "(InvalidMessage + 'a \<times> Reader) option \<Rightarrow> ('a \<Rightarrow> Reader \<Rightarrow> (InvalidMessage + 'b) option) \<Rightarrow> (InvalidMessage + 'b) option" where
  "p_bind m f = (case m of None \<Rightarrow> None | Some (Inl e) \<Rightarrow> Some (Inl e) | Some (Inr (x, r)) \<Rightarrow> f x r)"

definition p_fail :: "InvalidMessage \<Rightarrow> (InvalidMessage + 'b) option" where
  "p_fail e = Some (Inl e)"

definition p_return :: "'a \<Rightarrow> Reader \<Rightarrow> (InvalidMessage + 'a \<times> Reader) option" where
  "p_return x r = Some (Inr (x, r))"

text \<open>\<open>expect_empty\<close> on the reader of a part, followed by the result and the outer reader.\<close>

definition p_finish :: "string \<Rightarrow> Reader \<Rightarrow> 'a \<Rightarrow> Reader \<Rightarrow> (InvalidMessage + 'a \<times> Reader) option" where
  "p_finish name sub x r = Some (case rd_expect_empty name sub of Inl e \<Rightarrow> Inl e | Inr _ \<Rightarrow> Inr (x, r))"

definition Payload_read :: "Reader \<Rightarrow> bytes \<times> Reader" where
  "Payload_read r = rd_rest r"

section \<open>Lists\<close>

definition res_append :: "bytes res \<Rightarrow> bytes res \<Rightarrow> bytes res" where
  "res_append x y = res_bind x (\<lambda>a. res_bind y (\<lambda>b. Inr (a @ b)))"

primrec enc_all :: "bytes res list \<Rightarrow> bytes res" where
  "enc_all [] = Inr []"
| "enc_all (x # xs) = res_append x (enc_all xs)"

lemma res_append_Nil [simp]: "res_append e (Inr []) = e"
  by (cases e) (simp_all add: res_append_def res_simps)

datatype ListLength = Len_U8 | Len_U16 | Len_U24 nat

definition vec_encode :: "ListLength \<Rightarrow> ('a \<Rightarrow> bytes res) \<Rightarrow> 'a list \<Rightarrow> bytes res" where
  "vec_encode size_len enc xs =
     res_bind (enc_all (map enc xs)) (\<lambda>body.
       let len = length body
       in case size_len of
            Len_U8 \<Rightarrow> if len \<le> 0xff then Inr (u8_encode (word_of_nat len) @ body) else Inl AssertFailed
          | Len_U16 \<Rightarrow> if len \<le> 0xffff then Inr (u16_encode (word_of_nat len) @ body) else Inl AssertFailed
          | Len_U24 mx \<Rightarrow> if len \<le> 0xffffff then Inr (u24_encode (word_of_nat len) @ body) else Inl AssertFailed)"

partial_function (option) vec_read_loop :: "'a parse \<Rightarrow> Reader \<Rightarrow> 'a list \<Rightarrow> (InvalidMessage + 'a list) option" where
  "vec_read_loop rd sub ret =
     (if rd_any_left sub
      then (case rd sub of
              None \<Rightarrow> None
            | Some x \<Rightarrow> (case x of Inl e \<Rightarrow> Some (Inl e) | Inr (x, sub) \<Rightarrow> vec_read_loop rd sub (ret @ [x])))
      else Some (Inr ret))"

definition vec_len_read :: "ListLength \<Rightarrow> nat codec_read" where
  "vec_len_read size_len r =
     (case size_len of
        Len_U8 \<Rightarrow> rd_bind (u8_read r) (\<lambda>n r. Inr (unat n, r))
      | Len_U16 \<Rightarrow> rd_bind (u16_read r) (\<lambda>n r. Inr (unat n, r))
      | Len_U24 mx \<Rightarrow> rd_bind (u24_read r) (\<lambda>n r. Inr (min (unat n) mx, r)))"

definition vec_read :: "ListLength \<Rightarrow> 'a parse \<Rightarrow> 'a list parse" where
  "vec_read size_len rd r =
     (case rd_bind (vec_len_read size_len r) rd_sub of
        Inl e \<Rightarrow> Some (Inl e)
      | Inr (sub, r) \<Rightarrow> map_option (map_sum id (\<lambda>xs. (xs, r))) (vec_read_loop rd sub []))"

section \<open>What is read is what is encoded\<close>

definition Reader_ok :: "Reader \<Rightarrow> bool" where
  "Reader_ok r \<longleftrightarrow> rd_cursor r \<le> length (rd_buffer r)"

definition small :: "Reader \<Rightarrow> bool" where
  "small r \<longleftrightarrow> length (remaining r) \<le> 0xffff"

definition reads :: "bytes res \<Rightarrow> Reader \<Rightarrow> Reader \<Rightarrow> bool" where
  "reads e r r' \<longleftrightarrow> (Reader_ok r \<longrightarrow> (\<exists>bs. prefix bs (remaining r) \<and> r' = advance (length bs) r \<and> (small r \<longrightarrow> e = Inr bs)))"

lemma Reader_ok_init [simp]: "Reader_ok (Reader_init bs)"
  by (simp add: Reader_ok_def Reader_init_def)

lemma Reader_ok_advance: "Reader_ok r \<Longrightarrow> n \<le> length (remaining r) \<Longrightarrow> Reader_ok (advance n r)"
  by (auto simp: Reader_ok_def remaining_def advance_def)

lemma small_advance: "small r \<Longrightarrow> small (advance n r)"
  by (simp add: small_def)

lemma reads_Nil [intro!]: "reads (Inr []) r r"
  by (auto simp: reads_def advance_def intro!: exI [of _ "[]"])

lemma reads_append [intro]:
  assumes "reads e r r1" and "reads e' r1 r2"
  shows "reads (res_append e e') r r2"
  unfolding reads_def
proof
  assume ok: "Reader_ok r"
  with assms(1) obtain bs where bs: "prefix bs (remaining r)" "r1 = advance (length bs) r" "small r \<longrightarrow> e = Inr bs"
    by (auto simp: reads_def)
  then have "Reader_ok r1" using ok by (auto intro: Reader_ok_advance dest: prefix_length_le)
  with assms(2) obtain bs' where bs': "prefix bs' (remaining r1)" "r2 = advance (length bs') r1" "small r1 \<longrightarrow> e' = Inr bs'"
    by (auto simp: reads_def)
  have "prefix (bs @ bs') (remaining r)" using bs(1,2) bs'(1) by (auto simp: prefix_def)
  moreover have "small r \<longrightarrow> res_append e e' = Inr (bs @ bs')"
    using bs bs' by (auto simp: res_append_def res_simps small_advance)
  ultimately show "\<exists>bs. prefix bs (remaining r) \<and> r2 = advance (length bs) r \<and> (small r \<longrightarrow> res_append e e' = Inr bs)"
    using bs(2) bs'(2) by (intro exI [of _ "bs @ bs'"]) simp
qed

text \<open>The same, and at least one byte is read.\<close>

definition reads1 :: "bytes res \<Rightarrow> Reader \<Rightarrow> Reader \<Rightarrow> bool" where
  "reads1 e r r' \<longleftrightarrow> reads e r r' \<and> (Reader_ok r \<longrightarrow> rd_cursor r < rd_cursor r')"

lemma reads1_reads [dest]: "reads1 e r r' \<Longrightarrow> reads e r r'"
  by (simp add: reads1_def)

lemma reads_rest: "Payload_read r = (bs, r') \<Longrightarrow> reads (Inr bs) r r'"
  by (auto simp: Payload_read_def rd_rest_def reads_def remaining_def advance_def Reader_ok_def)

lemma reads_ok: "reads e r r' \<Longrightarrow> Reader_ok r \<Longrightarrow> Reader_ok r' \<and> rd_cursor r \<le> rd_cursor r' \<and> length (remaining r') \<le> length (remaining r)"
  by (auto simp: reads_def intro: Reader_ok_advance dest: prefix_length_le)

lemma reads1_append [intro]: "reads1 e r r1 \<Longrightarrow> reads e' r1 r2 \<Longrightarrow> reads1 (res_append e e') r r2"
  using reads_append [of e r r1 e' r2] reads_ok [of e r r1] reads_ok [of e' r1 r2] by (fastforce simp: reads1_def)

text \<open>A part with its own reader, read to its end, and the length before it.\<close>

lemma reads_part:
  assumes "rd_sub n r = Inr (sub, r')" and "reads e sub sub'" and "\<not> rd_any_left sub'"
  shows "\<exists>bs. prefix bs (remaining r) \<and> length bs = n \<and> r' = advance n r \<and> (small r \<longrightarrow> e = Inr bs)"
proof -
  let ?bs = "take n (remaining r)"
  have s: "n \<le> length (remaining r)" "sub = Reader_init ?bs" "r' = advance n r"
    using assms(1) by (auto simp: rd_sub_remaining split: if_split_asm)
  from assms(2) obtain bs where bs: "prefix bs ?bs" "sub' = advance (length bs) sub" "small sub \<longrightarrow> e = Inr bs"
    using s(2) by (auto simp: reads_def)
  from bs(1) obtain zs where z: "?bs = bs @ zs" by (auto simp: prefix_def)
  have "remaining sub' = zs" by (simp add: bs(2) s(2) z)
  with assms(3) z have "bs = ?bs" by (simp add: rd_any_left_remaining)
  moreover have "small r \<longrightarrow> small sub" by (auto simp: small_def s(2))
  ultimately show ?thesis using s bs(3) by (intro exI [of _ ?bs]) (auto simp: take_is_prefix)
qed

context codec_contract
begin

lemma reads_codec: "codec_read r = Inr (x, r') \<Longrightarrow> reads1 (Inr (encode x)) r r'"
  using read_sound [of r x r'] encode_not_Nil [of x] by (auto simp: reads_def reads1_def)

lemma reads_prefixed:
  assumes "codec_read r = Inr (len, r1)" and "rd_sub (f len) r1 = Inr (sub, r2)" and "reads e sub sub'" and "\<not> rd_any_left sub'"
    and "\<And>len body. valid len \<Longrightarrow> length body = f len \<Longrightarrow> h body = Inr (encode len @ body)"
  shows "reads1 (res_bind e h) r r2"
proof -
  note s = read_sound [OF assms(1)]
  from reads_part [OF assms(2-4)] obtain bs where
    bs: "prefix bs (remaining r1)" "length bs = f len" "r2 = advance (f len) r1" "small r1 \<longrightarrow> e = Inr bs" by blast
  have "prefix (encode len @ bs) (remaining r)" using s bs(1) by (auto simp: prefix_def)
  moreover have "small r \<longrightarrow> small r1" using s by (simp add: small_advance)
  ultimately have "\<exists>bs. prefix bs (remaining r) \<and> r2 = advance (length bs) r \<and> (small r \<longrightarrow> res_bind e h = Inr bs)"
    using s bs assms(5) [of len bs] by (intro exI [of _ "encode len @ bs"]) (auto simp: res_simps)
  then show ?thesis using s bs(3) encode_not_Nil [of len] by (auto simp: reads1_def reads_def)
qed

end

text \<open>The length of three bytes is cut at the maximum of the list, which a small reader does not reach.\<close>

lemma reads_cut:
  assumes "u24_read r = Inr (len, r1)" and "rd_sub (min (unat len) mx) r1 = Inr (sub, r2)" and "reads e sub sub'" and "\<not> rd_any_left sub'"
    and "0xffff < mx" and "\<And>len body. len < 2 ^ 24 \<Longrightarrow> length body = unat len \<Longrightarrow> h body = Inr (u24_encode len @ body)"
  shows "reads (res_bind e h) r r2"
  unfolding reads_def
proof
  note s = u24.read_sound [OF assms(1)]
  from reads_part [OF assms(2-4)] obtain bs where
    bs: "prefix bs (remaining r1)" "length bs = min (unat len) mx" "r2 = advance (min (unat len) mx) r1" "small r1 \<longrightarrow> e = Inr bs" by blast
  show "\<exists>bs. prefix bs (remaining r) \<and> r2 = advance (length bs) r \<and> (small r \<longrightarrow> res_bind e h = Inr bs)"
  proof (intro exI [of _ "u24_encode len @ bs"] conjI impI)
    show "prefix (u24_encode len @ bs) (remaining r)" using s bs(1) by (auto simp: prefix_def)
    show "r2 = advance (length (u24_encode len @ bs)) r" using s bs(2,3) by simp
    assume "small r"
    then have small: "small r1" using s by (simp add: small_advance)
    then have "length bs < mx" using prefix_length_le [OF bs(1)] assms(5) by (simp add: small_def)
    with bs(2) s have "h bs = Inr (u24_encode len @ bs)" by (intro assms(6)) auto
    with bs(4) small show "res_bind e h = Inr (u24_encode len @ bs)" by (simp add: res_simps)
  qed
qed

section \<open>What a parser promises\<close>

definition returns :: "'a option \<Rightarrow> bool" where
  "returns x \<longleftrightarrow> x \<noteq> None"

lemma returns_Some [simp, intro!]: "returns (Some x)"
  by (simp add: returns_def)

lemma returns_simps [simp]: "returns (p_fail e)" "returns (p_return x r)" "returns (p_finish name sub x r)" "returns (parse_of rd r)"
  by (simp_all add: returns_def p_fail_def p_return_def p_finish_def parse_of_def)

lemma returns_bind [intro]: "returns m \<Longrightarrow> (\<And>x r. returns (f x r)) \<Longrightarrow> returns (p_bind m f)"
  by (auto simp: returns_def p_bind_def split: sum.split)

lemma p_bind_InrE:
  assumes "p_bind m f = Some (Inr y)"
  obtains x r where "m = Some (Inr (x, r))" "f x r = Some (Inr y)"
  using assms by (auto simp: p_bind_def split: option.split_asm sum.split_asm)

lemma p_return_Inr [simp]: "p_return x r = Some (Inr (y, r')) \<longleftrightarrow> y = x \<and> r' = r"
  by (auto simp: p_return_def)

lemma p_fail_Inr [simp]: "p_fail e \<noteq> Some (Inr y)"
  by (simp add: p_fail_def)

lemma p_finish_Inr [simp]: "p_finish name sub x r = Some (Inr (y, r')) \<longleftrightarrow> \<not> rd_any_left sub \<and> y = x \<and> r' = r"
  by (auto simp: p_finish_def rd_expect_empty_def)

lemma parse_of_Inr [simp]: "parse_of rd r = Some (Inr y) \<longleftrightarrow> rd r = Inr y"
  by (simp add: parse_of_def)

lemma unat_bounds: "unat (v :: u8) \<le> 0xff" "unat (w :: u16) \<le> 0xffff" "x < 2 ^ 24 \<Longrightarrow> unat (x :: u32) \<le> 0xffffff"
  using unsigned_less [of v, where 'a = nat] unsigned_less [of w, where 'a = nat] by (auto simp: word_less_nat_alt)

lemma map_sum_Inr: "map_sum f g z = Inr y \<longleftrightarrow> (\<exists>x. z = Inr x \<and> y = g x)"
  by (cases z) auto

lemma vec_len_read_moves: "vec_len_read size_len r = Inr (len, r') \<Longrightarrow> rd_cursor r < rd_cursor r'"
  by (cases size_len) (auto simp: vec_len_read_def rd_bind_def dest!: u8.read_moves u16.read_moves u24.read_moves split: sum.split_asm)

locale parse_contract =
  fixes encode :: "'a \<Rightarrow> bytes res"
    and parse :: "'a parse"
  assumes parse_returns: "returns (parse r)"
    and parse_exact: "parse r = Some (Inr (x, r')) \<Longrightarrow> reads (encode x) r r'"

locale element_contract = parse_contract +
  assumes parse_moves: "Reader_ok r \<Longrightarrow> parse r = Some (Inr (x, r')) \<Longrightarrow> rd_cursor r < rd_cursor r'"
begin

lemma parse_exact1: "parse r = Some (Inr (x, r')) \<Longrightarrow> reads1 (encode x) r r'"
  by (simp add: reads1_def parse_exact parse_moves)

lemma vec_loop_returns: "Reader_ok sub \<Longrightarrow> returns (vec_read_loop parse sub ret)"
proof (induction "length (rd_buffer sub) - rd_cursor sub" arbitrary: sub ret rule: less_induct)
  case less
  show ?case
  proof (cases "rd_any_left sub \<and> (\<exists>x sub'. parse sub = Some (Inr (x, sub')))")
    case True
    then obtain x sub' where p: "rd_any_left sub" "parse sub = Some (Inr (x, sub'))" by blast
    note r = reads_ok [OF parse_exact [OF p(2)] less.prems] parse_moves [OF less.prems p(2)]
    moreover have "rd_buffer sub' = rd_buffer sub"
      using parse_exact [OF p(2)] less.prems by (auto simp: reads_def advance_def)
    ultimately have "returns (vec_read_loop parse sub' (ret @ [x]))"
      using p(1) by (intro less.hyps) (auto simp: rd_any_left_def)
    with p show ?thesis by (subst vec_read_loop.simps) simp
  next
    case False
    with parse_returns [of sub] show ?thesis
      by (subst vec_read_loop.simps) (auto simp: returns_def split: sum.split)
  qed
qed

lemma vec_loop_exact:
  "vec_read_loop parse sub ret = Some (Inr xs) \<Longrightarrow> Reader_ok sub \<Longrightarrow>
     \<exists>ys sub'. xs = ret @ ys \<and> reads (enc_all (map encode ys)) sub sub' \<and> \<not> rd_any_left sub'"
proof (induction "length (rd_buffer sub) - rd_cursor sub" arbitrary: sub ret rule: less_induct)
  case less
  show ?case
  proof (cases "rd_any_left sub")
    case False
    with less.prems(1) have "xs = ret" by (subst (asm) vec_read_loop.simps) simp
    with False show ?thesis by (intro exI [of _ "[]"] exI [of _ sub]) auto
  next
    case True
    with less.prems(1) obtain x sub1 where p: "parse sub = Some (Inr (x, sub1))" and l: "vec_read_loop parse sub1 (ret @ [x]) = Some (Inr xs)"
      by (subst (asm) vec_read_loop.simps) (auto split: option.split_asm sum.split_asm)
    have "rd_buffer sub1 = rd_buffer sub" using parse_exact [OF p] less.prems(2) by (auto simp: reads_def advance_def)
    then have "length (rd_buffer sub1) - rd_cursor sub1 < length (rd_buffer sub) - rd_cursor sub"
      using parse_moves [OF less.prems(2) p] True by (simp add: rd_any_left_def)
    from less.hyps [OF this l] reads_ok [OF parse_exact [OF p] less.prems(2)]
    obtain ys sub' where "xs = (ret @ [x]) @ ys" "reads (enc_all (map encode ys)) sub1 sub'" "\<not> rd_any_left sub'" by blast
    with parse_exact [OF p] show ?thesis by (intro exI [of _ "x # ys"] exI [of _ sub']) auto
  qed
qed

lemma vec_read_returns: "returns (vec_read size_len parse r)"
  using vec_loop_returns [OF Reader_ok_init]
  by (auto simp: vec_read_def returns_def rd_bind_def rd_sub_remaining split: sum.split if_split_asm)

lemma vec_contract:
  assumes max: "\<And>mx. size_len = Len_U24 mx \<Longrightarrow> 0xffff < mx"
  shows "element_contract (vec_encode size_len encode) (vec_read size_len parse)"
proof
  show "returns (vec_read size_len parse r)" for r by (rule vec_read_returns)
  fix r xs r'
  assume "vec_read size_len parse r = Some (Inr (xs, r'))"
  then obtain len r1 sub where l: "vec_len_read size_len r = Inr (len, r1)" "rd_sub len r1 = Inr (sub, r')"
      "vec_read_loop parse sub [] = Some (Inr xs)"
    by (auto simp: vec_read_def rd_bind_def map_sum_Inr split: sum.split_asm)
  moreover have "Reader_ok sub" using l(2) by (auto simp: rd_sub_remaining split: if_split_asm)
  ultimately obtain sub' where e: "reads (enc_all (map encode xs)) sub sub'" "\<not> rd_any_left sub'"
    using vec_loop_exact by fastforce
  show "reads (vec_encode size_len encode xs) r r'"
  proof (cases size_len)
    case Len_U8
    with l obtain n where n: "u8_read r = Inr (n, r1)" "rd_sub (unat n) r1 = Inr (sub, r')"
      by (auto simp: vec_len_read_def rd_bind_def split: sum.split_asm)
    show ?thesis unfolding vec_encode_def Len_U8
      by (intro reads1_reads u8.reads_prefixed [where f = unat, OF n e]) (simp add: Let_def unat_bounds)
  next
    case Len_U16
    with l obtain n where n: "u16_read r = Inr (n, r1)" "rd_sub (unat n) r1 = Inr (sub, r')"
      by (auto simp: vec_len_read_def rd_bind_def split: sum.split_asm)
    show ?thesis unfolding vec_encode_def Len_U16
      by (intro reads1_reads u16.reads_prefixed [where f = unat, OF n e]) (simp add: Let_def unat_bounds)
  next
    case (Len_U24 mx)
    with l obtain n where n: "u24_read r = Inr (n, r1)" "rd_sub (min (unat n) mx) r1 = Inr (sub, r')"
      by (auto simp: vec_len_read_def rd_bind_def split: sum.split_asm)
    show ?thesis unfolding vec_encode_def Len_U24
      by (intro reads_cut [OF n e max]) (simp_all add: Let_def Len_U24 unat_bounds)
  qed
  show "rd_cursor r < rd_cursor r'"
    using vec_len_read_moves [OF l(1)] l(2) by (auto simp: rd_sub_remaining split: if_split_asm)
qed

end

lemma element_contractI:
  assumes "\<And>r. returns (parse r)" and "\<And>r x r'. parse r = Some (Inr (x, r')) \<Longrightarrow> reads1 (encode x) r r'"
  shows "element_contract encode parse"
  using assms by unfold_locales (auto simp: reads1_def)

text \<open>The codecs without lists are elements.\<close>

sublocale codec_contract \<subseteq> as_element: element_contract "\<lambda>x. Inr (encode x)" "parse_of codec_read"
proof
  show "returns (parse_of codec_read r)" for r by simp
  show "reads (Inr (encode x)) r r'" if "parse_of codec_read r = Some (Inr (x, r'))" for r x r'
    using that by (auto dest: reads_codec)
  show "rd_cursor r < rd_cursor r'" if "Reader_ok r" "parse_of codec_read r = Some (Inr (x, r'))" for r x r'
    using that by (auto dest: read_moves)
qed

end
