(* ===== verification/Tls_Enums.thy ===== *)
theory Tls_Enums
  imports Tls_Parse
begin

text \<open>
  The enumerations of handshake messages and alerts (\<open>enums.rs\<close>, \<open>msgs/enums.rs\<close>), as the macro
  \<open>enum_builder\<close> (\<open>msgs/macros.rs\<close>) generates them: named values with their codes, a value for every
  other code, and the codec of the code.

  The cipher suites, of which there are hundreds and which no message distinguishes, are their codes.
\<close>

section \<open>The macro\<close>

definition enum_from :: "('e \<Rightarrow> 'c) \<Rightarrow> ('c \<Rightarrow> 'e) \<Rightarrow> 'e list \<Rightarrow> 'c \<Rightarrow> 'e" where
  "enum_from get unknown vals x = (case find (\<lambda>v. get v = x) vals of Some v \<Rightarrow> v | None \<Rightarrow> unknown x)"

definition enum8_encode :: "('e \<Rightarrow> u8) \<Rightarrow> 'e \<Rightarrow> bytes" where
  "enum8_encode get v = u8_encode (get v)"

definition enum8_read :: "string \<Rightarrow> (u8 \<Rightarrow> 'e) \<Rightarrow> 'e codec_read" where
  "enum8_read name from_code r =
     (case u8_read r of Inr (x, r) \<Rightarrow> Inr (from_code x, r) | Inl _ \<Rightarrow> Inl (MissingData name))"

definition enum16_encode :: "('e \<Rightarrow> u16) \<Rightarrow> 'e \<Rightarrow> bytes" where
  "enum16_encode get v = u16_encode (get v)"

definition enum16_read :: "string \<Rightarrow> (u16 \<Rightarrow> 'e) \<Rightarrow> 'e codec_read" where
  "enum16_read name from_code r =
     (case u16_read r of Inr (x, r) \<Rightarrow> Inr (from_code x, r) | Inl _ \<Rightarrow> Inl (MissingData name))"

lemma enum_from_get: "(\<And>x. get (unknown x) = x) \<Longrightarrow> get (enum_from get unknown vals x) = x"
  by (auto simp: enum_from_def find_Some_iff split: option.split)

lemma enum8_contract:
  assumes "\<And>x. get (from_code x) = x"
  shows "codec_contract (enum8_encode get) (enum8_read name from_code) (\<lambda>v. from_code (get v) = v)"
proof
  show "enum8_encode get v \<noteq> []" for v by (simp add: enum8_encode_def u8.encode_not_Nil)
  show "enum8_read name from_code r = Inr (v, advance (length (enum8_encode get v)) r)"
    if "from_code (get v) = v" "remaining r = enum8_encode get v @ bs" for v r bs
    using that u8.read_encode [where x = "get v" and r = r and bs = bs] by (simp add: enum8_read_def enum8_encode_def)
  show "from_code (get v) = v \<and> prefix (enum8_encode get v) (remaining r) \<and> r' = advance (length (enum8_encode get v)) r"
    if "enum8_read name from_code r = Inr (v, r')" for v r r'
    using that assms by (auto simp: enum8_read_def enum8_encode_def dest: u8.read_sound split: sum.split_asm)
qed

lemma enum16_contract:
  assumes "\<And>x. get (from_code x) = x"
  shows "codec_contract (enum16_encode get) (enum16_read name from_code) (\<lambda>v. from_code (get v) = v)"
proof
  show "enum16_encode get v \<noteq> []" for v by (simp add: enum16_encode_def u16.encode_not_Nil)
  show "enum16_read name from_code r = Inr (v, advance (length (enum16_encode get v)) r)"
    if "from_code (get v) = v" "remaining r = enum16_encode get v @ bs" for v r bs
    using that u16.read_encode [where x = "get v" and r = r and bs = bs] by (simp add: enum16_read_def enum16_encode_def)
  show "from_code (get v) = v \<and> prefix (enum16_encode get v) (remaining r) \<and> r' = advance (length (enum16_encode get v)) r"
    if "enum16_read name from_code r = Inr (v, r')" for v r r'
    using that assms by (auto simp: enum16_read_def enum16_encode_def dest: u16.read_sound split: sum.split_asm)
qed

section \<open>The enumerations\<close>

datatype (plugins only: code) HandshakeType =
    HT_HelloRequest | HT_ClientHello | HT_ServerHello | HT_HelloVerifyRequest | HT_NewSessionTicket | HT_EndOfEarlyData
    | HT_HelloRetryRequest | HT_EncryptedExtensions | HT_Certificate | HT_ServerKeyExchange | HT_CertificateRequest
    | HT_ServerHelloDone | HT_CertificateVerify | HT_ClientKeyExchange | HT_Finished | HT_CertificateURL
    | HT_CertificateStatus | HT_KeyUpdate | HT_MessageHash | HT_Unknown u8

primrec HandshakeType_get :: "HandshakeType \<Rightarrow> u8" where
  "HandshakeType_get HT_HelloRequest = 0x0"
| "HandshakeType_get HT_ClientHello = 0x1"
| "HandshakeType_get HT_ServerHello = 0x2"
| "HandshakeType_get HT_HelloVerifyRequest = 0x3"
| "HandshakeType_get HT_NewSessionTicket = 0x4"
| "HandshakeType_get HT_EndOfEarlyData = 0x5"
| "HandshakeType_get HT_HelloRetryRequest = 0x6"
| "HandshakeType_get HT_EncryptedExtensions = 0x8"
| "HandshakeType_get HT_Certificate = 0xb"
| "HandshakeType_get HT_ServerKeyExchange = 0xc"
| "HandshakeType_get HT_CertificateRequest = 0xd"
| "HandshakeType_get HT_ServerHelloDone = 0xe"
| "HandshakeType_get HT_CertificateVerify = 0xf"
| "HandshakeType_get HT_ClientKeyExchange = 0x10"
| "HandshakeType_get HT_Finished = 0x14"
| "HandshakeType_get HT_CertificateURL = 0x15"
| "HandshakeType_get HT_CertificateStatus = 0x16"
| "HandshakeType_get HT_KeyUpdate = 0x18"
| "HandshakeType_get HT_MessageHash = 0xfe"
| "HandshakeType_get (HT_Unknown x) = x"

definition HandshakeType_from :: "u8 \<Rightarrow> HandshakeType" where
  "HandshakeType_from = enum_from HandshakeType_get HT_Unknown
     [HT_HelloRequest,  HT_ClientHello,  HT_ServerHello,  HT_HelloVerifyRequest,  HT_NewSessionTicket,
       HT_EndOfEarlyData,  HT_HelloRetryRequest,  HT_EncryptedExtensions,  HT_Certificate,  HT_ServerKeyExchange,
       HT_CertificateRequest,  HT_ServerHelloDone,  HT_CertificateVerify,  HT_ClientKeyExchange,  HT_Finished,
       HT_CertificateURL,  HT_CertificateStatus,  HT_KeyUpdate,  HT_MessageHash]"

definition HandshakeType_encode :: "HandshakeType \<Rightarrow> bytes" where
  "HandshakeType_encode = enum8_encode HandshakeType_get"

definition HandshakeType_read :: "HandshakeType codec_read" where
  "HandshakeType_read = enum8_read ''HandshakeType'' HandshakeType_from"

interpretation handshake_type: codec_contract HandshakeType_encode HandshakeType_read "\<lambda>x. HandshakeType_from (HandshakeType_get x) = x"
  unfolding HandshakeType_encode_def HandshakeType_read_def by (intro enum8_contract) (simp add: HandshakeType_from_def enum_from_get)

datatype (plugins only: code) AlertLevel =
    AL_Warning | AL_Fatal | AL_Unknown u8

primrec AlertLevel_get :: "AlertLevel \<Rightarrow> u8" where
  "AlertLevel_get AL_Warning = 0x1"
| "AlertLevel_get AL_Fatal = 0x2"
| "AlertLevel_get (AL_Unknown x) = x"

definition AlertLevel_from :: "u8 \<Rightarrow> AlertLevel" where
  "AlertLevel_from = enum_from AlertLevel_get AL_Unknown
     [AL_Warning,  AL_Fatal]"

definition AlertLevel_encode :: "AlertLevel \<Rightarrow> bytes" where
  "AlertLevel_encode = enum8_encode AlertLevel_get"

definition AlertLevel_read :: "AlertLevel codec_read" where
  "AlertLevel_read = enum8_read ''AlertLevel'' AlertLevel_from"

interpretation alert_level: codec_contract AlertLevel_encode AlertLevel_read "\<lambda>x. AlertLevel_from (AlertLevel_get x) = x"
  unfolding AlertLevel_encode_def AlertLevel_read_def by (intro enum8_contract) (simp add: AlertLevel_from_def enum_from_get)

datatype (plugins only: code) AlertDescription =
    AD_CloseNotify | AD_UnexpectedMessage | AD_BadRecordMac | AD_DecryptionFailed | AD_RecordOverflow
    | AD_DecompressionFailure | AD_HandshakeFailure | AD_NoCertificate | AD_BadCertificate | AD_UnsupportedCertificate
    | AD_CertificateRevoked | AD_CertificateExpired | AD_CertificateUnknown | AD_IllegalParameter | AD_UnknownCA
    | AD_AccessDenied | AD_DecodeError | AD_DecryptError | AD_ExportRestriction | AD_ProtocolVersion
    | AD_InsufficientSecurity | AD_InternalError | AD_InappropriateFallback | AD_UserCanceled | AD_NoRenegotiation
    | AD_MissingExtension | AD_UnsupportedExtension | AD_CertificateUnobtainable | AD_UnrecognisedName
    | AD_BadCertificateStatusResponse | AD_BadCertificateHashValue | AD_UnknownPSKIdentity | AD_CertificateRequired
    | AD_NoApplicationProtocol | AD_Unknown u8

primrec AlertDescription_get :: "AlertDescription \<Rightarrow> u8" where
  "AlertDescription_get AD_CloseNotify = 0x0"
| "AlertDescription_get AD_UnexpectedMessage = 0xa"
| "AlertDescription_get AD_BadRecordMac = 0x14"
| "AlertDescription_get AD_DecryptionFailed = 0x15"
| "AlertDescription_get AD_RecordOverflow = 0x16"
| "AlertDescription_get AD_DecompressionFailure = 0x1e"
| "AlertDescription_get AD_HandshakeFailure = 0x28"
| "AlertDescription_get AD_NoCertificate = 0x29"
| "AlertDescription_get AD_BadCertificate = 0x2a"
| "AlertDescription_get AD_UnsupportedCertificate = 0x2b"
| "AlertDescription_get AD_CertificateRevoked = 0x2c"
| "AlertDescription_get AD_CertificateExpired = 0x2d"
| "AlertDescription_get AD_CertificateUnknown = 0x2e"
| "AlertDescription_get AD_IllegalParameter = 0x2f"
| "AlertDescription_get AD_UnknownCA = 0x30"
| "AlertDescription_get AD_AccessDenied = 0x31"
| "AlertDescription_get AD_DecodeError = 0x32"
| "AlertDescription_get AD_DecryptError = 0x33"
| "AlertDescription_get AD_ExportRestriction = 0x3c"
| "AlertDescription_get AD_ProtocolVersion = 0x46"
| "AlertDescription_get AD_InsufficientSecurity = 0x47"
| "AlertDescription_get AD_InternalError = 0x50"
| "AlertDescription_get AD_InappropriateFallback = 0x56"
| "AlertDescription_get AD_UserCanceled = 0x5a"
| "AlertDescription_get AD_NoRenegotiation = 0x64"
| "AlertDescription_get AD_MissingExtension = 0x6d"
| "AlertDescription_get AD_UnsupportedExtension = 0x6e"
| "AlertDescription_get AD_CertificateUnobtainable = 0x6f"
| "AlertDescription_get AD_UnrecognisedName = 0x70"
| "AlertDescription_get AD_BadCertificateStatusResponse = 0x71"
| "AlertDescription_get AD_BadCertificateHashValue = 0x72"
| "AlertDescription_get AD_UnknownPSKIdentity = 0x73"
| "AlertDescription_get AD_CertificateRequired = 0x74"
| "AlertDescription_get AD_NoApplicationProtocol = 0x78"
| "AlertDescription_get (AD_Unknown x) = x"

definition AlertDescription_from :: "u8 \<Rightarrow> AlertDescription" where
  "AlertDescription_from = enum_from AlertDescription_get AD_Unknown
     [AD_CloseNotify,  AD_UnexpectedMessage,  AD_BadRecordMac,  AD_DecryptionFailed,  AD_RecordOverflow,
       AD_DecompressionFailure,  AD_HandshakeFailure,  AD_NoCertificate,  AD_BadCertificate,
       AD_UnsupportedCertificate,  AD_CertificateRevoked,  AD_CertificateExpired,  AD_CertificateUnknown,
       AD_IllegalParameter,  AD_UnknownCA,  AD_AccessDenied,  AD_DecodeError,  AD_DecryptError,  AD_ExportRestriction,
       AD_ProtocolVersion,  AD_InsufficientSecurity,  AD_InternalError,  AD_InappropriateFallback,  AD_UserCanceled,
       AD_NoRenegotiation,  AD_MissingExtension,  AD_UnsupportedExtension,  AD_CertificateUnobtainable,
       AD_UnrecognisedName,  AD_BadCertificateStatusResponse,  AD_BadCertificateHashValue,  AD_UnknownPSKIdentity,
       AD_CertificateRequired,  AD_NoApplicationProtocol]"

definition AlertDescription_encode :: "AlertDescription \<Rightarrow> bytes" where
  "AlertDescription_encode = enum8_encode AlertDescription_get"

definition AlertDescription_read :: "AlertDescription codec_read" where
  "AlertDescription_read = enum8_read ''AlertDescription'' AlertDescription_from"

interpretation alert_description: codec_contract AlertDescription_encode AlertDescription_read "\<lambda>x. AlertDescription_from (AlertDescription_get x) = x"
  unfolding AlertDescription_encode_def AlertDescription_read_def by (intro enum8_contract) (simp add: AlertDescription_from_def enum_from_get)

datatype (plugins only: code) SignatureScheme =
    SS_RSA_PKCS1_SHA1 | SS_ECDSA_SHA1_Legacy | SS_RSA_PKCS1_SHA256 | SS_ECDSA_NISTP256_SHA256 | SS_RSA_PKCS1_SHA384
    | SS_ECDSA_NISTP384_SHA384 | SS_RSA_PKCS1_SHA512 | SS_ECDSA_NISTP521_SHA512 | SS_RSA_PSS_SHA256 | SS_RSA_PSS_SHA384
    | SS_RSA_PSS_SHA512 | SS_ED25519 | SS_ED448 | SS_Unknown u16

primrec SignatureScheme_get :: "SignatureScheme \<Rightarrow> u16" where
  "SignatureScheme_get SS_RSA_PKCS1_SHA1 = 0x201"
| "SignatureScheme_get SS_ECDSA_SHA1_Legacy = 0x203"
| "SignatureScheme_get SS_RSA_PKCS1_SHA256 = 0x401"
| "SignatureScheme_get SS_ECDSA_NISTP256_SHA256 = 0x403"
| "SignatureScheme_get SS_RSA_PKCS1_SHA384 = 0x501"
| "SignatureScheme_get SS_ECDSA_NISTP384_SHA384 = 0x503"
| "SignatureScheme_get SS_RSA_PKCS1_SHA512 = 0x601"
| "SignatureScheme_get SS_ECDSA_NISTP521_SHA512 = 0x603"
| "SignatureScheme_get SS_RSA_PSS_SHA256 = 0x804"
| "SignatureScheme_get SS_RSA_PSS_SHA384 = 0x805"
| "SignatureScheme_get SS_RSA_PSS_SHA512 = 0x806"
| "SignatureScheme_get SS_ED25519 = 0x807"
| "SignatureScheme_get SS_ED448 = 0x808"
| "SignatureScheme_get (SS_Unknown x) = x"

definition SignatureScheme_from :: "u16 \<Rightarrow> SignatureScheme" where
  "SignatureScheme_from = enum_from SignatureScheme_get SS_Unknown
     [SS_RSA_PKCS1_SHA1,  SS_ECDSA_SHA1_Legacy,  SS_RSA_PKCS1_SHA256,  SS_ECDSA_NISTP256_SHA256,  SS_RSA_PKCS1_SHA384,
       SS_ECDSA_NISTP384_SHA384,  SS_RSA_PKCS1_SHA512,  SS_ECDSA_NISTP521_SHA512,  SS_RSA_PSS_SHA256,
       SS_RSA_PSS_SHA384,  SS_RSA_PSS_SHA512,  SS_ED25519,  SS_ED448]"

definition SignatureScheme_encode :: "SignatureScheme \<Rightarrow> bytes" where
  "SignatureScheme_encode = enum16_encode SignatureScheme_get"

definition SignatureScheme_read :: "SignatureScheme codec_read" where
  "SignatureScheme_read = enum16_read ''SignatureScheme'' SignatureScheme_from"

interpretation signature_scheme: codec_contract SignatureScheme_encode SignatureScheme_read "\<lambda>x. SignatureScheme_from (SignatureScheme_get x) = x"
  unfolding SignatureScheme_encode_def SignatureScheme_read_def by (intro enum16_contract) (simp add: SignatureScheme_from_def enum_from_get)

datatype (plugins only: code) ClientCertificateType =
    CCT_RSASign | CCT_DSSSign | CCT_RSAFixedDH | CCT_DSSFixedDH | CCT_RSAEphemeralDH | CCT_DSSEphemeralDH
    | CCT_FortezzaDMS | CCT_ECDSASign | CCT_RSAFixedECDH | CCT_ECDSAFixedECDH | CCT_Unknown u8

primrec ClientCertificateType_get :: "ClientCertificateType \<Rightarrow> u8" where
  "ClientCertificateType_get CCT_RSASign = 0x1"
| "ClientCertificateType_get CCT_DSSSign = 0x2"
| "ClientCertificateType_get CCT_RSAFixedDH = 0x3"
| "ClientCertificateType_get CCT_DSSFixedDH = 0x4"
| "ClientCertificateType_get CCT_RSAEphemeralDH = 0x5"
| "ClientCertificateType_get CCT_DSSEphemeralDH = 0x6"
| "ClientCertificateType_get CCT_FortezzaDMS = 0x14"
| "ClientCertificateType_get CCT_ECDSASign = 0x40"
| "ClientCertificateType_get CCT_RSAFixedECDH = 0x41"
| "ClientCertificateType_get CCT_ECDSAFixedECDH = 0x42"
| "ClientCertificateType_get (CCT_Unknown x) = x"

definition ClientCertificateType_from :: "u8 \<Rightarrow> ClientCertificateType" where
  "ClientCertificateType_from = enum_from ClientCertificateType_get CCT_Unknown
     [CCT_RSASign,  CCT_DSSSign,  CCT_RSAFixedDH,  CCT_DSSFixedDH,  CCT_RSAEphemeralDH,  CCT_DSSEphemeralDH,
       CCT_FortezzaDMS,  CCT_ECDSASign,  CCT_RSAFixedECDH,  CCT_ECDSAFixedECDH]"

definition ClientCertificateType_encode :: "ClientCertificateType \<Rightarrow> bytes" where
  "ClientCertificateType_encode = enum8_encode ClientCertificateType_get"

definition ClientCertificateType_read :: "ClientCertificateType codec_read" where
  "ClientCertificateType_read = enum8_read ''ClientCertificateType'' ClientCertificateType_from"

interpretation client_certificate_type: codec_contract ClientCertificateType_encode ClientCertificateType_read "\<lambda>x. ClientCertificateType_from (ClientCertificateType_get x) = x"
  unfolding ClientCertificateType_encode_def ClientCertificateType_read_def by (intro enum8_contract) (simp add: ClientCertificateType_from_def enum_from_get)

datatype (plugins only: code) Compression =
    Comp_Null | Comp_Deflate | Comp_LSZ | Comp_Unknown u8

primrec Compression_get :: "Compression \<Rightarrow> u8" where
  "Compression_get Comp_Null = 0x0"
| "Compression_get Comp_Deflate = 0x1"
| "Compression_get Comp_LSZ = 0x40"
| "Compression_get (Comp_Unknown x) = x"

definition Compression_from :: "u8 \<Rightarrow> Compression" where
  "Compression_from = enum_from Compression_get Comp_Unknown
     [Comp_Null,  Comp_Deflate,  Comp_LSZ]"

definition Compression_encode :: "Compression \<Rightarrow> bytes" where
  "Compression_encode = enum8_encode Compression_get"

definition Compression_read :: "Compression codec_read" where
  "Compression_read = enum8_read ''Compression'' Compression_from"

interpretation compression: codec_contract Compression_encode Compression_read "\<lambda>x. Compression_from (Compression_get x) = x"
  unfolding Compression_encode_def Compression_read_def by (intro enum8_contract) (simp add: Compression_from_def enum_from_get)

datatype (plugins only: code) ExtensionType =
    ET_ServerName | ET_MaxFragmentLength | ET_ClientCertificateUrl | ET_TrustedCAKeys | ET_TruncatedHMAC
    | ET_StatusRequest | ET_UserMapping | ET_ClientAuthz | ET_ServerAuthz | ET_CertificateType | ET_EllipticCurves
    | ET_ECPointFormats | ET_SRP | ET_SignatureAlgorithms | ET_UseSRTP | ET_Heartbeat | ET_ALProtocolNegotiation
    | ET_SCT | ET_Padding | ET_ExtendedMasterSecret | ET_SessionTicket | ET_PreSharedKey | ET_EarlyData
    | ET_SupportedVersions | ET_Cookie | ET_PSKKeyExchangeModes | ET_TicketEarlyDataInfo | ET_CertificateAuthorities
    | ET_OIDFilters | ET_PostHandshakeAuth | ET_SignatureAlgorithmsCert | ET_KeyShare | ET_TransportParameters
    | ET_NextProtocolNegotiation | ET_ChannelId | ET_RenegotiationInfo | ET_TransportParametersDraft | ET_Unknown u16

primrec ExtensionType_get :: "ExtensionType \<Rightarrow> u16" where
  "ExtensionType_get ET_ServerName = 0x0"
| "ExtensionType_get ET_MaxFragmentLength = 0x1"
| "ExtensionType_get ET_ClientCertificateUrl = 0x2"
| "ExtensionType_get ET_TrustedCAKeys = 0x3"
| "ExtensionType_get ET_TruncatedHMAC = 0x4"
| "ExtensionType_get ET_StatusRequest = 0x5"
| "ExtensionType_get ET_UserMapping = 0x6"
| "ExtensionType_get ET_ClientAuthz = 0x7"
| "ExtensionType_get ET_ServerAuthz = 0x8"
| "ExtensionType_get ET_CertificateType = 0x9"
| "ExtensionType_get ET_EllipticCurves = 0xa"
| "ExtensionType_get ET_ECPointFormats = 0xb"
| "ExtensionType_get ET_SRP = 0xc"
| "ExtensionType_get ET_SignatureAlgorithms = 0xd"
| "ExtensionType_get ET_UseSRTP = 0xe"
| "ExtensionType_get ET_Heartbeat = 0xf"
| "ExtensionType_get ET_ALProtocolNegotiation = 0x10"
| "ExtensionType_get ET_SCT = 0x12"
| "ExtensionType_get ET_Padding = 0x15"
| "ExtensionType_get ET_ExtendedMasterSecret = 0x17"
| "ExtensionType_get ET_SessionTicket = 0x23"
| "ExtensionType_get ET_PreSharedKey = 0x29"
| "ExtensionType_get ET_EarlyData = 0x2a"
| "ExtensionType_get ET_SupportedVersions = 0x2b"
| "ExtensionType_get ET_Cookie = 0x2c"
| "ExtensionType_get ET_PSKKeyExchangeModes = 0x2d"
| "ExtensionType_get ET_TicketEarlyDataInfo = 0x2e"
| "ExtensionType_get ET_CertificateAuthorities = 0x2f"
| "ExtensionType_get ET_OIDFilters = 0x30"
| "ExtensionType_get ET_PostHandshakeAuth = 0x31"
| "ExtensionType_get ET_SignatureAlgorithmsCert = 0x32"
| "ExtensionType_get ET_KeyShare = 0x33"
| "ExtensionType_get ET_TransportParameters = 0x39"
| "ExtensionType_get ET_NextProtocolNegotiation = 0x3374"
| "ExtensionType_get ET_ChannelId = 0x754f"
| "ExtensionType_get ET_RenegotiationInfo = 0xff01"
| "ExtensionType_get ET_TransportParametersDraft = 0xffa5"
| "ExtensionType_get (ET_Unknown x) = x"

definition ExtensionType_from :: "u16 \<Rightarrow> ExtensionType" where
  "ExtensionType_from = enum_from ExtensionType_get ET_Unknown
     [ET_ServerName,  ET_MaxFragmentLength,  ET_ClientCertificateUrl,  ET_TrustedCAKeys,  ET_TruncatedHMAC,
       ET_StatusRequest,  ET_UserMapping,  ET_ClientAuthz,  ET_ServerAuthz,  ET_CertificateType,  ET_EllipticCurves,
       ET_ECPointFormats,  ET_SRP,  ET_SignatureAlgorithms,  ET_UseSRTP,  ET_Heartbeat,  ET_ALProtocolNegotiation,
       ET_SCT,  ET_Padding,  ET_ExtendedMasterSecret,  ET_SessionTicket,  ET_PreSharedKey,  ET_EarlyData,
       ET_SupportedVersions,  ET_Cookie,  ET_PSKKeyExchangeModes,  ET_TicketEarlyDataInfo,  ET_CertificateAuthorities,
       ET_OIDFilters,  ET_PostHandshakeAuth,  ET_SignatureAlgorithmsCert,  ET_KeyShare,  ET_TransportParameters,
       ET_NextProtocolNegotiation,  ET_ChannelId,  ET_RenegotiationInfo,  ET_TransportParametersDraft]"

definition ExtensionType_encode :: "ExtensionType \<Rightarrow> bytes" where
  "ExtensionType_encode = enum16_encode ExtensionType_get"

definition ExtensionType_read :: "ExtensionType codec_read" where
  "ExtensionType_read = enum16_read ''ExtensionType'' ExtensionType_from"

interpretation extension_type: codec_contract ExtensionType_encode ExtensionType_read "\<lambda>x. ExtensionType_from (ExtensionType_get x) = x"
  unfolding ExtensionType_encode_def ExtensionType_read_def by (intro enum16_contract) (simp add: ExtensionType_from_def enum_from_get)

datatype (plugins only: code) ServerNameType =
    SNT_HostName | SNT_Unknown u8

primrec ServerNameType_get :: "ServerNameType \<Rightarrow> u8" where
  "ServerNameType_get SNT_HostName = 0x0"
| "ServerNameType_get (SNT_Unknown x) = x"

definition ServerNameType_from :: "u8 \<Rightarrow> ServerNameType" where
  "ServerNameType_from = enum_from ServerNameType_get SNT_Unknown
     [SNT_HostName]"

definition ServerNameType_encode :: "ServerNameType \<Rightarrow> bytes" where
  "ServerNameType_encode = enum8_encode ServerNameType_get"

definition ServerNameType_read :: "ServerNameType codec_read" where
  "ServerNameType_read = enum8_read ''ServerNameType'' ServerNameType_from"

interpretation server_name_type: codec_contract ServerNameType_encode ServerNameType_read "\<lambda>x. ServerNameType_from (ServerNameType_get x) = x"
  unfolding ServerNameType_encode_def ServerNameType_read_def by (intro enum8_contract) (simp add: ServerNameType_from_def enum_from_get)

datatype (plugins only: code) NamedGroup =
    NG_secp256r1 | NG_secp384r1 | NG_secp521r1 | NG_X25519 | NG_X448 | NG_FFDHE2048 | NG_FFDHE3072 | NG_FFDHE4096
    | NG_FFDHE6144 | NG_FFDHE8192 | NG_Unknown u16

primrec NamedGroup_get :: "NamedGroup \<Rightarrow> u16" where
  "NamedGroup_get NG_secp256r1 = 0x17"
| "NamedGroup_get NG_secp384r1 = 0x18"
| "NamedGroup_get NG_secp521r1 = 0x19"
| "NamedGroup_get NG_X25519 = 0x1d"
| "NamedGroup_get NG_X448 = 0x1e"
| "NamedGroup_get NG_FFDHE2048 = 0x100"
| "NamedGroup_get NG_FFDHE3072 = 0x101"
| "NamedGroup_get NG_FFDHE4096 = 0x102"
| "NamedGroup_get NG_FFDHE6144 = 0x103"
| "NamedGroup_get NG_FFDHE8192 = 0x104"
| "NamedGroup_get (NG_Unknown x) = x"

definition NamedGroup_from :: "u16 \<Rightarrow> NamedGroup" where
  "NamedGroup_from = enum_from NamedGroup_get NG_Unknown
     [NG_secp256r1,  NG_secp384r1,  NG_secp521r1,  NG_X25519,  NG_X448,  NG_FFDHE2048,  NG_FFDHE3072,  NG_FFDHE4096,
       NG_FFDHE6144,  NG_FFDHE8192]"

definition NamedGroup_encode :: "NamedGroup \<Rightarrow> bytes" where
  "NamedGroup_encode = enum16_encode NamedGroup_get"

definition NamedGroup_read :: "NamedGroup codec_read" where
  "NamedGroup_read = enum16_read ''NamedGroup'' NamedGroup_from"

interpretation named_group: codec_contract NamedGroup_encode NamedGroup_read "\<lambda>x. NamedGroup_from (NamedGroup_get x) = x"
  unfolding NamedGroup_encode_def NamedGroup_read_def by (intro enum16_contract) (simp add: NamedGroup_from_def enum_from_get)

datatype (plugins only: code) ECPointFormat =
    EPF_Uncompressed | EPF_ANSIX962CompressedPrime | EPF_ANSIX962CompressedChar2 | EPF_Unknown u8

primrec ECPointFormat_get :: "ECPointFormat \<Rightarrow> u8" where
  "ECPointFormat_get EPF_Uncompressed = 0x0"
| "ECPointFormat_get EPF_ANSIX962CompressedPrime = 0x1"
| "ECPointFormat_get EPF_ANSIX962CompressedChar2 = 0x2"
| "ECPointFormat_get (EPF_Unknown x) = x"

definition ECPointFormat_from :: "u8 \<Rightarrow> ECPointFormat" where
  "ECPointFormat_from = enum_from ECPointFormat_get EPF_Unknown
     [EPF_Uncompressed,  EPF_ANSIX962CompressedPrime,  EPF_ANSIX962CompressedChar2]"

definition ECPointFormat_encode :: "ECPointFormat \<Rightarrow> bytes" where
  "ECPointFormat_encode = enum8_encode ECPointFormat_get"

definition ECPointFormat_read :: "ECPointFormat codec_read" where
  "ECPointFormat_read = enum8_read ''ECPointFormat'' ECPointFormat_from"

interpretation ec_point_format: codec_contract ECPointFormat_encode ECPointFormat_read "\<lambda>x. ECPointFormat_from (ECPointFormat_get x) = x"
  unfolding ECPointFormat_encode_def ECPointFormat_read_def by (intro enum8_contract) (simp add: ECPointFormat_from_def enum_from_get)

datatype (plugins only: code) ECCurveType =
    ECT_ExplicitPrime | ECT_ExplicitChar2 | ECT_NamedCurve | ECT_Unknown u8

primrec ECCurveType_get :: "ECCurveType \<Rightarrow> u8" where
  "ECCurveType_get ECT_ExplicitPrime = 0x1"
| "ECCurveType_get ECT_ExplicitChar2 = 0x2"
| "ECCurveType_get ECT_NamedCurve = 0x3"
| "ECCurveType_get (ECT_Unknown x) = x"

definition ECCurveType_from :: "u8 \<Rightarrow> ECCurveType" where
  "ECCurveType_from = enum_from ECCurveType_get ECT_Unknown
     [ECT_ExplicitPrime,  ECT_ExplicitChar2,  ECT_NamedCurve]"

definition ECCurveType_encode :: "ECCurveType \<Rightarrow> bytes" where
  "ECCurveType_encode = enum8_encode ECCurveType_get"

definition ECCurveType_read :: "ECCurveType codec_read" where
  "ECCurveType_read = enum8_read ''ECCurveType'' ECCurveType_from"

interpretation ec_curve_type: codec_contract ECCurveType_encode ECCurveType_read "\<lambda>x. ECCurveType_from (ECCurveType_get x) = x"
  unfolding ECCurveType_encode_def ECCurveType_read_def by (intro enum8_contract) (simp add: ECCurveType_from_def enum_from_get)

datatype (plugins only: code) PSKKeyExchangeMode =
    KEM_PSK_KE | KEM_PSK_DHE_KE | KEM_Unknown u8

primrec PSKKeyExchangeMode_get :: "PSKKeyExchangeMode \<Rightarrow> u8" where
  "PSKKeyExchangeMode_get KEM_PSK_KE = 0x0"
| "PSKKeyExchangeMode_get KEM_PSK_DHE_KE = 0x1"
| "PSKKeyExchangeMode_get (KEM_Unknown x) = x"

definition PSKKeyExchangeMode_from :: "u8 \<Rightarrow> PSKKeyExchangeMode" where
  "PSKKeyExchangeMode_from = enum_from PSKKeyExchangeMode_get KEM_Unknown
     [KEM_PSK_KE,  KEM_PSK_DHE_KE]"

definition PSKKeyExchangeMode_encode :: "PSKKeyExchangeMode \<Rightarrow> bytes" where
  "PSKKeyExchangeMode_encode = enum8_encode PSKKeyExchangeMode_get"

definition PSKKeyExchangeMode_read :: "PSKKeyExchangeMode codec_read" where
  "PSKKeyExchangeMode_read = enum8_read ''PSKKeyExchangeMode'' PSKKeyExchangeMode_from"

interpretation psk_key_exchange_mode: codec_contract PSKKeyExchangeMode_encode PSKKeyExchangeMode_read "\<lambda>x. PSKKeyExchangeMode_from (PSKKeyExchangeMode_get x) = x"
  unfolding PSKKeyExchangeMode_encode_def PSKKeyExchangeMode_read_def by (intro enum8_contract) (simp add: PSKKeyExchangeMode_from_def enum_from_get)

datatype (plugins only: code) KeyUpdateRequest =
    KUR_UpdateNotRequested | KUR_UpdateRequested | KUR_Unknown u8

primrec KeyUpdateRequest_get :: "KeyUpdateRequest \<Rightarrow> u8" where
  "KeyUpdateRequest_get KUR_UpdateNotRequested = 0x0"
| "KeyUpdateRequest_get KUR_UpdateRequested = 0x1"
| "KeyUpdateRequest_get (KUR_Unknown x) = x"

definition KeyUpdateRequest_from :: "u8 \<Rightarrow> KeyUpdateRequest" where
  "KeyUpdateRequest_from = enum_from KeyUpdateRequest_get KUR_Unknown
     [KUR_UpdateNotRequested,  KUR_UpdateRequested]"

definition KeyUpdateRequest_encode :: "KeyUpdateRequest \<Rightarrow> bytes" where
  "KeyUpdateRequest_encode = enum8_encode KeyUpdateRequest_get"

definition KeyUpdateRequest_read :: "KeyUpdateRequest codec_read" where
  "KeyUpdateRequest_read = enum8_read ''KeyUpdateRequest'' KeyUpdateRequest_from"

interpretation key_update_request: codec_contract KeyUpdateRequest_encode KeyUpdateRequest_read "\<lambda>x. KeyUpdateRequest_from (KeyUpdateRequest_get x) = x"
  unfolding KeyUpdateRequest_encode_def KeyUpdateRequest_read_def by (intro enum8_contract) (simp add: KeyUpdateRequest_from_def enum_from_get)

datatype (plugins only: code) CertificateStatusType =
    CST_OCSP | CST_Unknown u8

primrec CertificateStatusType_get :: "CertificateStatusType \<Rightarrow> u8" where
  "CertificateStatusType_get CST_OCSP = 0x1"
| "CertificateStatusType_get (CST_Unknown x) = x"

definition CertificateStatusType_from :: "u8 \<Rightarrow> CertificateStatusType" where
  "CertificateStatusType_from = enum_from CertificateStatusType_get CST_Unknown
     [CST_OCSP]"

definition CertificateStatusType_encode :: "CertificateStatusType \<Rightarrow> bytes" where
  "CertificateStatusType_encode = enum8_encode CertificateStatusType_get"

definition CertificateStatusType_read :: "CertificateStatusType codec_read" where
  "CertificateStatusType_read = enum8_read ''CertificateStatusType'' CertificateStatusType_from"

interpretation certificate_status_type: codec_contract CertificateStatusType_encode CertificateStatusType_read "\<lambda>x. CertificateStatusType_from (CertificateStatusType_get x) = x"
  unfolding CertificateStatusType_encode_def CertificateStatusType_read_def by (intro enum8_contract) (simp add: CertificateStatusType_from_def enum_from_get)

section \<open>Cipher suites\<close>

datatype CipherSuite = CipherSuite (suite_code: u16)

definition CipherSuite_encode :: "CipherSuite \<Rightarrow> bytes" where
  "CipherSuite_encode = enum16_encode suite_code"

definition CipherSuite_read :: "CipherSuite codec_read" where
  "CipherSuite_read = enum16_read ''CipherSuite'' CipherSuite"

interpretation cipher_suite: codec_contract CipherSuite_encode CipherSuite_read "\<lambda>x. CipherSuite (suite_code x) = x"
  unfolding CipherSuite_encode_def CipherSuite_read_def by (intro enum16_contract) simp

end
