(* ===== verification/Tls_Extensions.thy ===== *)
theory Tls_Extensions
  imports Tls_Enums
begin

text \<open>
  The parts of handshake messages (\<open>msgs/handshake.rs\<close>): randoms, session ids, names, key shares,
  pre-shared keys and the extensions of the messages, with their encoders and parsers.  Newtypes
  around a payload (\<open>wrapped_payload\<close>) are the payload.

  The check of host names is that of the crate \<open>webpki\<close>, a parameter of the parsers that use it.  Each
  codec is shown to fulfil the contract of elements; the collection \<open>parse_rules\<close> holds what the
  parsers defined so far promise.
\<close>

named_theorems parse_rules

lemmas parse_rules_codec [parse_rules] =
  u8.reads_codec u16.reads_codec u32.reads_codec content_type.reads_codec protocol_version.reads_codec
  payload_u8.reads_codec payload_u16.reads_codec payload_u24.reads_codec
  handshake_type.reads_codec alert_level.reads_codec alert_description.reads_codec signature_scheme.reads_codec
  client_certificate_type.reads_codec compression.reads_codec extension_type.reads_codec server_name_type.reads_codec
  named_group.reads_codec ec_point_format.reads_codec ec_curve_type.reads_codec psk_key_exchange_mode.reads_codec
  key_update_request.reads_codec certificate_status_type.reads_codec cipher_suite.reads_codec

lemmas composed = reads1_append reads_append reads_Nil reads1_reads

text \<open>Lists with lengths of one and two bytes.\<close>

lemma vec_contract_short:
  assumes "element_contract enc rd"
  shows "element_contract (vec_encode Len_U8 enc) (vec_read Len_U8 rd)" "element_contract (vec_encode Len_U16 enc) (vec_read Len_U16 rd)"
  by (rule element_contract.vec_contract [OF assms]; simp)+

section \<open>Randoms and session ids\<close>

definition Random_encode :: "bytes \<Rightarrow> bytes res" where
  "Random_encode random = Inr random"

definition Random_read :: "bytes parse" where
  "Random_read r = (case rd_take 32 r of Some (bs, r) \<Rightarrow> p_return bs r | None \<Rightarrow> p_fail (MissingData ''Random''))"

record SessionId =
  sid_len :: nat
  sid_data :: bytes

definition SessionId_encode :: "SessionId \<Rightarrow> bytes res" where
  "SessionId_encode sid =
     (if sid_len sid \<le> 32 then Inr (u8_encode (word_of_nat (sid_len sid)) @ take (sid_len sid) (sid_data sid)) else Inl AssertFailed)"

definition SessionId_read :: "SessionId parse" where
  "SessionId_read r =
     p_bind (parse_of u8_read r) (\<lambda>len r.
       if unat len > 32 then p_fail (TrailingData ''SessionID'')
       else case rd_take (unat len) r of
           Some (bs, r) \<Rightarrow> p_return \<lparr>sid_len = unat len, sid_data = bs @ replicate (32 - unat len) 0\<rparr> r
         | None \<Rightarrow> p_fail (MissingData ''SessionID''))"

definition SessionId_eq :: "SessionId \<Rightarrow> SessionId \<Rightarrow> bool" where
  "SessionId_eq s t \<longleftrightarrow>
     sid_len s = sid_len t \<and> foldl (\<lambda>diff (a, b). diff OR (a XOR b)) 0 (zip (take (sid_len s) (sid_data s)) (take (sid_len s) (sid_data t))) = 0"

text \<open>The comparison without early exit is equality of the ids.\<close>

lemma foldl_diff_zero:
  fixes d :: u8
  assumes "length xs = length ys"
  shows "foldl (\<lambda>diff (a, b). diff OR (a XOR b)) d (zip xs ys) = 0 \<longleftrightarrow> d = 0 \<and> xs = ys"
  using assms
proof (induction xs ys arbitrary: d rule: list_induct2)
  case (Cons x xs y ys)
  have "d OR (x XOR y) = 0 \<longleftrightarrow> d = 0 \<and> x = y" by (auto simp: bit_eq_iff bit_or_iff bit_xor_iff)
  with Cons show ?case by auto
qed simp

lemma SessionId_eq_iff:
  assumes "sid_len s \<le> length (sid_data s)" and "sid_len t \<le> length (sid_data t)"
  shows "SessionId_eq s t \<longleftrightarrow> take (sid_len s) (sid_data s) = take (sid_len t) (sid_data t)"
proof (cases "sid_len s = sid_len t")
  case True
  with foldl_diff_zero [of "take (sid_len s) (sid_data s)" "take (sid_len s) (sid_data t)" 0] assms show ?thesis
    by (simp add: SessionId_eq_def)
next
  case False
  with assms show ?thesis by (auto simp: SessionId_eq_def dest: arg_cong [where f = length])
qed

lemma reads_take: "rd_take n r = Some (bs, r') \<Longrightarrow> reads (Inr bs) r r'"
  by (auto simp: reads_def dest!: rd_take_sound)

interpretation random: element_contract Random_encode Random_read
  by (rule element_contractI)
    (auto simp: Random_read_def Random_encode_def reads1_def dest: reads_take rd_take_sound split: option.split option.split_asm)

interpretation session_id: element_contract SessionId_encode SessionId_read
proof (rule element_contractI)
  show "returns (SessionId_read r)" for r
    unfolding SessionId_read_def by (intro returns_bind) (auto split: option.split)
  show "reads1 (SessionId_encode sid) r r'" if "SessionId_read r = Some (Inr (sid, r'))" for r sid r'
  proof -
    from that obtain len r1 bs where "u8_read r = Inr (len, r1)" "rd_take (unat len) r1 = Some (bs, r')" "unat len \<le> 32"
        "sid = \<lparr>sid_len = unat len, sid_data = bs @ replicate (32 - unat len) 0\<rparr>"
      unfolding SessionId_read_def by (auto elim!: p_bind_InrE split: if_split_asm option.split_asm)
    moreover from this have "length bs = unat len" by (auto dest: rd_take_sound)
    ultimately have "reads1 (res_append (Inr (u8_encode len)) (Inr bs)) r r'" "SessionId_encode sid = Inr (u8_encode len @ bs)"
      by (auto simp: SessionId_encode_def intro: reads1_append u8.reads_codec reads_take)
    then show ?thesis by (simp add: res_append_def res_simps)
  qed
qed

declare random.parse_exact1 [parse_rules] session_id.parse_exact1 [parse_rules]

section \<open>Extensions\<close>

text \<open>The framing that all kinds of extensions share: the type, the length and the contents.\<close>

definition ext_encode :: "ExtensionType \<Rightarrow> bytes res \<Rightarrow> bytes res" where
  "ext_encode ext_type contents =
     enc_all [Inr (ExtensionType_encode ext_type),
       res_bind contents (\<lambda>sub. Inr (u16_encode (word_of_nat (length sub)) @ sub))]"

definition ext_read :: "string \<Rightarrow> (ExtensionType \<Rightarrow> 'a parse) \<Rightarrow> 'a parse" where
  "ext_read name contents r =
     p_bind (parse_of ExtensionType_read r) (\<lambda>ext_type r.
     p_bind (parse_of u16_read r) (\<lambda>len r.
     p_bind (parse_of (rd_sub (unat len)) r) (\<lambda>sub r.
     p_bind (contents ext_type sub) (\<lambda>ext sub. p_finish name sub ext r))))"

lemma ext_contract:
  assumes "\<And>t sub. returns (contents t sub)"
    and "\<And>t sub ext sub'. contents t sub = Some (Inr (ext, sub')) \<Longrightarrow> get_type ext = t \<and> reads (enc ext) sub sub'"
  shows "element_contract (\<lambda>ext. ext_encode (get_type ext) (enc ext)) (ext_read name contents)"
proof (rule element_contractI)
  show "returns (ext_read name contents r)" for r
    unfolding ext_read_def by (intro returns_bind assms(1)) simp_all
  show "reads1 (ext_encode (get_type ext) (enc ext)) r r'" if "ext_read name contents r = Some (Inr (ext, r'))" for r ext r'
  proof -
    from that obtain t r1 len r2 sub sub' where p: "ExtensionType_read r = Inr (t, r1)" "u16_read r1 = Inr (len, r2)"
        "rd_sub (unat len) r2 = Inr (sub, r')" "contents t sub = Some (Inr (ext, sub'))" "\<not> rd_any_left sub'"
      unfolding ext_read_def by (auto elim!: p_bind_InrE)
    from assms(2) [OF p(4)] have "get_type ext = t" "reads (enc ext) sub sub'" by simp_all
    moreover from this have "reads1 (res_bind (enc ext) (\<lambda>sub. Inr (u16_encode (word_of_nat (length sub)) @ sub))) r1 r'"
      by (intro u16.reads_prefixed [where f = unat, OF p(2,3) _ p(5)]) simp_all
    ultimately show ?thesis
      using extension_type.reads_codec [OF p(1)] by (auto simp: ext_encode_def intro: composed)
  qed
qed

record UnknownExtension =
  ue_typ :: ExtensionType
  ue_payload :: bytes

definition UnknownExtension_encode :: "UnknownExtension \<Rightarrow> bytes res" where
  "UnknownExtension_encode ext = Inr (ue_payload ext)"

definition UnknownExtension_read :: "ExtensionType \<Rightarrow> Reader \<Rightarrow> UnknownExtension \<times> Reader" where
  "UnknownExtension_read ext_type r = (let (payload, r) = Payload_read r in (\<lparr>ue_typ = ext_type, ue_payload = payload\<rparr>, r))"

lemma reads_unknown: "UnknownExtension_read t r = (ext, r') \<Longrightarrow> ue_typ ext = t \<and> reads (UnknownExtension_encode ext) r r'"
  by (auto simp: UnknownExtension_read_def UnknownExtension_encode_def Let_def intro: reads_rest split: prod.split_asm)

section \<open>Server names\<close>

datatype ServerNamePayload = SNP_HostName bytes string | SNP_Unknown bytes

definition read_hostname :: "(bytes \<Rightarrow> string option) \<Rightarrow> ServerNamePayload parse" where
  "read_hostname try_from_ascii r =
     p_bind (parse_of PayloadU16_read r) (\<lambda>raw r.
       case try_from_ascii raw of
         Some dns_name \<Rightarrow> p_return (SNP_HostName raw dns_name) r
       | None \<Rightarrow> p_fail InvalidServerName)"

definition ServerNamePayload_encode :: "ServerNamePayload \<Rightarrow> bytes res" where
  "ServerNamePayload_encode p = (case p of SNP_HostName raw _ \<Rightarrow> Inr (PayloadU16_encode raw) | SNP_Unknown raw \<Rightarrow> Inr raw)"

record ServerName =
  sn_typ :: ServerNameType
  sn_payload :: ServerNamePayload

definition ServerName_encode :: "ServerName \<Rightarrow> bytes res" where
  "ServerName_encode name = enc_all [Inr (ServerNameType_encode (sn_typ name)), ServerNamePayload_encode (sn_payload name)]"

definition ServerName_read :: "(bytes \<Rightarrow> string option) \<Rightarrow> ServerName parse" where
  "ServerName_read try_from_ascii r =
     p_bind (parse_of ServerNameType_read r) (\<lambda>name_type r.
     p_bind (if name_type = SNT_HostName then read_hostname try_from_ascii r
             else (let (raw, r) = Payload_read r in p_return (SNP_Unknown raw) r)) (\<lambda>payload r.
       p_return \<lparr>sn_typ = name_type, sn_payload = payload\<rparr> r))"

lemma read_hostname_exact: "read_hostname f r = Some (Inr (p, r')) \<Longrightarrow> reads (ServerNamePayload_encode p) r r'"
  by (auto simp: read_hostname_def ServerNamePayload_encode_def elim!: p_bind_InrE dest!: payload_u16.reads_codec split: option.split_asm)

lemma server_name_contract: "element_contract ServerName_encode (ServerName_read f)"
proof (rule element_contractI)
  show "returns (ServerName_read f r)" for r
    unfolding ServerName_read_def read_hostname_def by (auto simp: Let_def split: option.split prod.split intro!: returns_bind)
  show "reads1 (ServerName_encode name) r r'" if "ServerName_read f r = Some (Inr (name, r'))" for r name r'
  proof -
    from that obtain t r1 p where p: "ServerNameType_read r = Inr (t, r1)" "name = \<lparr>sn_typ = t, sn_payload = p\<rparr>"
      "(if t = SNT_HostName then read_hostname f r1 else (let (raw, r) = Payload_read r1 in p_return (SNP_Unknown raw) r)) = Some (Inr (p, r'))"
      unfolding ServerName_read_def by (auto elim!: p_bind_InrE)
    from p(3) have "reads (ServerNamePayload_encode p) r1 r'"
      by (auto simp: ServerNamePayload_encode_def intro: read_hostname_exact [unfolded ServerNamePayload_encode_def] reads_rest
          split: if_split_asm prod.split_asm)
    with server_name_type.reads_codec [OF p(1)] p(2) show ?thesis by (auto simp: ServerName_encode_def intro: composed)
  qed
qed

section \<open>Key shares and pre-shared keys\<close>

record KeyShareEntry =
  kse_group :: NamedGroup
  kse_payload :: bytes

definition KeyShareEntry_encode :: "KeyShareEntry \<Rightarrow> bytes res" where
  "KeyShareEntry_encode kse = enc_all [Inr (NamedGroup_encode (kse_group kse)), Inr (PayloadU16_encode (kse_payload kse))]"

definition KeyShareEntry_read :: "KeyShareEntry parse" where
  "KeyShareEntry_read r =
     p_bind (parse_of NamedGroup_read r) (\<lambda>group r.
     p_bind (parse_of PayloadU16_read r) (\<lambda>payload r. p_return \<lparr>kse_group = group, kse_payload = payload\<rparr> r))"

record PresharedKeyIdentity =
  psk_identity :: bytes
  obfuscated_ticket_age :: u32

definition PresharedKeyIdentity_encode :: "PresharedKeyIdentity \<Rightarrow> bytes res" where
  "PresharedKeyIdentity_encode i = enc_all [Inr (PayloadU16_encode (psk_identity i)), Inr (u32_encode (obfuscated_ticket_age i))]"

definition PresharedKeyIdentity_read :: "PresharedKeyIdentity parse" where
  "PresharedKeyIdentity_read r =
     p_bind (parse_of PayloadU16_read r) (\<lambda>identity r.
     p_bind (parse_of u32_read r) (\<lambda>age r. p_return \<lparr>psk_identity = identity, obfuscated_ticket_age = age\<rparr> r))"

interpretation key_share_entry: element_contract KeyShareEntry_encode KeyShareEntry_read
  by (rule element_contractI)
    (auto simp: KeyShareEntry_read_def KeyShareEntry_encode_def elim!: p_bind_InrE dest!: parse_rules intro!: returns_bind, blast intro: composed)

interpretation preshared_key_identity: element_contract PresharedKeyIdentity_encode PresharedKeyIdentity_read
  by (rule element_contractI)
    (auto simp: PresharedKeyIdentity_read_def PresharedKeyIdentity_encode_def elim!: p_bind_InrE dest!: parse_rules intro!: returns_bind, blast intro: composed)

record PresharedKeyOffer =
  pko_identities :: "PresharedKeyIdentity list"
  pko_binders :: "bytes list"

definition PresharedKeyOffer_encode :: "PresharedKeyOffer \<Rightarrow> bytes res" where
  "PresharedKeyOffer_encode offer =
     enc_all [vec_encode Len_U16 PresharedKeyIdentity_encode (pko_identities offer),
       vec_encode Len_U16 (\<lambda>b. Inr (PayloadU8_encode b)) (pko_binders offer)]"

definition PresharedKeyOffer_read :: "PresharedKeyOffer parse" where
  "PresharedKeyOffer_read r =
     p_bind (vec_read Len_U16 PresharedKeyIdentity_read r) (\<lambda>identities r.
     p_bind (vec_read Len_U16 (parse_of PayloadU8_read) r) (\<lambda>binders r.
       p_return \<lparr>pko_identities = identities, pko_binders = binders\<rparr> r))"

section \<open>Lists of the elements so far\<close>

lemma vec_exact:
  assumes "element_contract enc rd"
  shows "vec_read Len_U8 rd r = Some (Inr (xs, r')) \<Longrightarrow> reads1 (vec_encode Len_U8 enc xs) r r'"
    and "vec_read Len_U16 rd r = Some (Inr (xs, r')) \<Longrightarrow> reads1 (vec_encode Len_U16 enc xs) r r'"
    and "vec_read (Len_U24 0x10000) rd r = Some (Inr (xs, r')) \<Longrightarrow> reads1 (vec_encode (Len_U24 0x10000) enc xs) r r'"
proof -
  note e = element_contract.parse_exact1 [OF element_contract.vec_contract [OF assms]]
  show "vec_read Len_U8 rd r = Some (Inr (xs, r')) \<Longrightarrow> reads1 (vec_encode Len_U8 enc xs) r r'" by (rule e) simp_all
  show "vec_read Len_U16 rd r = Some (Inr (xs, r')) \<Longrightarrow> reads1 (vec_encode Len_U16 enc xs) r r'" by (rule e) simp_all
  show "vec_read (Len_U24 0x10000) rd r = Some (Inr (xs, r')) \<Longrightarrow> reads1 (vec_encode (Len_U24 0x10000) enc xs) r r'"
    by (rule e) simp_all
qed

lemmas element_contracts =
  ec_point_format.as_element.element_contract_axioms named_group.as_element.element_contract_axioms
  signature_scheme.as_element.element_contract_axioms payload_u8.as_element.element_contract_axioms
  payload_u16.as_element.element_contract_axioms payload_u24.as_element.element_contract_axioms
  protocol_version.as_element.element_contract_axioms psk_key_exchange_mode.as_element.element_contract_axioms
  cipher_suite.as_element.element_contract_axioms compression.as_element.element_contract_axioms
  client_certificate_type.as_element.element_contract_axioms key_share_entry.element_contract_axioms
  preshared_key_identity.element_contract_axioms server_name_contract

lemmas vec_returns [simp] = element_contracts [THEN element_contract.vec_read_returns]

lemmas vec_rules [parse_rules] = element_contracts [THEN vec_exact(1)] element_contracts [THEN vec_exact(2)] element_contracts [THEN vec_exact(3)]

interpretation preshared_key_offer: element_contract PresharedKeyOffer_encode PresharedKeyOffer_read
  by (rule element_contractI)
    (auto simp: PresharedKeyOffer_read_def PresharedKeyOffer_encode_def elim!: p_bind_InrE dest!: parse_rules intro!: returns_bind, blast intro: composed)

section \<open>Certificate status requests\<close>

record OCSPCertificateStatusRequest =
  ocsp_responder_ids :: "bytes list"
  ocsp_extensions :: bytes

definition OCSPCertificateStatusRequest_encode :: "OCSPCertificateStatusRequest \<Rightarrow> bytes res" where
  "OCSPCertificateStatusRequest_encode req =
     enc_all [Inr (CertificateStatusType_encode CST_OCSP), vec_encode Len_U16 (\<lambda>i. Inr (PayloadU16_encode i)) (ocsp_responder_ids req),
       Inr (PayloadU16_encode (ocsp_extensions req))]"

definition OCSPCertificateStatusRequest_read :: "OCSPCertificateStatusRequest parse" where
  "OCSPCertificateStatusRequest_read r =
     p_bind (vec_read Len_U16 (parse_of PayloadU16_read) r) (\<lambda>responder_ids r.
     p_bind (parse_of PayloadU16_read r) (\<lambda>extensions r.
       p_return \<lparr>ocsp_responder_ids = responder_ids, ocsp_extensions = extensions\<rparr> r))"

datatype CertificateStatusRequest =
    CSR_OCSP OCSPCertificateStatusRequest
  | CSR_Unknown CertificateStatusType bytes

definition CertificateStatusRequest_encode :: "CertificateStatusRequest \<Rightarrow> bytes res" where
  "CertificateStatusRequest_encode req =
     (case req of
        CSR_OCSP r \<Rightarrow> OCSPCertificateStatusRequest_encode r
      | CSR_Unknown status_type payload \<Rightarrow> enc_all [Inr (CertificateStatusType_encode status_type), Inr payload])"

definition CertificateStatusRequest_read :: "CertificateStatusRequest parse" where
  "CertificateStatusRequest_read r =
     p_bind (parse_of CertificateStatusType_read r) (\<lambda>status_type r.
       if status_type = CST_OCSP then
         p_bind (OCSPCertificateStatusRequest_read r) (\<lambda>ocsp_req r. p_return (CSR_OCSP ocsp_req) r)
       else (let (payload, r) = Payload_read r in p_return (CSR_Unknown status_type payload) r))"

lemma certificate_status_request_contract: "element_contract CertificateStatusRequest_encode CertificateStatusRequest_read"
proof (rule element_contractI)
  show "returns (CertificateStatusRequest_read r)" for r
    unfolding CertificateStatusRequest_read_def OCSPCertificateStatusRequest_read_def
    by (auto simp: Let_def split: prod.split intro!: returns_bind)
  show "reads1 (CertificateStatusRequest_encode req) r r'" if "CertificateStatusRequest_read r = Some (Inr (req, r'))" for r req r'
    using that unfolding CertificateStatusRequest_read_def OCSPCertificateStatusRequest_read_def
    by (auto simp: CertificateStatusRequest_encode_def OCSPCertificateStatusRequest_encode_def Let_def elim!: p_bind_InrE
        dest!: parse_rules reads_rest split: if_split_asm prod.split_asm) (blast intro: composed)+
qed

declare preshared_key_offer.parse_exact1 [parse_rules] element_contract.parse_exact1 [OF certificate_status_request_contract, parse_rules]
declare element_contract.axioms(1) [OF certificate_status_request_contract, THEN parse_contract.parse_returns, simp]
declare preshared_key_offer.parse_returns [simp] key_share_entry.parse_returns [simp]
declare key_share_entry.parse_exact1 [parse_rules]

section \<open>Extensions of client hellos\<close>

definition p_map :: "('a \<Rightarrow> 'b) \<Rightarrow> (InvalidMessage + 'a \<times> Reader) option \<Rightarrow> (InvalidMessage + 'b \<times> Reader) option" where
  "p_map f m = p_bind m (\<lambda>x r. p_return (f x) r)"

lemma p_map_returns [intro!]: "returns m \<Longrightarrow> returns (p_map f m)"
  unfolding p_map_def by (intro returns_bind) simp_all

lemma p_map_InrE:
  assumes "p_map f m = Some (Inr (y, r))"
  obtains x where "m = Some (Inr (x, r))" "y = f x"
  using assms by (auto simp: p_map_def elim!: p_bind_InrE)

text \<open>The contents that are not parsed.\<close>

definition p_rest :: "(bytes \<Rightarrow> 'a) \<Rightarrow> 'a parse" where
  "p_rest f r = (let (bs, r) = Payload_read r in p_return (f bs) r)"

definition p_unknown :: "(UnknownExtension \<Rightarrow> 'a) \<Rightarrow> ExtensionType \<Rightarrow> 'a parse" where
  "p_unknown f ext_type r = (let (ext, r) = UnknownExtension_read ext_type r in p_return (f ext) r)"

lemma p_rest_returns [simp]: "returns (p_rest f r)"
  by (simp add: p_rest_def Let_def split: prod.split)

lemma p_unknown_returns [simp]: "returns (p_unknown f t r)"
  by (simp add: p_unknown_def Let_def split: prod.split)

lemma p_rest_InrE:
  assumes "p_rest f r = Some (Inr (y, r'))"
  obtains bs where "y = f bs" "reads (Inr bs) r r'"
  using assms by (auto simp: p_rest_def Let_def dest: reads_rest split: prod.split_asm)

lemma p_unknown_InrE:
  assumes "p_unknown f t r = Some (Inr (y, r'))"
  obtains ext where "y = f ext" "ue_typ ext = t" "reads (UnknownExtension_encode ext) r r'"
  using assms by (auto simp: p_unknown_def Let_def dest!: reads_unknown split: prod.split_asm)

lemmas parse_elims = p_bind_InrE p_map_InrE p_rest_InrE p_unknown_InrE

datatype ClientSessionTicket = Ticket_Request | Ticket_Offer bytes

datatype (plugins only: code) ClientExtension =
    CE_ECPointFormats "ECPointFormat list"
  | CE_NamedGroups "NamedGroup list"
  | CE_SignatureAlgorithms "SignatureScheme list"
  | CE_ServerName "ServerName list"
  | CE_SessionTicket ClientSessionTicket
  | CE_Protocols "bytes list"
  | CE_SupportedVersions "ProtocolVersion list"
  | CE_KeyShare "KeyShareEntry list"
  | CE_PresharedKeyModes "PSKKeyExchangeMode list"
  | CE_PresharedKey PresharedKeyOffer
  | CE_Cookie bytes
  | CE_ExtendedMasterSecretRequest
  | CE_CertificateStatusRequest CertificateStatusRequest
  | CE_SignedCertificateTimestampRequest
  | CE_TransportParameters bytes
  | CE_TransportParametersDraft bytes
  | CE_EarlyData
  | CE_Unknown UnknownExtension

primrec ClientExtension_get_type :: "ClientExtension \<Rightarrow> ExtensionType" where
  "ClientExtension_get_type (CE_ECPointFormats _) = ET_ECPointFormats"
| "ClientExtension_get_type (CE_NamedGroups _) = ET_EllipticCurves"
| "ClientExtension_get_type (CE_SignatureAlgorithms _) = ET_SignatureAlgorithms"
| "ClientExtension_get_type (CE_ServerName _) = ET_ServerName"
| "ClientExtension_get_type (CE_SessionTicket _) = ET_SessionTicket"
| "ClientExtension_get_type (CE_Protocols _) = ET_ALProtocolNegotiation"
| "ClientExtension_get_type (CE_SupportedVersions _) = ET_SupportedVersions"
| "ClientExtension_get_type (CE_KeyShare _) = ET_KeyShare"
| "ClientExtension_get_type (CE_PresharedKeyModes _) = ET_PSKKeyExchangeModes"
| "ClientExtension_get_type (CE_PresharedKey _) = ET_PreSharedKey"
| "ClientExtension_get_type (CE_Cookie _) = ET_Cookie"
| "ClientExtension_get_type CE_ExtendedMasterSecretRequest = ET_ExtendedMasterSecret"
| "ClientExtension_get_type (CE_CertificateStatusRequest _) = ET_StatusRequest"
| "ClientExtension_get_type CE_SignedCertificateTimestampRequest = ET_SCT"
| "ClientExtension_get_type (CE_TransportParameters _) = ET_TransportParameters"
| "ClientExtension_get_type (CE_TransportParametersDraft _) = ET_TransportParametersDraft"
| "ClientExtension_get_type CE_EarlyData = ET_EarlyData"
| "ClientExtension_get_type (CE_Unknown r) = ue_typ r"

primrec ClientExtension_contents :: "ClientExtension \<Rightarrow> bytes res" where
  "ClientExtension_contents (CE_ECPointFormats r) = vec_encode Len_U8 (\<lambda>x. Inr (ECPointFormat_encode x)) r"
| "ClientExtension_contents (CE_NamedGroups r) = vec_encode Len_U16 (\<lambda>x. Inr (NamedGroup_encode x)) r"
| "ClientExtension_contents (CE_SignatureAlgorithms r) = vec_encode Len_U16 (\<lambda>x. Inr (SignatureScheme_encode x)) r"
| "ClientExtension_contents (CE_ServerName r) = vec_encode Len_U16 ServerName_encode r"
| "ClientExtension_contents (CE_SessionTicket ticket) = (case ticket of Ticket_Request \<Rightarrow> Inr [] | Ticket_Offer r \<Rightarrow> Inr r)"
| "ClientExtension_contents (CE_Protocols r) = vec_encode Len_U16 (\<lambda>x. Inr (PayloadU8_encode x)) r"
| "ClientExtension_contents (CE_SupportedVersions r) = vec_encode Len_U8 (\<lambda>x. Inr (ProtocolVersion_encode x)) r"
| "ClientExtension_contents (CE_KeyShare r) = vec_encode Len_U16 KeyShareEntry_encode r"
| "ClientExtension_contents (CE_PresharedKeyModes r) = vec_encode Len_U8 (\<lambda>x. Inr (PSKKeyExchangeMode_encode x)) r"
| "ClientExtension_contents (CE_PresharedKey r) = PresharedKeyOffer_encode r"
| "ClientExtension_contents (CE_Cookie r) = Inr (PayloadU16_encode r)"
| "ClientExtension_contents CE_ExtendedMasterSecretRequest = Inr []"
| "ClientExtension_contents (CE_CertificateStatusRequest r) = CertificateStatusRequest_encode r"
| "ClientExtension_contents CE_SignedCertificateTimestampRequest = Inr []"
| "ClientExtension_contents (CE_TransportParameters r) = Inr r"
| "ClientExtension_contents (CE_TransportParametersDraft r) = Inr r"
| "ClientExtension_contents CE_EarlyData = Inr []"
| "ClientExtension_contents (CE_Unknown r) = UnknownExtension_encode r"

definition ClientExtension_encode :: "ClientExtension \<Rightarrow> bytes res" where
  "ClientExtension_encode ext = ext_encode (ClientExtension_get_type ext) (ClientExtension_contents ext)"

definition ClientExtension_parse :: "(bytes \<Rightarrow> string option) \<Rightarrow> ExtensionType \<Rightarrow> ClientExtension parse" where
  "ClientExtension_parse try_from_ascii t sub =
     (if t = ET_ECPointFormats then p_map CE_ECPointFormats (vec_read Len_U8 (parse_of ECPointFormat_read) sub)
      else if t = ET_EllipticCurves then p_map CE_NamedGroups (vec_read Len_U16 (parse_of NamedGroup_read) sub)
      else if t = ET_SignatureAlgorithms then p_map CE_SignatureAlgorithms (vec_read Len_U16 (parse_of SignatureScheme_read) sub)
      else if t = ET_ServerName then p_map CE_ServerName (vec_read Len_U16 (ServerName_read try_from_ascii) sub)
      else if t = ET_SessionTicket then
        (if rd_any_left sub then p_rest (\<lambda>bs. CE_SessionTicket (Ticket_Offer bs)) sub else p_return (CE_SessionTicket Ticket_Request) sub)
      else if t = ET_ALProtocolNegotiation then p_map CE_Protocols (vec_read Len_U16 (parse_of PayloadU8_read) sub)
      else if t = ET_SupportedVersions then p_map CE_SupportedVersions (vec_read Len_U8 (parse_of ProtocolVersion_read) sub)
      else if t = ET_KeyShare then p_map CE_KeyShare (vec_read Len_U16 KeyShareEntry_read sub)
      else if t = ET_PSKKeyExchangeModes then p_map CE_PresharedKeyModes (vec_read Len_U8 (parse_of PSKKeyExchangeMode_read) sub)
      else if t = ET_PreSharedKey then p_map CE_PresharedKey (PresharedKeyOffer_read sub)
      else if t = ET_Cookie then p_map CE_Cookie (parse_of PayloadU16_read sub)
      else if t = ET_ExtendedMasterSecret \<and> \<not> rd_any_left sub then p_return CE_ExtendedMasterSecretRequest sub
      else if t = ET_StatusRequest then p_map CE_CertificateStatusRequest (CertificateStatusRequest_read sub)
      else if t = ET_SCT \<and> \<not> rd_any_left sub then p_return CE_SignedCertificateTimestampRequest sub
      else if t = ET_TransportParameters then p_rest CE_TransportParameters sub
      else if t = ET_TransportParametersDraft then p_rest CE_TransportParametersDraft sub
      else if t = ET_EarlyData \<and> \<not> rd_any_left sub then p_return CE_EarlyData sub
      else p_unknown CE_Unknown t sub)"

definition ClientExtension_read :: "(bytes \<Rightarrow> string option) \<Rightarrow> ClientExtension parse" where
  "ClientExtension_read try_from_ascii = ext_read ''ClientExtension'' (ClientExtension_parse try_from_ascii)"

lemma client_extension_contract: "element_contract ClientExtension_encode (ClientExtension_read f)"
  unfolding ClientExtension_encode_def ClientExtension_read_def
proof (rule ext_contract)
  show "returns (ClientExtension_parse f t sub)" for t sub
    unfolding ClientExtension_parse_def by (auto intro!: p_map_returns)
  show "ClientExtension_get_type ext = t \<and> reads (ClientExtension_contents ext) sub sub'"
    if "ClientExtension_parse f t sub = Some (Inr (ext, sub'))" for t sub ext sub'
    using that unfolding ClientExtension_parse_def
    by (auto elim!: parse_elims dest!: parse_rules split: if_split_asm)
qed

end
