(* ===== verification/Tls_Handshake.thy ===== *)
theory Tls_Handshake
  imports Tls_Extensions
begin

text \<open>
  The payloads of handshake messages (\<open>msgs/handshake.rs\<close>): hellos, retry requests, certificates,
  certificate requests, key exchanges and tickets, for TLS 1.2 and 1.3, with their encoders and parsers.

  Each parser returns on every input, and what it returns is encoded as the bytes it was parsed from,
  except that a server hello with an empty list of extensions is encoded without the list.
\<close>

section \<open>Extensions of server messages\<close>

datatype (plugins only: code) ServerExtension =
    SE_ECPointFormats "ECPointFormat list"
  | SE_ServerNameAck
  | SE_SessionTicketAck
  | SE_RenegotiationInfo bytes
  | SE_Protocols "bytes list"
  | SE_KeyShare KeyShareEntry
  | SE_PresharedKey u16
  | SE_ExtendedMasterSecretAck
  | SE_CertificateStatusAck
  | SE_SignedCertificateTimestamp "bytes list"
  | SE_SupportedVersions ProtocolVersion
  | SE_TransportParameters bytes
  | SE_TransportParametersDraft bytes
  | SE_EarlyData
  | SE_Unknown UnknownExtension

primrec ServerExtension_get_type :: "ServerExtension \<Rightarrow> ExtensionType" where
  "ServerExtension_get_type (SE_ECPointFormats _) = ET_ECPointFormats"
| "ServerExtension_get_type SE_ServerNameAck = ET_ServerName"
| "ServerExtension_get_type SE_SessionTicketAck = ET_SessionTicket"
| "ServerExtension_get_type (SE_RenegotiationInfo _) = ET_RenegotiationInfo"
| "ServerExtension_get_type (SE_Protocols _) = ET_ALProtocolNegotiation"
| "ServerExtension_get_type (SE_KeyShare _) = ET_KeyShare"
| "ServerExtension_get_type (SE_PresharedKey _) = ET_PreSharedKey"
| "ServerExtension_get_type SE_ExtendedMasterSecretAck = ET_ExtendedMasterSecret"
| "ServerExtension_get_type SE_CertificateStatusAck = ET_StatusRequest"
| "ServerExtension_get_type (SE_SignedCertificateTimestamp _) = ET_SCT"
| "ServerExtension_get_type (SE_SupportedVersions _) = ET_SupportedVersions"
| "ServerExtension_get_type (SE_TransportParameters _) = ET_TransportParameters"
| "ServerExtension_get_type (SE_TransportParametersDraft _) = ET_TransportParametersDraft"
| "ServerExtension_get_type SE_EarlyData = ET_EarlyData"
| "ServerExtension_get_type (SE_Unknown r) = ue_typ r"

primrec ServerExtension_contents :: "ServerExtension \<Rightarrow> bytes res" where
  "ServerExtension_contents (SE_ECPointFormats r) = vec_encode Len_U8 (\<lambda>x. Inr (ECPointFormat_encode x)) r"
| "ServerExtension_contents SE_ServerNameAck = Inr []"
| "ServerExtension_contents SE_SessionTicketAck = Inr []"
| "ServerExtension_contents (SE_RenegotiationInfo r) = Inr (PayloadU8_encode r)"
| "ServerExtension_contents (SE_Protocols r) = vec_encode Len_U16 (\<lambda>x. Inr (PayloadU8_encode x)) r"
| "ServerExtension_contents (SE_KeyShare r) = KeyShareEntry_encode r"
| "ServerExtension_contents (SE_PresharedKey r) = Inr (u16_encode r)"
| "ServerExtension_contents SE_ExtendedMasterSecretAck = Inr []"
| "ServerExtension_contents SE_CertificateStatusAck = Inr []"
| "ServerExtension_contents (SE_SignedCertificateTimestamp r) = vec_encode Len_U16 (\<lambda>x. Inr (PayloadU16_encode x)) r"
| "ServerExtension_contents (SE_SupportedVersions r) = Inr (ProtocolVersion_encode r)"
| "ServerExtension_contents (SE_TransportParameters r) = Inr r"
| "ServerExtension_contents (SE_TransportParametersDraft r) = Inr r"
| "ServerExtension_contents SE_EarlyData = Inr []"
| "ServerExtension_contents (SE_Unknown r) = UnknownExtension_encode r"

definition ServerExtension_encode :: "ServerExtension \<Rightarrow> bytes res" where
  "ServerExtension_encode ext = ext_encode (ServerExtension_get_type ext) (ServerExtension_contents ext)"

definition ServerExtension_parse :: "ExtensionType \<Rightarrow> ServerExtension parse" where
  "ServerExtension_parse t sub =
     (if t = ET_ECPointFormats then p_map SE_ECPointFormats (vec_read Len_U8 (parse_of ECPointFormat_read) sub)
      else if t = ET_ServerName then p_return SE_ServerNameAck sub
      else if t = ET_SessionTicket then p_return SE_SessionTicketAck sub
      else if t = ET_StatusRequest then p_return SE_CertificateStatusAck sub
      else if t = ET_RenegotiationInfo then p_map SE_RenegotiationInfo (parse_of PayloadU8_read sub)
      else if t = ET_ALProtocolNegotiation then p_map SE_Protocols (vec_read Len_U16 (parse_of PayloadU8_read) sub)
      else if t = ET_KeyShare then p_map SE_KeyShare (KeyShareEntry_read sub)
      else if t = ET_PreSharedKey then p_map SE_PresharedKey (parse_of u16_read sub)
      else if t = ET_ExtendedMasterSecret then p_return SE_ExtendedMasterSecretAck sub
      else if t = ET_SCT then p_map SE_SignedCertificateTimestamp (vec_read Len_U16 (parse_of PayloadU16_read) sub)
      else if t = ET_SupportedVersions then p_map SE_SupportedVersions (parse_of ProtocolVersion_read sub)
      else if t = ET_TransportParameters then p_rest SE_TransportParameters sub
      else if t = ET_TransportParametersDraft then p_rest SE_TransportParametersDraft sub
      else if t = ET_EarlyData then p_return SE_EarlyData sub
      else p_unknown SE_Unknown t sub)"

definition ServerExtension_read :: "ServerExtension parse" where
  "ServerExtension_read = ext_read ''ServerExtension'' ServerExtension_parse"

interpretation server_extension: element_contract ServerExtension_encode ServerExtension_read
  unfolding ServerExtension_encode_def ServerExtension_read_def
proof (rule ext_contract)
  show "returns (ServerExtension_parse t sub)" for t sub
    unfolding ServerExtension_parse_def by (auto intro!: p_map_returns)
  show "ServerExtension_get_type ext = t \<and> reads (ServerExtension_contents ext) sub sub'"
    if "ServerExtension_parse t sub = Some (Inr (ext, sub'))" for t sub ext sub'
    using that unfolding ServerExtension_parse_def
    by (auto elim!: parse_elims dest!: parse_rules split: if_split_asm)
qed

datatype HelloRetryExtension =
    HRE_KeyShare NamedGroup
  | HRE_Cookie bytes
  | HRE_SupportedVersions ProtocolVersion
  | HRE_Unknown UnknownExtension

primrec HelloRetryExtension_get_type :: "HelloRetryExtension \<Rightarrow> ExtensionType" where
  "HelloRetryExtension_get_type (HRE_KeyShare _) = ET_KeyShare"
| "HelloRetryExtension_get_type (HRE_Cookie _) = ET_Cookie"
| "HelloRetryExtension_get_type (HRE_SupportedVersions _) = ET_SupportedVersions"
| "HelloRetryExtension_get_type (HRE_Unknown r) = ue_typ r"

primrec HelloRetryExtension_contents :: "HelloRetryExtension \<Rightarrow> bytes res" where
  "HelloRetryExtension_contents (HRE_KeyShare r) = Inr (NamedGroup_encode r)"
| "HelloRetryExtension_contents (HRE_Cookie r) = Inr (PayloadU16_encode r)"
| "HelloRetryExtension_contents (HRE_SupportedVersions r) = Inr (ProtocolVersion_encode r)"
| "HelloRetryExtension_contents (HRE_Unknown r) = UnknownExtension_encode r"

definition HelloRetryExtension_encode :: "HelloRetryExtension \<Rightarrow> bytes res" where
  "HelloRetryExtension_encode ext = ext_encode (HelloRetryExtension_get_type ext) (HelloRetryExtension_contents ext)"

definition HelloRetryExtension_parse :: "ExtensionType \<Rightarrow> HelloRetryExtension parse" where
  "HelloRetryExtension_parse t sub =
     (if t = ET_KeyShare then p_map HRE_KeyShare (parse_of NamedGroup_read sub)
      else if t = ET_Cookie then p_map HRE_Cookie (parse_of PayloadU16_read sub)
      else if t = ET_SupportedVersions then p_map HRE_SupportedVersions (parse_of ProtocolVersion_read sub)
      else p_unknown HRE_Unknown t sub)"

definition HelloRetryExtension_read :: "HelloRetryExtension parse" where
  "HelloRetryExtension_read = ext_read ''HelloRetryExtension'' HelloRetryExtension_parse"

interpretation hello_retry_extension: element_contract HelloRetryExtension_encode HelloRetryExtension_read
  unfolding HelloRetryExtension_encode_def HelloRetryExtension_read_def
proof (rule ext_contract)
  show "returns (HelloRetryExtension_parse t sub)" for t sub
    unfolding HelloRetryExtension_parse_def by (auto intro!: p_map_returns)
  show "HelloRetryExtension_get_type ext = t \<and> reads (HelloRetryExtension_contents ext) sub sub'"
    if "HelloRetryExtension_parse t sub = Some (Inr (ext, sub'))" for t sub ext sub'
    using that unfolding HelloRetryExtension_parse_def
    by (auto elim!: parse_elims dest!: parse_rules split: if_split_asm)
qed

datatype CertificateStatus = CertificateStatus (ocsp_response: bytes)

definition CertificateStatus_encode :: "CertificateStatus \<Rightarrow> bytes res" where
  "CertificateStatus_encode st = enc_all [Inr (CertificateStatusType_encode CST_OCSP), Inr (PayloadU24_encode (ocsp_response st))]"

definition CertificateStatus_read :: "CertificateStatus parse" where
  "CertificateStatus_read r =
     p_bind (parse_of CertificateStatusType_read r) (\<lambda>status_type r.
       if status_type = CST_OCSP then p_map CertificateStatus (parse_of PayloadU24_read r)
       else p_fail InvalidCertificateStatusType)"

interpretation certificate_status: element_contract CertificateStatus_encode CertificateStatus_read
  by (rule element_contractI)
    (auto simp: CertificateStatus_read_def CertificateStatus_encode_def elim!: parse_elims dest!: parse_rules
      intro!: returns_bind p_map_returns split: if_split_asm, blast intro: composed)

declare certificate_status.parse_exact1 [parse_rules] certificate_status.parse_returns [simp]

datatype CertificateExtension =
    CX_CertificateStatus CertificateStatus
  | CX_SignedCertificateTimestamp "bytes list"
  | CX_Unknown UnknownExtension

primrec CertificateExtension_get_type :: "CertificateExtension \<Rightarrow> ExtensionType" where
  "CertificateExtension_get_type (CX_CertificateStatus _) = ET_StatusRequest"
| "CertificateExtension_get_type (CX_SignedCertificateTimestamp _) = ET_SCT"
| "CertificateExtension_get_type (CX_Unknown r) = ue_typ r"

primrec CertificateExtension_contents :: "CertificateExtension \<Rightarrow> bytes res" where
  "CertificateExtension_contents (CX_CertificateStatus r) = CertificateStatus_encode r"
| "CertificateExtension_contents (CX_SignedCertificateTimestamp r) = vec_encode Len_U16 (\<lambda>x. Inr (PayloadU16_encode x)) r"
| "CertificateExtension_contents (CX_Unknown r) = UnknownExtension_encode r"

definition CertificateExtension_encode :: "CertificateExtension \<Rightarrow> bytes res" where
  "CertificateExtension_encode ext = ext_encode (CertificateExtension_get_type ext) (CertificateExtension_contents ext)"

definition CertificateExtension_parse :: "ExtensionType \<Rightarrow> CertificateExtension parse" where
  "CertificateExtension_parse t sub =
     (if t = ET_StatusRequest then p_map CX_CertificateStatus (CertificateStatus_read sub)
      else if t = ET_SCT then p_map CX_SignedCertificateTimestamp (vec_read Len_U16 (parse_of PayloadU16_read) sub)
      else p_unknown CX_Unknown t sub)"

definition CertificateExtension_read :: "CertificateExtension parse" where
  "CertificateExtension_read = ext_read ''CertificateExtension'' CertificateExtension_parse"

interpretation certificate_extension: element_contract CertificateExtension_encode CertificateExtension_read
  unfolding CertificateExtension_encode_def CertificateExtension_read_def
proof (rule ext_contract)
  show "returns (CertificateExtension_parse t sub)" for t sub
    unfolding CertificateExtension_parse_def by (auto intro!: p_map_returns)
  show "CertificateExtension_get_type ext = t \<and> reads (CertificateExtension_contents ext) sub sub'"
    if "CertificateExtension_parse t sub = Some (Inr (ext, sub'))" for t sub ext sub'
    using that unfolding CertificateExtension_parse_def
    by (auto elim!: parse_elims dest!: parse_rules split: if_split_asm)
qed

datatype CertReqExtension =
    CRE_SignatureAlgorithms "SignatureScheme list"
  | CRE_AuthorityNames "bytes list"
  | CRE_Unknown UnknownExtension

primrec CertReqExtension_get_type :: "CertReqExtension \<Rightarrow> ExtensionType" where
  "CertReqExtension_get_type (CRE_SignatureAlgorithms _) = ET_SignatureAlgorithms"
| "CertReqExtension_get_type (CRE_AuthorityNames _) = ET_CertificateAuthorities"
| "CertReqExtension_get_type (CRE_Unknown r) = ue_typ r"

primrec CertReqExtension_contents :: "CertReqExtension \<Rightarrow> bytes res" where
  "CertReqExtension_contents (CRE_SignatureAlgorithms r) = vec_encode Len_U16 (\<lambda>x. Inr (SignatureScheme_encode x)) r"
| "CertReqExtension_contents (CRE_AuthorityNames r) = vec_encode Len_U16 (\<lambda>x. Inr (PayloadU16_encode x)) r"
| "CertReqExtension_contents (CRE_Unknown r) = UnknownExtension_encode r"

definition CertReqExtension_encode :: "CertReqExtension \<Rightarrow> bytes res" where
  "CertReqExtension_encode ext = ext_encode (CertReqExtension_get_type ext) (CertReqExtension_contents ext)"

definition CertReqExtension_parse :: "ExtensionType \<Rightarrow> CertReqExtension parse" where
  "CertReqExtension_parse t sub =
     (if t = ET_SignatureAlgorithms then
        p_bind (vec_read Len_U16 (parse_of SignatureScheme_read) sub) (\<lambda>schemes sub.
          if schemes = [] then p_fail NoSignatureSchemes else p_return (CRE_SignatureAlgorithms schemes) sub)
      else if t = ET_CertificateAuthorities then p_map CRE_AuthorityNames (vec_read Len_U16 (parse_of PayloadU16_read) sub)
      else p_unknown CRE_Unknown t sub)"

definition CertReqExtension_read :: "CertReqExtension parse" where
  "CertReqExtension_read = ext_read ''CertReqExtension'' CertReqExtension_parse"

interpretation cert_req_extension: element_contract CertReqExtension_encode CertReqExtension_read
  unfolding CertReqExtension_encode_def CertReqExtension_read_def
proof (rule ext_contract)
  show "returns (CertReqExtension_parse t sub)" for t sub
    unfolding CertReqExtension_parse_def by (auto intro!: p_map_returns returns_bind)
  show "CertReqExtension_get_type ext = t \<and> reads (CertReqExtension_contents ext) sub sub'"
    if "CertReqExtension_parse t sub = Some (Inr (ext, sub'))" for t sub ext sub'
    using that unfolding CertReqExtension_parse_def
    by (auto elim!: parse_elims dest!: parse_rules split: if_split_asm)
qed

datatype NewSessionTicketExtension =
    NSTE_EarlyData u32
  | NSTE_Unknown UnknownExtension

primrec NewSessionTicketExtension_get_type :: "NewSessionTicketExtension \<Rightarrow> ExtensionType" where
  "NewSessionTicketExtension_get_type (NSTE_EarlyData _) = ET_EarlyData"
| "NewSessionTicketExtension_get_type (NSTE_Unknown r) = ue_typ r"

primrec NewSessionTicketExtension_contents :: "NewSessionTicketExtension \<Rightarrow> bytes res" where
  "NewSessionTicketExtension_contents (NSTE_EarlyData r) = Inr (u32_encode r)"
| "NewSessionTicketExtension_contents (NSTE_Unknown r) = UnknownExtension_encode r"

definition NewSessionTicketExtension_encode :: "NewSessionTicketExtension \<Rightarrow> bytes res" where
  "NewSessionTicketExtension_encode ext = ext_encode (NewSessionTicketExtension_get_type ext) (NewSessionTicketExtension_contents ext)"

definition NewSessionTicketExtension_parse :: "ExtensionType \<Rightarrow> NewSessionTicketExtension parse" where
  "NewSessionTicketExtension_parse t sub =
     (if t = ET_EarlyData then p_map NSTE_EarlyData (parse_of u32_read sub) else p_unknown NSTE_Unknown t sub)"

definition NewSessionTicketExtension_read :: "NewSessionTicketExtension parse" where
  "NewSessionTicketExtension_read = ext_read ''NewSessionTicketExtension'' NewSessionTicketExtension_parse"

interpretation new_session_ticket_extension: element_contract NewSessionTicketExtension_encode NewSessionTicketExtension_read
  unfolding NewSessionTicketExtension_encode_def NewSessionTicketExtension_read_def
proof (rule ext_contract)
  show "returns (NewSessionTicketExtension_parse t sub)" for t sub
    unfolding NewSessionTicketExtension_parse_def by (auto intro!: p_map_returns)
  show "NewSessionTicketExtension_get_type ext = t \<and> reads (NewSessionTicketExtension_contents ext) sub sub'"
    if "NewSessionTicketExtension_parse t sub = Some (Inr (ext, sub'))" for t sub ext sub'
    using that unfolding NewSessionTicketExtension_parse_def
    by (auto elim!: parse_elims dest!: parse_rules split: if_split_asm)
qed

lemmas extension_elements =
  client_extension_contract server_extension.element_contract_axioms hello_retry_extension.element_contract_axioms
  certificate_extension.element_contract_axioms cert_req_extension.element_contract_axioms
  new_session_ticket_extension.element_contract_axioms

lemmas extension_lists_return [simp] = extension_elements [THEN element_contract.vec_read_returns]

lemmas extension_lists [parse_rules] = extension_elements [THEN vec_exact(2)]

section \<open>Hellos\<close>

record ClientHelloPayload =
  client_version :: ProtocolVersion
  ch_random :: bytes
  ch_session_id :: SessionId
  ch_cipher_suites :: "CipherSuite list"
  ch_compression_methods :: "Compression list"
  ch_extensions :: "ClientExtension list"

definition ClientHelloPayload_encode :: "ClientHelloPayload \<Rightarrow> bytes res" where
  "ClientHelloPayload_encode ch =
     enc_all [Inr (ProtocolVersion_encode (client_version ch)), Random_encode (ch_random ch), SessionId_encode (ch_session_id ch),
       vec_encode Len_U16 (\<lambda>x. Inr (CipherSuite_encode x)) (ch_cipher_suites ch),
       vec_encode Len_U8 (\<lambda>x. Inr (Compression_encode x)) (ch_compression_methods ch),
       if ch_extensions ch \<noteq> [] then vec_encode Len_U16 ClientExtension_encode (ch_extensions ch) else Inr []]"

definition ClientHelloPayload_read :: "(bytes \<Rightarrow> string option) \<Rightarrow> ClientHelloPayload parse" where
  "ClientHelloPayload_read try_from_ascii r =
     p_bind (parse_of ProtocolVersion_read r) (\<lambda>version r.
     p_bind (Random_read r) (\<lambda>random r.
     p_bind (SessionId_read r) (\<lambda>session_id r.
     p_bind (vec_read Len_U16 (parse_of CipherSuite_read) r) (\<lambda>cipher_suites r.
     p_bind (vec_read Len_U8 (parse_of Compression_read) r) (\<lambda>compression_methods r.
     p_bind (if rd_any_left r then vec_read Len_U16 (ClientExtension_read try_from_ascii) r else p_return [] r) (\<lambda>extensions r.
       if rd_any_left r then p_fail (TrailingData ''ClientHelloPayload'')
       else if extensions = [] then p_fail (MissingData ''ClientHelloPayload'')
       else p_return \<lparr>client_version = version, ch_random = random, ch_session_id = session_id, ch_cipher_suites = cipher_suites,
              ch_compression_methods = compression_methods, ch_extensions = extensions\<rparr> r))))))"

lemma client_hello_returns [simp]: "returns (ClientHelloPayload_read f r)"
  unfolding ClientHelloPayload_read_def by (intro returns_bind) (simp_all add: random.parse_returns session_id.parse_returns)

lemma client_hello_exact [parse_rules]:
  "ClientHelloPayload_read f r = Some (Inr (ch, r')) \<Longrightarrow> reads (ClientHelloPayload_encode ch) r r'"
  unfolding ClientHelloPayload_read_def ClientHelloPayload_encode_def
  by (auto elim!: parse_elims dest!: parse_rules split: if_split_asm) (blast intro: composed)

definition HELLO_RETRY_REQUEST_RANDOM :: bytes where
  "HELLO_RETRY_REQUEST_RANDOM =
     [0xcf, 0x21, 0xad, 0x74, 0xe5, 0x9a, 0x61, 0x11, 0xbe, 0x1d, 0x8c, 0x02, 0x1e, 0x65, 0xb8, 0x91,
      0xc2, 0xa2, 0x11, 0x16, 0x7a, 0xbb, 0x8c, 0x5e, 0x07, 0x9e, 0x09, 0xe2, 0xc8, 0xa8, 0x33, 0x9c]"

definition ZERO_RANDOM :: bytes where
  "ZERO_RANDOM = replicate 32 0"

record HelloRetryRequest =
  hrr_legacy_version :: ProtocolVersion
  hrr_session_id :: SessionId
  hrr_cipher_suite :: CipherSuite
  hrr_extensions :: "HelloRetryExtension list"

definition HelloRetryRequest_encode :: "HelloRetryRequest \<Rightarrow> bytes res" where
  "HelloRetryRequest_encode hrr =
     enc_all [Inr (ProtocolVersion_encode (hrr_legacy_version hrr)), Random_encode HELLO_RETRY_REQUEST_RANDOM,
       SessionId_encode (hrr_session_id hrr), Inr (CipherSuite_encode (hrr_cipher_suite hrr)), Inr (Compression_encode Comp_Null),
       vec_encode Len_U16 HelloRetryExtension_encode (hrr_extensions hrr)]"

definition HelloRetryRequest_read :: "HelloRetryRequest parse" where
  "HelloRetryRequest_read r =
     p_bind (SessionId_read r) (\<lambda>session_id r.
     p_bind (parse_of CipherSuite_read r) (\<lambda>cipher_suite r.
     p_bind (parse_of Compression_read r) (\<lambda>compression r.
       if compression \<noteq> Comp_Null then p_fail UnsupportedCompression
       else
         p_bind (vec_read Len_U16 HelloRetryExtension_read r) (\<lambda>extensions r.
           p_return \<lparr>hrr_legacy_version = PV_Unknown 0, hrr_session_id = session_id, hrr_cipher_suite = cipher_suite,
             hrr_extensions = extensions\<rparr> r))))"

record ServerHelloPayload =
  sh_legacy_version :: ProtocolVersion
  sh_random :: bytes
  sh_session_id :: SessionId
  sh_cipher_suite :: CipherSuite
  sh_compression_method :: Compression
  sh_extensions :: "ServerExtension list"

definition ServerHelloPayload_encode :: "ServerHelloPayload \<Rightarrow> bytes res" where
  "ServerHelloPayload_encode sh =
     enc_all [Inr (ProtocolVersion_encode (sh_legacy_version sh)), Random_encode (sh_random sh), SessionId_encode (sh_session_id sh),
       Inr (CipherSuite_encode (sh_cipher_suite sh)), Inr (Compression_encode (sh_compression_method sh)),
       if sh_extensions sh \<noteq> [] then vec_encode Len_U16 ServerExtension_encode (sh_extensions sh) else Inr []]"

definition ServerHelloPayload_read :: "ServerHelloPayload parse" where
  "ServerHelloPayload_read r =
     p_bind (SessionId_read r) (\<lambda>session_id r.
     p_bind (parse_of CipherSuite_read r) (\<lambda>suite r.
     p_bind (parse_of Compression_read r) (\<lambda>compression r.
     p_bind (if rd_any_left r then vec_read Len_U16 ServerExtension_read r else p_return [] r) (\<lambda>extensions r.
       p_finish ''ServerHelloPayload'' r
         \<lparr>sh_legacy_version = PV_Unknown 0, sh_random = ZERO_RANDOM, sh_session_id = session_id, sh_cipher_suite = suite,
          sh_compression_method = compression, sh_extensions = extensions\<rparr> r))))"

lemma hello_returns [simp]: "returns (HelloRetryRequest_read r)" "returns (ServerHelloPayload_read r)"
  unfolding HelloRetryRequest_read_def ServerHelloPayload_read_def
  by (auto intro!: returns_bind simp: session_id.parse_returns)

text \<open>What follows the version and the random, which the message reads before it tells the two hellos apart.\<close>

lemma hello_retry_request_exact:
  assumes "HelloRetryRequest_read r = Some (Inr (hrr, r'))"
    and "reads1 (Inr (ProtocolVersion_encode version)) r0 r1" and "reads1 (Random_encode HELLO_RETRY_REQUEST_RANDOM) r1 r"
  shows "reads (HelloRetryRequest_encode (hrr\<lparr>hrr_legacy_version := version\<rparr>)) r0 r'"
  using assms unfolding HelloRetryRequest_read_def HelloRetryRequest_encode_def
  by (auto elim!: parse_elims dest!: parse_rules split: if_split_asm) (blast intro: composed)

lemma server_hello_exact:
  assumes "ServerHelloPayload_read r = Some (Inr (sh, r'))" and "sh_extensions sh \<noteq> []"
    and "reads1 (Inr (ProtocolVersion_encode version)) r0 r1" and "reads1 (Random_encode random) r1 r"
  shows "reads (ServerHelloPayload_encode (sh\<lparr>sh_legacy_version := version, sh_random := random\<rparr>)) r0 r'"
  using assms unfolding ServerHelloPayload_read_def ServerHelloPayload_encode_def
  by (auto elim!: parse_elims dest!: parse_rules split: if_split_asm) (blast intro: composed)

section \<open>Certificates\<close>

definition Certificate_encode :: "bytes \<Rightarrow> bytes" where
  "Certificate_encode cert = u24_encode (word_of_nat (length cert)) @ cert"

definition Certificate_read :: "bytes codec_read" where
  "Certificate_read r =
     rd_bind (u24_read r) (\<lambda>len r. rd_bind (rd_sub (unat len) r) (\<lambda>sub r. Inr (fst (rd_rest sub), r)))"

interpretation certificate: codec_contract Certificate_encode Certificate_read "\<lambda>p. length p < 2 ^ 24"
proof -
  have "Certificate_encode = PayloadU24_encode" "Certificate_read = PayloadU24_read"
    by (simp_all add: fun_eq_iff Certificate_encode_def Certificate_read_def PayloadU24_encode_def PayloadU24_read_def)
  then show "codec_contract Certificate_encode Certificate_read (\<lambda>p. length p < 2 ^ 24)"
    using payload_u24.codec_contract_axioms by simp
qed

record CertificateEntry =
  ce_cert :: bytes
  ce_exts :: "CertificateExtension list"

definition CertificateEntry_encode :: "CertificateEntry \<Rightarrow> bytes res" where
  "CertificateEntry_encode entry = enc_all [Inr (Certificate_encode (ce_cert entry)), vec_encode Len_U16 CertificateExtension_encode (ce_exts entry)]"

definition CertificateEntry_read :: "CertificateEntry parse" where
  "CertificateEntry_read r =
     p_bind (parse_of Certificate_read r) (\<lambda>cert r.
     p_bind (vec_read Len_U16 CertificateExtension_read r) (\<lambda>exts r. p_return \<lparr>ce_cert = cert, ce_exts = exts\<rparr> r))"

declare certificate.reads_codec [parse_rules]

interpretation certificate_entry: element_contract CertificateEntry_encode CertificateEntry_read
  by (rule element_contractI)
    (auto simp: CertificateEntry_read_def CertificateEntry_encode_def elim!: parse_elims dest!: parse_rules intro!: returns_bind, blast intro: composed)

record CertificatePayloadTLS13 =
  cp_context :: bytes
  cp_entries :: "CertificateEntry list"

definition CertificatePayloadTLS13_encode :: "CertificatePayloadTLS13 \<Rightarrow> bytes res" where
  "CertificatePayloadTLS13_encode p =
     enc_all [Inr (PayloadU8_encode (cp_context p)), vec_encode (Len_U24 0x10000) CertificateEntry_encode (cp_entries p)]"

definition CertificatePayloadTLS13_read :: "CertificatePayloadTLS13 parse" where
  "CertificatePayloadTLS13_read r =
     p_bind (parse_of PayloadU8_read r) (\<lambda>context r.
     p_bind (vec_read (Len_U24 0x10000) CertificateEntry_read r) (\<lambda>entries r. p_return \<lparr>cp_context = context, cp_entries = entries\<rparr> r))"

section \<open>Key exchange\<close>

record DigitallySignedStruct =
  dss_scheme :: SignatureScheme
  dss_sig :: bytes

definition DigitallySignedStruct_encode :: "DigitallySignedStruct \<Rightarrow> bytes res" where
  "DigitallySignedStruct_encode dss = enc_all [Inr (SignatureScheme_encode (dss_scheme dss)), Inr (PayloadU16_encode (dss_sig dss))]"

definition DigitallySignedStruct_read :: "DigitallySignedStruct parse" where
  "DigitallySignedStruct_read r =
     p_bind (parse_of SignatureScheme_read r) (\<lambda>scheme r.
     p_bind (parse_of PayloadU16_read r) (\<lambda>sig r. p_return \<lparr>dss_scheme = scheme, dss_sig = sig\<rparr> r))"

record ECParameters =
  ecp_curve_type :: ECCurveType
  ecp_named_group :: NamedGroup

definition ECParameters_encode :: "ECParameters \<Rightarrow> bytes res" where
  "ECParameters_encode p = enc_all [Inr (ECCurveType_encode (ecp_curve_type p)), Inr (NamedGroup_encode (ecp_named_group p))]"

definition ECParameters_read :: "ECParameters parse" where
  "ECParameters_read r =
     p_bind (parse_of ECCurveType_read r) (\<lambda>ct r.
       if ct \<noteq> ECT_NamedCurve then p_fail UnsupportedCurveType
       else p_bind (parse_of NamedGroup_read r) (\<lambda>grp r. p_return \<lparr>ecp_curve_type = ct, ecp_named_group = grp\<rparr> r))"

record ServerECDHParams =
  sep_curve_params :: ECParameters
  sep_public :: bytes

definition ServerECDHParams_encode :: "ServerECDHParams \<Rightarrow> bytes res" where
  "ServerECDHParams_encode p = enc_all [ECParameters_encode (sep_curve_params p), Inr (PayloadU8_encode (sep_public p))]"

definition ServerECDHParams_read :: "ServerECDHParams parse" where
  "ServerECDHParams_read r =
     p_bind (ECParameters_read r) (\<lambda>cp r.
     p_bind (parse_of PayloadU8_read r) (\<lambda>pb r. p_return \<lparr>sep_curve_params = cp, sep_public = pb\<rparr> r))"

record ECDHEServerKeyExchange =
  skx_params :: ServerECDHParams
  skx_dss :: DigitallySignedStruct

definition ECDHEServerKeyExchange_encode :: "ECDHEServerKeyExchange \<Rightarrow> bytes res" where
  "ECDHEServerKeyExchange_encode x = enc_all [ServerECDHParams_encode (skx_params x), DigitallySignedStruct_encode (skx_dss x)]"

definition ECDHEServerKeyExchange_read :: "ECDHEServerKeyExchange parse" where
  "ECDHEServerKeyExchange_read r =
     p_bind (ServerECDHParams_read r) (\<lambda>params r.
     p_bind (DigitallySignedStruct_read r) (\<lambda>dss r. p_return \<lparr>skx_params = params, skx_dss = dss\<rparr> r))"

interpretation digitally_signed_struct: element_contract DigitallySignedStruct_encode DigitallySignedStruct_read
  by (rule element_contractI)
    (auto simp: DigitallySignedStruct_read_def DigitallySignedStruct_encode_def elim!: parse_elims dest!: parse_rules intro!: returns_bind,
      blast intro: composed)

interpretation ec_parameters: element_contract ECParameters_encode ECParameters_read
  by (rule element_contractI)
    (auto simp: ECParameters_read_def ECParameters_encode_def elim!: parse_elims dest!: parse_rules intro!: returns_bind
      split: if_split_asm, blast intro: composed)

interpretation server_ecdh_params: element_contract ServerECDHParams_encode ServerECDHParams_read
  by (rule element_contractI)
    (auto simp: ServerECDHParams_read_def ServerECDHParams_encode_def ec_parameters.parse_returns elim!: parse_elims
      dest!: parse_rules ec_parameters.parse_exact1 intro!: returns_bind, blast intro: composed)

interpretation ecdhe_server_key_exchange: element_contract ECDHEServerKeyExchange_encode ECDHEServerKeyExchange_read
  by (rule element_contractI)
    (auto simp: ECDHEServerKeyExchange_read_def ECDHEServerKeyExchange_encode_def server_ecdh_params.parse_returns
      digitally_signed_struct.parse_returns elim!: parse_elims
      dest!: server_ecdh_params.parse_exact1 digitally_signed_struct.parse_exact1 intro!: returns_bind, blast intro: composed)

datatype ServerKeyExchangePayload = SKX_ECDHE ECDHEServerKeyExchange | SKX_Unknown bytes

definition ServerKeyExchangePayload_encode :: "ServerKeyExchangePayload \<Rightarrow> bytes res" where
  "ServerKeyExchangePayload_encode p = (case p of SKX_ECDHE x \<Rightarrow> ECDHEServerKeyExchange_encode x | SKX_Unknown x \<Rightarrow> Inr x)"

definition ServerKeyExchangePayload_read :: "ServerKeyExchangePayload parse" where
  "ServerKeyExchangePayload_read = p_rest SKX_Unknown"

definition unwrap_given_kxa :: "ServerKeyExchangePayload \<Rightarrow> KeyExchangeAlgorithm \<Rightarrow> ECDHEServerKeyExchange option" where
  "unwrap_given_kxa p kxa =
     (case p of
        SKX_Unknown unk \<Rightarrow>
          if kxa = KX_ECDHE then
            (case ECDHEServerKeyExchange_read (Reader_init unk) of
               Some (Inr (x, rd)) \<Rightarrow> if rd_any_left rd then None else Some x
             | _ \<Rightarrow> None)
          else None
      | SKX_ECDHE _ \<Rightarrow> None)"

text \<open>The key exchange that was parsed is what the payload holds, in full.\<close>

lemma unwrap_given_kxa_exact:
  assumes "unwrap_given_kxa (SKX_Unknown bs) kxa = Some x" and "length bs \<le> 0xffff"
  shows "kxa = KX_ECDHE \<and> ECDHEServerKeyExchange_encode x = Inr bs"
proof -
  from assms(1) obtain rd where p: "ECDHEServerKeyExchange_read (Reader_init bs) = Some (Inr (x, rd))" "\<not> rd_any_left rd" "kxa = KX_ECDHE"
    by (auto simp: unwrap_given_kxa_def split: if_split_asm option.split_asm sum.split_asm)
  from reads1_reads [OF ecdhe_server_key_exchange.parse_exact1 [OF p(1)]] obtain cs where
    cs: "prefix cs bs" "rd = advance (length cs) (Reader_init bs)" "ECDHEServerKeyExchange_encode x = Inr cs"
    using assms(2) by (auto simp: reads_def small_def)
  then show ?thesis using p(2,3) by (auto simp: rd_any_left_remaining prefix_def)
qed

section \<open>Certificate requests\<close>

record CertificateRequestPayload =
  crp_certtypes :: "ClientCertificateType list"
  crp_sigschemes :: "SignatureScheme list"
  crp_canames :: "bytes list"

definition CertificateRequestPayload_encode :: "CertificateRequestPayload \<Rightarrow> bytes res" where
  "CertificateRequestPayload_encode p =
     enc_all [vec_encode Len_U8 (\<lambda>x. Inr (ClientCertificateType_encode x)) (crp_certtypes p),
       vec_encode Len_U16 (\<lambda>x. Inr (SignatureScheme_encode x)) (crp_sigschemes p),
       vec_encode Len_U16 (\<lambda>x. Inr (PayloadU16_encode x)) (crp_canames p)]"

definition CertificateRequestPayload_read :: "CertificateRequestPayload parse" where
  "CertificateRequestPayload_read r =
     p_bind (vec_read Len_U8 (parse_of ClientCertificateType_read) r) (\<lambda>certtypes r.
     p_bind (vec_read Len_U16 (parse_of SignatureScheme_read) r) (\<lambda>sigschemes r.
     p_bind (vec_read Len_U16 (parse_of PayloadU16_read) r) (\<lambda>canames r.
       if sigschemes = [] then p_fail NoSignatureSchemes
       else p_return \<lparr>crp_certtypes = certtypes, crp_sigschemes = sigschemes, crp_canames = canames\<rparr> r)))"

record CertificateRequestPayloadTLS13 =
  crq_context :: bytes
  crq_extensions :: "CertReqExtension list"

definition CertificateRequestPayloadTLS13_encode :: "CertificateRequestPayloadTLS13 \<Rightarrow> bytes res" where
  "CertificateRequestPayloadTLS13_encode p =
     enc_all [Inr (PayloadU8_encode (crq_context p)), vec_encode Len_U16 CertReqExtension_encode (crq_extensions p)]"

definition CertificateRequestPayloadTLS13_read :: "CertificateRequestPayloadTLS13 parse" where
  "CertificateRequestPayloadTLS13_read r =
     p_bind (parse_of PayloadU8_read r) (\<lambda>context r.
     p_bind (vec_read Len_U16 CertReqExtension_read r) (\<lambda>extensions r.
       p_return \<lparr>crq_context = context, crq_extensions = extensions\<rparr> r))"

section \<open>Session tickets\<close>

record NewSessionTicketPayload =
  nst_lifetime_hint :: u32
  nst_ticket :: bytes

definition NewSessionTicketPayload_encode :: "NewSessionTicketPayload \<Rightarrow> bytes res" where
  "NewSessionTicketPayload_encode p = enc_all [Inr (u32_encode (nst_lifetime_hint p)), Inr (PayloadU16_encode (nst_ticket p))]"

definition NewSessionTicketPayload_read :: "NewSessionTicketPayload parse" where
  "NewSessionTicketPayload_read r =
     p_bind (parse_of u32_read r) (\<lambda>lifetime r.
     p_bind (parse_of PayloadU16_read r) (\<lambda>ticket r. p_return \<lparr>nst_lifetime_hint = lifetime, nst_ticket = ticket\<rparr> r))"

record NewSessionTicketPayloadTLS13 =
  nst13_lifetime :: u32
  nst13_age_add :: u32
  nst13_nonce :: bytes
  nst13_ticket :: bytes
  nst13_exts :: "NewSessionTicketExtension list"

definition NewSessionTicketPayloadTLS13_encode :: "NewSessionTicketPayloadTLS13 \<Rightarrow> bytes res" where
  "NewSessionTicketPayloadTLS13_encode p =
     enc_all [Inr (u32_encode (nst13_lifetime p)), Inr (u32_encode (nst13_age_add p)), Inr (PayloadU8_encode (nst13_nonce p)),
       Inr (PayloadU16_encode (nst13_ticket p)), vec_encode Len_U16 NewSessionTicketExtension_encode (nst13_exts p)]"

definition NewSessionTicketPayloadTLS13_read :: "NewSessionTicketPayloadTLS13 parse" where
  "NewSessionTicketPayloadTLS13_read r =
     p_bind (parse_of u32_read r) (\<lambda>lifetime r.
     p_bind (parse_of u32_read r) (\<lambda>age_add r.
     p_bind (parse_of PayloadU8_read r) (\<lambda>nonce r.
     p_bind (parse_of PayloadU16_read r) (\<lambda>ticket r.
     p_bind (vec_read Len_U16 NewSessionTicketExtension_read r) (\<lambda>exts r.
       p_return \<lparr>nst13_lifetime = lifetime, nst13_age_add = age_add, nst13_nonce = nonce, nst13_ticket = ticket, nst13_exts = exts\<rparr> r)))))"

lemmas certificate_lists [parse_rules] =
  vec_exact(3) [OF certificate_entry.element_contract_axioms] vec_exact(3) [OF certificate.as_element.element_contract_axioms]

lemmas certificate_lists_return [simp] =
  element_contract.vec_read_returns [OF certificate_entry.element_contract_axioms]
  element_contract.vec_read_returns [OF certificate.as_element.element_contract_axioms]

interpretation certificate_payload_tls13: element_contract CertificatePayloadTLS13_encode CertificatePayloadTLS13_read
  by (rule element_contractI)
    (auto simp: CertificatePayloadTLS13_read_def CertificatePayloadTLS13_encode_def elim!: parse_elims dest!: parse_rules
      intro!: returns_bind, blast intro: composed)

interpretation certificate_request_payload: element_contract CertificateRequestPayload_encode CertificateRequestPayload_read
  by (rule element_contractI)
    (auto simp: CertificateRequestPayload_read_def CertificateRequestPayload_encode_def elim!: parse_elims dest!: parse_rules
      intro!: returns_bind split: if_split_asm, blast intro: composed)

interpretation certificate_request_payload_tls13: element_contract CertificateRequestPayloadTLS13_encode CertificateRequestPayloadTLS13_read
  by (rule element_contractI)
    (auto simp: CertificateRequestPayloadTLS13_read_def CertificateRequestPayloadTLS13_encode_def elim!: parse_elims dest!: parse_rules
      intro!: returns_bind, blast intro: composed)

interpretation new_session_ticket_payload: element_contract NewSessionTicketPayload_encode NewSessionTicketPayload_read
  by (rule element_contractI)
    (auto simp: NewSessionTicketPayload_read_def NewSessionTicketPayload_encode_def elim!: parse_elims dest!: parse_rules
      intro!: returns_bind, blast intro: composed)

interpretation new_session_ticket_payload_tls13: element_contract NewSessionTicketPayloadTLS13_encode NewSessionTicketPayloadTLS13_read
  by (rule element_contractI)
    (auto simp: NewSessionTicketPayloadTLS13_read_def NewSessionTicketPayloadTLS13_encode_def elim!: parse_elims dest!: parse_rules
      intro!: returns_bind, blast intro: composed)

end
