(* ===== verification/Tls_Error.thy ===== *)
theory Tls_Error
  imports Tls_Enums
begin

text \<open>
  The errors of rustls (\<open>error.rs\<close>).  The error of the crate \<open>sct\<close> and the trait object of other
  certificate errors are types of which nothing is known.
\<close>

typedecl sct_Error

typedecl dyn_StdError

instantiation sct_Error :: equal
begin

definition "equal_sct_Error (x :: sct_Error) y \<longleftrightarrow> x = y"

instance by standard (simp add: equal_sct_Error_def)

end

instantiation dyn_StdError :: equal
begin

definition "equal_dyn_StdError (x :: dyn_StdError) y \<longleftrightarrow> x = y"

instance by standard (simp add: equal_dyn_StdError_def)

end

datatype (plugins only: code) PeerMisbehaved =
    AttemptedDowngradeToTls12WhenTls13IsSupported | BadCertChainExtensions | DisallowedEncryptedExtension
    | DuplicateClientHelloExtensions | DuplicateEncryptedExtensions | DuplicateHelloRetryRequestExtensions
    | DuplicateNewSessionTicketExtensions | DuplicateServerHelloExtensions | DuplicateServerNameTypes
    | EarlyDataAttemptedInSecondClientHello | EarlyDataExtensionWithoutResumption | EarlyDataOfferedWithVariedCipherSuite
    | HandshakeHashVariedAfterRetry | IllegalHelloRetryRequestWithEmptyCookie | IllegalHelloRetryRequestWithNoChanges
    | IllegalHelloRetryRequestWithOfferedGroup | IllegalHelloRetryRequestWithUnofferedCipherSuite
    | IllegalHelloRetryRequestWithUnofferedNamedGroup | IllegalHelloRetryRequestWithUnsupportedVersion
    | IllegalMiddleboxChangeCipherSpec | IllegalTlsInnerPlaintext | IncorrectBinder | InvalidMaxEarlyDataSize | InvalidKeyShare
    | InvalidSctList | KeyEpochWithPendingFragment | KeyUpdateReceivedInQuicConnection | MessageInterleavedWithHandshakeMessage
    | MissingBinderInPskExtension | MissingKeyShare | MissingQuicTransportParameters | OfferedDuplicateKeyShares
    | OfferedEarlyDataWithOldProtocolVersion | OfferedEmptyApplicationProtocol | OfferedIncorrectCompressions | PskExtensionMustBeLast
    | PskExtensionWithMismatchedIdsAndBinders | RefusedToFollowHelloRetryRequest | RejectedEarlyDataInterleavedWithHandshakeMessage
    | ResumptionAttemptedWithVariedEms | ResumptionOfferedWithVariedCipherSuite | ResumptionOfferedWithVariedEms
    | ResumptionOfferedWithIncompatibleCipherSuite | SelectedDifferentCipherSuiteAfterRetry | SelectedInvalidPsk
    | SelectedTls12UsingTls13VersionExtension | SelectedUnofferedApplicationProtocol | SelectedUnofferedCipherSuite
    | SelectedUnofferedCompression | SelectedUnofferedKxGroup | SelectedUnofferedPsk | SelectedUnusableCipherSuiteForVersion
    | ServerHelloMustOfferUncompressedEcPoints | ServerNameDifferedOnRetry | ServerNameMustContainOneHostName
    | SignedKxWithWrongAlgorithm | SignedHandshakeWithUnadvertisedSigScheme | TooMuchEarlyDataReceived | UnexpectedCleartextExtension
    | UnsolicitedCertExtension | UnsolicitedEncryptedExtension | UnsolicitedSctList | UnsolicitedServerHelloExtension
    | WrongGroupForKeyShare

datatype (plugins only: code) PeerIncompatible =
    EcPointsExtensionRequired | KeyShareExtensionRequired | NamedGroupsExtensionRequired | NoCertificateRequestSignatureSchemesInCommon
    | NoCipherSuitesInCommon | NoEcPointFormatsInCommon | NoKxGroupsInCommon | NoSignatureSchemesInCommon | NullCompressionRequired
    | ServerDoesNotSupportTls12Or13 | ServerSentHelloRetryRequestWithUnknownExtension | ServerTlsVersionIsDisabledByOurConfig
    | SignatureAlgorithmsExtensionRequired | SupportedVersionsExtensionRequired | Tls12NotOffered | Tls12NotOfferedOrEnabled
    | Tls13RequiredForQuic | UncompressedEcPointsRequired

datatype (plugins only: code) CertificateError =
    BadEncoding | Expired | NotValidYet | Revoked | UnhandledCriticalExtension | UnknownIssuer | BadSignature
    | NotValidForName | InvalidPurpose | ApplicationVerificationFailure | CertificateError_Other dyn_StdError

datatype (plugins only: code) Error =
    InappropriateMessage "ContentType list" ContentType
  | InappropriateHandshakeMessage "HandshakeType list" HandshakeType
  | Error_InvalidMessage InvalidMessage
  | NoCertificatesPresented
  | UnsupportedNameType
  | DecryptError
  | EncryptError
  | Error_PeerIncompatible PeerIncompatible
  | Error_PeerMisbehaved PeerMisbehaved
  | AlertReceived AlertDescription
  | InvalidCertificate CertificateError
  | InvalidSct sct_Error
  | Error_General string
  | FailedToGetCurrentTime
  | FailedToGetRandomBytes
  | HandshakeNotComplete
  | PeerSentOversizedRecord
  | NoApplicationProtocol
  | BadMaxFragmentSize

text \<open>The equality of certificate errors, which is not reflexive.\<close>

fun CertificateError_eq :: "CertificateError \<Rightarrow> CertificateError \<Rightarrow> bool" where
  "CertificateError_eq (CertificateError_Other _) _ = False"
| "CertificateError_eq x y = (x = y)"

primrec AlertDescription_from_certificate :: "CertificateError \<Rightarrow> AlertDescription" where
  "AlertDescription_from_certificate BadEncoding = AD_BadCertificate"
| "AlertDescription_from_certificate UnhandledCriticalExtension = AD_BadCertificate"
| "AlertDescription_from_certificate NotValidForName = AD_BadCertificate"
| "AlertDescription_from_certificate Expired = AD_CertificateExpired"
| "AlertDescription_from_certificate NotValidYet = AD_CertificateExpired"
| "AlertDescription_from_certificate Revoked = AD_CertificateRevoked"
| "AlertDescription_from_certificate UnknownIssuer = AD_UnknownCA"
| "AlertDescription_from_certificate BadSignature = AD_DecryptError"
| "AlertDescription_from_certificate InvalidPurpose = AD_UnsupportedCertificate"
| "AlertDescription_from_certificate ApplicationVerificationFailure = AD_AccessDenied"
| "AlertDescription_from_certificate (CertificateError_Other _) = AD_CertificateUnknown"

end
