(* ===== verification/Tls_Cipher.thy ===== *)
theory Tls_Cipher
  imports Tls_Error
begin

text \<open>
  Encryption of TLS records in the bundled \<open>rustls\<close>: nonces (\<open>cipher.rs\<close>), the ciphers of TLS 1.2
  (\<open>tls12/cipher.rs\<close>) and TLS 1.3 (\<open>tls13/mod.rs\<close>), and the record layer that keeps sequence numbers
  (\<open>record_layer.rs\<close>).

  The authenticated encryption of the crate \<open>ring\<close> is a parameter: sealing gives the ciphertext with its
  tag, opening gives the plaintext or fails.
\<close>

section \<open>Messages\<close>

record PlainMessage =
  pm_typ :: ContentType
  pm_version :: ProtocolVersion
  pm_payload :: bytes

definition into_plain_message :: "OpaqueMessage \<Rightarrow> PlainMessage" where
  "into_plain_message m = \<lparr>pm_typ = om_typ m, pm_version = om_version m, pm_payload = om_payload m\<rparr>"

definition into_unencrypted_opaque :: "PlainMessage \<Rightarrow> OpaqueMessage" where
  "into_unencrypted_opaque m = \<lparr>om_typ = pm_typ m, om_version = pm_version m, om_payload = pm_payload m\<rparr>"

section \<open>Nonces and additional data\<close>

record 'k aead =
  seal :: "'k \<Rightarrow> bytes \<Rightarrow> bytes \<Rightarrow> bytes \<Rightarrow> bytes option"
  unseal :: "'k \<Rightarrow> bytes \<Rightarrow> bytes \<Rightarrow> bytes \<Rightarrow> bytes option"
  tag_len :: "'k \<Rightarrow> nat"

definition Iv_copy :: "bytes \<Rightarrow> bytes res" where
  "Iv_copy v = (if length v = 12 then Inr v else Inl AssertFailed)"

definition make_nonce :: "bytes \<Rightarrow> u64 \<Rightarrow> bytes" where
  "make_nonce iv seq = map2 (XOR) (replicate 4 0 @ be_bytes 8 seq) iv"

definition make_tls12_aad :: "u64 \<Rightarrow> ContentType \<Rightarrow> ProtocolVersion \<Rightarrow> nat \<Rightarrow> bytes" where
  "make_tls12_aad seq ty vers len =
     be_bytes 8 seq @ [ContentType_get_u8 ty] @ be_bytes 2 (ProtocolVersion_get_u16 vers) @ be_bytes 2 (word_of_nat len :: u16)"

definition make_tls13_aad :: "nat \<Rightarrow> bytes" where
  "make_tls13_aad len = [0x17, 0x3, 0x3, word_of_nat (len div 2 ^ 8), word_of_nat len]"

section \<open>Ciphers\<close>

definition MAX_FRAGMENT_LEN :: nat where
  "MAX_FRAGMENT_LEN = 16384"

definition GCM_EXPLICIT_NONCE_LEN :: nat where
  "GCM_EXPLICIT_NONCE_LEN = 8"

definition GCM_OVERHEAD :: nat where
  "GCM_OVERHEAD = GCM_EXPLICIT_NONCE_LEN + 16"

definition CHACHAPOLY1305_OVERHEAD :: nat where
  "CHACHAPOLY1305_OVERHEAD = 16"

text \<open>The trait objects \<open>MessageEncrypter\<close> and \<open>MessageDecrypter\<close> by their implementations.\<close>

datatype 'k MessageEncrypter =
    InvalidMessageEncrypter
  | Tls13MessageEncrypter 'k bytes
  | GcmMessageEncrypter 'k bytes
  | ChaCha20Poly1305MessageEncrypter 'k bytes

datatype 'k MessageDecrypter =
    InvalidMessageDecrypter
  | Tls13MessageDecrypter 'k bytes
  | GcmMessageDecrypter 'k bytes
  | ChaCha20Poly1305MessageDecrypter 'k bytes

definition aes_gcm_decrypter :: "'k \<Rightarrow> bytes \<Rightarrow> 'k MessageDecrypter res" where
  "aes_gcm_decrypter dec_key dec_iv =
     (if length dec_iv = 4 then Inr (GcmMessageDecrypter dec_key dec_iv) else Inl AssertFailed)"

definition aes_gcm_encrypter :: "'k \<Rightarrow> bytes \<Rightarrow> bytes \<Rightarrow> 'k MessageEncrypter res" where
  "aes_gcm_encrypter enc_key write_iv explicit =
     (if length write_iv = 4 \<and> length explicit = 8 then Inr (GcmMessageEncrypter enc_key (write_iv @ explicit))
      else Inl AssertFailed)"

definition chacha_decrypter :: "'k \<Rightarrow> bytes \<Rightarrow> 'k MessageDecrypter res" where
  "chacha_decrypter dec_key iv = res_bind (Iv_copy iv) (\<lambda>iv. Inr (ChaCha20Poly1305MessageDecrypter dec_key iv))"

definition chacha_encrypter :: "'k \<Rightarrow> bytes \<Rightarrow> bytes \<Rightarrow> 'k MessageEncrypter res" where
  "chacha_encrypter enc_key enc_iv _ = res_bind (Iv_copy enc_iv) (\<lambda>iv. Inr (ChaCha20Poly1305MessageEncrypter enc_key iv))"

function unpad_tls13 :: "bytes \<Rightarrow> ContentType \<times> bytes" where
  "unpad_tls13 v =
     (if v = [] then (CT_Unknown 0, [])
      else if last v = 0 then unpad_tls13 (butlast v)
      else (ContentType_from (last v), butlast v))"
  by pat_completeness auto
termination by (relation "measure length") auto

declare unpad_tls13.simps [simp del]

definition tls13_encrypt :: "'k aead \<Rightarrow> 'k \<Rightarrow> bytes \<Rightarrow> PlainMessage \<Rightarrow> u64 \<Rightarrow> Error + OpaqueMessage" where
  "tls13_encrypt L enc_key iv msg seq =
     (let total_len = length (pm_payload msg) + 1 + tag_len L enc_key;
          payload = pm_payload msg @ ContentType_encode (pm_typ msg)
      in case seal L enc_key (make_nonce iv seq) (make_tls13_aad total_len) payload of
           None \<Rightarrow> Inl (Error_General ''encrypt failed'')
         | Some payload \<Rightarrow> Inr \<lparr>om_typ = CT_ApplicationData, om_version = TLSv1_2, om_payload = payload\<rparr>)"

definition tls13_decrypt :: "'k aead \<Rightarrow> 'k \<Rightarrow> bytes \<Rightarrow> OpaqueMessage \<Rightarrow> u64 \<Rightarrow> Error + PlainMessage" where
  "tls13_decrypt L dec_key iv msg seq =
     (let payload = om_payload msg
      in if length payload < tag_len L dec_key then Inl DecryptError
         else case unseal L dec_key (make_nonce iv seq) (make_tls13_aad (length payload)) payload of
             None \<Rightarrow> Inl DecryptError
           | Some payload \<Rightarrow>
               if length payload > MAX_FRAGMENT_LEN + 1 then Inl PeerSentOversizedRecord
               else (let (ty, payload) = unpad_tls13 payload
                     in if ty = CT_Unknown 0 then Inl (Error_PeerMisbehaved IllegalTlsInnerPlaintext)
                        else if length payload > MAX_FRAGMENT_LEN then Inl PeerSentOversizedRecord
                        else Inr \<lparr>pm_typ = ty, pm_version = TLSv1_3, pm_payload = payload\<rparr>))"

definition gcm_encrypt :: "'k aead \<Rightarrow> 'k \<Rightarrow> bytes \<Rightarrow> PlainMessage \<Rightarrow> u64 \<Rightarrow> Error + OpaqueMessage" where
  "gcm_encrypt L enc_key iv msg seq =
     (let nonce = make_nonce iv seq;
          aad = make_tls12_aad seq (pm_typ msg) (pm_version msg) (length (pm_payload msg))
      in case seal L enc_key nonce aad (pm_payload msg) of
           None \<Rightarrow> Inl EncryptError
         | Some sealed \<Rightarrow> Inr \<lparr>om_typ = pm_typ msg, om_version = pm_version msg, om_payload = drop 4 nonce @ sealed\<rparr>)"

definition gcm_decrypt :: "'k aead \<Rightarrow> 'k \<Rightarrow> bytes \<Rightarrow> OpaqueMessage \<Rightarrow> u64 \<Rightarrow> Error + PlainMessage" where
  "gcm_decrypt L dec_key dec_salt msg seq =
     (let payload = om_payload msg
      in if length payload < GCM_OVERHEAD then Inl DecryptError
         else
           (let nonce = dec_salt @ take 8 payload;
                aad = make_tls12_aad seq (om_typ msg) (om_version msg) (length payload - GCM_OVERHEAD)
            in case unseal L dec_key nonce aad (drop GCM_EXPLICIT_NONCE_LEN payload) of
                 None \<Rightarrow> Inl DecryptError
               | Some plain \<Rightarrow>
                   if length plain > MAX_FRAGMENT_LEN then Inl PeerSentOversizedRecord
                   else Inr \<lparr>pm_typ = om_typ msg, pm_version = om_version msg, pm_payload = plain\<rparr>))"

definition chacha_encrypt :: "'k aead \<Rightarrow> 'k \<Rightarrow> bytes \<Rightarrow> PlainMessage \<Rightarrow> u64 \<Rightarrow> Error + OpaqueMessage" where
  "chacha_encrypt L enc_key enc_offset msg seq =
     (let nonce = make_nonce enc_offset seq;
          aad = make_tls12_aad seq (pm_typ msg) (pm_version msg) (length (pm_payload msg))
      in case seal L enc_key nonce aad (pm_payload msg) of
           None \<Rightarrow> Inl EncryptError
         | Some sealed \<Rightarrow> Inr \<lparr>om_typ = pm_typ msg, om_version = pm_version msg, om_payload = sealed\<rparr>)"

definition chacha_decrypt :: "'k aead \<Rightarrow> 'k \<Rightarrow> bytes \<Rightarrow> OpaqueMessage \<Rightarrow> u64 \<Rightarrow> Error + PlainMessage" where
  "chacha_decrypt L dec_key dec_offset msg seq =
     (let payload = om_payload msg
      in if length payload < CHACHAPOLY1305_OVERHEAD then Inl DecryptError
         else
           (let nonce = make_nonce dec_offset seq;
                aad = make_tls12_aad seq (om_typ msg) (om_version msg) (length payload - CHACHAPOLY1305_OVERHEAD)
            in case unseal L dec_key nonce aad payload of
                 None \<Rightarrow> Inl DecryptError
               | Some plain \<Rightarrow>
                   if length plain > MAX_FRAGMENT_LEN then Inl PeerSentOversizedRecord
                   else Inr \<lparr>pm_typ = om_typ msg, pm_version = om_version msg, pm_payload = plain\<rparr>))"

fun encrypt :: "'k aead \<Rightarrow> 'k MessageEncrypter \<Rightarrow> PlainMessage \<Rightarrow> u64 \<Rightarrow> Error + OpaqueMessage" where
  "encrypt L InvalidMessageEncrypter msg seq = Inl EncryptError"
| "encrypt L (Tls13MessageEncrypter k iv) msg seq = tls13_encrypt L k iv msg seq"
| "encrypt L (GcmMessageEncrypter k iv) msg seq = gcm_encrypt L k iv msg seq"
| "encrypt L (ChaCha20Poly1305MessageEncrypter k iv) msg seq = chacha_encrypt L k iv msg seq"

fun decrypt :: "'k aead \<Rightarrow> 'k MessageDecrypter \<Rightarrow> OpaqueMessage \<Rightarrow> u64 \<Rightarrow> Error + PlainMessage" where
  "decrypt L InvalidMessageDecrypter msg seq = Inl DecryptError"
| "decrypt L (Tls13MessageDecrypter k iv) msg seq = tls13_decrypt L k iv msg seq"
| "decrypt L (GcmMessageDecrypter k salt) msg seq = gcm_decrypt L k salt msg seq"
| "decrypt L (ChaCha20Poly1305MessageDecrypter k iv) msg seq = chacha_decrypt L k iv msg seq"

section \<open>The record layer\<close>

definition SEQ_SOFT_LIMIT :: u64 where
  "SEQ_SOFT_LIMIT = 0xffffffffffff0000"

definition SEQ_HARD_LIMIT :: u64 where
  "SEQ_HARD_LIMIT = 0xfffffffffffffffe"

datatype DirectionState = Dir_Invalid | Dir_Prepared | Dir_Active

record 'k RecordLayer =
  message_encrypter :: "'k MessageEncrypter"
  message_decrypter :: "'k MessageDecrypter"
  write_seq :: u64
  read_seq :: u64
  encrypt_state :: DirectionState
  decrypt_state :: DirectionState
  trial_decryption_len :: "nat option"

definition RecordLayer_new :: "'k RecordLayer" where
  "RecordLayer_new =
     \<lparr>message_encrypter = InvalidMessageEncrypter, message_decrypter = InvalidMessageDecrypter,
      write_seq = 0, read_seq = 0, encrypt_state = Dir_Invalid, decrypt_state = Dir_Invalid, trial_decryption_len = None\<rparr>"

definition is_encrypting :: "'k RecordLayer \<Rightarrow> bool" where
  "is_encrypting rl \<longleftrightarrow> encrypt_state rl = Dir_Active"

definition doing_trial_decryption :: "nat \<Rightarrow> 'k RecordLayer \<Rightarrow> 'k RecordLayer \<times> bool" where
  "doing_trial_decryption requested rl =
     (case trial_decryption_len rl of
        Some value \<Rightarrow>
          if requested \<le> value then (rl\<lparr>trial_decryption_len := Some (value - requested)\<rparr>, True) else (rl, False)
      | None \<Rightarrow> (rl, False))"

definition prepare_message_encrypter :: "'k MessageEncrypter \<Rightarrow> 'k RecordLayer \<Rightarrow> 'k RecordLayer" where
  "prepare_message_encrypter cipher rl = rl\<lparr>message_encrypter := cipher, write_seq := 0, encrypt_state := Dir_Prepared\<rparr>"

definition prepare_message_decrypter :: "'k MessageDecrypter \<Rightarrow> 'k RecordLayer \<Rightarrow> 'k RecordLayer" where
  "prepare_message_decrypter cipher rl = rl\<lparr>message_decrypter := cipher, read_seq := 0, decrypt_state := Dir_Prepared\<rparr>"

definition start_encrypting :: "'k RecordLayer \<Rightarrow> 'k RecordLayer res" where
  "start_encrypting rl =
     (if encrypt_state rl = Dir_Prepared then Inr (rl\<lparr>encrypt_state := Dir_Active\<rparr>) else Inl AssertFailed)"

definition start_decrypting :: "'k RecordLayer \<Rightarrow> 'k RecordLayer res" where
  "start_decrypting rl =
     (if decrypt_state rl = Dir_Prepared then Inr (rl\<lparr>decrypt_state := Dir_Active\<rparr>) else Inl AssertFailed)"

definition set_message_encrypter :: "'k MessageEncrypter \<Rightarrow> 'k RecordLayer \<Rightarrow> 'k RecordLayer res" where
  "set_message_encrypter cipher rl = start_encrypting (prepare_message_encrypter cipher rl)"

definition set_message_decrypter :: "'k MessageDecrypter \<Rightarrow> 'k RecordLayer \<Rightarrow> 'k RecordLayer res" where
  "set_message_decrypter cipher rl =
     res_bind (start_decrypting (prepare_message_decrypter cipher rl)) (\<lambda>rl. Inr (rl\<lparr>trial_decryption_len := None\<rparr>))"

definition set_message_decrypter_with_trial_decryption ::
  "'k MessageDecrypter \<Rightarrow> nat \<Rightarrow> 'k RecordLayer \<Rightarrow> 'k RecordLayer res" where
  "set_message_decrypter_with_trial_decryption cipher max_length rl =
     res_bind (start_decrypting (prepare_message_decrypter cipher rl))
       (\<lambda>rl. Inr (rl\<lparr>trial_decryption_len := Some max_length\<rparr>))"

definition rl_finish_trial_decryption :: "'k RecordLayer \<Rightarrow> 'k RecordLayer" where
  "rl_finish_trial_decryption rl = rl\<lparr>trial_decryption_len := None\<rparr>"

definition wants_close_before_encrypt :: "'k RecordLayer \<Rightarrow> bool" where
  "wants_close_before_encrypt rl \<longleftrightarrow> write_seq rl = SEQ_SOFT_LIMIT"

definition encrypt_exhausted :: "'k RecordLayer \<Rightarrow> bool" where
  "encrypt_exhausted rl \<longleftrightarrow> SEQ_HARD_LIMIT \<le> write_seq rl"

text \<open>A decrypted message with the flag \<open>want_close_before_decrypt\<close>; \<open>None\<close> for one that is dropped.\<close>

definition decrypt_incoming ::
  "'k aead \<Rightarrow> OpaqueMessage \<Rightarrow> 'k RecordLayer \<Rightarrow> ('k RecordLayer \<times> (Error + (bool \<times> PlainMessage) option)) res" where
  "decrypt_incoming L encr rl =
     (if decrypt_state rl \<noteq> Dir_Active then Inr (rl, Inr (Some (False, into_plain_message encr)))
      else
        (let want_close = (read_seq rl = SEQ_SOFT_LIMIT); encrypted_len = length (om_payload encr)
         in case decrypt L (message_decrypter rl) encr (read_seq rl) of
              Inr plaintext \<Rightarrow>
                if read_seq rl = - 1 then Inl ArithOverflow
                else Inr (rl\<lparr>read_seq := read_seq rl + 1\<rparr>, Inr (Some (want_close, plaintext)))
            | Inl e \<Rightarrow>
                if e = DecryptError then
                  (let (rl, trial) = doing_trial_decryption encrypted_len rl
                   in if trial then Inr (rl, Inr None) else Inr (rl, Inl e))
                else Inr (rl, Inl e)))"

definition encrypt_outgoing :: "'k aead \<Rightarrow> PlainMessage \<Rightarrow> 'k RecordLayer \<Rightarrow> ('k RecordLayer \<times> OpaqueMessage) res" where
  "encrypt_outgoing L plain rl =
     (if encrypt_state rl \<noteq> Dir_Active then Inl AssertFailed
      else if encrypt_exhausted rl then Inl AssertFailed
      else
        (case encrypt L (message_encrypter rl) plain (write_seq rl) of
           Inl e \<Rightarrow> Inl UnwrapFailed
         | Inr m \<Rightarrow> Inr (rl\<lparr>write_seq := write_seq rl + 1\<rparr>, m)))"

section \<open>Nonces differ\<close>

lemma map2_xor_inject:
  fixes xs :: "'a::len word list"
  assumes "length xs = length zs" and "length ys = length zs"
  shows "map2 (XOR) xs zs = map2 (XOR) ys zs \<longleftrightarrow> xs = ys"
  using assms
proof (induction zs arbitrary: xs ys)
  case (Cons z zs)
  have "a XOR z = b XOR z \<longleftrightarrow> a = b" for a b :: "'a word"
    by (auto simp: bit_eq_iff bit_xor_iff)
  with Cons show ?case by (cases xs; cases ys) auto
qed simp

lemma make_nonce_inject [simp]:
  assumes "length iv = 12"
  shows "make_nonce iv seq = make_nonce iv seq' \<longleftrightarrow> seq = seq'"
proof -
  have "seq = seq'" if "be_bytes 8 seq = be_bytes 8 seq'"
    using arg_cong [OF that, of "from_be :: _ \<Rightarrow> u64"] by (simp add: from_be_full)
  then show ?thesis using assms by (auto simp: make_nonce_def map2_xor_inject)
qed

lemma take_make_nonce: "length iv = 12 \<Longrightarrow> take 4 (make_nonce iv seq) = take 4 iv"
proof -
  assume l: "length iv = 12"
  have "map2 (XOR) (replicate 4 (0 :: u8)) (take 4 iv) = take 4 iv"
    using l by (intro nth_equalityI) auto
  then show ?thesis by (simp add: make_nonce_def take_map take_zip)
qed

section \<open>Ciphers invert each other\<close>

text \<open>The documented behaviour of \<open>ring\<close>: opening inverts sealing, and the tag has 16 bytes.\<close>

definition aead_ok :: "'k aead \<Rightarrow> bool" where
  "aead_ok L \<longleftrightarrow>
     (\<forall>k n a p c. seal L k n a p = Some c \<longrightarrow> unseal L k n a c = Some p)
     \<and> (\<forall>k n a p c. unseal L k n a c = Some p \<longrightarrow> length c = length p + 16)
     \<and> (\<forall>k. tag_len L k = 16)"

fun matched :: "'k MessageEncrypter \<Rightarrow> 'k MessageDecrypter \<Rightarrow> bool" where
  "matched (Tls13MessageEncrypter k iv) (Tls13MessageDecrypter k' iv') \<longleftrightarrow> k' = k \<and> iv' = iv \<and> length iv = 12"
| "matched (GcmMessageEncrypter k iv) (GcmMessageDecrypter k' salt) \<longleftrightarrow> k' = k \<and> salt = take 4 iv \<and> length iv = 12"
| "matched (ChaCha20Poly1305MessageEncrypter k iv) (ChaCha20Poly1305MessageDecrypter k' iv') \<longleftrightarrow>
     k' = k \<and> iv' = iv \<and> length iv = 12"
| "matched e d \<longleftrightarrow> False"

text \<open>Messages of at most the fragment length; TLS 1.3 cannot carry the content type 0.\<close>

definition encryptable :: "PlainMessage \<Rightarrow> bool" where
  "encryptable m \<longleftrightarrow> length (pm_payload m) \<le> MAX_FRAGMENT_LEN \<and> ContentType_ok (pm_typ m) \<and> pm_typ m \<noteq> CT_Unknown 0"

fun received :: "'k MessageEncrypter \<Rightarrow> PlainMessage \<Rightarrow> PlainMessage" where
  "received (Tls13MessageEncrypter k iv) m = m\<lparr>pm_version := TLSv1_3\<rparr>"
| "received e m = m"

lemma unpad_content:
  assumes "ContentType_ok t" and "t \<noteq> CT_Unknown 0"
  shows "unpad_tls13 (p @ ContentType_encode t) = (t, p)"
proof -
  have "ContentType_get_u8 t \<noteq> 0"
    using assms by (cases t) (auto simp: ContentType_ok_def ContentType_from_def)
  with assms show ?thesis
    by (subst unpad_tls13.simps) (simp add: ContentType_encode_def u8_encode_def ContentType_ok_def)
qed

lemma unseal_seal: "aead_ok L \<Longrightarrow> seal L k n a p = Some c \<Longrightarrow> unseal L k n a c = Some p \<and> length c = length p + 16"
  unfolding aead_ok_def by blast

lemma tls13_inverse:
  assumes "aead_ok L" and "encryptable m" and "tls13_encrypt L k iv m seq = Inr c"
  shows "tls13_decrypt L k iv c seq = Inr (m\<lparr>pm_version := TLSv1_3\<rparr>)"
proof -
  let ?p = "pm_payload m @ ContentType_encode (pm_typ m)" and ?n = "make_nonce iv seq"
  let ?a = "make_tls13_aad (length (pm_payload m) + 1 + 16)"
  have t: "tag_len L k = 16" using assms(1) by (simp add: aead_ok_def)
  obtain sealed where c: "seal L k ?n ?a ?p = Some sealed"
      "c = \<lparr>om_typ = CT_ApplicationData, om_version = TLSv1_2, om_payload = sealed\<rparr>"
    using assms(3) by (auto simp: tls13_encrypt_def Let_def t split: option.splits)
  from unseal_seal [OF assms(1) c(1)] have u: "unseal L k ?n ?a sealed = Some ?p" "length sealed = length (pm_payload m) + 1 + 16"
    by simp_all
  have e: "pm_typ m \<noteq> CT_Unknown 0" "length (pm_payload m) \<le> MAX_FRAGMENT_LEN" "ContentType_ok (pm_typ m)"
    using assms(2) by (simp_all add: encryptable_def)
  show ?thesis using e u unpad_content [OF e(3,1)] by (simp add: tls13_decrypt_def c(2) t)
qed

lemma gcm_inverse:
  assumes "aead_ok L" and "encryptable m" and "length iv = 12" and "gcm_encrypt L k iv m seq = Inr c"
  shows "gcm_decrypt L k (take 4 iv) c seq = Inr m"
proof -
  let ?n = "make_nonce iv seq" and ?a = "make_tls12_aad seq (pm_typ m) (pm_version m) (length (pm_payload m))"
  obtain sealed where c: "seal L k ?n ?a (pm_payload m) = Some sealed"
      "c = \<lparr>om_typ = pm_typ m, om_version = pm_version m, om_payload = drop 4 ?n @ sealed\<rparr>"
    using assms(4) by (auto simp: gcm_encrypt_def Let_def split: option.splits)
  note u = unseal_seal [OF assms(1) c(1)]
  have "length ?n = 12" using assms(3) by (simp add: make_nonce_def)
  moreover have "take 4 iv @ drop 4 ?n = ?n" using take_make_nonce [OF assms(3), of seq] by (metis append_take_drop_id)
  ultimately show ?thesis
    using u assms(2) by (simp add: gcm_decrypt_def c(2) GCM_OVERHEAD_def GCM_EXPLICIT_NONCE_LEN_def encryptable_def)
qed

lemma chacha_inverse:
  assumes "aead_ok L" and "encryptable m" and "chacha_encrypt L k iv m seq = Inr c"
  shows "chacha_decrypt L k iv c seq = Inr m"
proof -
  obtain sealed where c: "seal L k (make_nonce iv seq) (make_tls12_aad seq (pm_typ m) (pm_version m) (length (pm_payload m))) (pm_payload m) = Some sealed"
      "c = \<lparr>om_typ = pm_typ m, om_version = pm_version m, om_payload = sealed\<rparr>"
    using assms(3) by (auto simp: chacha_encrypt_def Let_def split: option.splits)
  from unseal_seal [OF assms(1) c(1)] assms(2) show ?thesis
    by (simp add: chacha_decrypt_def c(2) CHACHAPOLY1305_OVERHEAD_def encryptable_def)
qed

lemma decrypt_encrypt:
  assumes "aead_ok L" and "matched e d" and "encryptable m" and "encrypt L e m seq = Inr c"
  shows "decrypt L d c seq = Inr (received e m)"
  using assms by (cases "(e, d)" rule: matched.cases) (auto intro: tls13_inverse gcm_inverse chacha_inverse)

text \<open>Decryption makes payloads shorter.\<close>

lemma length_unpad_tls13: "length (snd (unpad_tls13 v)) \<le> length v"
proof (induction v rule: unpad_tls13.induct)
  case (1 v)
  then show ?case by (subst unpad_tls13.simps) fastforce
qed

lemma decrypt_shorter:
  assumes "aead_ok L" and "decrypt L d c seq = Inr p"
  shows "length (pm_payload p) \<le> length (om_payload c)"
proof -
  have u: "length q \<le> length c" if "unseal L k n a c = Some q" for k n a c q
  proof -
    have "length c = length q + 16" using assms(1) that unfolding aead_ok_def by blast
    then show ?thesis by simp
  qed
  show ?thesis
  proof (cases d)
    case (Tls13MessageDecrypter k iv)
    with assms(2) obtain n a q where q: "unseal L k n a (om_payload c) = Some q" "pm_payload p = snd (unpad_tls13 q)"
      by (auto simp: tls13_decrypt_def Let_def split: if_splits option.splits prod.splits)
    from u [OF q(1)] length_unpad_tls13 [of q] q(2) show ?thesis by simp
  next
    case (GcmMessageDecrypter k salt)
    with assms(2) show ?thesis
      by (auto simp: gcm_decrypt_def Let_def split: if_splits option.splits dest!: u)
  next
    case (ChaCha20Poly1305MessageDecrypter k iv)
    with assms(2) show ?thesis
      by (auto simp: chacha_decrypt_def Let_def split: if_splits option.splits dest!: u)
  qed (use assms(2) in simp)
qed

section \<open>Streams of records\<close>

fun encrypt_all :: "'k aead \<Rightarrow> PlainMessage list \<Rightarrow> 'k RecordLayer \<Rightarrow> ('k RecordLayer \<times> OpaqueMessage list) res" where
  "encrypt_all L [] rl = Inr (rl, [])"
| "encrypt_all L (m # ms) rl =
     res_bind (encrypt_outgoing L m rl) (\<lambda>(rl, c). res_bind (encrypt_all L ms rl) (\<lambda>(rl, cs). Inr (rl, c # cs)))"

fun decrypt_all ::
  "'k aead \<Rightarrow> OpaqueMessage list \<Rightarrow> 'k RecordLayer \<Rightarrow> ('k RecordLayer \<times> (Error + (bool \<times> PlainMessage) option) list) res" where
  "decrypt_all L [] rl = Inr (rl, [])"
| "decrypt_all L (c # cs) rl =
     res_bind (decrypt_incoming L c rl) (\<lambda>(rl, x). res_bind (decrypt_all L cs rl) (\<lambda>(rl, xs). Inr (rl, x # xs)))"

fun opened :: "Error + (bool \<times> PlainMessage) option \<Rightarrow> PlainMessage option" where
  "opened (Inr (Some (want_close, m))) = Some m"
| "opened _ = None"

lemma encrypt_outgoing_Inr:
  "encrypt_outgoing L m rl = Inr (rl', c) \<longleftrightarrow>
     encrypt_state rl = Dir_Active \<and> write_seq rl < SEQ_HARD_LIMIT
     \<and> encrypt L (message_encrypter rl) m (write_seq rl) = Inr c \<and> rl' = rl\<lparr>write_seq := write_seq rl + 1\<rparr>"
  by (auto simp: encrypt_outgoing_def encrypt_exhausted_def not_le split: if_splits sum.splits)

lemma below_hard_limit:
  assumes "seq < SEQ_HARD_LIMIT"
  shows "seq \<noteq> - 1" and "unat (seq + 1) = unat seq + 1"
proof -
  show "seq \<noteq> - 1" using assms by (auto simp: SEQ_HARD_LIMIT_def)
  then have "1 + seq \<noteq> 0" by (simp add: add_eq_0_iff)
  then show "unat (seq + 1) = unat seq + 1" using unatSuc [of seq] by (simp add: add.commute)
qed

definition tag_only :: "unit aead" where
  "tag_only =
     \<lparr>seal = (\<lambda>k n a p. Some (p @ replicate 16 7)),
      unseal = (\<lambda>k n a c. if 16 \<le> length c \<and> drop (length c - 16) c = replicate 16 7 then Some (take (length c - 16) c) else None),
      tag_len = (\<lambda>k. 16)\<rparr>"

lemma tag_only_ok: "aead_ok tag_only"
  by (auto simp: aead_ok_def tag_only_def split: if_splits)

definition example_layer :: "unit RecordLayer" where
  "example_layer =
     \<lparr>message_encrypter = GcmMessageEncrypter () (replicate 12 3), message_decrypter = GcmMessageDecrypter () (replicate 4 3),
      write_seq = 5, read_seq = 5, encrypt_state = Dir_Active, decrypt_state = Dir_Active, trial_decryption_len = Some 40\<rparr>"

definition example_plain :: "bytes \<Rightarrow> PlainMessage" where
  "example_plain bs = \<lparr>pm_typ = CT_ApplicationData, pm_version = TLSv1_2, pm_payload = bs\<rparr>"

lemma example_encrypts: "\<exists>w' cs. encrypt_all tag_only [example_plain [1, 2], example_plain []] example_layer = Inr (w', cs)"
  by (simp add: example_layer_def encrypt_outgoing_def encrypt_exhausted_def SEQ_HARD_LIMIT_def gcm_encrypt_def tag_only_def Let_def)

lemma decrypt_all_encrypt_all:
  assumes "aead_ok L" and "matched (message_encrypter w) (message_decrypter r)"
    and "decrypt_state r = Dir_Active" and "read_seq r = write_seq w"
    and "list_all encryptable ms" and "encrypt_all L ms w = Inr (w', cs)"
  shows "\<exists>r' xs. decrypt_all L cs r = Inr (r', xs) \<and> read_seq r' = write_seq w'
    \<and> map opened xs = map (\<lambda>m. Some (received (message_encrypter w) m)) ms"
  using assms(2-)
proof (induction ms arbitrary: w r cs)
  case (Cons m ms)
  from Cons.prems(5) obtain w1 c cs1 where c: "encrypt_outgoing L m w = Inr (w1, c)" "encrypt_all L ms w1 = Inr (w', cs1)"
      "cs = c # cs1"
    by (auto simp: res_simps)
  note e = c(1) [unfolded encrypt_outgoing_Inr]
  have "decrypt L (message_decrypter r) c (read_seq r) = Inr (received (message_encrypter w) m)"
    using decrypt_encrypt [OF assms(1) Cons.prems(1)] Cons.prems(3,4) e by simp
  then obtain b where d: "decrypt_incoming L c r =
      Inr (r\<lparr>read_seq := read_seq r + 1\<rparr>, Inr (Some (b, received (message_encrypter w) m)))"
    using Cons.prems(2,3) below_hard_limit(1) e by (simp add: decrypt_incoming_def)
  have "\<exists>r' xs. decrypt_all L cs1 (r\<lparr>read_seq := read_seq r + 1\<rparr>) = Inr (r', xs) \<and> read_seq r' = write_seq w'
    \<and> map opened xs = map (\<lambda>m. Some (received (message_encrypter w1) m)) ms"
    by (rule Cons.IH [OF _ _ _ _ c(2)]) (use Cons.prems e in auto)
  then show ?case using d e c(3) by auto
qed simp

text \<open>
  C27. What one record layer encrypts another one with the same keys and sequence number decrypts:
  a stream of messages comes back in order and unchanged, except that TLS 1.3 has its own version
  number, for every cipher suite, and both sides go on with the same sequence number.
\<close>

theorem record_layer_round_trip:
  assumes "aead_ok L" and "matched (message_encrypter w) (message_decrypter r)"
    and "decrypt_state r = Dir_Active" and "read_seq r = write_seq w"
    and "list_all encryptable ms" and "encrypt_all L ms w = Inr (w', cs)"
  shows "\<exists>r' xs. decrypt_all L cs r = Inr (r', xs) \<and> read_seq r' = write_seq w'
    \<and> map opened xs = map (\<lambda>m. Some (received (message_encrypter w) m)) ms"
  using assms by (rule decrypt_all_encrypt_all)

theorem record_layer_round_trip_witness:
  "\<exists>cs r' xs. decrypt_all tag_only cs example_layer = Inr (r', xs)
     \<and> map opened xs = [Some (example_plain [1, 2]), Some (example_plain [])]"
proof -
  have l: "matched (message_encrypter example_layer) (message_decrypter example_layer)"
      "decrypt_state example_layer = Dir_Active" "read_seq example_layer = write_seq example_layer"
      "received (message_encrypter example_layer) m = m" for m
    by (simp_all add: example_layer_def)
  have m: "list_all encryptable [example_plain [1, 2], example_plain []]"
    by (simp add: example_plain_def encryptable_def MAX_FRAGMENT_LEN_def ContentType_ok_def ContentType_from_def)
  obtain w' cs where "encrypt_all tag_only [example_plain [1, 2], example_plain []] example_layer = Inr (w', cs)"
    using example_encrypts by blast
  from record_layer_round_trip [OF tag_only_ok l(1-3) m this] obtain r' xs where
    "decrypt_all tag_only cs example_layer = Inr (r', xs)" "map opened xs = [Some (example_plain [1, 2]), Some (example_plain [])]"
    by (auto simp: l(4))
  then show ?thesis by (intro exI conjI)
qed

lemma encrypt_all_seq:
  assumes "encrypt_all L ms w = Inr (w', cs)"
  shows "length cs = length ms \<and> message_encrypter w' = message_encrypter w
    \<and> unat (write_seq w') = unat (write_seq w) + length ms
    \<and> (\<forall>i < length ms. encrypt L (message_encrypter w) (ms ! i) (write_seq w + word_of_nat i) = Inr (cs ! i))"
  using assms
proof (induction ms arbitrary: w cs)
  case (Cons m ms)
  from Cons.prems obtain w1 c cs1 where c: "encrypt_outgoing L m w = Inr (w1, c)" "encrypt_all L ms w1 = Inr (w', cs1)"
      "cs = c # cs1"
    by (auto simp: res_simps)
  note e = c(1) [unfolded encrypt_outgoing_Inr]
  have "encrypt L (message_encrypter w) ((m # ms) ! i) (write_seq w + word_of_nat i) = Inr (cs ! i)"
    if "i < length (m # ms)" for i
    using Cons.IH [OF c(2)] e c(3) that by (cases i) (auto simp: algebra_simps)
  then show ?case using Cons.IH [OF c(2)] below_hard_limit(2) e c(3) by simp
qed simp

text \<open>The key and the initialisation vector of an encrypter.\<close>

fun key_and_iv :: "'k MessageEncrypter \<Rightarrow> ('k \<times> bytes) option" where
  "key_and_iv InvalidMessageEncrypter = None"
| "key_and_iv (Tls13MessageEncrypter k iv) = Some (k, iv)"
| "key_and_iv (GcmMessageEncrypter k iv) = Some (k, iv)"
| "key_and_iv (ChaCha20Poly1305MessageEncrypter k iv) = Some (k, iv)"

text \<open>
  The payload of a record ends with what sealing the message under a key and a nonce gave; TLS 1.3 seals
  the content type with the message, and AES-GCM of TLS 1.2 puts a part of the nonce in front.
\<close>

definition sealed_under :: "'k aead \<Rightarrow> 'k \<Rightarrow> bytes \<Rightarrow> PlainMessage \<Rightarrow> OpaqueMessage \<Rightarrow> bool" where
  "sealed_under L k nonce m c \<longleftrightarrow>
     (\<exists>aad typ front sealed. seal L k nonce aad (pm_payload m @ typ) = Some sealed \<and> om_payload c = front @ sealed)"

lemma encrypt_sealed_under:
  assumes "encrypt L e m seq = Inr c" and "key_and_iv e = Some (k, iv)"
  shows "sealed_under L k (make_nonce iv seq) m c"
proof (cases e)
  case (Tls13MessageEncrypter k' iv')
  with assms show ?thesis
    by (auto simp: tls13_encrypt_def Let_def sealed_under_def split: option.splits) blast
next
  case (GcmMessageEncrypter k' iv')
  with assms show ?thesis
    by (auto simp: gcm_encrypt_def Let_def sealed_under_def split: option.splits) (metis append_Nil2)
next
  case (ChaCha20Poly1305MessageEncrypter k' iv')
  with assms show ?thesis
    by (auto simp: chacha_encrypt_def Let_def sealed_under_def split: option.splits) (metis append_Nil append_Nil2)
qed (use assms in simp)

text \<open>
  C28. No nonce is used twice with a key: when the record layer encrypts a sequence of messages, the record
  at each position carries the message sealed under the key of the encrypter and the nonce of its own
  sequence number, the sequence number does not wrap around, and all these nonces are distinct.
\<close>

theorem nonce_never_reused:
  assumes "encrypt_all L ms w = Inr (w', cs)" and "key_and_iv (message_encrypter w) = Some (k, iv)" and "length iv = 12"
  shows "\<exists>nonces. nonces = map (\<lambda>i. make_nonce iv (write_seq w + word_of_nat i)) [0..<length ms]
    \<and> distinct nonces \<and> length cs = length ms
    \<and> (\<forall>i < length ms. sealed_under L k (nonces ! i) (ms ! i) (cs ! i))
    \<and> unat (write_seq w') = unat (write_seq w) + length ms"
proof -
  note s = encrypt_all_seq [OF assms(1)]
  have len: "length ms < 2 ^ 64" using s unat_eq_word [of "write_seq w'"] by simp
  have "(word_of_nat i :: u64) \<noteq> word_of_nat j" if "i < length ms" "j < length ms" "i \<noteq> j" for i j
    using len that by (simp add: word_of_nat_eq_iff take_bit_nat_eq_self)
  then have "distinct (map (\<lambda>i. make_nonce iv (write_seq w + word_of_nat i)) [0..<length ms])"
    using assms(3) unfolding distinct_map inj_on_def by auto metis
  moreover have "sealed_under L k (make_nonce iv (write_seq w + word_of_nat i)) (ms ! i) (cs ! i)" if "i < length ms" for i
    using s that assms(2) by (auto intro: encrypt_sealed_under)
  ultimately show ?thesis using s by auto
qed

text \<open>An instance that writes the nonce into the sealed data shows which one was used.\<close>

definition nonce_first :: "unit aead" where
  "nonce_first =
     \<lparr>seal = (\<lambda>k n a p. Some (n @ p @ replicate 4 0)),
      unseal = (\<lambda>k n a c. if 16 \<le> length c then Some (take (length c - 16) (drop 12 c)) else None), tag_len = (\<lambda>k. 16)\<rparr>"

theorem nonce_never_reused_witness:
  "\<exists>w' cs. encrypt_all nonce_first [example_plain [1, 2], example_plain []] example_layer = Inr (w', cs)
     \<and> sealed_under nonce_first () (make_nonce (replicate 12 3) 5) (example_plain [1, 2]) (cs ! 0)
     \<and> sealed_under nonce_first () (make_nonce (replicate 12 3) 6) (example_plain []) (cs ! 1)
     \<and> unat (write_seq w') = 7"
proof -
  have k: "key_and_iv (message_encrypter example_layer) = Some ((), replicate 12 3)"
    "length (replicate 12 (3 :: u8)) = 12" "write_seq example_layer = 5"
    by (simp_all add: example_layer_def)
  have "\<exists>w' cs. encrypt_all nonce_first [example_plain [1, 2], example_plain []] example_layer = Inr (w', cs)"
    by (simp add: example_layer_def encrypt_outgoing_def encrypt_exhausted_def SEQ_HARD_LIMIT_def gcm_encrypt_def nonce_first_def Let_def)
  then obtain w' cs where e: "encrypt_all nonce_first [example_plain [1, 2], example_plain []] example_layer = Inr (w', cs)" by blast
  have two: "length [example_plain [1, 2], example_plain []] = 2" "[0..<2] = [0, 1 :: nat]" by (simp_all add: upt_rec)
  from nonce_never_reused [OF e k(1,2), unfolded two k(3)]
  have n: "\<forall>i < 2. sealed_under nonce_first () (map (\<lambda>i. make_nonce (replicate 12 3) (5 + word_of_nat i)) [0, 1] ! i)
      ([example_plain [1, 2], example_plain []] ! i) (cs ! i)" "unat (write_seq w') = unat (5 :: u64) + 2"
    by blast+
  from n(1) [rule_format, of 0] n(1) [rule_format, of 1] n(2) e show ?thesis by simp
qed

section \<open>Trial decryption\<close>

definition allowance :: "'k RecordLayer \<Rightarrow> nat" where
  "allowance rl = (case trial_decryption_len rl of Some n \<Rightarrow> n | None \<Rightarrow> 0)"

definition dropped :: "OpaqueMessage list \<Rightarrow> (Error + (bool \<times> PlainMessage) option) list \<Rightarrow> nat" where
  "dropped cs xs = (\<Sum>(c, x) \<leftarrow> zip cs xs. if x = Inr None then length (om_payload c) else 0)"

lemma decrypt_incoming_allowance:
  "decrypt_incoming L c rl = Inr (rl', x) \<Longrightarrow>
     allowance rl = allowance rl' + (if x = Inr None then length (om_payload c) else 0)"
  by (auto simp: decrypt_incoming_def doing_trial_decryption_def allowance_def Let_def split: if_splits sum.splits option.splits)

text \<open>
  C29. Records that cannot be decrypted are dropped only within the allowance for rejected early data:
  the bytes of all dropped records and the allowance left add up to the allowance at the start.
\<close>

theorem trial_decryption_bounded:
  "decrypt_all L cs rl = Inr (rl', xs) \<Longrightarrow> dropped cs xs + allowance rl' = allowance rl"
proof (induction cs arbitrary: rl xs)
  case (Cons c cs)
  from Cons.prems obtain rl1 x xs1 where d: "decrypt_incoming L c rl = Inr (rl1, x)" "decrypt_all L cs rl1 = Inr (rl', xs1)"
      "xs = x # xs1"
    by (auto simp: res_simps)
  from Cons.IH [OF d(2)] decrypt_incoming_allowance [OF d(1)] d(3) show ?case by (simp add: dropped_def)
qed (simp add: dropped_def)


theorem trial_decryption_bounded_witness:
  "\<exists>rl' xs. decrypt_all tag_only [\<lparr>om_typ = CT_ApplicationData, om_version = TLSv1_2, om_payload = replicate 30 1\<rparr>] example_layer = Inr (rl', xs)
     \<and> dropped [\<lparr>om_typ = CT_ApplicationData, om_version = TLSv1_2, om_payload = replicate 30 1\<rparr>] xs + allowance rl' = 40
     \<and> xs = [Inr None]"
proof -
  let ?c = "\<lparr>om_typ = CT_ApplicationData, om_version = TLSv1_2, om_payload = replicate 30 1\<rparr>"
  have "(replicate 16 1 :: bytes) \<noteq> replicate 16 7" by (simp add: replicate_eq_replicate)
  then have "\<exists>rl'. decrypt_all tag_only [?c] example_layer = Inr (rl', [Inr None])"
    by (simp add: decrypt_incoming_def example_layer_def gcm_decrypt_def GCM_OVERHEAD_def GCM_EXPLICIT_NONCE_LEN_def
        tag_only_def doing_trial_decryption_def)
  then obtain rl' where r: "decrypt_all tag_only [?c] example_layer = Inr (rl', [Inr None])" by blast
  from trial_decryption_bounded [OF r] r show ?thesis by (auto simp: allowance_def example_layer_def)
qed

end
