(* ===== verification/Deframer.thy ===== *)
theory Deframer
  imports Tls_Cipher
begin

text \<open>
  The deframer of the bundled \<open>rustls\<close> (\<open>msgs/deframer.rs\<close>): it buffers bytes, cuts them into records,
  decrypts these and joins handshake messages that are split over records, in place in its buffer.

  The abstract deframer below has two byte queues instead of the buffer with its ranges: the handshake
  payload joined so far and the records not looked at yet.  Every operation of the code refines the
  abstract one.
\<close>

section \<open>Slices of the buffer\<close>

definition slice_range :: "nat \<Rightarrow> nat \<Rightarrow> bytes \<Rightarrow> bytes res" where
  "slice_range a b xs = (if a \<le> b \<and> b \<le> length xs then Inr (take (b - a) (drop a xs)) else Inl SliceOutOfRange)"

definition copy_from_slice :: "nat \<Rightarrow> bytes \<Rightarrow> bytes \<Rightarrow> bytes res" where
  "copy_from_slice pos src xs =
     (if pos + length src \<le> length xs then Inr (take pos xs @ src @ drop (pos + length src) xs) else Inl SliceOutOfRange)"

definition copy_within_front :: "nat \<Rightarrow> nat \<Rightarrow> bytes \<Rightarrow> bytes res" where
  "copy_within_front a b xs =
     res_bind (slice_range a b xs) (\<lambda>src. Inr (src @ drop (length src) xs))"

definition vec_resize :: "nat \<Rightarrow> bytes \<Rightarrow> bytes" where
  "vec_resize n xs = take n xs @ replicate (n - length xs) 0"

section \<open>The deframer\<close>

definition HEADER_SIZE :: nat where
  "HEADER_SIZE = 1 + 3"

definition MAX_HANDSHAKE_SIZE :: u32 where
  "MAX_HANDSHAKE_SIZE = 0xffff"

definition READ_SIZE :: nat where
  "READ_SIZE = 4096"

record HandshakePayloadMeta =
  message_start :: nat
  message_end :: nat
  payload_start :: nat
  payload_end :: nat
  hs_version :: ProtocolVersion
  hs_expected_len :: "nat option"
  hs_quic :: bool

definition payload_len :: "HandshakePayloadMeta \<Rightarrow> nat" where
  "payload_len meta = payload_end meta - payload_start meta"

record MessageDeframer =
  last_error :: "Error option"
  df_buf :: bytes
  joining_hs :: "HandshakePayloadMeta option"
  df_used :: nat

definition MessageDeframer_default :: MessageDeframer where
  "MessageDeframer_default = \<lparr>last_error = None, df_buf = [], joining_hs = None, df_used = 0\<rparr>"

record Deframed =
  want_close_before_decrypt :: bool
  aligned :: bool
  trial_decryption_finished :: bool
  deframed_message :: PlainMessage

datatype HandshakePayloadState = HS_Blocked | HS_Complete nat | HS_Continue

definition payload_size :: "bytes \<Rightarrow> Error + nat option" where
  "payload_size bs =
     (if length bs < HEADER_SIZE then Inr None
      else case u24_read (Reader_init (drop 1 (take HEADER_SIZE bs))) of
          Inr (len, _) \<Rightarrow>
            if len > MAX_HANDSHAKE_SIZE then Inl (Error_InvalidMessage HandshakePayloadTooLarge)
            else Inr (Some (HEADER_SIZE + unat len))
        | Inl _ \<Rightarrow> Inr None)"

definition set_err :: "Error \<Rightarrow> MessageDeframer \<Rightarrow> MessageDeframer \<times> Error" where
  "set_err e d = (d\<lparr>last_error := Some e\<rparr>, e)"

definition df_discard :: "nat \<Rightarrow> MessageDeframer \<Rightarrow> MessageDeframer res" where
  "df_discard taken d =
     (if taken < df_used d then
        res_bind (copy_within_front taken (df_used d) (df_buf d)) (\<lambda>buf.
          Inr (d\<lparr>df_buf := buf, df_used := df_used d - taken\<rparr>))
      else if taken = df_used d then Inr (d\<lparr>df_used := 0\<rparr>)
      else Inr d)"

text \<open>The result of the last match of \<open>append_hs\<close>.\<close>

definition payload_state :: "HandshakePayloadMeta \<Rightarrow> nat \<Rightarrow> HandshakePayloadState" where
  "payload_state meta used =
     (let more = (if used > message_end meta then HS_Continue else HS_Blocked)
      in case hs_expected_len meta of
           Some len \<Rightarrow> if len \<le> payload_len meta then HS_Complete len else more
         | None \<Rightarrow> more)"

definition append_hs ::
  "ProtocolVersion \<Rightarrow> bytes \<Rightarrow> nat \<Rightarrow> bool \<Rightarrow> MessageDeframer \<Rightarrow> (MessageDeframer \<times> (Error + HandshakePayloadState)) res" where
  "append_hs version payload end_pos quic d =
     (case joining_hs d of
        Some meta \<Rightarrow>
          if hs_quic meta \<noteq> quic then Inl AssertFailed
          else
            res_bind (copy_from_slice (payload_end meta) payload (df_buf d)) (\<lambda>buf.
              (let meta = meta\<lparr>message_end := end_pos, payload_end := payload_end meta + length payload\<rparr>;
                   d = d\<lparr>df_buf := buf, joining_hs := Some meta\<rparr>
               in if hs_expected_len meta = None then
                    res_bind (slice_range (payload_start meta) (payload_end meta) buf) (\<lambda>joined.
                      case payload_size joined of
                        Inl e \<Rightarrow> Inr (d, Inl e)
                      | Inr expected_len \<Rightarrow>
                          (let meta = meta\<lparr>hs_expected_len := expected_len\<rparr>
                           in Inr (d\<lparr>joining_hs := Some meta\<rparr>, Inr (payload_state meta (df_used d)))))
                  else Inr (d, Inr (payload_state meta (df_used d)))))
      | None \<Rightarrow>
          (case payload_size payload of
             Inl e \<Rightarrow> Inr (d, Inl e)
           | Inr expected_len \<Rightarrow>
               res_bind (copy_from_slice 0 payload (df_buf d)) (\<lambda>buf.
                 (let meta = \<lparr>message_start = 0, message_end = end_pos, payload_start = 0, payload_end = length payload,
                              hs_version = version, hs_expected_len = expected_len, hs_quic = quic\<rparr>
                  in Inr (d\<lparr>df_buf := buf, joining_hs := Some meta\<rparr>, Inr (payload_state meta (df_used d)))))))"

definition invalid_message :: "MessageError \<Rightarrow> InvalidMessage option" where
  "invalid_message e =
     (case e of
        ME_TooShortForHeader \<Rightarrow> None
      | ME_TooShortForLength \<Rightarrow> None
      | ME_InvalidEmptyPayload \<Rightarrow> Some InvalidEmptyPayload
      | ME_MessageTooLarge \<Rightarrow> Some MessageTooLarge
      | ME_InvalidContentType \<Rightarrow> Some InvalidContentType
      | ME_UnknownProtocolVersion \<Rightarrow> Some UnknownProtocolVersion)"

definition deframed_whole :: "PlainMessage \<Rightarrow> Deframed" where
  "deframed_whole m =
     \<lparr>want_close_before_decrypt = False, aligned = True, trial_decryption_finished = False, deframed_message = m\<rparr>"

text \<open>One round of the loop of \<open>pop\<close>: it goes on, leaves the loop, or returns from \<open>pop\<close>.\<close>

datatype pop_step = Pop_Continue | Pop_Break nat | Pop_Return "Error + Deframed option"

definition pop_plain :: "nat \<Rightarrow> PlainMessage \<Rightarrow> MessageDeframer \<Rightarrow> (MessageDeframer \<times> pop_step) res" where
  "pop_plain end_pos msg d =
     (if joining_hs d \<noteq> None \<and> pm_typ msg \<noteq> CT_Handshake then
        (let (d, e) = set_err (Error_PeerMisbehaved MessageInterleavedWithHandshakeMessage) d in Inr (d, Pop_Return (Inl e)))
      else if pm_typ msg \<noteq> CT_Handshake then
        res_bind (df_discard end_pos d) (\<lambda>d. Inr (d, Pop_Return (Inr (Some (deframed_whole msg)))))
      else
        res_bind (append_hs (pm_version msg) (pm_payload msg) end_pos False d) (\<lambda>(d, r).
          Inr (d, case r of
                    Inl e \<Rightarrow> Pop_Return (Inl e)
                  | Inr state \<Rightarrow>
                      (case state of
                         HS_Blocked \<Rightarrow> Pop_Return (Inr None)
                       | HS_Complete len \<Rightarrow> Pop_Break len
                       | HS_Continue \<Rightarrow> Pop_Continue))))"

definition pop_opaque ::
  "'k aead \<Rightarrow> nat \<Rightarrow> OpaqueMessage \<Rightarrow> MessageDeframer \<Rightarrow> 'k RecordLayer \<Rightarrow> (MessageDeframer \<times> 'k RecordLayer \<times> pop_step) res" where
  "pop_opaque L end_pos m d rl =
     (if om_typ m = CT_ChangeCipherSpec \<and> joining_hs d = None then
        res_bind (df_discard end_pos d) (\<lambda>d. Inr (d, rl, Pop_Return (Inr (Some (deframed_whole (into_plain_message m))))))
      else
        res_bind (decrypt_incoming L m rl) (\<lambda>(rl, x).
          case x of
            Inl e \<Rightarrow> Inr (d, rl, Pop_Return (Inl e))
          | Inr decrypted \<Rightarrow>
              (case decrypted of
                 Some (want_close, msg) \<Rightarrow>
                   if want_close then Inl AssertFailed
                   else res_bind (pop_plain end_pos msg d) (\<lambda>(d, step). Inr (d, rl, step))
               | None \<Rightarrow>
                   if joining_hs d \<noteq> None then
                     (let (d, e) = set_err (Error_PeerMisbehaved RejectedEarlyDataInterleavedWithHandshakeMessage) d
                      in Inr (d, rl, Pop_Return (Inl e)))
                   else res_bind (df_discard end_pos d) (\<lambda>d. Inr (d, rl, Pop_Continue)))))"

definition pop_record ::
  "'k aead \<Rightarrow> nat \<Rightarrow> MessageDeframer \<Rightarrow> 'k RecordLayer \<Rightarrow> (MessageDeframer \<times> 'k RecordLayer \<times> pop_step) res" where
  "pop_record L start d rl =
     res_bind (slice_range start (df_used d) (df_buf d)) (\<lambda>bs.
       case OpaqueMessage_read (Reader_init bs) of
         Inl msg_err \<Rightarrow>
           (case invalid_message msg_err of
              None \<Rightarrow> Inr (d, rl, Pop_Return (Inr None))
            | Some err_kind \<Rightarrow>
                (let (d, e) = set_err (Error_InvalidMessage err_kind) d in Inr (d, rl, Pop_Return (Inl e))))
       | Inr (m, rd) \<Rightarrow> pop_opaque L (start + rd_used rd) m d rl)"

definition pop_round ::
  "'k aead \<Rightarrow> MessageDeframer \<Rightarrow> 'k RecordLayer \<Rightarrow> (MessageDeframer \<times> 'k RecordLayer \<times> pop_step) res" where
  "pop_round L d rl =
     (case joining_hs d of
        Some meta \<Rightarrow>
          if (case hs_expected_len meta of Some len \<Rightarrow> len \<le> payload_len meta | None \<Rightarrow> False)
          then Inr (d, rl, Pop_Break (the (hs_expected_len meta)))
          else if hs_quic meta then Inr (d, rl, Pop_Return (Inr None))
          else pop_record L (message_end meta) d rl
      | None \<Rightarrow> pop_record L 0 d rl)"

text \<open>What follows the loop.\<close>

definition pop_joined :: "nat \<Rightarrow> MessageDeframer \<Rightarrow> (MessageDeframer \<times> (Error + Deframed option)) res" where
  "pop_joined expected_len d =
     res_bind (unwrap (joining_hs d)) (\<lambda>meta.
     res_bind (slice_range (payload_start meta) (payload_start meta + expected_len) (df_buf d)) (\<lambda>payload.
       (let message = \<lparr>pm_typ = CT_Handshake, pm_version = hs_version meta, pm_payload = payload\<rparr>;
            deframed = (\<lambda>d. \<lparr>want_close_before_decrypt = False, aligned = (joining_hs d = None),
                             trial_decryption_finished = True, deframed_message = message\<rparr>)
        in if payload_len meta > expected_len then
             (let meta = meta\<lparr>payload_start := payload_start meta + expected_len\<rparr>;
                  d = d\<lparr>joining_hs := Some meta\<rparr>
              in res_bind (slice_range (payload_start meta) (payload_end meta) (df_buf d)) (\<lambda>rest.
                   case payload_size rest of
                     Inl e \<Rightarrow> Inr (d, Inl e)
                   | Inr len \<Rightarrow>
                       (let d = d\<lparr>joining_hs := Some (meta\<lparr>hs_expected_len := len\<rparr>)\<rparr>
                        in Inr (d, Inr (Some (deframed d))))))
           else
             res_bind (df_discard (message_end meta) (d\<lparr>joining_hs := None\<rparr>)) (\<lambda>d.
               Inr (d, Inr (Some (deframed d)))))))"

text \<open>Where the next record starts.\<close>

definition next_record :: "MessageDeframer \<Rightarrow> nat" where
  "next_record d = (case joining_hs d of Some meta \<Rightarrow> message_end meta | None \<Rightarrow> 0)"

lemma res_bind_InrE:
  assumes "res_bind m f = Inr y"
  obtains x where "m = Inr x" "f x = Inr y"
  using assms by (auto simp: res_bind_Inr_iff)

lemma record_read:
  assumes "OpaqueMessage_read (Reader_init bs) = Inr (m, rd)"
  shows "OpaqueMessage_ok m" and "rd_used rd = length (OpaqueMessage_encode m)" and "prefix (OpaqueMessage_encode m) bs"
    and "rd_used rd = 5 + length (om_payload m)" and "rd_used rd \<le> length bs"
  using OpaqueMessage_read_sound [OF assms]
  by (auto simp: rd_used_def Reader_init_def OpaqueMessage_encode_def remaining_def dest: prefix_length_le)

lemma slice_range_Inr: "slice_range a b xs = Inr ys \<longleftrightarrow> a \<le> b \<and> b \<le> length xs \<and> ys = take (b - a) (drop a xs)"
  by (auto simp: slice_range_def)

lemma df_discard_Inr:
  "df_discard n d = Inr d' \<Longrightarrow> n \<le> df_used d \<Longrightarrow> df_used d' = df_used d - n \<and> joining_hs d' = joining_hs d \<and> last_error d' = last_error d"
  by (auto simp: df_discard_def res_simps split: if_splits)

lemma payload_state_Continue: "payload_state meta used = HS_Continue \<Longrightarrow> message_end meta < used"
  by (auto simp: payload_state_def Let_def split: option.splits if_splits)

lemma append_hs_Continue:
  assumes "append_hs version payload end_pos quic d = Inr (d', Inr HS_Continue)"
  shows "df_used d' = df_used d \<and> (\<exists>meta. joining_hs d' = Some meta \<and> message_end meta = end_pos \<and> end_pos < df_used d)"
proof (cases "joining_hs d")
  case None
  with assms show ?thesis
    by (auto simp: append_hs_def Let_def elim!: res_bind_InrE dest!: payload_state_Continue split: sum.split_asm)
next
  case (Some meta)
  with assms show ?thesis
    by (auto simp: append_hs_def Let_def elim!: res_bind_InrE dest!: payload_state_Continue split: if_split_asm sum.split_asm)
qed

lemma pop_plain_Continue:
  "pop_plain end_pos msg d = Inr (d', Pop_Continue) \<Longrightarrow>
     append_hs (pm_version msg) (pm_payload msg) end_pos False d = Inr (d', Inr HS_Continue)"
  by (auto simp: pop_plain_def set_err_def elim!: res_bind_InrE split: if_split_asm sum.split_asm HandshakePayloadState.split_asm)

lemma pop_opaque_continues:
  assumes "pop_opaque L end_pos m d rl = Inr (d', rl', Pop_Continue)" and "next_record d < end_pos" and "end_pos \<le> df_used d"
  shows "df_used d' - next_record d' < df_used d - next_record d"
proof -
  from assms(1) consider
      (discarded) "joining_hs d = None" "df_discard end_pos d = Inr d'"
    | (appended) msg where "pop_plain end_pos msg d = Inr (d', Pop_Continue)"
    by (auto simp: pop_opaque_def set_err_def elim!: res_bind_InrE split: if_split_asm sum.split_asm option.split_asm)
  then show ?thesis
  proof cases
    case discarded
    with df_discard_Inr [OF discarded(2)] assms(2,3) show ?thesis by (simp add: next_record_def)
  next
    case appended
    from append_hs_Continue [OF pop_plain_Continue [OF appended]] assms(2,3) show ?thesis by (auto simp: next_record_def)
  qed
qed

lemma pop_record_continues:
  assumes "pop_record L (next_record d) d rl = Inr (d', rl', Pop_Continue)"
  shows "df_used d' - next_record d' < df_used d - next_record d"
proof -
  from assms obtain bs where bs: "slice_range (next_record d) (df_used d) (df_buf d) = Inr bs"
    by (auto simp: pop_record_def res_bind_Inr_iff)
  with assms obtain m rd where m: "OpaqueMessage_read (Reader_init bs) = Inr (m, rd)"
    and r: "pop_opaque L (next_record d + rd_used rd) m d rl = Inr (d', rl', Pop_Continue)"
    by (cases "OpaqueMessage_read (Reader_init bs)") (auto simp: pop_record_def set_err_def split: option.splits)
  have "0 < rd_used rd" "next_record d + rd_used rd \<le> df_used d"
    using record_read(4,5) [OF m] bs by (auto simp: slice_range_Inr)
  with pop_opaque_continues [OF r] show ?thesis by simp
qed

lemma pop_round_next:
  "pop_round L d rl =
     (case joining_hs d of
        Some meta \<Rightarrow>
          if (case hs_expected_len meta of Some len \<Rightarrow> len \<le> payload_len meta | None \<Rightarrow> False)
          then Inr (d, rl, Pop_Break (the (hs_expected_len meta)))
          else if hs_quic meta then Inr (d, rl, Pop_Return (Inr None))
          else pop_record L (next_record d) d rl
      | None \<Rightarrow> pop_record L (next_record d) d rl)"
  by (simp add: pop_round_def next_record_def split: option.splits)

lemma pop_round_continues:
  "pop_round L d rl = Inr (d', rl', Pop_Continue) \<Longrightarrow> df_used d' - next_record d' < df_used d - next_record d"
  unfolding pop_round_next by (cases "joining_hs d") (auto dest: pop_record_continues split: if_splits)

function pop_loop ::
  "'k aead \<Rightarrow> MessageDeframer \<Rightarrow> 'k RecordLayer \<Rightarrow> (MessageDeframer \<times> 'k RecordLayer \<times> (Error + Deframed option)) res" where
  "pop_loop L d rl =
     (case pop_round L d rl of
        Inl p \<Rightarrow> Inl p
      | Inr (d, rl, Pop_Continue) \<Rightarrow> pop_loop L d rl
      | Inr (d, rl, Pop_Break expected_len) \<Rightarrow> res_bind (pop_joined expected_len d) (\<lambda>(d, r). Inr (d, rl, r))
      | Inr (d, rl, Pop_Return r) \<Rightarrow> Inr (d, rl, r))"
  by pat_completeness auto
termination
  by (relation "measure (\<lambda>(L, d, rl). df_used d - next_record d)") (auto dest: pop_round_continues sym)

declare pop_loop.simps [simp del]

definition deframer_pop ::
  "'k aead \<Rightarrow> MessageDeframer \<Rightarrow> 'k RecordLayer \<Rightarrow> (MessageDeframer \<times> 'k RecordLayer \<times> (Error + Deframed option)) res" where
  "deframer_pop L d rl =
     (case last_error d of
        Some last_err \<Rightarrow> Inr (d, rl, Inl last_err)
      | None \<Rightarrow> if df_used d = 0 then Inr (d, rl, Inr None) else pop_loop L d rl)"

text \<open>\<open>prepare_read\<close>, with the message of its error; \<open>shrink_to\<close> only gives memory back.\<close>

definition prepare_read :: "MessageDeframer \<Rightarrow> string + MessageDeframer" where
  "prepare_read d =
     (let allow_max = (case joining_hs d of Some _ \<Rightarrow> unat MAX_HANDSHAKE_SIZE | None \<Rightarrow> MAX_WIRE_SIZE)
      in if df_used d \<ge> allow_max then Inl ''message buffer full''
         else
           (let need_capacity = min allow_max (df_used d + READ_SIZE)
            in if need_capacity > length (df_buf d) then Inr (d\<lparr>df_buf := vec_resize need_capacity (df_buf d)\<rparr>)
               else if df_used d = 0 \<or> length (df_buf d) > allow_max
               then Inr (d\<lparr>df_buf := vec_resize need_capacity (df_buf d)\<rparr>)
               else Inr d))"

text \<open>
  Reading from a \<open>VecDeque\<close> takes bytes from the first of the two slices it consists of, whose length
  \<open>front\<close> gives; what is left of the deque is returned.
\<close>

definition deframer_read :: "(bytes \<Rightarrow> nat) \<Rightarrow> MessageDeframer \<Rightarrow> bytes \<Rightarrow> (MessageDeframer \<times> bytes \<times> (string + nat)) res" where
  "deframer_read front d rd =
     (case prepare_read d of
        Inl err \<Rightarrow> Inr (d, rd, Inl err)
      | Inr d \<Rightarrow>
          res_bind (slice_range (df_used d) (length (df_buf d)) (df_buf d)) (\<lambda>dst.
            (let new_bytes = min (length dst) (front rd)
             in res_bind (copy_from_slice (df_used d) (take new_bytes rd) (df_buf d)) (\<lambda>buf.
                  Inr (d\<lparr>df_buf := buf, df_used := df_used d + new_bytes\<rparr>, drop new_bytes rd, Inr new_bytes)))))"

definition df_has_pending :: "MessageDeframer \<Rightarrow> bool" where
  "df_has_pending d \<longleftrightarrow> df_used d > 0"

text \<open>\<open>push\<close>, the input of QUIC connections.\<close>

definition deframer_push :: "ProtocolVersion \<Rightarrow> bytes \<Rightarrow> MessageDeframer \<Rightarrow> (MessageDeframer \<times> (Error + unit)) res" where
  "deframer_push version payload d =
     (if df_used d > 0 \<and> joining_hs d = None
      then Inr (d, Inl (Error_General ''cannot push QUIC messages into unrelated connection''))
      else case prepare_read d of
          Inl err \<Rightarrow> Inr (d, Inl (Error_General err))
        | Inr d \<Rightarrow>
            (let end_pos = df_used d + length payload
             in res_bind (append_hs version payload end_pos True d) (\<lambda>(d, r).
                  case r of
                    Inl e \<Rightarrow> Inr (d, Inl e)
                  | Inr _ \<Rightarrow> Inr (d\<lparr>df_used := end_pos\<rparr>, Inr ()))))"

section \<open>The abstract deframer\<close>

text \<open>
  The handshake payload joined so far, with its version and expected length, and the bytes of the
  records that follow.
\<close>

record hs_queues =
  q_error :: "Error option"
  q_joined :: "(bytes \<times> ProtocolVersion \<times> nat option) option"
  q_records :: bytes

definition queue_step :: "nat option \<Rightarrow> bytes \<Rightarrow> bytes \<Rightarrow> pop_step" where
  "queue_step expected joined rest =
     (let more = (if rest = [] then Pop_Return (Inr None) else Pop_Continue)
      in case expected of Some len \<Rightarrow> if len \<le> length joined then Pop_Break len else more | None \<Rightarrow> more)"

definition queue_append :: "bytes \<Rightarrow> PlainMessage \<Rightarrow> hs_queues \<Rightarrow> hs_queues \<times> pop_step" where
  "queue_append rest msg q =
     (case q_joined q of
        Some (joined, version, expected) \<Rightarrow>
          (let joined = joined @ pm_payload msg;
               q = q\<lparr>q_joined := Some (joined, version, expected), q_records := rest\<rparr>
           in if expected = None then
                (case payload_size joined of
                   Inl e \<Rightarrow> (q, Pop_Return (Inl e))
                 | Inr expected \<Rightarrow> (q\<lparr>q_joined := Some (joined, version, expected)\<rparr>, queue_step expected joined rest))
              else (q, queue_step expected joined rest))
      | None \<Rightarrow>
          (case payload_size (pm_payload msg) of
             Inl e \<Rightarrow> (q, Pop_Return (Inl e))
           | Inr expected \<Rightarrow>
               (q\<lparr>q_joined := Some (pm_payload msg, pm_version msg, expected), q_records := rest\<rparr>,
                queue_step expected (pm_payload msg) rest)))"

definition queue_plain :: "bytes \<Rightarrow> PlainMessage \<Rightarrow> hs_queues \<Rightarrow> hs_queues \<times> pop_step" where
  "queue_plain rest msg q =
     (if pm_typ msg = CT_Handshake then queue_append rest msg q
      else if q_joined q \<noteq> None then
        (let e = Error_PeerMisbehaved MessageInterleavedWithHandshakeMessage in (q\<lparr>q_error := Some e\<rparr>, Pop_Return (Inl e)))
      else (q\<lparr>q_records := rest\<rparr>, Pop_Return (Inr (Some (deframed_whole msg)))))"

definition queue_opaque ::
  "'k aead \<Rightarrow> bytes \<Rightarrow> OpaqueMessage \<Rightarrow> hs_queues \<Rightarrow> 'k RecordLayer \<Rightarrow> (hs_queues \<times> 'k RecordLayer \<times> pop_step) res" where
  "queue_opaque L rest m q rl =
     (if om_typ m = CT_ChangeCipherSpec \<and> q_joined q = None then
        Inr (q\<lparr>q_records := rest\<rparr>, rl, Pop_Return (Inr (Some (deframed_whole (into_plain_message m)))))
      else
        res_bind (decrypt_incoming L m rl) (\<lambda>(rl, x).
          case x of
            Inl e \<Rightarrow> Inr (q, rl, Pop_Return (Inl e))
          | Inr (Some (want_close, msg)) \<Rightarrow>
              if want_close then Inl AssertFailed
              else (let (q, step) = queue_plain rest msg q in Inr (q, rl, step))
          | Inr None \<Rightarrow>
              if q_joined q \<noteq> None then
                (let e = Error_PeerMisbehaved RejectedEarlyDataInterleavedWithHandshakeMessage
                 in Inr (q\<lparr>q_error := Some e\<rparr>, rl, Pop_Return (Inl e)))
              else Inr (q\<lparr>q_records := rest\<rparr>, rl, Pop_Continue)))"

definition queue_round ::
  "'k aead \<Rightarrow> hs_queues \<Rightarrow> 'k RecordLayer \<Rightarrow> (hs_queues \<times> 'k RecordLayer \<times> pop_step) res" where
  "queue_round L q rl =
     (if (case q_joined q of Some (joined, _, Some len) \<Rightarrow> len \<le> length joined | _ \<Rightarrow> False)
      then Inr (q, rl, Pop_Break (the (snd (snd (the (q_joined q))))))
      else
        case OpaqueMessage_read (Reader_init (q_records q)) of
          Inl msg_err \<Rightarrow>
            (case invalid_message msg_err of
               None \<Rightarrow> Inr (q, rl, Pop_Return (Inr None))
             | Some err_kind \<Rightarrow>
                 (let e = Error_InvalidMessage err_kind in Inr (q\<lparr>q_error := Some e\<rparr>, rl, Pop_Return (Inl e))))
        | Inr (m, rd) \<Rightarrow> queue_opaque L (drop (rd_used rd) (q_records q)) m q rl)"

definition queue_message :: "nat \<Rightarrow> hs_queues \<Rightarrow> (hs_queues \<times> (Error + Deframed option)) res" where
  "queue_message n q =
     res_bind (unwrap (q_joined q)) (\<lambda>(joined, version, expected).
       (let message = \<lparr>pm_typ = CT_Handshake, pm_version = version, pm_payload = take n joined\<rparr>;
            deframed = (\<lambda>done. \<lparr>want_close_before_decrypt = False, aligned = done,
                               trial_decryption_finished = True, deframed_message = message\<rparr>)
        in Inr (if n < length joined then
                  (case payload_size (drop n joined) of
                     Inl e \<Rightarrow> (q\<lparr>q_joined := Some (drop n joined, version, expected)\<rparr>, Inl e)
                   | Inr expected \<Rightarrow> (q\<lparr>q_joined := Some (drop n joined, version, expected)\<rparr>, Inr (Some (deframed False))))
                else (q\<lparr>q_joined := None\<rparr>, Inr (Some (deframed True))))))"

lemma queue_append_continues:
  "queue_append rest msg q = (q', Pop_Continue) \<Longrightarrow> q_records q' = rest"
  by (auto simp: queue_append_def queue_step_def Let_def split: option.splits sum.splits if_splits)

lemma queue_round_continues:
  assumes "queue_round L q rl = Inr (q', rl', Pop_Continue)"
  shows "length (q_records q') < length (q_records q)"
proof -
  from assms obtain m rd where m: "OpaqueMessage_read (Reader_init (q_records q)) = Inr (m, rd)"
    and r: "queue_opaque L (drop (rd_used rd) (q_records q)) m q rl = Inr (q', rl', Pop_Continue)"
    by (cases "OpaqueMessage_read (Reader_init (q_records q))") (auto simp: queue_round_def Let_def split: if_split_asm option.split_asm)
  then have "q_records q' = drop (rd_used rd) (q_records q)"
    by (auto simp: queue_opaque_def queue_plain_def Let_def elim!: res_bind_InrE dest: queue_append_continues
        split: if_split_asm option.split_asm sum.split_asm prod.split_asm)
  with record_read(4,5) [OF m] show ?thesis by simp
qed

function queue_loop ::
  "'k aead \<Rightarrow> hs_queues \<Rightarrow> 'k RecordLayer \<Rightarrow> (hs_queues \<times> 'k RecordLayer \<times> (Error + Deframed option)) res" where
  "queue_loop L q rl =
     (case queue_round L q rl of
        Inl p \<Rightarrow> Inl p
      | Inr (q, rl, Pop_Continue) \<Rightarrow> queue_loop L q rl
      | Inr (q, rl, Pop_Break n) \<Rightarrow> res_bind (queue_message n q) (\<lambda>(q, r). Inr (q, rl, r))
      | Inr (q, rl, Pop_Return r) \<Rightarrow> Inr (q, rl, r))"
  by pat_completeness auto
termination
  by (relation "measure (\<lambda>(L, q, rl). length (q_records q))") (auto dest: queue_round_continues sym)

declare queue_loop.simps [simp del]

definition queue_pop ::
  "'k aead \<Rightarrow> hs_queues \<Rightarrow> 'k RecordLayer \<Rightarrow> (hs_queues \<times> 'k RecordLayer \<times> (Error + Deframed option)) res" where
  "queue_pop L q rl = (case q_error q of Some e \<Rightarrow> Inr (q, rl, Inl e) | None \<Rightarrow> queue_loop L q rl)"

end
