(* ===== verification/Tls_Message.thy ===== *)
theory Tls_Message
  imports Tls_Handshake Deframer
begin

text \<open>
  Messages (\<open>msgs/handshake.rs\<close>, \<open>msgs/alert.rs\<close>, \<open>msgs/ccs.rs\<close>, \<open>msgs/message.rs\<close>): the handshake message
  with its type and length, alerts, changes of the cipher spec, and the message that is parsed from a
  decrypted record.

  Parsing returns on every input.  A message that was parsed turns back into the record it was parsed
  from, and a handshake message is encoded as the bytes it was parsed from.
\<close>

section \<open>Handshake messages\<close>

datatype (plugins only: code) HandshakePayload =
    HP_HelloRequest
  | HP_ClientHello ClientHelloPayload
  | HP_ServerHello ServerHelloPayload
  | HP_HelloRetryRequest HelloRetryRequest
  | HP_Certificate "bytes list"
  | HP_CertificateTLS13 CertificatePayloadTLS13
  | HP_ServerKeyExchange ServerKeyExchangePayload
  | HP_CertificateRequest CertificateRequestPayload
  | HP_CertificateRequestTLS13 CertificateRequestPayloadTLS13
  | HP_CertificateVerify DigitallySignedStruct
  | HP_ServerHelloDone
  | HP_EndOfEarlyData
  | HP_ClientKeyExchange bytes
  | HP_NewSessionTicket NewSessionTicketPayload
  | HP_NewSessionTicketTLS13 NewSessionTicketPayloadTLS13
  | HP_EncryptedExtensions "ServerExtension list"
  | HP_KeyUpdate KeyUpdateRequest
  | HP_Finished bytes
  | HP_CertificateStatus CertificateStatus
  | HP_MessageHash bytes
  | HP_Unknown bytes

primrec HandshakePayload_encode :: "HandshakePayload \<Rightarrow> bytes res" where
  "HandshakePayload_encode HP_HelloRequest = Inr []"
| "HandshakePayload_encode (HP_ClientHello x) = ClientHelloPayload_encode x"
| "HandshakePayload_encode (HP_ServerHello x) = ServerHelloPayload_encode x"
| "HandshakePayload_encode (HP_HelloRetryRequest x) = HelloRetryRequest_encode x"
| "HandshakePayload_encode (HP_Certificate x) = vec_encode (Len_U24 0x10000) (\<lambda>c. Inr (Certificate_encode c)) x"
| "HandshakePayload_encode (HP_CertificateTLS13 x) = CertificatePayloadTLS13_encode x"
| "HandshakePayload_encode (HP_ServerKeyExchange x) = ServerKeyExchangePayload_encode x"
| "HandshakePayload_encode (HP_CertificateRequest x) = CertificateRequestPayload_encode x"
| "HandshakePayload_encode (HP_CertificateRequestTLS13 x) = CertificateRequestPayloadTLS13_encode x"
| "HandshakePayload_encode (HP_CertificateVerify x) = DigitallySignedStruct_encode x"
| "HandshakePayload_encode HP_ServerHelloDone = Inr []"
| "HandshakePayload_encode HP_EndOfEarlyData = Inr []"
| "HandshakePayload_encode (HP_ClientKeyExchange x) = Inr x"
| "HandshakePayload_encode (HP_NewSessionTicket x) = NewSessionTicketPayload_encode x"
| "HandshakePayload_encode (HP_NewSessionTicketTLS13 x) = NewSessionTicketPayloadTLS13_encode x"
| "HandshakePayload_encode (HP_EncryptedExtensions x) = vec_encode Len_U16 ServerExtension_encode x"
| "HandshakePayload_encode (HP_KeyUpdate x) = Inr (KeyUpdateRequest_encode x)"
| "HandshakePayload_encode (HP_Finished x) = Inr x"
| "HandshakePayload_encode (HP_CertificateStatus x) = CertificateStatus_encode x"
| "HandshakePayload_encode (HP_MessageHash x) = Inr x"
| "HandshakePayload_encode (HP_Unknown x) = Inr x"

record HandshakeMessagePayload =
  hmp_typ :: HandshakeType
  hmp_payload :: HandshakePayload

definition HandshakeMessagePayload_encode :: "HandshakeMessagePayload \<Rightarrow> bytes res" where
  "HandshakeMessagePayload_encode m =
     enc_all [Inr (HandshakeType_encode (if hmp_typ m = HT_HelloRetryRequest then HT_ServerHello else hmp_typ m)),
       res_bind (HandshakePayload_encode (hmp_payload m)) (\<lambda>sub. Inr (u24_encode (word_of_nat (length sub)) @ sub))]"

text \<open>The arm of a server hello, where the type changes for a retry request.\<close>

definition read_server_hello :: "(HandshakeType \<times> HandshakePayload) parse" where
  "read_server_hello sub =
     p_bind (parse_of ProtocolVersion_read sub) (\<lambda>version sub.
     p_bind (Random_read sub) (\<lambda>random sub.
       if random = HELLO_RETRY_REQUEST_RANDOM then
         p_map (\<lambda>hrr. (HT_HelloRetryRequest, HP_HelloRetryRequest (hrr\<lparr>hrr_legacy_version := version\<rparr>))) (HelloRetryRequest_read sub)
       else
         p_map (\<lambda>shp. (HT_ServerHello, HP_ServerHello (shp\<lparr>sh_legacy_version := version, sh_random := random\<rparr>)))
           (ServerHelloPayload_read sub)))"

text \<open>An arm that expects nothing.\<close>

definition read_empty :: "string \<Rightarrow> 'a \<Rightarrow> 'a parse" where
  "read_empty name x sub = p_finish name sub x sub"

definition HandshakePayload_read ::
  "(bytes \<Rightarrow> string option) \<Rightarrow> ProtocolVersion \<Rightarrow> HandshakeType \<Rightarrow> (HandshakeType \<times> HandshakePayload) parse" where
  "HandshakePayload_read try_from_ascii vers t sub =
     (let with_type = p_map (\<lambda>payload. (t, payload)); tls13 = (vers = TLSv1_3)
      in if t = HT_HelloRequest \<and> rd_left sub = 0 then with_type (p_return HP_HelloRequest sub)
         else if t = HT_ClientHello then with_type (p_map HP_ClientHello (ClientHelloPayload_read try_from_ascii sub))
         else if t = HT_ServerHello then read_server_hello sub
         else if t = HT_Certificate \<and> tls13 then with_type (p_map HP_CertificateTLS13 (CertificatePayloadTLS13_read sub))
         else if t = HT_Certificate then with_type (p_map HP_Certificate (vec_read (Len_U24 0x10000) (parse_of Certificate_read) sub))
         else if t = HT_ServerKeyExchange then with_type (p_map HP_ServerKeyExchange (ServerKeyExchangePayload_read sub))
         else if t = HT_ServerHelloDone then with_type (read_empty ''ServerHelloDone'' HP_ServerHelloDone sub)
         else if t = HT_ClientKeyExchange then with_type (p_rest HP_ClientKeyExchange sub)
         else if t = HT_CertificateRequest \<and> tls13 then with_type (p_map HP_CertificateRequestTLS13 (CertificateRequestPayloadTLS13_read sub))
         else if t = HT_CertificateRequest then with_type (p_map HP_CertificateRequest (CertificateRequestPayload_read sub))
         else if t = HT_CertificateVerify then with_type (p_map HP_CertificateVerify (DigitallySignedStruct_read sub))
         else if t = HT_NewSessionTicket \<and> tls13 then with_type (p_map HP_NewSessionTicketTLS13 (NewSessionTicketPayloadTLS13_read sub))
         else if t = HT_NewSessionTicket then with_type (p_map HP_NewSessionTicket (NewSessionTicketPayload_read sub))
         else if t = HT_EncryptedExtensions then with_type (p_map HP_EncryptedExtensions (vec_read Len_U16 ServerExtension_read sub))
         else if t = HT_KeyUpdate then with_type (p_map HP_KeyUpdate (parse_of KeyUpdateRequest_read sub))
         else if t = HT_EndOfEarlyData then with_type (read_empty ''EndOfEarlyData'' HP_EndOfEarlyData sub)
         else if t = HT_Finished then with_type (p_rest HP_Finished sub)
         else if t = HT_CertificateStatus then with_type (p_map HP_CertificateStatus (CertificateStatus_read sub))
         else if t = HT_MessageHash then p_fail (UnexpectedMessage ''MessageHash'')
         else if t = HT_HelloRetryRequest then p_fail (UnexpectedMessage ''HelloRetryRequest'')
         else with_type (p_rest HP_Unknown sub))"

definition HandshakeMessagePayload_read_version ::
  "(bytes \<Rightarrow> string option) \<Rightarrow> ProtocolVersion \<Rightarrow> HandshakeMessagePayload parse" where
  "HandshakeMessagePayload_read_version try_from_ascii vers r =
     p_bind (parse_of HandshakeType_read r) (\<lambda>t r.
     p_bind (parse_of u24_read r) (\<lambda>len r.
     p_bind (parse_of (rd_sub (unat len)) r) (\<lambda>sub r.
     p_bind (HandshakePayload_read try_from_ascii vers t sub) (\<lambda>(t, payload) sub.
       p_finish ''HandshakeMessagePayload'' sub \<lparr>hmp_typ = t, hmp_payload = payload\<rparr> r))))"

definition HandshakeMessagePayload_read :: "(bytes \<Rightarrow> string option) \<Rightarrow> HandshakeMessagePayload parse" where
  "HandshakeMessagePayload_read try_from_ascii = HandshakeMessagePayload_read_version try_from_ascii TLSv1_2"

definition HandshakeMessagePayload_build_key_update_notify :: HandshakeMessagePayload where
  "HandshakeMessagePayload_build_key_update_notify = \<lparr>hmp_typ = HT_KeyUpdate, hmp_payload = HP_KeyUpdate KUR_UpdateNotRequested\<rparr>"

definition get_encoding_for_binder_signing :: "HandshakeMessagePayload \<Rightarrow> bytes res" where
  "get_encoding_for_binder_signing m =
     res_bind (HandshakeMessagePayload_encode m) (\<lambda>ret.
     res_bind
       (case hmp_payload m of
          HP_ClientHello ch \<Rightarrow>
            (if ch_extensions ch = [] then Inr 0
             else case last (ch_extensions ch) of
                 CE_PresharedKey offer \<Rightarrow>
                   res_bind (vec_encode Len_U16 (\<lambda>b. Inr (PayloadU8_encode b)) (pko_binders offer)) (\<lambda>binders_encoding. Inr (length binders_encoding))
               | _ \<Rightarrow> Inr 0)
        | _ \<Rightarrow> Inr 0)
       (\<lambda>binder_len. if binder_len \<le> length ret then Inr (take (length ret - binder_len) ret) else Inl ArithOverflow))"

definition build_handshake_hash :: "bytes \<Rightarrow> HandshakeMessagePayload" where
  "build_handshake_hash hash = \<lparr>hmp_typ = HT_MessageHash, hmp_payload = HP_MessageHash hash\<rparr>"

text \<open>The one message that is not encoded as it was: a server hello with an empty list of extensions.\<close>

fun lists_extensions :: "HandshakePayload \<Rightarrow> bool" where
  "lists_extensions (HP_ServerHello sh) \<longleftrightarrow> sh_extensions sh \<noteq> []"
| "lists_extensions _ \<longleftrightarrow> True"

lemma read_empty_returns [simp]: "returns (read_empty name x sub)"
  by (simp add: read_empty_def)

lemma read_empty_InrE:
  assumes "read_empty name x sub = Some (Inr (y, sub'))"
  obtains "y = x" "reads (Inr []) sub sub'"
  using assms by (auto simp: read_empty_def)

lemma read_server_hello_returns [simp]: "returns (read_server_hello sub)"
  unfolding read_server_hello_def by (auto intro!: returns_bind simp: random.parse_returns)

lemma handshake_payload_returns [simp]: "returns (HandshakePayload_read f vers t sub)"
  unfolding HandshakePayload_read_def Let_def
  by (auto simp: server_extension.vec_read_returns certificate_payload_tls13.parse_returns certificate_request_payload.parse_returns
    certificate_request_payload_tls13.parse_returns digitally_signed_struct.parse_returns new_session_ticket_payload.parse_returns
    new_session_ticket_payload_tls13.parse_returns certificate_status.parse_returns ServerKeyExchangePayload_read_def)

lemma read_server_hello_exact:
  assumes "read_server_hello sub = Some (Inr ((t, payload), sub'))" and "lists_extensions payload"
  shows "reads (HandshakePayload_encode payload) sub sub' \<and> t \<in> {HT_ServerHello, HT_HelloRetryRequest}"
  using assms unfolding read_server_hello_def
  by (auto elim!: parse_elims dest!: protocol_version.reads_codec random.parse_exact1 split: if_split_asm)
    (erule hello_retry_request_exact server_hello_exact, assumption+)+

lemmas payload_exact =
  server_extension.parse_exact1 certificate_payload_tls13.parse_exact1 certificate_request_payload.parse_exact1
  certificate_request_payload_tls13.parse_exact1 digitally_signed_struct.parse_exact1 new_session_ticket_payload.parse_exact1
  new_session_ticket_payload_tls13.parse_exact1 certificate_status.parse_exact1

lemma handshake_payload_exact:
  assumes "HandshakePayload_read f vers t sub = Some (Inr ((t', payload), sub'))" and "lists_extensions payload"
  shows "reads (HandshakePayload_encode payload) sub sub' \<and> (if t' = HT_HelloRetryRequest then HT_ServerHello else t') = t"
proof (cases "t = HT_ServerHello")
  case True
  with assms show ?thesis using read_server_hello_exact [of sub t' payload sub']
    by (auto simp: HandshakePayload_read_def)
next
  case False
  with assms show ?thesis unfolding HandshakePayload_read_def Let_def ServerKeyExchangePayload_read_def
    by (auto simp: ServerKeyExchangePayload_encode_def elim!: parse_elims read_empty_InrE dest!: payload_exact parse_rules split: if_split_asm)
qed

lemma handshake_message_returns [simp]: "returns (HandshakeMessagePayload_read_version f vers r)"
  unfolding HandshakeMessagePayload_read_version_def by (intro returns_bind) (auto split: prod.split)

text \<open>The bytes of a message start with the type and a length that fits into what follows.\<close>

lemma handshake_message_exact:
  assumes "HandshakeMessagePayload_read_version f vers (Reader_init bs) = Some (Inr (m, r'))" and "length bs \<le> HEADER_SIZE + 0xffff"
  shows "\<exists>n \<le> length bs. payload_size bs = Inr (Some n)
    \<and> (lists_extensions (hmp_payload m) \<longrightarrow> HandshakeMessagePayload_encode m = Inr (take n bs))"
proof -
  from assms(1) obtain t r1 len r2 sub t' payload sub' where p: "HandshakeType_read (Reader_init bs) = Inr (t, r1)" "u24_read r1 = Inr (len, r2)"
      "rd_sub (unat len) r2 = Inr (sub, r')" "HandshakePayload_read f vers t sub = Some (Inr ((t', payload), sub'))"
      "\<not> rd_any_left sub'" "m = \<lparr>hmp_typ = t', hmp_payload = payload\<rparr>"
    unfolding HandshakeMessagePayload_read_version_def by (auto elim!: p_bind_InrE)
  let ?h = "HandshakeType_encode t @ u24_encode len"
  have h: "length (HandshakeType_encode t) = 1" "length (u24_encode len) = 3"
    by (simp_all add: HandshakeType_encode_def enum8_encode_def u8_encode_def u24_encode_def be_bytes_numeral)
  from u24.read_sound [OF p(2)] handshake_type.read_sound [OF p(1)] obtain rest where
    b: "bs = ?h @ rest" "r2 = advance 4 (Reader_init bs)" "len < 2 ^ 24" using h by (auto simp: prefix_def)
  have rest: "length rest \<le> 0xffff" "unat len \<le> length rest" "small r2"
    using assms(2) p(3) b h by (auto simp: HEADER_SIZE_def rd_sub_remaining small_def split: if_split_asm)
  have "u24_read (Reader_init (u24_encode len)) = Inr (len, advance 3 (Reader_init (u24_encode len)))"
    using u24.read_encode [OF b(3), of "Reader_init (u24_encode len)" "[]"] h by simp
  then have "payload_size bs = Inr (Some (4 + unat len))"
    using b(1) h rest by (simp add: payload_size_def HEADER_SIZE_def MAX_HANDSHAKE_SIZE_def word_less_nat_alt)
  moreover have "HandshakeMessagePayload_encode m = Inr (take (4 + unat len) bs)" if "lists_extensions payload"
  proof -
    from handshake_payload_exact [OF p(4) that] have e: "reads (HandshakePayload_encode payload) sub sub'"
        "(if t' = HT_HelloRetryRequest then HT_ServerHello else t') = t" by simp_all
    from reads_part [OF p(3) e(1) p(5)] rest(3) have "HandshakePayload_encode payload = Inr (take (unat len) rest)"
      using b h by (auto simp: prefix_def)
    then show ?thesis using b(1) h e(2) rest(2) p(6)
      by (auto simp: HandshakeMessagePayload_encode_def res_append_def res_simps)
  qed
  ultimately show ?thesis using b(1) h rest(2) p(6) by auto
qed

section \<open>Alerts and changes of the cipher spec\<close>

record AlertMessagePayload =
  alert_level :: AlertLevel
  alert_description :: AlertDescription

definition AlertMessagePayload_encode :: "AlertMessagePayload \<Rightarrow> bytes" where
  "AlertMessagePayload_encode a = AlertLevel_encode (alert_level a) @ AlertDescription_encode (alert_description a)"

definition AlertMessagePayload_read :: "AlertMessagePayload codec_read" where
  "AlertMessagePayload_read r =
     rd_bind (AlertLevel_read r) (\<lambda>level r.
     rd_bind (AlertDescription_read r) (\<lambda>description r.
       case rd_expect_empty ''AlertMessagePayload'' r of
         Inl e \<Rightarrow> Inl e
       | Inr _ \<Rightarrow> Inr (\<lparr>alert_level = level, alert_description = description\<rparr>, r)))"

definition ChangeCipherSpecPayload_encode :: bytes where
  "ChangeCipherSpecPayload_encode = u8_encode 1"

definition ChangeCipherSpecPayload_read :: "unit codec_read" where
  "ChangeCipherSpecPayload_read r =
     rd_bind (u8_read r) (\<lambda>t r.
       if t \<noteq> 1 then Inl InvalidCcs
       else case rd_expect_empty ''ChangeCipherSpecPayload'' r of Inl e \<Rightarrow> Inl e | Inr _ \<Rightarrow> Inr ((), r))"

section \<open>Messages\<close>

datatype (plugins only: code) MessagePayload =
    MP_Alert AlertMessagePayload
  | MP_Handshake HandshakeMessagePayload bytes
  | MP_ChangeCipherSpec
  | MP_ApplicationData bytes

primrec MessagePayload_encode :: "MessagePayload \<Rightarrow> bytes" where
  "MessagePayload_encode (MP_Alert x) = AlertMessagePayload_encode x"
| "MessagePayload_encode (MP_Handshake parsed encoded) = encoded"
| "MessagePayload_encode MP_ChangeCipherSpec = ChangeCipherSpecPayload_encode"
| "MessagePayload_encode (MP_ApplicationData x) = x"

definition MessagePayload_handshake :: "HandshakeMessagePayload \<Rightarrow> MessagePayload res" where
  "MessagePayload_handshake parsed = res_bind (HandshakeMessagePayload_encode parsed) (\<lambda>encoded. Inr (MP_Handshake parsed encoded))"

definition MessagePayload_new ::
  "(bytes \<Rightarrow> string option) \<Rightarrow> ContentType \<Rightarrow> ProtocolVersion \<Rightarrow> bytes \<Rightarrow> (InvalidMessage + MessagePayload) option" where
  "MessagePayload_new try_from_ascii t vers payload =
     (let r = Reader_init payload; parsed = (\<lambda>f. map_option (map_sum id (\<lambda>(x, r). f x)))
      in case t of
           CT_ApplicationData \<Rightarrow> Some (Inr (MP_ApplicationData payload))
         | CT_Alert \<Rightarrow> parsed MP_Alert (parse_of AlertMessagePayload_read r)
         | CT_Handshake \<Rightarrow> map_option (map_sum id (\<lambda>(x, r). MP_Handshake x payload)) (HandshakeMessagePayload_read_version try_from_ascii vers r)
         | CT_ChangeCipherSpec \<Rightarrow> map_option (map_sum id (\<lambda>(x, r). MP_ChangeCipherSpec)) (parse_of ChangeCipherSpecPayload_read r)
         | _ \<Rightarrow> Some (Inl InvalidContentType))"

primrec content_type :: "MessagePayload \<Rightarrow> ContentType" where
  "content_type (MP_Alert _) = CT_Alert"
| "content_type (MP_Handshake _ _) = CT_Handshake"
| "content_type MP_ChangeCipherSpec = CT_ChangeCipherSpec"
| "content_type (MP_ApplicationData _) = CT_ApplicationData"

record Message =
  msg_version :: ProtocolVersion
  msg_payload :: MessagePayload

definition Message_try_from :: "(bytes \<Rightarrow> string option) \<Rightarrow> PlainMessage \<Rightarrow> (Error + Message) option" where
  "Message_try_from try_from_ascii plain =
     map_option (map_sum Error_InvalidMessage (\<lambda>payload. \<lparr>msg_version = pm_version plain, msg_payload = payload\<rparr>))
       (MessagePayload_new try_from_ascii (pm_typ plain) (pm_version plain) (pm_payload plain))"

definition PlainMessage_from :: "Message \<Rightarrow> PlainMessage" where
  "PlainMessage_from msg =
     \<lparr>pm_typ = content_type (msg_payload msg), pm_version = msg_version msg,
      pm_payload = (case msg_payload msg of MP_ApplicationData payload \<Rightarrow> payload | payload \<Rightarrow> MessagePayload_encode payload)\<rparr>"

definition is_handshake_type :: "HandshakeType \<Rightarrow> Message \<Rightarrow> bool" where
  "is_handshake_type hstyp msg = (case msg_payload msg of MP_Handshake parsed _ \<Rightarrow> hmp_typ parsed = hstyp | _ \<Rightarrow> False)"

definition build_alert :: "AlertLevel \<Rightarrow> AlertDescription \<Rightarrow> Message" where
  "build_alert level desc =
     \<lparr>msg_version = TLSv1_2, msg_payload = MP_Alert \<lparr>alert_level = level, alert_description = desc\<rparr>\<rparr>"

definition build_key_update_notify :: "Message res" where
  "build_key_update_notify =
     res_bind (MessagePayload_handshake HandshakeMessagePayload_build_key_update_notify) (\<lambda>payload.
       Inr \<lparr>msg_version = TLSv1_3, msg_payload = payload\<rparr>)"

section \<open>Expected messages\<close>

definition inappropriate_message :: "MessagePayload \<Rightarrow> ContentType list \<Rightarrow> Error" where
  "inappropriate_message payload content_types = InappropriateMessage content_types (content_type payload)"

definition inappropriate_handshake_message :: "MessagePayload \<Rightarrow> ContentType list \<Rightarrow> HandshakeType list \<Rightarrow> Error" where
  "inappropriate_handshake_message payload content_types handshake_types =
     (case payload of
        MP_Handshake parsed _ \<Rightarrow> InappropriateHandshakeMessage handshake_types (hmp_typ parsed)
      | payload \<Rightarrow> inappropriate_message payload content_types)"

text \<open>The macro \<open>require_handshake_msg\<close>, with the selector of the payload as an argument.\<close>

definition require_handshake_msg :: "Message \<Rightarrow> HandshakeType \<Rightarrow> (HandshakePayload \<Rightarrow> 'a option) \<Rightarrow> Error + 'a" where
  "require_handshake_msg m handshake_type payload_type =
     (case msg_payload m of
        MP_Handshake parsed _ \<Rightarrow>
          (case payload_type (hmp_payload parsed) of
             Some hm \<Rightarrow> Inr hm
           | None \<Rightarrow> Inl (inappropriate_handshake_message (msg_payload m) [CT_Handshake] [handshake_type]))
      | payload \<Rightarrow> Inl (inappropriate_handshake_message payload [CT_Handshake] [handshake_type]))"

fun as_ClientHello :: "HandshakePayload \<Rightarrow> ClientHelloPayload option" where
  "as_ClientHello (HP_ClientHello x) = Some x"
| "as_ClientHello _ = None"

fun as_ServerHello :: "HandshakePayload \<Rightarrow> ServerHelloPayload option" where
  "as_ServerHello (HP_ServerHello x) = Some x"
| "as_ServerHello _ = None"

fun as_EncryptedExtensions :: "HandshakePayload \<Rightarrow> ServerExtension list option" where
  "as_EncryptedExtensions (HP_EncryptedExtensions x) = Some x"
| "as_EncryptedExtensions _ = None"

section \<open>What was parsed is what was received\<close>

lemma alert_exact:
  assumes "AlertMessagePayload_read (Reader_init bs) = Inr (a, r)"
  shows "AlertMessagePayload_encode a = bs"
proof -
  from assms obtain r1 where p: "AlertLevel_read (Reader_init bs) = Inr (alert_level a, r1)"
      "AlertDescription_read r1 = Inr (alert_description a, r)" "\<not> rd_any_left r"
    by (auto simp: AlertMessagePayload_read_def rd_bind_def rd_expect_empty_def split: sum.split_asm if_split_asm)
  from alert_level.read_sound [OF p(1)] alert_description.read_sound [OF p(2)] p(3) show ?thesis
    by (auto simp: AlertMessagePayload_encode_def rd_any_left_remaining prefix_def)
qed

lemma ccs_exact:
  assumes "ChangeCipherSpecPayload_read (Reader_init bs) = Inr (x, r)"
  shows "ChangeCipherSpecPayload_encode = bs"
proof -
  from assms have p: "u8_read (Reader_init bs) = Inr (1, r)" "\<not> rd_any_left r"
    by (auto simp: ChangeCipherSpecPayload_read_def rd_bind_def rd_expect_empty_def split: sum.split_asm if_split_asm)
  from u8.read_sound [OF p(1)] p(2) show ?thesis
    by (auto simp: ChangeCipherSpecPayload_encode_def rd_any_left_remaining prefix_def)
qed

lemma returns_map_option [simp]: "returns (map_option g x) \<longleftrightarrow> returns x"
  by (simp add: returns_def)

lemma message_returns [simp]: "returns (Message_try_from f p)"
  by (auto simp: Message_try_from_def MessagePayload_new_def Let_def split: ContentType.split)

text \<open>
  C13. Every decrypted record is parsed or refused, and a message that was parsed turns back into the
  record it was parsed from: its type, its version and its payload.
\<close>

theorem message_round_trip:
  "\<exists>res. Message_try_from f p = Some res \<and> (\<forall>msg. res = Inr msg \<longrightarrow> PlainMessage_from msg = p)"
proof -
  have "PlainMessage_from msg = p" if "Message_try_from f p = Some (Inr msg)" for msg
    using that
    by (cases p; auto simp: Message_try_from_def MessagePayload_new_def PlainMessage_from_def Let_def map_sum_Inr
      split: ContentType.split_asm) (erule alert_exact ccs_exact)+
  then show ?thesis using message_returns [of f p] by (cases "Message_try_from f p") (auto simp: returns_def)
qed

text \<open>
  C12. A handshake record that is parsed (with at most what the deframer lets through) starts with the
  type and a length that fits, as the deframer has measured it, and the parsed message is encoded as
  exactly these bytes, for every kind of message and every extension, known or not.  The exception is
  a server hello that came with an empty list of extensions.
\<close>

theorem handshake_parse_exact:
  assumes "Message_try_from f p = Some (Inr msg)" and "pm_typ p = CT_Handshake" and "length (pm_payload p) \<le> HEADER_SIZE + 0xffff"
  shows "\<exists>parsed n. msg = \<lparr>msg_version = pm_version p, msg_payload = MP_Handshake parsed (pm_payload p)\<rparr>
    \<and> payload_size (pm_payload p) = Inr (Some n) \<and> n \<le> length (pm_payload p)
    \<and> (lists_extensions (hmp_payload parsed) \<longrightarrow> HandshakeMessagePayload_encode parsed = Inr (take n (pm_payload p)))"
proof -
  from assms(1,2) obtain parsed r where "msg = \<lparr>msg_version = pm_version p, msg_payload = MP_Handshake parsed (pm_payload p)\<rparr>"
      and p: "HandshakeMessagePayload_read_version f (pm_version p) (Reader_init (pm_payload p)) = Some (Inr (parsed, r))"
    by (auto simp: Message_try_from_def MessagePayload_new_def Let_def map_sum_Inr)
  with handshake_message_exact [OF p assms(3)] show ?thesis by blast
qed

theorem handshake_parse_exact_witness:
  "\<exists>msg. Message_try_from (\<lambda>_. None) \<lparr>pm_typ = CT_Handshake, pm_version = TLSv1_3, pm_payload = [20, 0, 0, 2, 7, 9]\<rparr> = Some (Inr msg)
    \<and> (\<exists>parsed n. msg = \<lparr>msg_version = TLSv1_3, msg_payload = MP_Handshake parsed [20, 0, 0, 2, 7, 9]\<rparr>
      \<and> payload_size [20, 0, 0, 2, 7, 9] = Inr (Some n) \<and> n \<le> length [20, 0, 0, 2, 7, 9 :: u8]
      \<and> (lists_extensions (hmp_payload parsed) \<longrightarrow> HandshakeMessagePayload_encode parsed = Inr (take n [20, 0, 0, 2, 7, 9])))"
proof -
  let ?p = "\<lparr>pm_typ = CT_Handshake, pm_version = TLSv1_3, pm_payload = [20, 0, 0, 2, 7, 9]\<rparr>"
  have "Message_try_from (\<lambda>_. None) ?p
    = Some (Inr \<lparr>msg_version = TLSv1_3, msg_payload = MP_Handshake \<lparr>hmp_typ = HT_Finished, hmp_payload = HP_Finished [7, 9]\<rparr> [20, 0, 0, 2, 7, 9]\<rparr>)"
    by code_simp
  then show ?thesis using handshake_parse_exact [of "\<lambda>_. None" ?p] by (simp add: HEADER_SIZE_def)
qed

theorem message_round_trip_witness:
  "\<exists>res. Message_try_from (\<lambda>_. None) \<lparr>pm_typ = CT_Alert, pm_version = TLSv1_2, pm_payload = [2, 40]\<rparr> = Some res
    \<and> (\<forall>msg. res = Inr msg \<longrightarrow> PlainMessage_from msg = \<lparr>pm_typ = CT_Alert, pm_version = TLSv1_2, pm_payload = [2, 40]\<rparr>)
    \<and> res = Inr (build_alert AL_Fatal AD_HandshakeFailure)"
proof -
  let ?p = "\<lparr>pm_typ = CT_Alert, pm_version = TLSv1_2, pm_payload = [2, 40]\<rparr>"
  have "Message_try_from (\<lambda>_. None) ?p = Some (Inr (build_alert AL_Fatal AD_HandshakeFailure))"
    by code_simp
  then show ?thesis using message_round_trip [of "\<lambda>_. None" ?p] by simp
qed

end
