(* ===== verification/Tls_Suites.thy ===== *)
theory Tls_Suites
  imports Tls_Enums
begin

text \<open>
  Cipher suites (\<open>suites.rs\<close>, the statics of \<open>tls12/mod.rs\<close> and \<open>tls13/mod.rs\<close>) and protocol versions
  (\<open>versions.rs\<close>).  The algorithms of ring are named by the statics that the suites refer to.

  The identifiers of the supported suites differ, so a suite is found by its identifier, and the two
  ways to choose a suite agree on whether there is one.
\<close>

section \<open>Signatures\<close>

datatype SignatureAlgorithm = SA_Anonymous | SA_RSA | SA_DSA | SA_ECDSA | SA_ED25519 | SA_ED448 | SA_Unknown u8

definition SignatureScheme_sign :: "SignatureScheme \<Rightarrow> SignatureAlgorithm" where
  "SignatureScheme_sign s =
     (if s \<in> {SS_RSA_PKCS1_SHA1, SS_RSA_PKCS1_SHA256, SS_RSA_PKCS1_SHA384, SS_RSA_PKCS1_SHA512,
              SS_RSA_PSS_SHA256, SS_RSA_PSS_SHA384, SS_RSA_PSS_SHA512} then SA_RSA
      else if s \<in> {SS_ECDSA_NISTP256_SHA256, SS_ECDSA_NISTP384_SHA384, SS_ECDSA_NISTP521_SHA512} then SA_ECDSA
      else SA_Unknown 0)"

section \<open>Suites\<close>

datatype BulkAlgorithm = Aes128Gcm | Aes256Gcm | Chacha20Poly1305

datatype aead_Algorithm = AES_128_GCM | AES_256_GCM | CHACHA20_POLY1305

datatype hash_Algorithm = SHA256 | SHA384

record CipherSuiteCommon =
  csc_suite :: CipherSuite
  csc_bulk :: BulkAlgorithm
  csc_aead_algorithm :: aead_Algorithm

record Tls13CipherSuite =
  common13 :: CipherSuiteCommon
  hkdf_algorithm :: hash_Algorithm

datatype Tls12AeadAlgorithm = Alg_AesGcm | Alg_ChaCha20Poly1305

record Tls12CipherSuite =
  common12 :: CipherSuiteCommon
  hmac_algorithm :: hash_Algorithm
  suite_kx :: KeyExchangeAlgorithm
  suite_sign :: "SignatureScheme list"
  fixed_iv_len :: nat
  explicit_nonce_len :: nat
  aead_alg :: Tls12AeadAlgorithm

datatype SupportedCipherSuite = Suite_Tls12 Tls12CipherSuite | Suite_Tls13 Tls13CipherSuite

definition suite13 :: "u16 \<Rightarrow> BulkAlgorithm \<Rightarrow> aead_Algorithm \<Rightarrow> hash_Algorithm \<Rightarrow> Tls13CipherSuite" where
  "suite13 code bulk alg hash = \<lparr>common13 = \<lparr>csc_suite = CipherSuite code, csc_bulk = bulk, csc_aead_algorithm = alg\<rparr>, hkdf_algorithm = hash\<rparr>"

definition TLS13_CHACHA20_POLY1305_SHA256 :: SupportedCipherSuite where
  "TLS13_CHACHA20_POLY1305_SHA256 = Suite_Tls13 (suite13 0x1303 Chacha20Poly1305 CHACHA20_POLY1305 SHA256)"

definition TLS13_AES_256_GCM_SHA384 :: SupportedCipherSuite where
  "TLS13_AES_256_GCM_SHA384 = Suite_Tls13 (suite13 0x1302 Aes256Gcm AES_256_GCM SHA384)"

definition TLS13_AES_128_GCM_SHA256 :: SupportedCipherSuite where
  "TLS13_AES_128_GCM_SHA256 = Suite_Tls13 (suite13 0x1301 Aes128Gcm AES_128_GCM SHA256)"

definition TLS12_ECDSA_SCHEMES :: "SignatureScheme list" where
  "TLS12_ECDSA_SCHEMES = [SS_ED25519, SS_ECDSA_NISTP521_SHA512, SS_ECDSA_NISTP384_SHA384, SS_ECDSA_NISTP256_SHA256]"

definition TLS12_RSA_SCHEMES :: "SignatureScheme list" where
  "TLS12_RSA_SCHEMES = [SS_RSA_PSS_SHA512, SS_RSA_PSS_SHA384, SS_RSA_PSS_SHA256, SS_RSA_PKCS1_SHA512, SS_RSA_PKCS1_SHA384, SS_RSA_PKCS1_SHA256]"

definition TLS_ECDHE_ECDSA_WITH_CHACHA20_POLY1305_SHA256 :: SupportedCipherSuite where
  "TLS_ECDHE_ECDSA_WITH_CHACHA20_POLY1305_SHA256 = Suite_Tls12
     \<lparr>common12 = \<lparr>csc_suite = CipherSuite 0xcca9, csc_bulk = Chacha20Poly1305, csc_aead_algorithm = CHACHA20_POLY1305\<rparr>,
      hmac_algorithm = SHA256, suite_kx = KX_ECDHE, suite_sign = TLS12_ECDSA_SCHEMES, fixed_iv_len = 12, explicit_nonce_len = 0,
      aead_alg = Alg_ChaCha20Poly1305\<rparr>"

definition TLS_ECDHE_RSA_WITH_CHACHA20_POLY1305_SHA256 :: SupportedCipherSuite where
  "TLS_ECDHE_RSA_WITH_CHACHA20_POLY1305_SHA256 = Suite_Tls12
     \<lparr>common12 = \<lparr>csc_suite = CipherSuite 0xcca8, csc_bulk = Chacha20Poly1305, csc_aead_algorithm = CHACHA20_POLY1305\<rparr>,
      hmac_algorithm = SHA256, suite_kx = KX_ECDHE, suite_sign = TLS12_RSA_SCHEMES, fixed_iv_len = 12, explicit_nonce_len = 0,
      aead_alg = Alg_ChaCha20Poly1305\<rparr>"

definition TLS_ECDHE_RSA_WITH_AES_128_GCM_SHA256 :: SupportedCipherSuite where
  "TLS_ECDHE_RSA_WITH_AES_128_GCM_SHA256 = Suite_Tls12
     \<lparr>common12 = \<lparr>csc_suite = CipherSuite 0xc02f, csc_bulk = Aes128Gcm, csc_aead_algorithm = AES_128_GCM\<rparr>,
      hmac_algorithm = SHA256, suite_kx = KX_ECDHE, suite_sign = TLS12_RSA_SCHEMES, fixed_iv_len = 4, explicit_nonce_len = 8,
      aead_alg = Alg_AesGcm\<rparr>"

definition TLS_ECDHE_RSA_WITH_AES_256_GCM_SHA384 :: SupportedCipherSuite where
  "TLS_ECDHE_RSA_WITH_AES_256_GCM_SHA384 = Suite_Tls12
     \<lparr>common12 = \<lparr>csc_suite = CipherSuite 0xc030, csc_bulk = Aes256Gcm, csc_aead_algorithm = AES_256_GCM\<rparr>,
      hmac_algorithm = SHA384, suite_kx = KX_ECDHE, suite_sign = TLS12_RSA_SCHEMES, fixed_iv_len = 4, explicit_nonce_len = 8,
      aead_alg = Alg_AesGcm\<rparr>"

definition TLS_ECDHE_ECDSA_WITH_AES_128_GCM_SHA256 :: SupportedCipherSuite where
  "TLS_ECDHE_ECDSA_WITH_AES_128_GCM_SHA256 = Suite_Tls12
     \<lparr>common12 = \<lparr>csc_suite = CipherSuite 0xc02b, csc_bulk = Aes128Gcm, csc_aead_algorithm = AES_128_GCM\<rparr>,
      hmac_algorithm = SHA256, suite_kx = KX_ECDHE, suite_sign = TLS12_ECDSA_SCHEMES, fixed_iv_len = 4, explicit_nonce_len = 8,
      aead_alg = Alg_AesGcm\<rparr>"

definition TLS_ECDHE_ECDSA_WITH_AES_256_GCM_SHA384 :: SupportedCipherSuite where
  "TLS_ECDHE_ECDSA_WITH_AES_256_GCM_SHA384 = Suite_Tls12
     \<lparr>common12 = \<lparr>csc_suite = CipherSuite 0xc02c, csc_bulk = Aes256Gcm, csc_aead_algorithm = AES_256_GCM\<rparr>,
      hmac_algorithm = SHA384, suite_kx = KX_ECDHE, suite_sign = TLS12_ECDSA_SCHEMES, fixed_iv_len = 4, explicit_nonce_len = 8,
      aead_alg = Alg_AesGcm\<rparr>"

definition resolve_sig_schemes :: "Tls12CipherSuite \<Rightarrow> SignatureScheme list \<Rightarrow> SignatureScheme list" where
  "resolve_sig_schemes suite offered = filter (\<lambda>pref. pref \<in> set offered) (suite_sign suite)"

definition can_resume_from :: "Tls13CipherSuite \<Rightarrow> Tls13CipherSuite \<Rightarrow> Tls13CipherSuite option" where
  "can_resume_from self prev = (if hkdf_algorithm prev = hkdf_algorithm self then Some prev else None)"

section \<open>Choosing a suite\<close>

primrec suite_common :: "SupportedCipherSuite \<Rightarrow> CipherSuiteCommon" where
  "suite_common (Suite_Tls12 inner) = common12 inner"
| "suite_common (Suite_Tls13 inner) = common13 inner"

definition suite_id :: "SupportedCipherSuite \<Rightarrow> CipherSuite" where
  "suite_id s = csc_suite (suite_common s)"

primrec suite_hash_algorithm :: "SupportedCipherSuite \<Rightarrow> hash_Algorithm" where
  "suite_hash_algorithm (Suite_Tls12 inner) = hmac_algorithm inner"
| "suite_hash_algorithm (Suite_Tls13 inner) = hkdf_algorithm inner"

primrec suite_version :: "SupportedCipherSuite \<Rightarrow> ProtocolVersion" where
  "suite_version (Suite_Tls12 _) = TLSv1_2"
| "suite_version (Suite_Tls13 _) = TLSv1_3"

primrec usable_for_signature_algorithm :: "SupportedCipherSuite \<Rightarrow> SignatureAlgorithm \<Rightarrow> bool" where
  "usable_for_signature_algorithm (Suite_Tls13 _) sig_alg \<longleftrightarrow> True"
| "usable_for_signature_algorithm (Suite_Tls12 inner) sig_alg \<longleftrightarrow> list_ex (\<lambda>scheme. SignatureScheme_sign scheme = sig_alg) (suite_sign inner)"

definition ALL_CIPHER_SUITES :: "SupportedCipherSuite list" where
  "ALL_CIPHER_SUITES =
     [TLS13_AES_256_GCM_SHA384, TLS13_AES_128_GCM_SHA256, TLS13_CHACHA20_POLY1305_SHA256,
      TLS_ECDHE_ECDSA_WITH_AES_256_GCM_SHA384, TLS_ECDHE_ECDSA_WITH_AES_128_GCM_SHA256, TLS_ECDHE_ECDSA_WITH_CHACHA20_POLY1305_SHA256,
      TLS_ECDHE_RSA_WITH_AES_256_GCM_SHA384, TLS_ECDHE_RSA_WITH_AES_128_GCM_SHA256, TLS_ECDHE_RSA_WITH_CHACHA20_POLY1305_SHA256]"

fun choose_ciphersuite_preferring_client :: "CipherSuite list \<Rightarrow> SupportedCipherSuite list \<Rightarrow> SupportedCipherSuite option" where
  "choose_ciphersuite_preferring_client [] server_suites = None"
| "choose_ciphersuite_preferring_client (client_suite # client_suites) server_suites =
     (case find (\<lambda>x. client_suite = suite_id x) server_suites of
        Some selected \<Rightarrow> Some selected
      | None \<Rightarrow> choose_ciphersuite_preferring_client client_suites server_suites)"

definition choose_ciphersuite_preferring_server :: "CipherSuite list \<Rightarrow> SupportedCipherSuite list \<Rightarrow> SupportedCipherSuite option" where
  "choose_ciphersuite_preferring_server client_suites server_suites = find (\<lambda>x. suite_id x \<in> set client_suites) server_suites"

definition reduce_given_sigalg :: "SupportedCipherSuite list \<Rightarrow> SignatureAlgorithm \<Rightarrow> SupportedCipherSuite list" where
  "reduce_given_sigalg suites sigalg = filter (\<lambda>suite. usable_for_signature_algorithm suite sigalg) suites"

definition reduce_given_version :: "SupportedCipherSuite list \<Rightarrow> ProtocolVersion \<Rightarrow> SupportedCipherSuite list" where
  "reduce_given_version suites version = filter (\<lambda>suite. suite_version suite = version) suites"

definition compatible_sigscheme_for_suites :: "SignatureScheme \<Rightarrow> SupportedCipherSuite list \<Rightarrow> bool" where
  "compatible_sigscheme_for_suites sigscheme common_suites \<longleftrightarrow>
     (let sigalg = SignatureScheme_sign sigscheme in list_ex (\<lambda>suite. usable_for_signature_algorithm suite sigalg) common_suites)"

section \<open>Enabled versions\<close>

record EnabledVersions =
  enabled_tls12 :: bool
  enabled_tls13 :: bool

definition EnabledVersions_new :: "ProtocolVersion list \<Rightarrow> EnabledVersions" where
  "EnabledVersions_new versions =
     fold (\<lambda>v ev. if v = TLSv1_2 then ev\<lparr>enabled_tls12 := True\<rparr> else if v = TLSv1_3 then ev\<lparr>enabled_tls13 := True\<rparr> else ev)
       versions \<lparr>enabled_tls12 = False, enabled_tls13 = False\<rparr>"

definition EnabledVersions_contains :: "EnabledVersions \<Rightarrow> ProtocolVersion \<Rightarrow> bool" where
  "EnabledVersions_contains ev version =
     (if version = TLSv1_2 then enabled_tls12 ev else if version = TLSv1_3 then enabled_tls13 ev else False)"

lemma enabled_versions_contains:
  "EnabledVersions_contains (EnabledVersions_new versions) v \<longleftrightarrow> v \<in> set versions \<and> v \<in> {TLSv1_2, TLSv1_3}"
proof -
  have "fold (\<lambda>v ev. if v = TLSv1_2 then ev\<lparr>enabled_tls12 := True\<rparr> else if v = TLSv1_3 then ev\<lparr>enabled_tls13 := True\<rparr> else ev) versions ev
      = \<lparr>enabled_tls12 = enabled_tls12 ev \<or> TLSv1_2 \<in> set versions, enabled_tls13 = enabled_tls13 ev \<or> TLSv1_3 \<in> set versions\<rparr>" for ev
    by (induction versions arbitrary: ev) auto
  then show ?thesis by (auto simp: EnabledVersions_new_def EnabledVersions_contains_def)
qed

section \<open>The suite that is chosen\<close>

lemmas suite_defs = ALL_CIPHER_SUITES_def TLS13_AES_256_GCM_SHA384_def TLS13_AES_128_GCM_SHA256_def TLS13_CHACHA20_POLY1305_SHA256_def
  TLS_ECDHE_ECDSA_WITH_AES_256_GCM_SHA384_def TLS_ECDHE_ECDSA_WITH_AES_128_GCM_SHA256_def TLS_ECDHE_ECDSA_WITH_CHACHA20_POLY1305_SHA256_def
  TLS_ECDHE_RSA_WITH_AES_256_GCM_SHA384_def TLS_ECDHE_RSA_WITH_AES_128_GCM_SHA256_def TLS_ECDHE_RSA_WITH_CHACHA20_POLY1305_SHA256_def
  suite13_def suite_id_def

lemma suite_ids_distinct: "distinct (map suite_id ALL_CIPHER_SUITES)"
  by (simp add: suite_defs)

lemma find_distinct: "distinct (map f xs) \<Longrightarrow> x \<in> set xs \<Longrightarrow> find (\<lambda>y. f y = f x) xs = Some x"
  by (induction xs) (auto simp: rev_image_eqI)

lemma find_suite_id:
  "s \<in> set ALL_CIPHER_SUITES \<Longrightarrow> find (\<lambda>x. suite_id x = suite_id s) ALL_CIPHER_SUITES = Some s"
  using suite_ids_distinct by (rule find_distinct)

text \<open>
  Preferring the client gives the first suite of the client that the server has; preferring the
  server gives the first suite of the server that the client has.
\<close>

lemma choose_preferring_client:
  "choose_ciphersuite_preferring_client cs ss = Some s \<Longrightarrow>
     \<exists>before after. cs = before @ suite_id s # after \<and> s \<in> set ss \<and> set before \<inter> suite_id ` set ss = {}"
proof (induction cs)
  case (Cons c cs)
  show ?case
  proof (cases "find (\<lambda>x. c = suite_id x) ss")
    case None
    with Cons obtain before after where "cs = before @ suite_id s # after" "s \<in> set ss" "set before \<inter> suite_id ` set ss = {}" by auto
    moreover have "c \<notin> suite_id ` set ss" using None by (auto simp: find_None_iff)
    ultimately show ?thesis by (intro exI [of _ "c # before"] exI [of _ after]) auto
  next
    case (Some x)
    with Cons.prems have "x = s" by simp
    with Some show ?thesis by (intro exI [of _ "[]"] exI [of _ cs]) (auto simp: find_Some_iff)
  qed
qed simp

lemma choose_preferring_server:
  assumes "choose_ciphersuite_preferring_server cs ss = Some s"
  shows "\<exists>before after. ss = before @ s # after \<and> suite_id s \<in> set cs \<and> suite_id ` set before \<inter> set cs = {}"
proof -
  from assms obtain i where i: "i < length ss" "suite_id (ss ! i) \<in> set cs" "s = ss ! i" "\<forall>j < i. suite_id (ss ! j) \<notin> set cs"
    by (auto simp: choose_ciphersuite_preferring_server_def find_Some_iff)
  then have "suite_id ` set (take i ss) \<inter> set cs = {}" by (auto simp: in_set_conv_nth)
  with i id_take_nth_drop [of i ss] show ?thesis by blast
qed

lemma choose_agree:
  "choose_ciphersuite_preferring_client cs ss = None \<longleftrightarrow> choose_ciphersuite_preferring_server cs ss = None"
proof (induction cs)
  case (Cons c cs)
  show ?case
  proof (cases "find (\<lambda>x. c = suite_id x) ss")
    case None
    then have "\<forall>x \<in> set ss. suite_id x \<noteq> c" by (auto simp: find_None_iff)
    moreover have "choose_ciphersuite_preferring_client (c # cs) ss = choose_ciphersuite_preferring_client cs ss" using None by simp
    ultimately show ?thesis using Cons by (auto simp: choose_ciphersuite_preferring_server_def find_None_iff simp del: choose_ciphersuite_preferring_client.simps)
  next
    case (Some x)
    then have "x \<in> set ss" "suite_id x = c" by (auto simp: find_Some_iff)
    with Some show ?thesis by (auto simp: choose_ciphersuite_preferring_server_def find_None_iff)
  qed
qed (simp add: choose_ciphersuite_preferring_server_def find_None_iff)

end
