(* ===== verification/Chunk_Buffer.thy ===== *)
theory Chunk_Buffer
  imports Clipper_Prelude Byte_Text
begin

text \<open>
  The byte buffers of a connection (\<open>vecbuf.rs\<close>): a queue of chunks with an optional limit.

  The locale \<open>byte_queue\<close> is what the connection relies on: bytes are taken in the order in which they
  were appended, however they are cut.  The chunked buffer keeps that promise, holds no empty chunk,
  and does not grow past its limit through the operations that respect it.
\<close>

record ChunkVecBuffer =
  cvb_chunks :: "bytes list"
  cvb_limit :: "nat option"

definition ChunkVecBuffer_new :: "nat option \<Rightarrow> ChunkVecBuffer" where
  "ChunkVecBuffer_new limit = \<lparr>cvb_chunks = [], cvb_limit = limit\<rparr>"

definition cvb_set_limit :: "nat option \<Rightarrow> ChunkVecBuffer \<Rightarrow> ChunkVecBuffer" where
  "cvb_set_limit new_limit b = b\<lparr>cvb_limit := new_limit\<rparr>"

definition cvb_is_empty :: "ChunkVecBuffer \<Rightarrow> bool" where
  "cvb_is_empty b \<longleftrightarrow> cvb_chunks b = []"

definition cvb_len :: "ChunkVecBuffer \<Rightarrow> nat" where
  "cvb_len b = foldl (\<lambda>len ch. len + length ch) 0 (cvb_chunks b)"

definition cvb_is_full :: "ChunkVecBuffer \<Rightarrow> bool" where
  "cvb_is_full b = (case cvb_limit b of Some limit \<Rightarrow> cvb_len b > limit | None \<Rightarrow> False)"

definition cvb_apply_limit :: "nat \<Rightarrow> ChunkVecBuffer \<Rightarrow> nat" where
  "cvb_apply_limit len b =
     (case cvb_limit b of
        Some limit \<Rightarrow> (let space = limit - cvb_len b in min len space)
      | None \<Rightarrow> len)"

definition cvb_append :: "bytes \<Rightarrow> ChunkVecBuffer \<Rightarrow> ChunkVecBuffer \<times> nat" where
  "cvb_append bs b = (if bs \<noteq> [] then b\<lparr>cvb_chunks := cvb_chunks b @ [bs]\<rparr> else b, length bs)"

definition cvb_append_limited_copy :: "bytes \<Rightarrow> ChunkVecBuffer \<Rightarrow> ChunkVecBuffer \<times> nat" where
  "cvb_append_limited_copy bs b =
     (let n = cvb_apply_limit (length bs) b; (b, _) = cvb_append (take n bs) b in (b, n))"

definition cvb_pop :: "ChunkVecBuffer \<Rightarrow> ChunkVecBuffer \<times> bytes option" where
  "cvb_pop b = (case cvb_chunks b of [] \<Rightarrow> (b, None) | ch # chs \<Rightarrow> (b\<lparr>cvb_chunks := chs\<rparr>, Some ch))"

fun consume :: "nat \<Rightarrow> bytes list \<Rightarrow> bytes list" where
  "consume used [] = []"
| "consume used (buf # chs) =
     (if used < length buf then drop used buf # chs else consume (used - length buf) chs)"

definition cvb_consume :: "nat \<Rightarrow> ChunkVecBuffer \<Rightarrow> ChunkVecBuffer" where
  "cvb_consume used b = b\<lparr>cvb_chunks := consume used (cvb_chunks b)\<rparr>"

lemma concat_consume: "concat (consume used chs) = drop used (concat chs)"
  by (induction used chs rule: consume.induct) auto

lemma length_consume: "length (consume used chs) \<le> length chs"
  by (induction used chs rule: consume.induct) auto

text \<open>The loop of \<open>read\<close> into a buffer with \<open>space\<close> bytes left; the bytes are what it has written.\<close>

function read_loop :: "nat \<Rightarrow> bytes list \<Rightarrow> bytes \<times> bytes list" where
  "read_loop space chs =
     (if 0 < space \<and> chs \<noteq> [] then
        (let used = min (length (hd chs)) space;
             (bs, chs') = read_loop (space - used) (consume used chs)
         in (take used (hd chs) @ bs, chs'))
      else ([], chs))"
  by pat_completeness auto
termination
proof (relation "measures [\<lambda>(space, chs). space, \<lambda>(space, chs). length chs]")
  fix space used :: nat and chs :: "bytes list"
  assume "0 < space \<and> chs \<noteq> []" and "used = min (length (hd chs)) space"
  then show "((space - used, consume used chs), (space, chs)) \<in> measures [\<lambda>(space, chs). space, \<lambda>(space, chs). length chs]"
    using length_consume [of 0 "tl chs"] by (cases chs; cases "hd chs") auto
qed simp

declare read_loop.simps [simp del]

definition cvb_read :: "nat \<Rightarrow> ChunkVecBuffer \<Rightarrow> bytes \<times> ChunkVecBuffer" where
  "cvb_read space b = (let (bs, chs) = read_loop space (cvb_chunks b) in (bs, b\<lparr>cvb_chunks := chs\<rparr>))"

text \<open>\<open>write_to\<close> hands at most 64 chunks to the writer, which says how many bytes it took.\<close>

definition cvb_write_to :: "(bytes list \<Rightarrow> 'e + nat) \<Rightarrow> ChunkVecBuffer \<Rightarrow> ChunkVecBuffer \<times> ('e + nat)" where
  "cvb_write_to write b =
     (if cvb_is_empty b then (b, Inr 0)
      else case write (take 64 (cvb_chunks b)) of
          Inl e \<Rightarrow> (b, Inl e)
        | Inr used \<Rightarrow> (cvb_consume used b, Inr used))"

section \<open>A queue of bytes\<close>

definition contents :: "ChunkVecBuffer \<Rightarrow> bytes" where
  "contents b = concat (cvb_chunks b)"

definition chunks_ok :: "ChunkVecBuffer \<Rightarrow> bool" where
  "chunks_ok b \<longleftrightarrow> [] \<notin> set (cvb_chunks b)"

locale byte_queue =
  fixes bytes_of :: "'b \<Rightarrow> bytes"
    and put :: "bytes \<Rightarrow> 'b \<Rightarrow> 'b"
    and get :: "nat \<Rightarrow> 'b \<Rightarrow> bytes \<times> 'b"
  assumes put_bytes: "bytes_of (put bs b) = bytes_of b @ bs"
    and get_bytes: "get n b = (bs, b') \<Longrightarrow> bs = take n (bytes_of b) \<and> bytes_of b' = drop n (bytes_of b)"
begin

fun gets :: "nat list \<Rightarrow> 'b \<Rightarrow> bytes \<times> 'b" where
  "gets [] b = ([], b)"
| "gets (n # ns) b = (let (bs, b) = get n b; (bs', b) = gets ns b in (bs @ bs', b))"

lemma gets_bytes: "gets ns b = (bs, b') \<Longrightarrow> bs = take (sum_list ns) (bytes_of b) \<and> bytes_of b' = drop (sum_list ns) (bytes_of b)"
proof (induction ns arbitrary: b bs)
  case (Cons n ns)
  obtain bs1 b1 where g: "get n b = (bs1, b1)" by (cases "get n b")
  with Cons.prems obtain bs2 where r: "gets ns b1 = (bs2, b')" "bs = bs1 @ bs2" by (auto split: prod.split_asm)
  with Cons.IH [OF r(1)] get_bytes [OF g] show ?case by (simp add: take_add add.commute)
qed simp

lemma puts_bytes: "bytes_of (fold put bss b) = bytes_of b @ concat bss"
  by (induction bss arbitrary: b) (simp_all add: put_bytes)

lemma put_then_get:
  assumes "bytes_of b = []" and "gets ns (fold put bss b) = (bs, b')" and "length (concat bss) \<le> sum_list ns"
  shows "bs = concat bss \<and> bytes_of b' = []"
  using gets_bytes [OF assms(2)] assms(1,3) by (simp add: puts_bytes)

end

lemma read_loop_bytes:
  "read_loop space chs = (bs, chs') \<Longrightarrow> bs = take space (concat chs) \<and> concat chs' = drop space (concat chs)"
proof (induction space chs arbitrary: bs chs' rule: read_loop.induct)
  case (1 space chs)
  show ?case
  proof (cases "0 < space \<and> chs \<noteq> []")
    case True
    then obtain ch rest where chs: "chs = ch # rest" by (cases chs) auto
    let ?used = "min (length ch) space"
    obtain bs1 chs1 where r: "read_loop (space - ?used) (consume ?used chs) = (bs1, chs1)"
      by (cases "read_loop (space - ?used) (consume ?used chs)")
    with 1(2) True chs have b: "bs = take ?used ch @ bs1" "chs' = chs1" by (auto simp: read_loop.simps [of space "ch # rest"] Let_def simp del: consume.simps)
    have "bs1 = take (space - ?used) (drop ?used (concat chs)) \<and> concat chs1 = drop (space - ?used) (drop ?used (concat chs))"
      using 1(1) [OF True refl] chs r by (simp add: concat_consume)
    moreover have "take ?used ch = take ?used (concat chs)" using chs by simp
    ultimately show ?thesis using b by (simp flip: take_add)
  next
    case False
    with 1(2) show ?thesis by (auto simp: read_loop.simps [of space chs])
  qed
qed

interpretation chunk_queue: byte_queue contents "\<lambda>bs b. fst (cvb_append bs b)" cvb_read
proof
  show "contents (fst (cvb_append bs b)) = contents b @ bs" for bs b
    by (simp add: contents_def cvb_append_def)
  show "bs = take n (contents b) \<and> contents b' = drop n (contents b)" if "cvb_read n b = (bs, b')" for n b bs b'
    using that read_loop_bytes by (auto simp: cvb_read_def contents_def split: prod.split_asm)
qed

lemma cvb_len_contents: "cvb_len b = length (contents b)"
proof -
  have "foldl (\<lambda>len ch. len + length ch) n chs = n + length (concat chs)" for n and chs :: "bytes list"
    by (induction chs arbitrary: n) simp_all
  then show ?thesis by (simp add: cvb_len_def contents_def)
qed

lemma cvb_is_empty_contents: "chunks_ok b \<Longrightarrow> cvb_is_empty b \<longleftrightarrow> contents b = []"
  by (cases "cvb_chunks b") (auto simp: cvb_is_empty_def contents_def chunks_ok_def)

lemma contents_append [simp]: "contents (fst (cvb_append bs b)) = contents b @ bs" "snd (cvb_append bs b) = length bs"
  by (simp_all add: chunk_queue.put_bytes) (simp add: cvb_append_def)

lemma contents_new [simp]: "contents (ChunkVecBuffer_new limit) = []"
  by (simp add: contents_def ChunkVecBuffer_new_def)

lemma contents_consume [simp]: "contents (cvb_consume n b) = drop n (contents b)"
  by (simp add: contents_def cvb_consume_def concat_consume)

text \<open>What a limited copy takes is a prefix that fits.\<close>

lemma cvb_append_limited_copy_spec:
  assumes "cvb_append_limited_copy bs b = (b', n)"
  shows "n \<le> length bs \<and> contents b' = contents b @ take n bs
    \<and> (\<forall>limit. cvb_limit b = Some limit \<longrightarrow> length (contents b) \<le> limit \<longrightarrow> length (contents b') \<le> limit)
    \<and> (cvb_limit b = None \<longrightarrow> n = length bs)"
proof -
  from assms have n: "n = cvb_apply_limit (length bs) b" "b' = fst (cvb_append (take n bs) b)"
    by (auto simp: cvb_append_limited_copy_def Let_def split: prod.split_asm)
  moreover have "n \<le> length bs" using n(1) by (simp add: cvb_apply_limit_def Let_def split: option.split)
  moreover have "length (contents b) + n \<le> limit" if "cvb_limit b = Some limit" "length (contents b) \<le> limit" for limit
    using that n(1) by (simp add: cvb_apply_limit_def Let_def cvb_len_contents)
  ultimately show ?thesis by (auto simp: cvb_apply_limit_def)
qed

lemma consume_ok: "[] \<notin> set chs \<Longrightarrow> [] \<notin> set (consume used chs)"
  by (induction used chs rule: consume.induct) auto

lemma chunks_ok_new [simp]: "chunks_ok (ChunkVecBuffer_new limit)"
  by (simp add: chunks_ok_def ChunkVecBuffer_new_def)

lemma chunks_ok_append [simp]: "chunks_ok b \<Longrightarrow> chunks_ok (fst (cvb_append bs b))"
  by (simp add: chunks_ok_def cvb_append_def)

lemma chunks_ok_pop: "chunks_ok b \<Longrightarrow> cvb_pop b = (b', r) \<Longrightarrow> chunks_ok b' \<and> r \<noteq> Some []"
  by (auto simp: chunks_ok_def cvb_pop_def split: list.split_asm)

text \<open>What the writer took leaves the buffer, in order.\<close>

lemma cvb_write_to_spec:
  assumes "cvb_write_to write b = (b', Inr n)" and "\<And>bss used. write bss = Inr used \<Longrightarrow> used \<le> length (concat bss)"
  shows "n \<le> length (contents b) \<and> contents b' = drop n (contents b)"
proof -
  have "length (concat (take 64 (cvb_chunks b))) \<le> length (contents b)"
    unfolding contents_def by (metis append_take_drop_id concat_append le_add1 length_append)
  then show ?thesis using assms by (fastforce simp: cvb_write_to_def split: if_split_asm sum.split_asm)
qed

end
