(* ===== verification/Tls_Common.thy ===== *)
theory Tls_Common
  imports Tls_Message Tls_Suites Chunk_Buffer
begin

text \<open>
  The state common to both ends of a TLS connection (\<open>common_state.rs\<close>) and the fragmenter of outgoing
  messages (\<open>msgs/fragmenter.rs\<close>), without the features for QUIC and for the extraction of secrets,
  which are off by default.

  Sending a fragment may first send a close alert, which is itself sent as a fragment, so the
  operations that send are partial functions: \<open>None\<close> when they do not return.
\<close>

section \<open>Results of operations that may not return\<close>

definition ro_bind :: "'a res option \<Rightarrow> ('a \<Rightarrow> 'b res option) \<Rightarrow> 'b res option" where
  "ro_bind m f = (case m of None \<Rightarrow> None | Some (Inl p) \<Rightarrow> Some (Inl p) | Some (Inr x) \<Rightarrow> f x)"

definition ro_return :: "'a \<Rightarrow> 'a res option" where
  "ro_return x = Some (Inr x)"

lemma ro_bind_simps [simp]:
  "ro_bind None f = None" "ro_bind (Some (Inl p)) f = Some (Inl p)" "ro_bind (Some (Inr x)) f = f x" "ro_bind (ro_return x) f = f x"
  by (simp_all add: ro_bind_def ro_return_def)

lemma ro_bind_InrE:
  assumes "ro_bind m f = Some (Inr y)"
  obtains x where "m = Some (Inr x)" "f x = Some (Inr y)"
  using assms by (auto simp: ro_bind_def split: option.split_asm sum.split_asm)

lemma ro_bind_mono [partial_function_mono]:
  fixes B :: "('x \<Rightarrow> 'y option) \<Rightarrow> 'a res option" and C :: "'a \<Rightarrow> ('x \<Rightarrow> 'y option) \<Rightarrow> 'b res option"
  assumes "mono_option B" and "\<And>y. mono_option (\<lambda>f. C y f)"
  shows "mono_option (\<lambda>f. ro_bind (B f) (\<lambda>y. C y f))"
proof (rule monotoneI)
  fix f g :: "'x \<Rightarrow> 'y option"
  assume fg: "fun_ord option_ord f g"
  have "option_ord (B f) (B g)" by (rule monotoneD [of _ _ _ f g, OF assms(1) fg])
  then have "B f = None \<or> B f = B g" by (auto simp: flat_ord_def)
  moreover have "C y f = None \<or> C y f = C y g" for y
    using monotoneD [of _ _ _ f g, OF assms(2) fg, of y] by (auto simp: flat_ord_def)
  ultimately show "option_ord (ro_bind (B f) (\<lambda>y. C y f)) (ro_bind (B g) (\<lambda>y. C y g))"
    unfolding flat_ord_def by (cases "B g" rule: option.exhaust; cases "the (B g)") (force simp: ro_bind_def)+
qed

text \<open>A loop over messages.\<close>

fun for_each :: "('a \<Rightarrow> 's \<Rightarrow> 's res option) \<Rightarrow> 'a list \<Rightarrow> 's \<Rightarrow> 's res option" where
  "for_each f [] s = ro_return s"
| "for_each f (x # xs) s = ro_bind (f x s) (for_each f xs)"

lemma for_each_mono [partial_function_mono]:
  assumes "\<And>x s. mono_option (\<lambda>f. B f x s)"
  shows "mono_option (\<lambda>f. for_each (B f) xs s)"
proof (induction xs arbitrary: s)
  case (Cons x xs)
  have "mono_option (\<lambda>f. ro_bind (B f x s) (\<lambda>y. for_each (B f) xs y))" by (intro ro_bind_mono assms Cons)
  then show ?case by simp
qed (simp add: option.const_mono)

section \<open>The fragmenter\<close>

definition PACKET_OVERHEAD :: nat where
  "PACKET_OVERHEAD = 1 + 2 + 2"

definition MAX_FRAGMENT_SIZE :: nat where
  "MAX_FRAGMENT_SIZE = MAX_FRAGMENT_LEN + PACKET_OVERHEAD"

record MessageFragmenter =
  max_frag :: nat

definition MessageFragmenter_default :: MessageFragmenter where
  "MessageFragmenter_default = \<lparr>max_frag = MAX_FRAGMENT_LEN\<rparr>"

definition fragment_slice :: "ContentType \<Rightarrow> ProtocolVersion \<Rightarrow> bytes \<Rightarrow> MessageFragmenter \<Rightarrow> PlainMessage list" where
  "fragment_slice t version payload fr = map (\<lambda>c. \<lparr>pm_typ = t, pm_version = version, pm_payload = c\<rparr>) (chunks (max_frag fr) payload)"

definition fragment_message :: "PlainMessage \<Rightarrow> MessageFragmenter \<Rightarrow> PlainMessage list" where
  "fragment_message msg fr = fragment_slice (pm_typ msg) (pm_version msg) (pm_payload msg) fr"

definition frag_set_max_fragment_size :: "nat option \<Rightarrow> MessageFragmenter \<Rightarrow> Error + MessageFragmenter" where
  "frag_set_max_fragment_size max_fragment_size fr =
     (case max_fragment_size of
        Some sz \<Rightarrow> if 32 \<le> sz \<and> sz \<le> MAX_FRAGMENT_SIZE then Inr (fr\<lparr>max_frag := sz - PACKET_OVERHEAD\<rparr>) else Inl BadMaxFragmentSize
      | None \<Rightarrow> Inr (fr\<lparr>max_frag := MAX_FRAGMENT_LEN\<rparr>))"

section \<open>The state\<close>

datatype Side = Side_Client | Side_Server

definition Side_peer :: "Side \<Rightarrow> Side" where
  "Side_peer s = (case s of Side_Client \<Rightarrow> Side_Server | Side_Server \<Rightarrow> Side_Client)"

datatype Limit = Limit_Yes | Limit_No

definition DEFAULT_RECEIVED_PLAINTEXT_LIMIT :: nat where
  "DEFAULT_RECEIVED_PLAINTEXT_LIMIT = 16 * 1024"

definition DEFAULT_BUFFER_LIMIT :: nat where
  "DEFAULT_BUFFER_LIMIT = 64 * 1024"

record 'k CommonState =
  negotiated_version :: "ProtocolVersion option"
  cs_side :: Side
  record_layer :: "'k RecordLayer"
  cs_suite :: "SupportedCipherSuite option"
  cs_alpn_protocol :: "bytes option"
  aligned_handshake :: bool
  may_send_application_data :: bool
  may_receive_application_data :: bool
  early_traffic :: bool
  sent_fatal_alert :: bool
  has_received_close_notify :: bool
  has_seen_eof :: bool
  received_middlebox_ccs :: u8
  cs_peer_certificates :: "bytes list option"
  message_fragmenter :: MessageFragmenter
  received_plaintext :: ChunkVecBuffer
  sendable_plaintext :: ChunkVecBuffer
  sendable_tls :: ChunkVecBuffer
  queued_key_update_message :: "bytes option"

definition CommonState_new :: "Side \<Rightarrow> 'k CommonState" where
  "CommonState_new side =
     \<lparr>negotiated_version = None, cs_side = side, record_layer = RecordLayer_new, cs_suite = None, cs_alpn_protocol = None,
      aligned_handshake = True, may_send_application_data = False, may_receive_application_data = False, early_traffic = False,
      sent_fatal_alert = False, has_received_close_notify = False, has_seen_eof = False, received_middlebox_ccs = 0,
      cs_peer_certificates = None, message_fragmenter = MessageFragmenter_default,
      received_plaintext = ChunkVecBuffer_new (Some DEFAULT_RECEIVED_PLAINTEXT_LIMIT),
      sendable_plaintext = ChunkVecBuffer_new (Some DEFAULT_BUFFER_LIMIT),
      sendable_tls = ChunkVecBuffer_new (Some DEFAULT_BUFFER_LIMIT), queued_key_update_message = None\<rparr>"

definition wants_write :: "'k CommonState \<Rightarrow> bool" where
  "wants_write cs \<longleftrightarrow> \<not> cvb_is_empty (sendable_tls cs)"

definition is_handshaking :: "'k CommonState \<Rightarrow> bool" where
  "is_handshaking cs \<longleftrightarrow> \<not> (may_send_application_data cs \<and> may_receive_application_data cs)"

definition is_tls13 :: "'k CommonState \<Rightarrow> bool" where
  "is_tls13 cs \<longleftrightarrow> negotiated_version cs = Some TLSv1_3"

definition wants_read :: "'k CommonState \<Rightarrow> bool" where
  "wants_read cs \<longleftrightarrow> cvb_is_empty (received_plaintext cs) \<and> \<not> has_received_close_notify cs
     \<and> (may_send_application_data cs \<or> cvb_is_empty (sendable_tls cs))"

record IoState =
  tls_bytes_to_write :: nat
  plaintext_bytes_to_read :: nat
  peer_has_closed :: bool

definition current_io_state :: "'k CommonState \<Rightarrow> IoState" where
  "current_io_state cs =
     \<lparr>tls_bytes_to_write = cvb_len (sendable_tls cs), plaintext_bytes_to_read = cvb_len (received_plaintext cs),
      peer_has_closed = has_received_close_notify cs\<rparr>"

definition set_buffer_limit :: "nat option \<Rightarrow> 'k CommonState \<Rightarrow> 'k CommonState" where
  "set_buffer_limit limit cs =
     cs\<lparr>sendable_plaintext := cvb_set_limit limit (sendable_plaintext cs), sendable_tls := cvb_set_limit limit (sendable_tls cs)\<rparr>"

definition set_max_fragment_size :: "nat option \<Rightarrow> 'k CommonState \<Rightarrow> 'k CommonState \<times> (Error + unit)" where
  "set_max_fragment_size new cs =
     (case frag_set_max_fragment_size new (message_fragmenter cs) of
        Inl e \<Rightarrow> (cs, Inl e)
      | Inr fr \<Rightarrow> (cs\<lparr>message_fragmenter := fr\<rparr>, Inr ()))"

definition take_received_plaintext :: "bytes \<Rightarrow> 'k CommonState \<Rightarrow> 'k CommonState" where
  "take_received_plaintext bs cs = cs\<lparr>received_plaintext := fst (cvb_append bs (received_plaintext cs))\<rparr>"

section \<open>Sending\<close>

definition queue_tls_message :: "OpaqueMessage \<Rightarrow> 'k CommonState \<Rightarrow> 'k CommonState" where
  "queue_tls_message m cs = cs\<lparr>sendable_tls := fst (cvb_append (OpaqueMessage_encode m) (sendable_tls cs))\<rparr>"

text \<open>The branch of \<open>send_msg\<close> that does not encrypt.\<close>

definition send_unencrypted :: "PlainMessage \<Rightarrow> 'k CommonState \<Rightarrow> 'k CommonState" where
  "send_unencrypted m cs =
     fold (\<lambda>m cs. queue_tls_message (into_unencrypted_opaque m) cs) (fragment_message m (message_fragmenter cs)) cs"

definition close_notify :: PlainMessage where
  "close_notify = PlainMessage_from (build_alert AL_Warning AD_CloseNotify)"

partial_function (option) send_single_fragment :: "'k aead \<Rightarrow> PlainMessage \<Rightarrow> 'k CommonState \<Rightarrow> 'k CommonState res option" where
  "send_single_fragment L m cs =
     ro_bind
       (if wants_close_before_encrypt (record_layer cs) then
          (if is_encrypting (record_layer cs)
           then for_each (\<lambda>m cs. send_single_fragment L m cs) (fragment_message close_notify (message_fragmenter cs)) cs
           else Some (Inr (send_unencrypted close_notify cs)))
        else Some (Inr cs))
       (\<lambda>cs.
          if encrypt_exhausted (record_layer cs) then Some (Inr cs)
          else Some (res_bind (encrypt_outgoing L m (record_layer cs)) (\<lambda>(rl, em).
                 Inr (queue_tls_message em (cs\<lparr>record_layer := rl\<rparr>)))))"

definition send_msg_encrypt :: "'k aead \<Rightarrow> PlainMessage \<Rightarrow> 'k CommonState \<Rightarrow> 'k CommonState res option" where
  "send_msg_encrypt L m cs = for_each (send_single_fragment L) (fragment_message m (message_fragmenter cs)) cs"

definition send_msg :: "'k aead \<Rightarrow> Message \<Rightarrow> bool \<Rightarrow> 'k CommonState \<Rightarrow> 'k CommonState res option" where
  "send_msg L m must_encrypt cs =
     (if \<not> must_encrypt then Some (Inr (send_unencrypted (PlainMessage_from m) cs))
      else send_msg_encrypt L (PlainMessage_from m) cs)"

definition send_warning_alert :: "'k aead \<Rightarrow> AlertDescription \<Rightarrow> 'k CommonState \<Rightarrow> 'k CommonState res option" where
  "send_warning_alert L desc cs = send_msg L (build_alert AL_Warning desc) (is_encrypting (record_layer cs)) cs"

definition send_close_notify :: "'k aead \<Rightarrow> 'k CommonState \<Rightarrow> 'k CommonState res option" where
  "send_close_notify L cs = send_warning_alert L AD_CloseNotify cs"

text \<open>The recursion as the code has it.\<close>

lemma send_single_fragment_eq:
  "send_single_fragment L m cs =
     ro_bind (if wants_close_before_encrypt (record_layer cs) then send_close_notify L cs else Some (Inr cs))
       (\<lambda>cs.
          if encrypt_exhausted (record_layer cs) then Some (Inr cs)
          else Some (res_bind (encrypt_outgoing L m (record_layer cs)) (\<lambda>(rl, em).
                 Inr (queue_tls_message em (cs\<lparr>record_layer := rl\<rparr>)))))"
  by (subst send_single_fragment.simps)
    (simp add: send_close_notify_def send_warning_alert_def send_msg_def send_msg_encrypt_def close_notify_def)

definition send_fatal_alert :: "'k aead \<Rightarrow> AlertDescription \<Rightarrow> Error \<Rightarrow> 'k CommonState \<Rightarrow> ('k CommonState \<times> Error) res option" where
  "send_fatal_alert L desc err cs =
     (if sent_fatal_alert cs then Some (Inl AssertFailed)
      else ro_bind (send_msg L (build_alert AL_Fatal desc) (is_encrypting (record_layer cs)) cs) (\<lambda>cs.
             ro_return (cs\<lparr>sent_fatal_alert := True\<rparr>, err)))"

definition send_appdata_encrypt :: "'k aead \<Rightarrow> bytes \<Rightarrow> Limit \<Rightarrow> 'k CommonState \<Rightarrow> ('k CommonState \<times> nat) res option" where
  "send_appdata_encrypt L payload limit cs =
     (let len = (case limit of Limit_Yes \<Rightarrow> cvb_apply_limit (length payload) (sendable_tls cs) | Limit_No \<Rightarrow> length payload)
      in ro_bind (for_each (send_single_fragment L)
                    (fragment_slice CT_ApplicationData TLSv1_2 (take len payload) (message_fragmenter cs)) cs)
           (\<lambda>cs. ro_return (cs, len)))"

definition send_plain :: "'k aead \<Rightarrow> bytes \<Rightarrow> Limit \<Rightarrow> 'k CommonState \<Rightarrow> ('k CommonState \<times> nat) res option" where
  "send_plain L data limit cs =
     (if \<not> may_send_application_data cs then
        (let (b, len) = (case limit of
             Limit_Yes \<Rightarrow> cvb_append_limited_copy data (sendable_plaintext cs)
           | Limit_No \<Rightarrow> cvb_append data (sendable_plaintext cs))
         in ro_return (cs\<lparr>sendable_plaintext := b\<rparr>, len))
      else if \<not> is_encrypting (record_layer cs) then Some (Inl AssertFailed)
      else if data = [] then ro_return (cs, 0)
      else send_appdata_encrypt L data limit cs)"

definition perhaps_write_key_update :: "'k CommonState \<Rightarrow> 'k CommonState" where
  "perhaps_write_key_update cs =
     (case queued_key_update_message cs of
        Some message \<Rightarrow> cs\<lparr>queued_key_update_message := None, sendable_tls := fst (cvb_append message (sendable_tls cs))\<rparr>
      | None \<Rightarrow> cs)"

definition send_some_plaintext :: "'k aead \<Rightarrow> bytes \<Rightarrow> 'k CommonState \<Rightarrow> ('k CommonState \<times> nat) res option" where
  "send_some_plaintext L data cs = send_plain L data Limit_Yes (perhaps_write_key_update cs)"

definition send_early_plaintext :: "'k aead \<Rightarrow> bytes \<Rightarrow> 'k CommonState \<Rightarrow> ('k CommonState \<times> nat) res option" where
  "send_early_plaintext L data cs =
     (if \<not> early_traffic cs \<or> \<not> is_encrypting (record_layer cs) then Some (Inl AssertFailed)
      else if data = [] then ro_return (cs, 0)
      else send_appdata_encrypt L data Limit_Yes cs)"

partial_function (option) flush_loop :: "'k aead \<Rightarrow> 'k CommonState \<Rightarrow> 'k CommonState res option" where
  "flush_loop L cs =
     (case cvb_pop (sendable_plaintext cs) of
        (b, r) \<Rightarrow>
          (case r of
             None \<Rightarrow> Some (Inr cs)
           | Some buf \<Rightarrow> ro_bind (send_plain L buf Limit_No (cs\<lparr>sendable_plaintext := b\<rparr>)) (\<lambda>x. flush_loop L (fst x))))"

definition flush_plaintext :: "'k aead \<Rightarrow> 'k CommonState \<Rightarrow> 'k CommonState res option" where
  "flush_plaintext L cs = (if \<not> may_send_application_data cs then Some (Inr cs) else flush_loop L cs)"

definition start_outgoing_traffic :: "'k aead \<Rightarrow> 'k CommonState \<Rightarrow> 'k CommonState res option" where
  "start_outgoing_traffic L cs = flush_plaintext L (cs\<lparr>may_send_application_data := True\<rparr>)"

definition start_traffic :: "'k aead \<Rightarrow> 'k CommonState \<Rightarrow> 'k CommonState res option" where
  "start_traffic L cs = start_outgoing_traffic L (cs\<lparr>may_receive_application_data := True\<rparr>)"

section \<open>Receiving\<close>

definition check_aligned_handshake :: "'k aead \<Rightarrow> 'k CommonState \<Rightarrow> ('k CommonState \<times> (Error + unit)) res option" where
  "check_aligned_handshake L cs =
     (if \<not> aligned_handshake cs then
        ro_bind (send_fatal_alert L AD_UnexpectedMessage (Error_PeerMisbehaved KeyEpochWithPendingFragment) cs) (\<lambda>(cs, e).
          ro_return (cs, Inl e))
      else ro_return (cs, Inr ()))"

definition process_alert :: "'k aead \<Rightarrow> AlertMessagePayload \<Rightarrow> 'k CommonState \<Rightarrow> ('k CommonState \<times> (Error + unit)) res option" where
  "process_alert L alert cs =
     (let err = AlertReceived (alert_description alert);
          fatal = (\<lambda>desc. ro_bind (send_fatal_alert L desc err cs) (\<lambda>(cs, e). ro_return (cs, Inl e)))
      in case alert_level alert of
           AL_Unknown _ \<Rightarrow> fatal AD_IllegalParameter
         | level \<Rightarrow>
             if alert_description alert = AD_CloseNotify then ro_return (cs\<lparr>has_received_close_notify := True\<rparr>, Inr ())
             else if level = AL_Warning then
               (if is_tls13 cs \<and> alert_description alert \<noteq> AD_UserCanceled then fatal AD_DecodeError else ro_return (cs, Inr ()))
             else ro_return (cs, Inl err))"

definition send_cert_verify_error_alert :: "'k aead \<Rightarrow> Error \<Rightarrow> 'k CommonState \<Rightarrow> ('k CommonState \<times> Error) res option" where
  "send_cert_verify_error_alert L err cs =
     send_fatal_alert L
       (case err of
          InvalidCertificate e \<Rightarrow> AlertDescription_from_certificate e
        | Error_PeerMisbehaved _ \<Rightarrow> AD_IllegalParameter
        | _ \<Rightarrow> AD_HandshakeFailure) err cs"

definition should_update_key :: "'k aead \<Rightarrow> KeyUpdateRequest \<Rightarrow> 'k CommonState \<Rightarrow> ('k CommonState \<times> (Error + bool)) res option" where
  "should_update_key L key_update_request cs =
     (case key_update_request of
        KUR_UpdateNotRequested \<Rightarrow> ro_return (cs, Inr False)
      | KUR_UpdateRequested \<Rightarrow> ro_return (cs, Inr (queued_key_update_message cs = None))
      | _ \<Rightarrow>
          ro_bind (send_fatal_alert L AD_IllegalParameter (Error_InvalidMessage InvalidKeyUpdate) cs) (\<lambda>(cs, e).
            ro_return (cs, Inl e)))"

definition enqueue_key_update_notification :: "'k aead \<Rightarrow> 'k CommonState \<Rightarrow> 'k CommonState res" where
  "enqueue_key_update_notification L cs =
     res_bind build_key_update_notify (\<lambda>m.
     res_bind (encrypt_outgoing L (PlainMessage_from m) (record_layer cs)) (\<lambda>(rl, em).
       Inr (cs\<lparr>record_layer := rl, queued_key_update_message := Some (OpaqueMessage_encode em)\<rparr>)))"

text \<open>The state machine of a client or a server is a parameter: \<open>handle\<close> gives the next state or an error.\<close>

definition process_main_protocol ::
  "'k aead \<Rightarrow> ('s \<Rightarrow> 'k CommonState \<Rightarrow> Message \<Rightarrow> ('k CommonState \<times> (Error + 's)) res option) \<Rightarrow> Message \<Rightarrow> 's \<Rightarrow> 'k CommonState \<Rightarrow>
   ('k CommonState \<times> (Error + 's)) res option" where
  "process_main_protocol L handle msg state cs =
     (let reject_ty = (case cs_side cs of Side_Client \<Rightarrow> HT_HelloRequest | Side_Server \<Rightarrow> HT_ClientHello)
      in if may_receive_application_data cs \<and> \<not> is_tls13 cs \<and> is_handshake_type reject_ty msg
         then ro_bind (send_warning_alert L AD_NoRenegotiation cs) (\<lambda>cs. ro_return (cs, Inr state))
         else ro_bind (handle state cs msg) (\<lambda>(cs, r).
                case r of
                  Inr state \<Rightarrow> ro_return (cs, Inr state)
                | Inl e \<Rightarrow>
                    (case e of
                       InappropriateMessage _ _ \<Rightarrow>
                         ro_bind (send_fatal_alert L AD_UnexpectedMessage e cs) (\<lambda>(cs, e). ro_return (cs, Inl e))
                     | InappropriateHandshakeMessage _ _ \<Rightarrow>
                         ro_bind (send_fatal_alert L AD_UnexpectedMessage e cs) (\<lambda>(cs, e). ro_return (cs, Inl e))
                     | _ \<Rightarrow> ro_return (cs, Inl e))))"

section \<open>Fragments\<close>

lemma fragment_slice_payloads: "0 < max_frag fr \<Longrightarrow> concat (map pm_payload (fragment_slice t v bs fr)) = bs"
  by (simp add: fragment_slice_def comp_def concat_chunks)

lemma fragment_slice_fragment:
  assumes "0 < max_frag fr" and "m \<in> set (fragment_slice t v bs fr)"
  shows "pm_typ m = t \<and> pm_version m = v \<and> pm_payload m \<noteq> [] \<and> length (pm_payload m) \<le> max_frag fr"
  using assms chunks_lengths [of "max_frag fr" _ bs] by (auto simp: fragment_slice_def)

definition fragmenter_ok :: "MessageFragmenter \<Rightarrow> bool" where
  "fragmenter_ok fr \<longleftrightarrow> 27 \<le> max_frag fr \<and> max_frag fr \<le> MAX_FRAGMENT_LEN"

lemma fragmenter_ok_default [simp]: "fragmenter_ok MessageFragmenter_default"
  by (simp add: fragmenter_ok_def MessageFragmenter_default_def MAX_FRAGMENT_LEN_def)

lemma fragmenter_ok_set: "frag_set_max_fragment_size sz fr = Inr fr' \<Longrightarrow> fragmenter_ok fr'"
  by (auto simp: frag_set_max_fragment_size_def fragmenter_ok_def MAX_FRAGMENT_SIZE_def PACKET_OVERHEAD_def MAX_FRAGMENT_LEN_def
      split: option.split_asm if_split_asm)

lemma fragment_slice_encryptable:
  assumes "fragmenter_ok fr"
  shows "list_all encryptable (fragment_slice CT_ApplicationData v bs fr)"
  using assms fragment_slice_fragment [of fr _ CT_ApplicationData v bs]
  by (force simp: list_all_iff encryptable_def fragmenter_ok_def ContentType_ok_def ContentType_from_def)

section \<open>What is sent\<close>

text \<open>The documented behaviour of \<open>ring\<close>: sealing fails only for inputs that are too long, far longer than a fragment.\<close>

definition seals :: "'k aead \<Rightarrow> bool" where
  "seals L \<longleftrightarrow> (\<forall>k n a p. length p \<le> MAX_FRAGMENT_LEN + 1 \<longrightarrow> (\<exists>c. seal L k n a p = Some c))"

lemma length_ContentType_encode [simp]: "length (ContentType_encode t) = 1"
  by (simp add: ContentType_encode_def)

lemma encrypt_returns:
  assumes "seals L" and "e \<noteq> InvalidMessageEncrypter" and "length (pm_payload m) \<le> MAX_FRAGMENT_LEN"
  shows "\<exists>c. encrypt L e m seq = Inr c"
proof -
  have s: "\<exists>c. seal L k n a p = Some c" if "length p \<le> MAX_FRAGMENT_LEN + 1" for k n a p
    using assms(1) that by (simp add: seals_def)
  show ?thesis
  proof (cases e)
    case (Tls13MessageEncrypter k iv)
    have "length (pm_payload m @ ContentType_encode (pm_typ m)) \<le> MAX_FRAGMENT_LEN + 1" using assms(3) by simp
    from s [OF this] obtain c where
      "seal L k (make_nonce iv seq) (make_tls13_aad (length (pm_payload m) + 1 + tag_len L k)) (pm_payload m @ ContentType_encode (pm_typ m)) = Some c" by blast
    then show ?thesis by (simp add: Tls13MessageEncrypter tls13_encrypt_def)
  next
    case (GcmMessageEncrypter k iv)
    have "length (pm_payload m) \<le> MAX_FRAGMENT_LEN + 1" using assms(3) by simp
    from s [OF this] obtain c where
      "seal L k (make_nonce iv seq) (make_tls12_aad seq (pm_typ m) (pm_version m) (length (pm_payload m))) (pm_payload m) = Some c" by blast
    then show ?thesis by (simp add: GcmMessageEncrypter gcm_encrypt_def Let_def)
  next
    case (ChaCha20Poly1305MessageEncrypter k iv)
    have "length (pm_payload m) \<le> MAX_FRAGMENT_LEN + 1" using assms(3) by simp
    from s [OF this] obtain c where
      "seal L k (make_nonce iv seq) (make_tls12_aad seq (pm_typ m) (pm_version m) (length (pm_payload m))) (pm_payload m) = Some c" by blast
    then show ?thesis by (simp add: ChaCha20Poly1305MessageEncrypter chacha_encrypt_def Let_def)
  qed (use assms(2) in simp)
qed

text \<open>A connection that encrypts, with room for \<open>n\<close> more records before the close at the soft limit.\<close>

definition can_send :: "nat \<Rightarrow> 'k CommonState \<Rightarrow> bool" where
  "can_send n cs \<longleftrightarrow> is_encrypting (record_layer cs) \<and> message_encrypter (record_layer cs) \<noteq> InvalidMessageEncrypter
     \<and> fragmenter_ok (message_fragmenter cs) \<and> unat (write_seq (record_layer cs)) + n \<le> unat SEQ_SOFT_LIMIT"

text \<open>The state after the records \<open>rs\<close> are queued and the record layer has become \<open>rl\<close>.\<close>

definition with_records :: "'k RecordLayer \<Rightarrow> OpaqueMessage list \<Rightarrow> 'k CommonState \<Rightarrow> 'k CommonState" where
  "with_records rl rs cs = fold queue_tls_message rs (cs\<lparr>record_layer := rl\<rparr>)"

lemma fold_queue_record_layer: "fold queue_tls_message rs (cs\<lparr>record_layer := rl\<rparr>) = (fold queue_tls_message rs cs)\<lparr>record_layer := rl\<rparr>"
proof (induction rs arbitrary: cs)
  case (Cons r rs)
  have "queue_tls_message r (cs\<lparr>record_layer := rl\<rparr>) = (queue_tls_message r cs)\<lparr>record_layer := rl\<rparr>"
    by (simp add: queue_tls_message_def)
  then show ?case by (simp only: fold_simps Cons.IH)
qed simp

lemma with_records_Nil [simp]: "with_records (record_layer cs) [] cs = cs"
  by (simp add: with_records_def)

lemma with_records_twice: "with_records rl' rs' (with_records rl rs cs) = with_records rl' (rs @ rs') cs"
  by (simp add: with_records_def fold_queue_record_layer)

lemma with_records_fields [simp]:
  "record_layer (with_records rl rs cs) = rl" "message_fragmenter (with_records rl rs cs) = message_fragmenter cs"
  "contents (sendable_tls (with_records rl rs cs)) = contents (sendable_tls cs) @ concat (map OpaqueMessage_encode rs)"
  "may_send_application_data (with_records rl rs cs) = may_send_application_data cs"
  "sendable_plaintext (with_records rl rs cs) = sendable_plaintext cs"
proof -
  have "record_layer (fold queue_tls_message rs cs) = record_layer cs"
    "message_fragmenter (fold queue_tls_message rs cs) = message_fragmenter cs"
    "contents (sendable_tls (fold queue_tls_message rs cs)) = contents (sendable_tls cs) @ concat (map OpaqueMessage_encode rs)"
    "may_send_application_data (fold queue_tls_message rs cs) = may_send_application_data cs"
    "sendable_plaintext (fold queue_tls_message rs cs) = sendable_plaintext cs" for cs :: "'a CommonState"
    by (induction rs arbitrary: cs) (simp_all add: queue_tls_message_def)
  then show "record_layer (with_records rl rs cs) = rl" "message_fragmenter (with_records rl rs cs) = message_fragmenter cs"
    "contents (sendable_tls (with_records rl rs cs)) = contents (sendable_tls cs) @ concat (map OpaqueMessage_encode rs)"
    "may_send_application_data (with_records rl rs cs) = may_send_application_data cs"
    "sendable_plaintext (with_records rl rs cs) = sendable_plaintext cs"
    by (simp_all add: with_records_def)
qed

lemma send_single_fragment_sends:
  assumes "seals L" and "can_send (Suc n) cs" and "length (pm_payload m) \<le> MAX_FRAGMENT_LEN"
  shows "\<exists>rl r. encrypt_outgoing L m (record_layer cs) = Inr (rl, r) \<and> send_single_fragment L m cs = Some (Inr (with_records rl [r] cs))
    \<and> can_send n (with_records rl [r] cs)"
proof -
  let ?rl = "record_layer cs"
  have c: "encrypt_state ?rl = Dir_Active" "message_encrypter ?rl \<noteq> InvalidMessageEncrypter" "write_seq ?rl < SEQ_SOFT_LIMIT"
    using assms(2) by (auto simp: can_send_def is_encrypting_def word_less_nat_alt)
  obtain r where r: "encrypt L (message_encrypter ?rl) m (write_seq ?rl) = Inr r"
    using encrypt_returns [OF assms(1) c(2) assms(3)] by blast
  have "SEQ_SOFT_LIMIT < SEQ_HARD_LIMIT" by (simp add: SEQ_SOFT_LIMIT_def SEQ_HARD_LIMIT_def)
  with c(3) have h: "write_seq ?rl < SEQ_HARD_LIMIT" by (rule order_less_trans)
  then have e: "encrypt_outgoing L m ?rl = Inr (?rl\<lparr>write_seq := write_seq ?rl + 1\<rparr>, r)"
    using c(1) r by (simp add: encrypt_outgoing_Inr)
  moreover have "send_single_fragment L m cs = Some (Inr (with_records (?rl\<lparr>write_seq := write_seq ?rl + 1\<rparr>) [r] cs))"
    using c(3) h by (subst send_single_fragment.simps)
      (auto simp: wants_close_before_encrypt_def encrypt_exhausted_def e with_records_def res_simps not_le)
  ultimately show ?thesis using assms(2) below_hard_limit(2) [OF h] by (auto simp: can_send_def is_encrypting_def)
qed

lemma for_each_sends:
  assumes "seals L" and "can_send (length ms + n) cs" and "\<forall>m \<in> set ms. length (pm_payload m) \<le> MAX_FRAGMENT_LEN"
  shows "\<exists>rl rs. encrypt_all L ms (record_layer cs) = Inr (rl, rs) \<and> for_each (send_single_fragment L) ms cs = Some (Inr (with_records rl rs cs))
    \<and> can_send n (with_records rl rs cs)"
  using assms(2,3)
proof (induction ms arbitrary: cs)
  case (Cons m ms)
  obtain rl r where r: "encrypt_outgoing L m (record_layer cs) = Inr (rl, r)" "send_single_fragment L m cs = Some (Inr (with_records rl [r] cs))"
      "can_send (length ms + n) (with_records rl [r] cs)"
    using send_single_fragment_sends [OF assms(1), of "length ms + n" cs m] Cons.prems by auto
  obtain rl' rs where "encrypt_all L ms rl = Inr (rl', rs)"
      "for_each (send_single_fragment L) ms (with_records rl [r] cs) = Some (Inr (with_records rl' rs (with_records rl [r] cs)))"
      "can_send n (with_records rl' rs (with_records rl [r] cs))"
    using Cons.IH [OF r(3)] Cons.prems(2) by auto
  then show ?case using r by (simp add: with_records_twice res_simps)
qed (simp add: ro_return_def)

text \<open>How many records \<open>n\<close> bytes take.\<close>

definition records_for :: "'k CommonState \<Rightarrow> nat \<Rightarrow> nat" where
  "records_for cs n = (n + max_frag (message_fragmenter cs) - 1) div max_frag (message_fragmenter cs)"

lemma send_appdata_encrypt_sends:
  assumes "seals L" and "can_send (records_for cs (length data) + n) cs"
    and len: "len = (case limit of Limit_Yes \<Rightarrow> cvb_apply_limit (length data) (sendable_tls cs) | Limit_No \<Rightarrow> length data)"
  shows "\<exists>rl rs. encrypt_all L (fragment_slice CT_ApplicationData TLSv1_2 (take len data) (message_fragmenter cs)) (record_layer cs) = Inr (rl, rs)
    \<and> send_appdata_encrypt L data limit cs = Some (Inr (with_records rl rs cs, len)) \<and> can_send n (with_records rl rs cs)"
proof -
  let ?ms = "fragment_slice CT_ApplicationData TLSv1_2 (take len data) (message_fragmenter cs)"
  have f: "fragmenter_ok (message_fragmenter cs)" using assms(2) by (simp add: can_send_def)
  then have p: "0 < max_frag (message_fragmenter cs)" by (simp add: fragmenter_ok_def)
  have "length ?ms \<le> records_for cs (length data)"
    using p by (simp add: fragment_slice_def length_chunks records_for_def div_le_mono)
  then have "can_send (length ?ms + n) cs" using assms(2) by (simp add: can_send_def)
  moreover have "\<forall>m \<in> set ?ms. length (pm_payload m) \<le> MAX_FRAGMENT_LEN"
    using fragment_slice_encryptable [OF f] by (auto simp: list_all_iff encryptable_def)
  ultimately obtain rl rs where "encrypt_all L ?ms (record_layer cs) = Inr (rl, rs)"
      "for_each (send_single_fragment L) ?ms cs = Some (Inr (with_records rl rs cs))" "can_send n (with_records rl rs cs)"
    using for_each_sends [OF assms(1)] by blast
  then show ?thesis by (auto simp: send_appdata_encrypt_def len ro_return_def)
qed

text \<open>\<open>ms\<close> are messages of application data that carry \<open>bs\<close>.\<close>

definition carries :: "PlainMessage list \<Rightarrow> bytes \<Rightarrow> bool" where
  "carries ms bs \<longleftrightarrow> list_all (\<lambda>m. encryptable m \<and> pm_typ m = CT_ApplicationData) ms \<and> concat (map pm_payload ms) = bs"

lemma carries_fragment_slice:
  assumes "fragmenter_ok fr"
  shows "carries (fragment_slice CT_ApplicationData v bs fr) bs"
proof -
  have "0 < max_frag fr" using assms by (simp add: fragmenter_ok_def)
  with fragment_slice_encryptable [OF assms] fragment_slice_fragment show ?thesis
    by (auto simp: carries_def list_all_iff fragment_slice_payloads)
qed

lemma carries_append: "carries ms bs \<Longrightarrow> carries ms' bs' \<Longrightarrow> carries (ms @ ms') (bs @ bs')"
  by (simp add: carries_def)

lemma encrypt_all_append:
  assumes "encrypt_all L ms rl = Inr (rl1, rs)" and "encrypt_all L ms' rl1 = Inr (rl2, rs')"
  shows "encrypt_all L (ms @ ms') rl = Inr (rl2, rs @ rs')"
  using assms(1)
proof (induction ms arbitrary: rl rs)
  case (Cons m ms)
  then show ?case by (auto simp: res_simps)
qed (use assms(2) in simp)

definition accepted :: "bytes \<Rightarrow> Limit \<Rightarrow> 'k CommonState \<Rightarrow> nat" where
  "accepted data limit cs = (case limit of Limit_Yes \<Rightarrow> cvb_apply_limit (length data) (sendable_tls cs) | Limit_No \<Rightarrow> length data)"

lemma accepted_le: "accepted data limit cs \<le> length data"
  by (simp add: accepted_def cvb_apply_limit_def Let_def split: Limit.split option.split)

lemma send_plain_sends:
  assumes "seals L" and "may_send_application_data cs" and "can_send (records_for cs (length data) + n) cs"
  shows "\<exists>ms rl rs. encrypt_all L ms (record_layer cs) = Inr (rl, rs) \<and> carries ms (take (accepted data limit cs) data)
    \<and> send_plain L data limit cs = Some (Inr (with_records rl rs cs, accepted data limit cs)) \<and> can_send n (with_records rl rs cs)"
proof (cases "data = []")
  case True
  have "encrypt_all L [] (record_layer cs) = Inr (record_layer cs, [])" "carries [] []" by (simp_all add: carries_def)
  moreover have "send_plain L data limit cs = Some (Inr (with_records (record_layer cs) [] cs, accepted data limit cs))"
    using True accepted_le [of data limit cs] assms(2,3) by (simp add: send_plain_def can_send_def ro_return_def)
  moreover have "can_send n (with_records (record_layer cs) [] cs)" using assms(3) by (simp add: can_send_def)
  ultimately show ?thesis using True by (metis take_Nil)
next
  case False
  obtain rl rs where 1:
    "encrypt_all L (fragment_slice CT_ApplicationData TLSv1_2 (take (accepted data limit cs) data) (message_fragmenter cs)) (record_layer cs) = Inr (rl, rs)"
    "send_appdata_encrypt L data limit cs = Some (Inr (with_records rl rs cs, accepted data limit cs))" "can_send n (with_records rl rs cs)"
    using send_appdata_encrypt_sends [OF assms(1,3) accepted_def] by blast
  from assms(3) have "is_encrypting (record_layer cs)" "fragmenter_ok (message_fragmenter cs)" by (simp_all add: can_send_def)
  with False assms(2) 1(2) have "send_plain L data limit cs = Some (Inr (with_records rl rs cs, accepted data limit cs))"
      "carries (fragment_slice CT_ApplicationData TLSv1_2 (take (accepted data limit cs) data) (message_fragmenter cs)) (take (accepted data limit cs) data)"
    by (simp_all add: send_plain_def carries_fragment_slice)
  with 1 show ?thesis by blast
qed

lemma with_records_plaintext: "with_records rl rs (cs\<lparr>sendable_plaintext := b\<rparr>) = (with_records rl rs cs)\<lparr>sendable_plaintext := b\<rparr>"
proof -
  have "fold queue_tls_message rs (c\<lparr>sendable_plaintext := b\<rparr>) = (fold queue_tls_message rs c)\<lparr>sendable_plaintext := b\<rparr>" for c :: "'a CommonState"
  proof (induction rs arbitrary: c)
    case (Cons r rs)
    have "queue_tls_message r (c\<lparr>sendable_plaintext := b\<rparr>) = (queue_tls_message r c)\<lparr>sendable_plaintext := b\<rparr>"
      by (simp add: queue_tls_message_def)
    then show ?case by (simp only: fold_simps Cons.IH)
  qed simp
  moreover have "cs\<lparr>sendable_plaintext := b, record_layer := rl\<rparr> = cs\<lparr>record_layer := rl, sendable_plaintext := b\<rparr>" by simp
  ultimately show ?thesis by (simp only: with_records_def)
qed

definition buffered_records :: "'k CommonState \<Rightarrow> nat" where
  "buffered_records cs = (\<Sum>ch \<leftarrow> cvb_chunks (sendable_plaintext cs). records_for cs (length ch))"

lemma flush_loop_sends:
  assumes "seals L" and "may_send_application_data cs" and "can_send (buffered_records cs + n) cs"
  shows "\<exists>ms rl rs. encrypt_all L ms (record_layer cs) = Inr (rl, rs) \<and> carries ms (contents (sendable_plaintext cs))
    \<and> flush_loop L cs = Some (Inr ((with_records rl rs cs)\<lparr>sendable_plaintext := (sendable_plaintext cs)\<lparr>cvb_chunks := []\<rparr>\<rparr>))
    \<and> can_send n (with_records rl rs cs)"
  using assms(2,3)
proof (induction "cvb_chunks (sendable_plaintext cs)" arbitrary: cs)
  case Nil
  then have "sendable_plaintext cs = (sendable_plaintext cs)\<lparr>cvb_chunks := []\<rparr>" by simp
  then have "flush_loop L cs = Some (Inr ((with_records (record_layer cs) [] cs)\<lparr>sendable_plaintext := (sendable_plaintext cs)\<lparr>cvb_chunks := []\<rparr>\<rparr>))"
    using Nil by (subst flush_loop.simps) (simp add: cvb_pop_def)
  moreover have "carries [] (contents (sendable_plaintext cs))" using Nil by (simp add: carries_def contents_def flip: Nil.hyps)
  moreover have "can_send n (with_records (record_layer cs) [] cs)" using Nil by (simp add: can_send_def)
  ultimately show ?case by (metis encrypt_all.simps(1))
next
  case (Cons ch chs)
  let ?b = "(sendable_plaintext cs)\<lparr>cvb_chunks := chs\<rparr>" and ?e = "(sendable_plaintext cs)\<lparr>cvb_chunks := []\<rparr>"
  let ?cs = "cs\<lparr>sendable_plaintext := ?b\<rparr>"
  have pop: "cvb_pop (sendable_plaintext cs) = (?b, Some ch)" by (simp add: cvb_pop_def flip: Cons.hyps(2))
  have rf: "records_for ?cs = records_for cs" by (simp add: records_for_def fun_eq_iff)
  have "can_send (records_for ?cs (length ch) + (buffered_records ?cs + n)) ?cs"
    using Cons.prems(2) by (simp add: can_send_def buffered_records_def rf flip: Cons.hyps(2))
  from send_plain_sends [OF assms(1) _ this, of Limit_No] Cons.prems(1)
  obtain ms rl rs where 1: "encrypt_all L ms (record_layer cs) = Inr (rl, rs)" "carries ms ch"
      "send_plain L ch Limit_No ?cs = Some (Inr (with_records rl rs ?cs, length ch))" "can_send (buffered_records ?cs + n) (with_records rl rs ?cs)"
    by (auto simp: accepted_def)
  let ?q = "with_records rl rs ?cs"
  have "buffered_records ?q = buffered_records ?cs" by (simp add: buffered_records_def records_for_def)
  with Cons.hyps(1) [of ?q] Cons.prems(1) 1(4) obtain ms' rl' rs' where 2: "encrypt_all L ms' rl = Inr (rl', rs')"
      "carries ms' (concat chs)" "flush_loop L ?q = Some (Inr ((with_records rl' rs' ?q)\<lparr>sendable_plaintext := ?e\<rparr>))"
      "can_send n (with_records rl' rs' ?q)"
    by (auto simp: contents_def)
  have "flush_loop L cs = Some (Inr ((with_records rl' (rs @ rs') cs)\<lparr>sendable_plaintext := ?e\<rparr>))"
    using 2(3) by (subst flush_loop.simps) (simp add: pop 1(3) with_records_twice with_records_plaintext)
  moreover have "contents (sendable_plaintext cs) = ch @ concat chs" by (simp add: contents_def flip: Cons.hyps(2))
  moreover have "can_send n (with_records rl' (rs @ rs') cs)" using 2(4) by (simp add: can_send_def)
  ultimately show ?case using encrypt_all_append [OF 1(1) 2(1)] carries_append [OF 1(2) 2(2)] by (intro exI) simp
qed

section \<open>What arrives\<close>

text \<open>The application data in what a record layer has decrypted.\<close>

definition delivered :: "(Error + (bool \<times> PlainMessage) option) list \<Rightarrow> bytes" where
  "delivered xs = concat (map (\<lambda>x. case opened x of Some m \<Rightarrow> if pm_typ m = CT_ApplicationData then pm_payload m else [] | None \<Rightarrow> []) xs)"

definition in_step :: "'k RecordLayer \<Rightarrow> 'k RecordLayer \<Rightarrow> bool" where
  "in_step w r \<longleftrightarrow> matched (message_encrypter w) (message_decrypter r) \<and> decrypt_state r = Dir_Active \<and> read_seq r = write_seq w"

lemma delivered_carries:
  assumes "aead_ok L" and "in_step w r" and "carries ms bs" and "encrypt_all L ms w = Inr (w', rs)"
  shows "\<exists>r' xs. decrypt_all L rs r = Inr (r', xs) \<and> read_seq r' = write_seq w' \<and> delivered xs = bs"
proof -
  have e: "list_all encryptable ms" using assms(3) by (auto simp: carries_def list_all_iff)
  obtain r' xs where r: "decrypt_all L rs r = Inr (r', xs)" "read_seq r' = write_seq w'"
      "map opened xs = map (\<lambda>m. Some (received (message_encrypter w) m)) ms"
    using decrypt_all_encrypt_all [OF assms(1) _ _ _ e assms(4), of r] assms(2) by (auto simp: in_step_def)
  have rc: "pm_typ (received k m) = pm_typ m" "pm_payload (received k m) = pm_payload m" for k :: "'a MessageEncrypter" and m
    by (cases k; simp)+
  have "delivered xs = concat (map (\<lambda>y. case y of Some m \<Rightarrow> if pm_typ m = CT_ApplicationData then pm_payload m else [] | None \<Rightarrow> []) (map opened xs))"
    by (simp add: delivered_def comp_def)
  also have "\<dots> = concat (map (\<lambda>m. if pm_typ m = CT_ApplicationData then pm_payload m else []) ms)"
    by (simp add: r(3) comp_def rc cong: if_cong)
  also have "\<dots> = concat (map pm_payload ms)"
    using assms(3) by (intro arg_cong [where f = concat]) (auto simp: carries_def list_all_iff)
  also have "\<dots> = bs" using assms(3) by (simp add: carries_def)
  finally show ?thesis using r by blast
qed

section \<open>The soft limit of the sequence number\<close>

lemma close_notify_fragments: "0 < max_frag fr \<Longrightarrow> fragment_message close_notify fr \<noteq> []"
  by (auto simp: fragment_message_def fragment_slice_def close_notify_def PlainMessage_from_def build_alert_def
      AlertMessagePayload_encode_def AlertLevel_encode_def enum8_encode_def u8_encode_def chunks.simps)

lemma send_single_fragment_Some:
  assumes "send_single_fragment L m cs = Some y" and "0 < max_frag (message_fragmenter cs)"
  shows "\<not> (is_encrypting (record_layer cs) \<and> wants_close_before_encrypt (record_layer cs))"
proof -
  have "0 < max_frag (message_fragmenter cs) \<longrightarrow>
      \<not> (is_encrypting (record_layer cs) \<and> wants_close_before_encrypt (record_layer cs))"
    using assms(1)
  proof (rule send_single_fragment.raw_induct [rotated])
    fix f :: "'a aead \<Rightarrow> PlainMessage \<Rightarrow> 'a CommonState \<Rightarrow> 'a CommonState res option"
      and L :: "'a aead" and m and cs :: "'a CommonState" and y
    let ?b = "if wants_close_before_encrypt (record_layer cs) then
          (if is_encrypting (record_layer cs) then for_each (\<lambda>m cs. f L m cs) (fragment_message close_notify (message_fragmenter cs)) cs
           else Some (Inr (send_unencrypted close_notify cs)))
        else Some (Inr cs)"
    assume IH: "\<And>L m cs y. f L m cs = Some y \<Longrightarrow> 0 < max_frag (message_fragmenter cs) \<longrightarrow>
        \<not> (is_encrypting (record_layer cs) \<and> wants_close_before_encrypt (record_layer cs))"
      and b: "ro_bind ?b (\<lambda>cs. if encrypt_exhausted (record_layer cs) then Some (Inr cs)
          else Some (res_bind (encrypt_outgoing L m (record_layer cs)) (\<lambda>(rl, em). Inr (queue_tls_message em (cs\<lparr>record_layer := rl\<rparr>))))) = Some y"
    show "0 < max_frag (message_fragmenter cs) \<longrightarrow> \<not> (is_encrypting (record_layer cs) \<and> wants_close_before_encrypt (record_layer cs))"
    proof (intro impI notI)
      assume p: "0 < max_frag (message_fragmenter cs)" and c: "is_encrypting (record_layer cs) \<and> wants_close_before_encrypt (record_layer cs)"
      obtain x xs where x: "fragment_message close_notify (message_fragmenter cs) = x # xs"
        using close_notify_fragments [OF p] by (cases "fragment_message close_notify (message_fragmenter cs)") auto
      from b c have "f L x cs \<noteq> None" by (auto simp: x ro_bind_def split: option.split_asm)
      with IH p c show False by blast
    qed
  qed
  with assms(2) show ?thesis by blast
qed


section \<open>Properties\<close>

definition example_connection :: "unit CommonState" where
  "example_connection =
     (CommonState_new Side_Client)\<lparr>record_layer := example_layer, sendable_plaintext := \<lparr>cvb_chunks = [[71, 69], [84]], cvb_limit = None\<rparr>\<rparr>"

lemma tag_only_seals: "seals tag_only"
  by (simp add: seals_def tag_only_def)

lemma example_can_send: "can_send (buffered_records example_connection + records_for example_connection 2) example_connection"
  by (simp add: can_send_def example_connection_def example_layer_def CommonState_new_def is_encrypting_def buffered_records_def records_for_def
      MessageFragmenter_default_def fragmenter_ok_def MAX_FRAGMENT_LEN_def SEQ_SOFT_LIMIT_def)

text \<open>
  Application data written to a connection arrives.  When the handshake ends, the plaintext buffered
  until then is sent, in the order in which it was written; what is written afterwards follows it, up
  to the limit of the buffer.  A record layer with the matching keys and sequence number decrypts the
  with_records records to exactly these bytes.
\<close>

theorem written_data_arrives:
  assumes "aead_ok L" and "seals L" and "in_step (record_layer cs) r"
    and "can_send (buffered_records cs + records_for cs (length data)) cs"
  shows "\<exists>cs1 cs2 n rs r' xs. start_traffic L cs = Some (Inr cs1) \<and> send_plain L data limit cs1 = Some (Inr (cs2, n))
    \<and> n = accepted data limit cs1 \<and> contents (sendable_plaintext cs2) = []
    \<and> contents (sendable_tls cs2) = contents (sendable_tls cs) @ concat (map OpaqueMessage_encode rs)
    \<and> decrypt_all L rs r = Inr (r', xs) \<and> read_seq r' = write_seq (record_layer cs2)
    \<and> delivered xs = contents (sendable_plaintext cs) @ take n data"
proof -
  let ?c = "cs\<lparr>may_receive_application_data := True, may_send_application_data := True\<rparr>"
  let ?e = "(sendable_plaintext cs)\<lparr>cvb_chunks := []\<rparr>"
  have "can_send (buffered_records ?c + records_for cs (length data)) ?c"
    using assms(4) by (simp add: can_send_def buffered_records_def records_for_def)
  from flush_loop_sends [OF assms(2) _ this] obtain ms rl rs where 1: "encrypt_all L ms (record_layer cs) = Inr (rl, rs)"
      "carries ms (contents (sendable_plaintext cs))" "flush_loop L ?c = Some (Inr ((with_records rl rs ?c)\<lparr>sendable_plaintext := ?e\<rparr>))"
      "can_send (records_for cs (length data)) (with_records rl rs ?c)"
    by auto
  let ?cs1 = "(with_records rl rs ?c)\<lparr>sendable_plaintext := ?e\<rparr>"
  have start: "start_traffic L cs = Some (Inr ?cs1)"
    using 1(3) by (simp add: start_traffic_def start_outgoing_traffic_def flush_plaintext_def)
  have "can_send (records_for ?cs1 (length data) + 0) ?cs1" using 1(4) by (simp add: can_send_def records_for_def)
  from send_plain_sends [OF assms(2) _ this, of limit] obtain ms' rl' rs' where 2: "encrypt_all L ms' rl = Inr (rl', rs')"
      "carries ms' (take (accepted data limit ?cs1) data)"
      "send_plain L data limit ?cs1 = Some (Inr (with_records rl' rs' ?cs1, accepted data limit ?cs1))"
    by auto
  from delivered_carries [OF assms(1,3) carries_append [OF 1(2) 2(2)] encrypt_all_append [OF 1(1) 2(1)]]
  obtain r' xs where "decrypt_all L (rs @ rs') r = Inr (r', xs)" "read_seq r' = write_seq rl'"
      "delivered xs = contents (sendable_plaintext cs) @ take (accepted data limit ?cs1) data"
    by blast
  moreover have "contents (sendable_tls (with_records rl' rs' ?cs1)) = contents (sendable_tls cs) @ concat (map OpaqueMessage_encode (rs @ rs'))"
    by simp
  moreover have "contents (sendable_plaintext (with_records rl' rs' ?cs1)) = []" by (simp add: contents_def)
  moreover have "record_layer (with_records rl' rs' ?cs1) = rl'" by simp
  ultimately show ?thesis using start 2(3) by metis
qed

theorem written_data_arrives_witness:
  "\<exists>cs1 cs2 rs r' xs. start_traffic tag_only example_connection = Some (Inr cs1)
     \<and> send_plain tag_only [32, 47] Limit_No cs1 = Some (Inr (cs2, 2))
     \<and> contents (sendable_tls cs2) = concat (map OpaqueMessage_encode rs)
     \<and> decrypt_all tag_only rs example_layer = Inr (r', xs) \<and> delivered xs = [71, 69, 84, 32, 47]"
proof -
  have i: "in_step (record_layer example_connection) example_layer"
    by (simp add: in_step_def example_connection_def example_layer_def)
  have c: "contents (sendable_plaintext example_connection) = [71, 69, 84]" "contents (sendable_tls example_connection) = []"
    by (simp_all add: example_connection_def contents_def CommonState_new_def ChunkVecBuffer_new_def)
  have "can_send (buffered_records example_connection + records_for example_connection (length [32, 47 :: u8])) example_connection"
    using example_can_send by (simp add: numeral_2_eq_2)
  from written_data_arrives [OF tag_only_ok tag_only_seals i this, of Limit_No]
  obtain cs1 cs2 n rs r' xs where "start_traffic tag_only example_connection = Some (Inr cs1)"
      "send_plain tag_only [32, 47] Limit_No cs1 = Some (Inr (cs2, 2))"
      "contents (sendable_tls cs2) = concat (map OpaqueMessage_encode rs)"
      "decrypt_all tag_only rs example_layer = Inr (r', xs)" "delivered xs = [71, 69, 84, 32, 47]"
    by (auto simp: c accepted_def numeral_2_eq_2)
  then show ?thesis by blast
qed

text \<open>
  A connection that has used up its sequence numbers does not close: at the soft limit, sending a
  fragment first sends a close alert, which is sent as a fragment while the sequence number is still at
  the limit.  So no further data can be sent: the call never returns.
\<close>

theorem soft_limit_never_returns:
  assumes "is_encrypting (record_layer cs)" and "write_seq (record_layer cs) = SEQ_SOFT_LIMIT" and "fragmenter_ok (message_fragmenter cs)"
    and "may_send_application_data cs" and "data \<noteq> []"
  shows "send_close_notify L cs = None \<and> send_plain L data Limit_No cs = None"
proof -
  have p: "0 < max_frag (message_fragmenter cs)" using assms(3) by (simp add: fragmenter_ok_def)
  have s: "send_single_fragment L m cs = None" for m
    using send_single_fragment_Some [of L m cs] assms(1,2) p by (cases "send_single_fragment L m cs") (auto simp: wants_close_before_encrypt_def)
  then have f: "for_each (send_single_fragment L) ms cs = None" if "ms \<noteq> []" for ms using that by (cases ms) simp_all
  have "fragment_slice CT_ApplicationData TLSv1_2 data (message_fragmenter cs) \<noteq> []"
    using p assms(5) by (auto simp: fragment_slice_def chunks.simps [of _ data])
  from f [OF this] f [OF close_notify_fragments [OF p]] assms(1,4,5) show ?thesis
    by (simp add: send_close_notify_def send_warning_alert_def send_msg_def send_msg_encrypt_def send_plain_def send_appdata_encrypt_def
        flip: close_notify_def)
qed

theorem soft_limit_never_returns_witness:
  "send_plain tag_only [1] Limit_No
     (example_connection\<lparr>record_layer := example_layer\<lparr>write_seq := 0xffffffffffff0000\<rparr>, may_send_application_data := True\<rparr>) = None"
  by (rule soft_limit_never_returns [THEN conjunct2])
    (simp_all add: example_connection_def example_layer_def is_encrypting_def SEQ_SOFT_LIMIT_def CommonState_new_def)

end
