(* ===== verification/Tls_Flow.thy ===== *)
theory Tls_Flow
  imports Listener_Stack Tls_Common
begin

text \<open>
  The TLS layer (\<open>crates/net_decode/src/tls.rs\<close>): the per-flow handshake states, the tracker of
  flows, and the queue of records that wait for keys.

  The layer reaches the rustls fork through the operations in the record \<open>rustls\<close>: the record
  deframer, the message parser and the key schedules.  The types of the deframer, of the common state,
  of a deframed record and of the two key schedules are type variables here; the fork's own
  definitions are put in their place in \<open>Tls_Intercept\<close>.  The key database is shared with the layer
  above, so it is an argument.

  The loop that drains the deframer ends only if the deframer runs dry, so it is a partial function
  whose result is undefined (\<open>None\<close>) when it does not.
\<close>

section \<open>The interface to rustls\<close>

record ('d, 'c, 'p, 'v, 'w) rustls =
  df_default :: 'd
  cs_new :: "Side \<Rightarrow> 'c"
  df_read :: "'d \<Rightarrow> bytes \<Rightarrow> ('d \<times> bytes) res"
  df_pop :: "'d \<Rightarrow> 'c \<Rightarrow> ('d \<times> 'c \<times> ('p \<times> bool) option) res"
  finish_trial_decryption :: "'c \<Rightarrow> 'c"
  message_try_from :: "'p \<Rightarrow> Message option"
  handshake_from_data :: "Tls13CipherSuite \<Rightarrow> bytes \<Rightarrow> bytes \<Rightarrow> 'v res"
  install_client_handshake_secrets :: "'v \<Rightarrow> bool \<Rightarrow> 'c \<Rightarrow> 'c res"
  install_server_handshake_secrets :: "'v \<Rightarrow> 'c \<Rightarrow> 'c res"
  traffic_from_data :: "Tls13CipherSuite \<Rightarrow> bytes \<Rightarrow> bytes \<Rightarrow> bytes \<Rightarrow> 'w res"
  load_keys :: "'w \<Rightarrow> Side \<Rightarrow> 'c \<Rightarrow> 'c res"

section \<open>One side of a flow\<close>

datatype TLSDecodeError = MissingKey ClientRandom | UnknownCipherSuite | RustlsError Error

record ('d, 'c) TLSSide =
  common_state :: 'c
  deframer :: 'd
  read_buffer :: bytes

definition TLSSide_new :: "('d, 'c, 'p, 'v, 'w) rustls \<Rightarrow> Side \<Rightarrow> ('d, 'c) TLSSide" where
  "TLSSide_new R side = \<lparr>common_state = cs_new R side, deframer = df_default R, read_buffer = []\<rparr>"

definition deframe :: "('d, 'c, 'p, 'v, 'w) rustls \<Rightarrow> ('d, 'c) TLSSide \<Rightarrow> (('d, 'c) TLSSide \<times> 'p option) res" where
  "deframe R side =
     res_bind (df_pop R (deframer side) (common_state side)) (\<lambda>(df, cs, r).
       case r of
         Some (message, finished) \<Rightarrow>
           Inr (side\<lparr>deframer := df,
                     common_state := if finished then finish_trial_decryption R cs else cs\<rparr>,
                Some message)
       | None \<Rightarrow> Inr (side\<lparr>deframer := df, common_state := cs\<rparr>, None))"

section \<open>The handshake states\<close>

datatype TLSState =
    Failed
  | ExpectClientHello
  | ExpectServerHello ClientRandom
  | WaitForFinish Tls13CipherSuite ClientRandom bool bool
  | NeedKeys TLSState ClientRandom

record ('d, 'c) TLSFlow =
  tls_server :: "('d, 'c) TLSSide"
  tls_client :: "('d, 'c) TLSSide"
  tls_state :: TLSState

definition TLSFlow_new :: "('d, 'c, 'p, 'v, 'w) rustls \<Rightarrow> ('d, 'c) TLSFlow" where
  "TLSFlow_new R =
     \<lparr>tls_server = TLSSide_new R Side_Server, tls_client = TLSSide_new R Side_Client, tls_state = ExpectClientHello\<rparr>"

fun blocked_on_keys :: "TLSState \<Rightarrow> ClientRandom option" where
  "blocked_on_keys (NeedKeys s cr) = Some cr"
| "blocked_on_keys s = None"

text \<open>The calls of the two closures in \<open>CommonData\<close>.\<close>

datatype drive_event = Next bool bytes | AlpnCompleted "ProtocolName list"

datatype drive_result = Drive_Ok TLSState | Drive_Err TLSState TLSDecodeError

definition find_protocols :: "ServerExtension list \<Rightarrow> ProtocolName list option" where
  "find_protocols exts =
     find_map (\<lambda>ext. case ext of SE_Protocols protos \<Rightarrow> Some (map ProtocolName protos) | _ \<Rightarrow> None) exts"

definition secret_bytes :: "Secret \<Rightarrow> bytes" where
  "secret_bytes s = (case s of Secret bs \<Rightarrow> bs)"

definition drive_ExpectServerHello ::
  "('d, 'c, 'p, 'v, 'w) rustls \<Rightarrow> KeyDB \<Rightarrow> ClientRandom \<Rightarrow> ('d, 'c) TLSFlow \<Rightarrow> bool \<Rightarrow> Message \<Rightarrow>
   (drive_result \<times> ('d, 'c) TLSFlow \<times> drive_event list) res" where
  "drive_ExpectServerHello R key_db cr flow to_client msg =
     (let self = ExpectServerHello cr
      in if to_client then
           (case require_handshake_msg msg HT_ServerHello as_ServerHello of
              Inl e \<Rightarrow> Inr (Drive_Err self (RustlsError e), flow, [])
            | Inr shp \<Rightarrow>
           (case lookup_secret key_db cr ClientHandshakeTrafficSecret of
              None \<Rightarrow> Inr (Drive_Err self (MissingKey cr), flow, [])
            | Some client_secret \<Rightarrow>
           (case lookup_secret key_db cr ServerHandshakeTrafficSecret of
              None \<Rightarrow> Inr (Drive_Err self (MissingKey cr), flow, [])
            | Some server_secret \<Rightarrow>
           (case find (\<lambda>s. suite_id s = sh_cipher_suite shp) ALL_CIPHER_SUITES of
              None \<Rightarrow> Inr (Drive_Err self UnknownCipherSuite, flow, [])
            | Some (Suite_Tls12 suite) \<Rightarrow> Inl UnimplementedCode
            | Some (Suite_Tls13 suite) \<Rightarrow>
                (let client = tls_client flow; server = tls_server flow
                 in res_bind (handshake_from_data R suite (secret_bytes client_secret) (secret_bytes server_secret)) (\<lambda>ks.
                    res_bind (install_client_handshake_secrets R ks False (common_state client)) (\<lambda>client_cs.
                    res_bind (install_server_handshake_secrets R ks (common_state server)) (\<lambda>server_cs.
                      Inr (Drive_Ok (WaitForFinish suite cr False False),
                           flow\<lparr>tls_client := client\<lparr>common_state := client_cs\<rparr>, tls_server := server\<lparr>common_state := server_cs\<rparr>\<rparr>,
                           [])))))))))
         else Inl UnreachableCode)"

definition drive_WaitForFinish ::
  "('d, 'c, 'p, 'v, 'w) rustls \<Rightarrow> KeyDB \<Rightarrow> Tls13CipherSuite \<Rightarrow> ClientRandom \<Rightarrow> bool \<Rightarrow> bool \<Rightarrow> ('d, 'c) TLSFlow \<Rightarrow> bool \<Rightarrow>
   Message \<Rightarrow> (drive_result \<times> ('d, 'c) TLSFlow \<times> drive_event list) res" where
  "drive_WaitForFinish R key_db suite cr client_finished server_finished flow to_client msg =
     (let self = WaitForFinish suite cr client_finished server_finished
      in case msg_payload msg of
           MP_Handshake parsed _ \<Rightarrow>
             (case if hmp_typ parsed = HT_EncryptedExtensions then as_EncryptedExtensions (hmp_payload parsed) else None of
                Some exts \<Rightarrow>
                  (case find_protocols exts of
                     Some protos \<Rightarrow> Inr (Drive_Ok self, flow, [AlpnCompleted protos])
                   | None \<Rightarrow> Inr (Drive_Ok self, flow, []))
              | None \<Rightarrow>
                  if hmp_typ parsed = HT_Finished then
                    (case lookup_secret key_db cr ClientTrafficSecret0 of
                       None \<Rightarrow> Inr (Drive_Err self (MissingKey cr), flow, [])
                     | Some client_secret \<Rightarrow>
                    (case lookup_secret key_db cr ServerTrafficSecret0 of
                       None \<Rightarrow> Inr (Drive_Err self (MissingKey cr), flow, [])
                     | Some server_secret \<Rightarrow>
                    (case lookup_secret key_db cr ExporterSecret of
                       None \<Rightarrow> Inr (Drive_Err self (MissingKey cr), flow, [])
                     | Some exporter_secret \<Rightarrow>
                         res_bind (traffic_from_data R suite (secret_bytes client_secret) (secret_bytes server_secret)
                                     (secret_bytes exporter_secret)) (\<lambda>ks.
                           if \<not> to_client then
                             (let client = tls_client flow; server = tls_server flow
                              in res_bind (load_keys R ks Side_Server (common_state server)) (\<lambda>server_cs.
                                 res_bind (load_keys R ks Side_Client (common_state client)) (\<lambda>client_cs.
                                   Inr (Drive_Ok (WaitForFinish suite cr client_finished True),
                                        flow\<lparr>tls_server := server\<lparr>common_state := server_cs\<rparr>, tls_client := client\<lparr>common_state := client_cs\<rparr>\<rparr>,
                                        []))))
                           else Inr (Drive_Ok (WaitForFinish suite cr True server_finished), flow, [])))))
                  else Inr (Drive_Ok self, flow, []))
         | MP_ApplicationData p \<Rightarrow> Inr (Drive_Ok self, flow, [Next to_client p])
         | _ \<Rightarrow> Inr (Drive_Ok self, flow, []))"

fun drive ::
  "('d, 'c, 'p, 'v, 'w) rustls \<Rightarrow> KeyDB \<Rightarrow> TLSState \<Rightarrow> ('d, 'c) TLSFlow \<Rightarrow> bool \<Rightarrow> Message \<Rightarrow>
   (drive_result \<times> ('d, 'c) TLSFlow \<times> drive_event list) res" where
  "drive R key_db Failed flow to_client msg = Inr (Drive_Ok Failed, flow, [])"
| "drive R key_db ExpectClientHello flow to_client msg =
     (if to_client then Inr (Drive_Ok Failed, flow, [])
      else
        (case require_handshake_msg msg HT_ClientHello as_ClientHello of
           Inl e \<Rightarrow> Inr (Drive_Err ExpectClientHello (RustlsError e), flow, [])
         | Inr chp \<Rightarrow> Inr (Drive_Ok (ExpectServerHello (ClientRandom (ch_random chp))), flow, [])))"
| "drive R key_db (ExpectServerHello cr) flow to_client msg =
     drive_ExpectServerHello R key_db cr flow to_client msg"
| "drive R key_db (WaitForFinish suite cr cf sf) flow to_client msg =
     drive_WaitForFinish R key_db suite cr cf sf flow to_client msg"
| "drive R key_db (NeedKeys next_state cr) flow to_client msg =
     drive R key_db next_state flow to_client msg"

section \<open>The tracker\<close>

datatype Queued = Queued_Raw bytes | Queued_Message Message

datatype ('a, 'e) OkOrRetry = Ok 'a | Retry 'e

definition is_tls :: "IPTarget \<Rightarrow> bool" where
  "is_tls target \<longleftrightarrow> server_port target = 443"

text \<open>The two closures that \<open>do_message\<close> puts into \<open>CommonData\<close>.\<close>

definition call_of_event :: "TimingInfo \<Rightarrow> IPTarget \<Rightarrow> drive_event \<Rightarrow> bytes listener_call" where
  "call_of_event timing target e =
     (case e of
        Next to_client data \<Rightarrow>
          OnData (timing\<lparr>other_times :=
              typemap_insert TlsConnectionStart (received_on_wire timing) (other_times timing)\<rparr>)
            target to_client data
      | AlpnCompleted protos \<Rightarrow> OnSideData (ALPNCompleted target protos))"

definition do_message ::
  "('d, 'c, 'p, 'v, 'w) rustls \<Rightarrow> KeyDB \<Rightarrow> ('d, 'c) TLSFlow \<Rightarrow> bool \<Rightarrow> Message \<Rightarrow> TimingInfo \<Rightarrow> IPTarget \<Rightarrow>
   ((bool, ClientRandom) OkOrRetry \<times> ('d, 'c) TLSFlow \<times> bytes listener_call list) res" where
  "do_message R key_db entry to_client msg timing target =
     (let state = tls_state entry; entry = entry\<lparr>tls_state := Failed\<rparr>
      in res_bind (drive R key_db state entry to_client msg) (\<lambda>(new_state, entry, events).
           (let calls = map (call_of_event timing target) events
            in case new_state of
                 Drive_Ok s \<Rightarrow> Inr (Ok True, entry\<lparr>tls_state := s\<rparr>, calls)
               | Drive_Err state (MissingKey cr) \<Rightarrow>
                   Inr (Retry cr, entry\<lparr>tls_state := NeedKeys state cr\<rparr>, calls)
               | Drive_Err state e \<Rightarrow> Inr (Ok False, entry, calls))))"

definition flow_side :: "bool \<Rightarrow> ('d, 'c) TLSFlow \<Rightarrow> ('d, 'c) TLSSide" where
  "flow_side to_client entry = (if to_client then tls_client entry else tls_server entry)"

definition set_flow_side :: "bool \<Rightarrow> ('d, 'c) TLSSide \<Rightarrow> ('d, 'c) TLSFlow \<Rightarrow> ('d, 'c) TLSFlow" where
  "set_flow_side to_client side entry =
     (if to_client then entry\<lparr>tls_client := side\<rparr> else entry\<lparr>tls_server := side\<rparr>)"

text \<open>The first half of a round of the loop: feed the deframer from the buffer and pop a record.\<close>

definition read_and_deframe ::
  "('d, 'c, 'p, 'v, 'w) rustls \<Rightarrow> ('d, 'c) TLSSide \<Rightarrow> (('d, 'c) TLSSide \<times> 'p option) res" where
  "read_and_deframe R side =
     res_bind (df_read R (deframer side) (read_buffer side)) (\<lambda>(df, rest).
       deframe R (side\<lparr>deframer := df, read_buffer := rest\<rparr>))"

datatype ('d, 'c) round =
    Break "(unit, ClientRandom \<times> Queued) OkOrRetry" "('d, 'c) TLSFlow" "bytes listener_call list"
  | Continue "('d, 'c) TLSFlow" "bytes listener_call list"

definition on_data_round ::
  "('d, 'c, 'p, 'v, 'w) rustls \<Rightarrow> KeyDB \<Rightarrow> TimingInfo \<Rightarrow> IPTarget \<Rightarrow> bool \<Rightarrow> ('d, 'c) TLSFlow \<Rightarrow> ('d, 'c) round res" where
  "on_data_round R key_db timing target to_client entry =
     res_bind (read_and_deframe R (flow_side to_client entry)) (\<lambda>(side, msg).
       (let entry = set_flow_side to_client side entry
        in case msg of
             None \<Rightarrow> Inr (Break (Ok ()) entry [])
           | Some v \<Rightarrow>
               (case message_try_from R v of
                  None \<Rightarrow> Inr (Continue entry [])
                | Some msg \<Rightarrow>
                    res_bind (do_message R key_db entry to_client msg timing target) (\<lambda>(r, entry, calls).
                      Inr (case r of
                             Ok b \<Rightarrow> if b then Continue entry calls else Break (Ok ()) entry calls
                           | Retry cr \<Rightarrow> Break (Retry (cr, Queued_Message msg)) entry calls)))))"

partial_function (option) on_data_loop ::
  "('d, 'c, 'p, 'v, 'w) rustls \<Rightarrow> KeyDB \<Rightarrow> TimingInfo \<Rightarrow> IPTarget \<Rightarrow> bool \<Rightarrow> ('d, 'c) TLSFlow \<Rightarrow>
   bytes listener_call list \<Rightarrow>
   ((unit, ClientRandom \<times> Queued) OkOrRetry \<times> ('d, 'c) TLSFlow \<times> bytes listener_call list) res option" where
  "on_data_loop R key_db timing target to_client entry out =
     (case on_data_round R key_db timing target to_client entry of
        Inl p \<Rightarrow> Some (Inl p)
      | Inr step \<Rightarrow>
          (case step of
             Break r entry calls \<Rightarrow> Some (Inr (r, entry, out @ calls))
           | Continue entry calls \<Rightarrow> on_data_loop R key_db timing target to_client entry (out @ calls)))"

record ('d, 'c) TLSFlowTracker =
  queued :: "ClientRandom \<rightharpoonup> (MessageMeta \<times> Queued) list"
  tls_flows :: "IPTarget \<rightharpoonup> ('d, 'c) TLSFlow"

definition TLSFlowTracker_new :: "('d, 'c) TLSFlowTracker" where
  "TLSFlowTracker_new = \<lparr>queued = Map.empty, tls_flows = Map.empty\<rparr>"

definition tls_entry ::
  "('d, 'c, 'p, 'v, 'w) rustls \<Rightarrow> IPTarget \<Rightarrow> (IPTarget \<rightharpoonup> ('d, 'c) TLSFlow) \<Rightarrow> ('d, 'c) TLSFlow" where
  "tls_entry R target fs = (case fs target of Some e \<Rightarrow> e | None \<Rightarrow> TLSFlow_new R)"

definition process_message ::
  "('d, 'c, 'p, 'v, 'w) rustls \<Rightarrow> KeyDB \<Rightarrow> MessageMeta \<Rightarrow> Message \<Rightarrow> (IPTarget \<rightharpoonup> ('d, 'c) TLSFlow) \<Rightarrow>
   ((bool, ClientRandom) OkOrRetry \<times> (IPTarget \<rightharpoonup> ('d, 'c) TLSFlow) \<times> bytes listener_call list) res" where
  "process_message R key_db meta message fs =
     res_bind (do_message R key_db (tls_entry R (mm_target meta) fs) (mm_to_client meta) message
                 (mm_timing meta) (mm_target meta))
       (\<lambda>(r, entry, calls). Inr (r, fs(mm_target meta \<mapsto> entry), calls))"

definition inner_on_data ::
  "('d, 'c, 'p, 'v, 'w) rustls \<Rightarrow> KeyDB \<Rightarrow> TimingInfo \<Rightarrow> IPTarget \<Rightarrow> bool \<Rightarrow> bytes \<Rightarrow>
   (IPTarget \<rightharpoonup> ('d, 'c) TLSFlow) \<Rightarrow>
   ((unit, ClientRandom \<times> Queued) OkOrRetry \<times> (IPTarget \<rightharpoonup> ('d, 'c) TLSFlow) \<times> bytes listener_call list) res option" where
  "inner_on_data R key_db timing target to_client data fs =
     (if \<not> is_tls target then Some (Inr (Ok (), fs, []))
      else
        (let entry = tls_entry R target fs
         in case blocked_on_keys (tls_state entry) of
              Some cr \<Rightarrow> Some (Inr (Retry (cr, Queued_Raw data), fs(target \<mapsto> entry), []))
            | None \<Rightarrow>
                (let side = flow_side to_client entry;
                     side = side\<lparr>read_buffer := read_buffer side @ data\<rparr>
                 in map_option (\<lambda>r. res_bind r (\<lambda>(r, entry, calls). Inr (r, fs(target \<mapsto> entry), calls)))
                      (on_data_loop R key_db timing target to_client (set_flow_side to_client side entry) []))))"

definition process_queued ::
  "('d, 'c, 'p, 'v, 'w) rustls \<Rightarrow> KeyDB \<Rightarrow> MessageMeta \<Rightarrow> Queued \<Rightarrow> (IPTarget \<rightharpoonup> ('d, 'c) TLSFlow) \<Rightarrow>
   ((unit, Queued) OkOrRetry \<times> (IPTarget \<rightharpoonup> ('d, 'c) TLSFlow) \<times> bytes listener_call list) res option" where
  "process_queued R key_db meta q fs =
     (case q of
        Queued_Raw v \<Rightarrow>
          map_option (\<lambda>r. res_bind r (\<lambda>(r, fs, calls).
              Inr (case r of Ok u \<Rightarrow> Ok () | Retry (cr, q) \<Rightarrow> Retry q, fs, calls)))
            (inner_on_data R key_db (mm_timing meta) (mm_target meta) (mm_to_client meta) v fs)
      | Queued_Message msg \<Rightarrow>
          Some (res_bind (process_message R key_db meta msg fs) (\<lambda>(r, fs, calls).
              Inr (case r of Ok b \<Rightarrow> Ok () | Retry cr \<Rightarrow> Retry (Queued_Message msg), fs, calls))))"

definition enqueue ::
  "MessageMeta \<Rightarrow> Queued \<Rightarrow> ClientRandom \<Rightarrow> ('d, 'c) TLSFlowTracker \<Rightarrow> ('d, 'c) TLSFlowTracker" where
  "enqueue meta q cr t =
     t\<lparr>queued := (queued t)(cr \<mapsto> (case queued t cr of Some qs \<Rightarrow> qs | None \<Rightarrow> []) @ [(meta, q)])\<rparr>"

text \<open>The loop of \<open>on_side_data\<close> over the queue of one client random; the result carries the queue left.\<close>

fun drain_queue ::
  "('d, 'c, 'p, 'v, 'w) rustls \<Rightarrow> KeyDB \<Rightarrow> (MessageMeta \<times> Queued) list \<Rightarrow> (IPTarget \<rightharpoonup> ('d, 'c) TLSFlow) \<Rightarrow>
   ((MessageMeta \<times> Queued) list \<times> (IPTarget \<rightharpoonup> ('d, 'c) TLSFlow) \<times> bytes listener_call list) res option" where
  "drain_queue R key_db [] fs = Some (Inr ([], fs, []))"
| "drain_queue R key_db ((meta, q) # qs) fs =
     (case process_queued R key_db meta q fs of
        None \<Rightarrow> None
      | Some (Inl p) \<Rightarrow> Some (Inl p)
      | Some (Inr (Retry q', fs, calls)) \<Rightarrow> Some (Inr ((meta, q') # qs, fs, calls))
      | Some (Inr (Ok u, fs, calls)) \<Rightarrow>
          map_option (\<lambda>r. res_bind r (\<lambda>(qs, fs, calls'). Inr (qs, fs, calls @ calls')))
            (drain_queue R key_db qs fs))"

definition tracker_on_data ::
  "('d, 'c, 'p, 'v, 'w) rustls \<Rightarrow> KeyDB \<Rightarrow> TimingInfo \<Rightarrow> IPTarget \<Rightarrow> bool \<Rightarrow> bytes \<Rightarrow> ('d, 'c) TLSFlowTracker \<Rightarrow>
   (('d, 'c) TLSFlowTracker \<times> bytes listener_call list) res option" where
  "tracker_on_data R key_db timing target to_client data t =
     (let meta = \<lparr>mm_timing = timing, mm_target = target, mm_to_client = to_client\<rparr>
      in map_option (\<lambda>r. res_bind r (\<lambda>(r, fs, calls).
             Inr (case r of
                    Ok u \<Rightarrow> t\<lparr>tls_flows := fs\<rparr>
                  | Retry (cr, m) \<Rightarrow> enqueue meta m cr (t\<lparr>tls_flows := fs\<rparr>), calls)))
           (inner_on_data R key_db timing target to_client data (tls_flows t)))"

definition tracker_on_side_data ::
  "('d, 'c, 'p, 'v, 'w) rustls \<Rightarrow> KeyDB \<Rightarrow> SideData \<Rightarrow> ('d, 'c) TLSFlowTracker \<Rightarrow>
   (('d, 'c) TLSFlowTracker \<times> bytes listener_call list) res option" where
  "tracker_on_side_data R key_db d t =
     (case d of
        NewKeyReceived typ cr secret \<Rightarrow>
          (case queued t cr of
             None \<Rightarrow> Some (Inr (t, [OnSideData d]))
           | Some q \<Rightarrow>
               map_option (\<lambda>r. res_bind r (\<lambda>(q, fs, calls).
                   Inr (t\<lparr>queued := (queued t)(cr \<mapsto> q), tls_flows := fs\<rparr>, calls @ [OnSideData d])))
                 (drain_queue R key_db q (tls_flows t)))
      | ALPNCompleted target protos \<Rightarrow> Some (Inr (t, [OnSideData d])))"

end
