(* ===== verification/Tls_Queue.thy ===== *)
theory Tls_Queue
  imports Tls_Flow
begin

text \<open>
  What the TLS layer guarantees: the handshake states a flow can be in, the loop over the deframer
  (its result, the calls it makes and when it returns), the queue of records that wait for keys,
  and the replay of a queued record once its keys are known.
\<close>

section \<open>States\<close>

text \<open>A flow waits for keys only on behalf of a state that asked for them, under that state's client random.\<close>

fun state_ok :: "TLSState \<Rightarrow> bool" where
  "state_ok (NeedKeys (ExpectServerHello cr') cr) = (cr' = cr)"
| "state_ok (NeedKeys (WaitForFinish su cr' cf sf) cr) = (cr' = cr)"
| "state_ok (NeedKeys s cr) = False"
| "state_ok s = True"

fun state_random :: "TLSState \<Rightarrow> ClientRandom option" where
  "state_random (ExpectServerHello cr) = Some cr"
| "state_random (WaitForFinish su cr cf sf) = Some cr"
| "state_random (NeedKeys s cr) = Some cr"
| "state_random s = None"

text \<open>A flow keeps its client random until it fails, and then stays failed.\<close>

definition keeps_random :: "TLSState \<Rightarrow> TLSState \<Rightarrow> bool" where
  "keeps_random s s' \<longleftrightarrow> (s = Failed \<longrightarrow> s' = Failed)
     \<and> (\<forall>cr. state_random s = Some cr \<longrightarrow> state_random s' = Some cr \<or> s' = Failed)"

lemma keeps_random_refl [simp]: "keeps_random s s"
  by (simp add: keeps_random_def)

lemma keeps_random_trans: "keeps_random s t \<Longrightarrow> keeps_random t u \<Longrightarrow> keeps_random s u"
  by (auto simp: keeps_random_def)

text \<open>The states that \<open>drive\<close> returns with success are not waiting.\<close>

lemma drive_ExpectServerHello_cases:
  assumes "drive_ExpectServerHello R db cr fl c msg = Inr (r, fl', ev)"
  shows "ev = [] \<and> ((\<exists>su. r = Drive_Ok (WaitForFinish su cr False False)) \<or>
           (\<exists>e. r = Drive_Err (ExpectServerHello cr) e \<and> (\<forall>cr'. e = MissingKey cr' \<longrightarrow> cr' = cr)))"
  using assms
  by (auto simp: drive_ExpectServerHello_def Let_def res_bind_Inr_iff
      split: if_splits option.splits sum.splits SupportedCipherSuite.splits)

lemma drive_WaitForFinish_cases:
  assumes "drive_WaitForFinish R db su cr cf sf fl c msg = Inr (r, fl', ev)"
  shows "(\<exists>cf' sf'. r = Drive_Ok (WaitForFinish su cr cf' sf')) \<or>
           (r = Drive_Err (WaitForFinish su cr cf sf) (MissingKey cr) \<and> ev = [])"
  using assms
  by (auto simp: drive_WaitForFinish_def Let_def res_bind_Inr_iff
      split: if_splits option.splits MessagePayload.splits)

lemma drive_ok:
  assumes "drive R db s fl c msg = Inr (r, fl', ev)" and "state_ok s"
  shows "case r of
           Drive_Ok s' \<Rightarrow> blocked_on_keys s' = None \<and> state_ok s'
             \<and> keeps_random s s'
         | Drive_Err s' e \<Rightarrow> (\<forall>cr. e = MissingKey cr \<longrightarrow> state_ok (NeedKeys s' cr) \<and> state_random s = Some cr)"
  using assms
proof (induction s)
  case (ExpectServerHello cr)
  from drive_ExpectServerHello_cases [OF ExpectServerHello(1) [simplified]] show ?case by (auto simp: keeps_random_def)
next
  case (WaitForFinish su cr cf sf)
  then have "drive_WaitForFinish R db su cr cf sf fl c msg = Inr (r, fl', ev)" by simp
  from drive_WaitForFinish_cases [OF this] show ?case by (auto simp: keeps_random_def)
next
  case (NeedKeys s cr)
  then show ?case by (cases s) (auto simp: keeps_random_def split: drive_result.splits)
qed (auto simp: keeps_random_def split: if_splits sum.splits)

text \<open>No state touches the deframers or the read buffers.\<close>

definition buffers :: "('d, 'c) TLSFlow \<Rightarrow> bool \<Rightarrow> 'd \<times> bytes" where
  "buffers fl c = (deframer (flow_side c fl), read_buffer (flow_side c fl))"

lemma drive_ExpectServerHello_keeps:
  "drive_ExpectServerHello R db cr fl c msg = Inr (r, fl', ev) \<Longrightarrow>
   tls_state fl' = tls_state fl \<and> buffers fl' d = buffers fl d"
  by (auto simp: drive_ExpectServerHello_def Let_def res_bind_Inr_iff buffers_def flow_side_def
      split: if_splits option.splits sum.splits SupportedCipherSuite.splits)

lemma drive_WaitForFinish_keeps:
  "drive_WaitForFinish R db su cr cf sf fl c msg = Inr (r, fl', ev) \<Longrightarrow>
   tls_state fl' = tls_state fl \<and> buffers fl' d = buffers fl d"
  by (auto simp: drive_WaitForFinish_def Let_def res_bind_Inr_iff buffers_def flow_side_def
      split: if_splits option.splits MessagePayload.splits)

lemma drive_keeps:
  assumes "drive R db s fl c msg = Inr (r, fl', ev)"
  shows "tls_state fl' = tls_state fl \<and> buffers fl' d = buffers fl d"
  using assms
proof (induction s)
  case (ExpectServerHello cr)
  then show ?case by (auto dest: drive_ExpectServerHello_keeps)
next
  case (WaitForFinish su cr cf sf)
  then show ?case by (auto dest: drive_WaitForFinish_keeps)
qed (auto split: if_splits sum.splits)

lemma do_message_Inr:
  assumes "do_message R db entry c msg timing target = Inr (r, entry', calls)"
  obtains dr entry1 ev s where
    "drive R db (tls_state entry) (entry\<lparr>tls_state := Failed\<rparr>) c msg = Inr (dr, entry1, ev)"
    "calls = map (call_of_event timing target) ev" "entry' = entry1\<lparr>tls_state := s\<rparr>"
    "case dr of Drive_Ok s1 \<Rightarrow> r = Ok True \<and> s = s1
     | Drive_Err s1 (MissingKey cr) \<Rightarrow> r = Retry cr \<and> s = NeedKeys s1 cr
     | Drive_Err s1 e \<Rightarrow> r = Ok False \<and> s = tls_state entry1"
proof -
  obtain dr entry1 ev where d:
    "drive R db (tls_state entry) (entry\<lparr>tls_state := Failed\<rparr>) c msg = Inr (dr, entry1, ev)"
    using assms by (auto simp: do_message_def Let_def res_simps)
  show ?thesis
  proof (cases dr)
    case (Drive_Ok s1)
    with assms d show ?thesis by (auto intro!: that simp: do_message_def Let_def)
  next
    case (Drive_Err s1 e)
    with assms d show ?thesis by (cases e) (auto intro!: that simp: do_message_def Let_def)
  qed
qed

lemma do_message_ok:
  assumes "do_message R db entry c msg timing target = Inr (r, entry', calls)" and "state_ok (tls_state entry)"
  shows "state_ok (tls_state entry')
    \<and> (case r of
         Ok b \<Rightarrow> blocked_on_keys (tls_state entry') = None
       | Retry cr \<Rightarrow> blocked_on_keys (tls_state entry') = Some cr)
    \<and> keeps_random (tls_state entry) (tls_state entry')"
proof -
  obtain dr entry1 ev where d:
    "drive R db (tls_state entry) (entry\<lparr>tls_state := Failed\<rparr>) c msg = Inr (dr, entry1, ev)"
    using assms(1) by (auto simp: do_message_def Let_def res_simps)
  have st: "tls_state entry1 = Failed" using drive_keeps [OF d] by simp
  from drive_ok [OF d assms(2)] d st assms(1) show ?thesis
    by (auto simp: do_message_def Let_def keeps_random_def split: drive_result.splits TLSDecodeError.splits)
qed


lemma flow_side_set [simp]:
  "flow_side c (set_flow_side c sd fl) = sd" "tls_state (set_flow_side c sd fl) = tls_state fl"
  by (simp_all add: flow_side_def set_flow_side_def)

section \<open>The loop over the deframer\<close>

text \<open>
  What holds when the loop returns: the flow waits for keys exactly if the loop asked for a retry,
  and a client random once known stays the flow's.
\<close>

definition loop_post ::
  "TLSState \<Rightarrow> (unit, ClientRandom \<times> Queued) OkOrRetry \<Rightarrow> TLSState \<Rightarrow> bool" where
  "loop_post s r s' \<longleftrightarrow> state_ok s'
     \<and> (case r of Ok u \<Rightarrow> blocked_on_keys s' = None
         | Retry (cr, q) \<Rightarrow> blocked_on_keys s' = Some cr \<and> (\<exists>m. q = Queued_Message m))
     \<and> keeps_random s s'"

lemma loop_post_trans: "keeps_random s t \<Longrightarrow> loop_post t r u \<Longrightarrow> loop_post s r u"
  by (auto simp: loop_post_def intro: keeps_random_trans)

lemma do_message_buffers:
  assumes "do_message R db entry c msg timing target = Inr (r, entry', calls)"
  shows "buffers entry' d = buffers entry d"
proof -
  from assms obtain dr entry1 ev s where d:
    "drive R db (tls_state entry) (entry\<lparr>tls_state := Failed\<rparr>) c msg = Inr (dr, entry1, ev)"
    "entry' = entry1\<lparr>tls_state := s\<rparr>"
    by (rule do_message_Inr)
  from drive_keeps [OF d(1), of d] d(2) show ?thesis by (auto simp: buffers_def flow_side_def)
qed

text \<open>One round of the loop.\<close>

definition round_flow :: "('d, 'c) round \<Rightarrow> ('d, 'c) TLSFlow" where
  "round_flow step = (case step of Break r entry calls \<Rightarrow> entry | Continue entry calls \<Rightarrow> entry)"

definition round_calls :: "('d, 'c) round \<Rightarrow> bytes listener_call list" where
  "round_calls step = (case step of Break r entry calls \<Rightarrow> calls | Continue entry calls \<Rightarrow> calls)"

lemmas round_simps [simp] = round_flow_def round_calls_def

lemma buffers_set [simp]:
  "buffers (set_flow_side c side entry) d = (if d = c then (deframer side, read_buffer side) else buffers entry d)"
  by (simp add: buffers_def flow_side_def set_flow_side_def)

lemma on_data_round_cases:
  assumes "on_data_round R db timing target c entry = Inr step"
  obtains (idle) side msg where "read_and_deframe R (flow_side c entry) = Inr (side, msg)" "round_flow step = set_flow_side c side entry"
      "round_calls step = []" "\<forall>v. msg = Some v \<longrightarrow> message_try_from R v = None"
      "step = (case msg of None \<Rightarrow> Break (Ok ()) (set_flow_side c side entry) [] | Some v \<Rightarrow> Continue (set_flow_side c side entry) [])"
  | (message) side v msg r e calls where "read_and_deframe R (flow_side c entry) = Inr (side, Some v)" "message_try_from R v = Some msg"
      "do_message R db (set_flow_side c side entry) c msg timing target = Inr (r, e, calls)"
      "step = (case r of Ok b \<Rightarrow> if b then Continue e calls else Break (Ok ()) e calls | Retry cr \<Rightarrow> Break (Retry (cr, Queued_Message msg)) e calls)"
proof -
  from assms obtain side m where rd: "read_and_deframe R (flow_side c entry) = Inr (side, m)"
    by (auto simp: on_data_round_def res_bind_Inr_iff)
  show ?thesis
  proof (cases "\<exists>v msg. m = Some v \<and> message_try_from R v = Some msg")
    case True
    with assms rd show ?thesis by (auto simp: on_data_round_def res_bind_Inr_iff intro: message)
  next
    case False
    with assms rd show ?thesis
      by (intro idle [OF rd]; cases m) (auto simp: on_data_round_def Let_def split: option.splits)
  qed
qed

lemma on_data_round_ok:
  assumes "on_data_round R db timing target c entry = Inr step" and "state_ok (tls_state entry)" and "blocked_on_keys (tls_state entry) = None"
  shows "case step of
      Break r e calls \<Rightarrow> loop_post (tls_state entry) r (tls_state e)
    | Continue e calls \<Rightarrow> keeps_random (tls_state entry) (tls_state e) \<and> state_ok (tls_state e) \<and> blocked_on_keys (tls_state e) = None"
  using assms(1)
proof (cases rule: on_data_round_cases)
  case (idle side msg)
  with assms(2,3) show ?thesis by (auto simp: loop_post_def split: option.splits)
next
  case (message side v msg r e calls)
  with do_message_ok [OF message(3)] assms(2) show ?thesis
    by (auto simp: loop_post_def split: OkOrRetry.splits)
qed

lemma on_data_round_buffers:
  assumes "on_data_round R db timing target c entry = Inr step"
  obtains side msg where "read_and_deframe R (flow_side c entry) = Inr (side, msg)"
    "\<And>d. buffers (round_flow step) d = (if d = c then (deframer side, read_buffer side) else buffers entry d)"
    "\<And>e calls. step = Continue e calls \<Longrightarrow> msg \<noteq> None"
  using assms
proof (cases rule: on_data_round_cases)
  case (idle side msg)
  then show ?thesis by (intro that [OF idle(1)]) (auto split: option.splits)
next
  case (message side v msg r e calls)
  have "round_flow step = e" using message(4) by (auto split: OkOrRetry.splits)
  with do_message_buffers [OF message(3)] show ?thesis by (intro that [OF message(1)]) auto
qed

lemma on_data_loop_induct [consumes 1, case_names break continue]:
  fixes R :: "('d, 'c, 'p, 'v, 'w) rustls" and e :: "('d, 'c) TLSFlow"
  assumes "on_data_loop R db timing target c entry out = Some (Inr (r, e, calls))"
    and "\<And>entry out r e calls. on_data_round R db timing target c entry = Inr (Break r e calls) \<Longrightarrow> P entry out r e (out @ calls)"
    and "\<And>entry out e1 calls1 r e calls. on_data_round R db timing target c entry = Inr (Continue e1 calls1) \<Longrightarrow>
      P e1 (out @ calls1) r e calls \<Longrightarrow> P entry out r e calls"
  shows "P entry out r e calls"
proof -
  let ?Q = "\<lambda>(R' :: ('d, 'c, 'p, 'v, 'w) rustls) (db' :: KeyDB) timing' target' c' (entry :: ('d, 'c) TLSFlow) out
      (y :: ((unit, ClientRandom \<times> Queued) OkOrRetry \<times> ('d, 'c) TLSFlow \<times> bytes listener_call list) res). R' = R \<longrightarrow> db' = db \<longrightarrow> timing' = timing \<longrightarrow> target' = target \<longrightarrow> c' = c \<longrightarrow>
      (\<forall>r e calls. y = Inr (r, e, calls) \<longrightarrow> P entry out r e calls)"
  have "?Q R db timing target c entry out (Inr (r, e, calls))"
  proof (rule on_data_loop.raw_induct [where P = ?Q, OF _ assms(1)], goal_cases)
    case (1 f R' db' timing' target' c' entry out y)
    show ?case
    proof (intro impI allI)
      fix r e calls
      assume eq: "R' = R" "db' = db" "timing' = timing" "target' = target" "c' = c" "y = Inr (r, e, calls)"
      with 1(2) obtain step where st: "on_data_round R db timing target c entry = Inr step"
        by (cases "on_data_round R db timing target c entry") auto
      show "P entry out r e calls"
      proof (cases step)
        case (Break r1 e1 calls1)
        with 1(2) st eq assms(2) [of entry r1 e1 calls1] show ?thesis by auto
      next
        case (Continue e1 calls1)
        with 1(2) st eq have "f R db timing target c e1 (out @ calls1) = Some (Inr (r, e, calls))" by simp
        from 1(1) [OF this] assms(3) st Continue show ?thesis by blast
      qed
    qed
  qed
  then show ?thesis by blast
qed

lemma on_data_loop_post:
  assumes "on_data_loop R db timing target c entry out = Some (Inr (r, entry', out'))"
    and "state_ok (tls_state entry)" and "blocked_on_keys (tls_state entry) = None"
  shows "loop_post (tls_state entry) r (tls_state entry')"
  using assms
proof (induction rule: on_data_loop_induct)
  case (break entry out r e calls)
  with on_data_round_ok [OF break(1)] show ?case by simp
next
  case (continue entry out e1 calls1 r e calls)
  with on_data_round_ok [OF continue(1)] show ?case by (auto intro: loop_post_trans)
qed

section \<open>The queue of records that wait for keys\<close>

text \<open>
  No two flows use the same client random: \<open>owner\<close> names the flow a client random belongs to.
\<close>

definition owned :: "(ClientRandom \<Rightarrow> IPTarget) \<Rightarrow> (IPTarget \<rightharpoonup> ('d, 'c) TLSFlow) \<Rightarrow> bool" where
  "owned owner fs \<longleftrightarrow> (\<forall>target e cr. fs target = Some e \<longrightarrow> blocked_on_keys (tls_state e) = Some cr \<longrightarrow> owner cr = target)"

definition waiting :: "ClientRandom \<Rightarrow> (IPTarget \<rightharpoonup> ('d, 'c) TLSFlow) \<Rightarrow> IPTarget \<Rightarrow> bool" where
  "waiting cr fs target \<longleftrightarrow> (\<exists>e. fs target = Some e \<and> blocked_on_keys (tls_state e) = Some cr)"

definition queue_of :: "('d, 'c) TLSFlowTracker \<Rightarrow> ClientRandom \<Rightarrow> (MessageMeta \<times> Queued) list" where
  "queue_of t cr = (case queued t cr of Some q \<Rightarrow> q | None \<Rightarrow> [])"

definition flows_ok :: "(IPTarget \<rightharpoonup> ('d, 'c) TLSFlow) \<Rightarrow> bool" where
  "flows_ok fs \<longleftrightarrow> (\<forall>target e. fs target = Some e \<longrightarrow> is_tls target \<and> state_ok (tls_state e))"

text \<open>A flow waits for keys exactly as long as its client random has a queue, which holds only its own data.\<close>

definition tracker_ok :: "(ClientRandom \<Rightarrow> IPTarget) \<Rightarrow> ('d, 'c) TLSFlowTracker \<Rightarrow> bool" where
  "tracker_ok owner t \<longleftrightarrow> flows_ok (tls_flows t) \<and> owned owner (tls_flows t)
     \<and> (\<forall>cr. (queue_of t cr \<noteq> [] \<longleftrightarrow> waiting cr (tls_flows t) (owner cr))
          \<and> (\<forall>(m, x) \<in> set (queue_of t cr). mm_target m = owner cr))"

lemma tls_entry_ok: "flows_ok fs \<Longrightarrow> state_ok (tls_state (tls_entry R target fs))"
  by (auto simp: tls_entry_def flows_ok_def TLSFlow_new_def split: option.splits)

lemma tls_entry_blocked:
  "blocked_on_keys (tls_state (tls_entry R target fs)) = Some cr \<Longrightarrow> fs target = Some (tls_entry R target fs)"
  by (auto simp: tls_entry_def TLSFlow_new_def split: option.splits)

text \<open>The three ways \<open>on_data\<close> ends.\<close>

lemma inner_on_data_cases:
  assumes "inner_on_data R db timing target c data fs = Some (Inr (r, fs', calls))" and "flows_ok fs"
  obtains (ignored) "\<not> is_tls target" "r = Ok ()" "fs' = fs" "calls = []"
  | (blocked) cr where "is_tls target" "waiting cr fs target" "r = Retry (cr, Queued_Raw data)" "fs' = fs" "calls = []"
  | (looped) e' where "is_tls target" "fs' = fs(target \<mapsto> e')"
      "blocked_on_keys (tls_state (tls_entry R target fs)) = None"
      "loop_post (tls_state (tls_entry R target fs)) r (tls_state e')"
proof (cases "is_tls target")
  case False
  with assms show ?thesis by (intro ignored) (auto simp: inner_on_data_def)
next
  case True
  let ?e = "tls_entry R target fs"
  show ?thesis
  proof (cases "blocked_on_keys (tls_state ?e)")
    case (Some cr)
    note stored = tls_entry_blocked [OF Some]
    have "waiting cr fs target" using stored Some by (auto simp: waiting_def)
    moreover have "fs(target \<mapsto> ?e) = fs" using stored by (rule fun_upd_idem)
    ultimately show ?thesis using assms(1) True Some by (intro blocked) (auto simp: inner_on_data_def)
  next
    case None
    let ?sd = "flow_side c ?e\<lparr>read_buffer := read_buffer (flow_side c ?e) @ data\<rparr>"
    obtain e' where l: "on_data_loop R db timing target c (set_flow_side c ?sd ?e) [] = Some (Inr (r, e', calls))"
      and fs': "fs' = fs(target \<mapsto> e')"
      using assms(1) True None by (auto simp: inner_on_data_def Let_def res_simps)
    have "loop_post (tls_state ?e) r (tls_state e')"
      using on_data_loop_post [OF l] tls_entry_ok [OF assms(2), of R target] None by simp
    with None fs' True show ?thesis by (intro looped [of e']) simp_all
  qed
qed

lemma process_queued_post:
  assumes "process_queued R db meta x fs = Some (Inr (r, fs', calls))" and "flows_ok fs"
    and "is_tls (mm_target meta)" and "fs (mm_target meta) = Some e"
    and "state_random (tls_state e) = Some cr \<or> tls_state e = Failed"
  shows "\<exists>e'. fs' = fs(mm_target meta \<mapsto> e') \<and> state_ok (tls_state e')
    \<and> (state_random (tls_state e') = Some cr \<or> tls_state e' = Failed)
    \<and> (case r of Ok u \<Rightarrow> blocked_on_keys (tls_state e') = None | Retry q \<Rightarrow> blocked_on_keys (tls_state e') = Some cr)"
proof -
  have en: "tls_entry R (mm_target meta) fs = e" using assms(4) by (simp add: tls_entry_def)
  have sk: "state_ok (tls_state e)" using assms(2,4) by (simp add: flows_ok_def)
  have kr: "state_random s' = Some cr \<or> s' = Failed" if "keeps_random (tls_state e) s'" for s'
    using that assms(5) by (auto simp: keeps_random_def)
  have bl: "cr' = cr" if "keeps_random (tls_state e) s'" and "blocked_on_keys s' = Some cr'" for s' cr'
    using kr [OF that(1)] that(2) by (cases s') auto
  show ?thesis
  proof (cases x)
    case (Queued_Message m)
    obtain r1 e' where dm: "do_message R db e (mm_to_client meta) m (mm_timing meta) (mm_target meta) = Inr (r1, e', calls)"
      and fs': "fs' = fs(mm_target meta \<mapsto> e')"
      and r: "r = (case r1 of Ok b \<Rightarrow> Ok () | Retry cr \<Rightarrow> Retry (Queued_Message m))"
      using assms(1) Queued_Message en by (auto simp: process_queued_def process_message_def res_simps)
    from do_message_ok [OF dm sk] fs' r kr bl show ?thesis by (cases r1) auto
  next
    case (Queued_Raw v)
    obtain r1 where i: "inner_on_data R db (mm_timing meta) (mm_target meta) (mm_to_client meta) v fs = Some (Inr (r1, fs', calls))"
      and r: "r = (case r1 of Ok u \<Rightarrow> Ok () | Retry (cr, q) \<Rightarrow> Retry q)"
      using assms(1) Queued_Raw by (auto simp: process_queued_def res_simps)
    from i assms(2) show ?thesis
    proof (cases rule: inner_on_data_cases)
      case ignored
      with assms(3) show ?thesis by simp
    next
      case (blocked cr')
      with assms(4) have "blocked_on_keys (tls_state e) = Some cr'" by (auto simp: waiting_def)
      moreover from bl [OF keeps_random_refl this] have "cr' = cr" .
      moreover have "fs = fs(mm_target meta \<mapsto> e)" using assms(4) by (simp add: fun_upd_idem)
      ultimately show ?thesis using blocked r sk assms(5) by auto
    next
      case (looped e')
      from looped(4) en have lp: "loop_post (tls_state e) r1 (tls_state e')" by simp
      then have "keeps_random (tls_state e) (tls_state e')" by (simp add: loop_post_def)
      with lp looped(2) r kr [OF this] bl [OF this] show ?thesis
        by (intro exI [of _ e'], cases r1) (auto simp: loop_post_def)
    qed
  qed
qed

lemma drain_queue_post:
  assumes "drain_queue R db q fs = Some (Inr (q', fs', calls))" and "flows_ok fs" and "is_tls T"
    and "fs T = Some e" and "\<forall>(m, x) \<in> set q. mm_target m = T"
    and "state_random (tls_state e) = Some cr \<or> tls_state e = Failed"
  shows "\<exists>e'. fs' = fs(T \<mapsto> e') \<and> state_ok (tls_state e') \<and> (\<forall>(m, x) \<in> set q'. mm_target m = T)
    \<and> (q' \<noteq> [] \<longrightarrow> blocked_on_keys (tls_state e') = Some cr)
    \<and> (q' = [] \<longrightarrow> q \<noteq> [] \<longrightarrow> blocked_on_keys (tls_state e') = None)"
  using assms
proof (induction q arbitrary: fs e calls)
  case Nil
  then have "fs = fs(T \<mapsto> e)" by (simp add: fun_upd_idem)
  moreover have "state_ok (tls_state e)" using Nil by (simp add: flows_ok_def)
  ultimately show ?case using Nil(1) by (intro exI [of _ e]) (simp del: fun_upd_apply)
next
  case (Cons p q)
  obtain meta x where p: "p = (meta, x)" by (cases p)
  with Cons.prems(5) have T: "mm_target meta = T" by simp
  obtain r fs1 calls1 where pq: "process_queued R db meta x fs = Some (Inr (r, fs1, calls1))"
    using Cons.prems(1) p by (auto split: option.splits sum.splits)
  obtain e1 where e1: "fs1 = fs(T \<mapsto> e1)" "state_ok (tls_state e1)"
    "state_random (tls_state e1) = Some cr \<or> tls_state e1 = Failed"
    "case r of Ok u \<Rightarrow> blocked_on_keys (tls_state e1) = None | Retry q \<Rightarrow> blocked_on_keys (tls_state e1) = Some cr"
    using process_queued_post [OF pq Cons.prems(2)] Cons.prems(3,4,6) T by auto
  show ?case
  proof (cases r)
    case (Retry q1)
    with Cons.prems(1,5) p pq e1 T show ?thesis by auto
  next
    case (Ok u)
    obtain calls2 where d: "drain_queue R db q fs1 = Some (Inr (q', fs', calls2))"
      using Cons.prems(1) p pq Ok by (auto simp: res_simps)
    have "flows_ok fs1" using Cons.prems(2,3) e1(1,2) by (auto simp: flows_ok_def)
    moreover have "fs1 T = Some e1" by (simp add: e1(1))
    moreover have "\<forall>(m, x) \<in> set q. mm_target m = T" using Cons.prems(5) by simp
    ultimately obtain e' where e': "fs' = fs1(T \<mapsto> e')" "state_ok (tls_state e')"
      "\<forall>(m, x) \<in> set q'. mm_target m = T" "q' \<noteq> [] \<longrightarrow> blocked_on_keys (tls_state e') = Some cr"
      "q' = [] \<longrightarrow> q \<noteq> [] \<longrightarrow> blocked_on_keys (tls_state e') = None"
      using Cons.IH [OF d _ Cons.prems(3) _ _ e1(3)] by blast
    show ?thesis
    proof (cases "q = []")
      case True
      with d e1 Ok show ?thesis by (intro exI [of _ e1]) simp
    next
      case False
      with e' e1(1) show ?thesis by (intro exI [of _ e']) simp
    qed
  qed
qed

lemma queue_of_enqueue: "queue_of (enqueue meta x cr t) cr' = (if cr' = cr then queue_of t cr @ [(meta, x)] else queue_of t cr')"
  by (simp add: queue_of_def enqueue_def)

lemma tls_flows_enqueue [simp]: "tls_flows (enqueue meta x cr t) = tls_flows t"
  by (simp add: enqueue_def)

lemma queue_of_flows [simp]: "queue_of (t\<lparr>tls_flows := fs\<rparr>) = queue_of t"
  by (simp add: queue_of_def fun_eq_iff)

lemma tracker_on_data_ok:
  assumes "tracker_ok owner t" and "tracker_on_data R db timing target c data t = Some (Inr (t', out))"
    and "owned owner (tls_flows t')"
  shows "tracker_ok owner t'"
proof -
  let ?meta = "\<lparr>mm_timing = timing, mm_target = target, mm_to_client = c\<rparr>"
  obtain r fs where i: "inner_on_data R db timing target c data (tls_flows t) = Some (Inr (r, fs, out))"
    and t': "t' = (case r of Ok u \<Rightarrow> t\<lparr>tls_flows := fs\<rparr> | Retry (cr, m) \<Rightarrow> enqueue ?meta m cr (t\<lparr>tls_flows := fs\<rparr>))"
    using assms(2) by (auto simp: tracker_on_data_def Let_def res_simps)
  have fok: "flows_ok (tls_flows t)" using assms(1) by (simp add: tracker_ok_def)
  from i fok show ?thesis
  proof (cases rule: inner_on_data_cases)
    case ignored
    with t' assms(1) show ?thesis by (simp add: tracker_ok_def)
  next
    case (blocked cr)
    have "owner cr = target" using blocked(2) assms(1) by (auto simp: tracker_ok_def owned_def waiting_def)
    with blocked t' assms(1) show ?thesis by (auto simp: tracker_ok_def queue_of_enqueue)
  next
    case (looped e')
    have not: "\<not> waiting cr (tls_flows t) target" for cr
      using looped(3) by (auto simp: waiting_def tls_entry_def)
    have fok': "flows_ok fs" using fok looped(1,2,4) by (auto simp: flows_ok_def loop_post_def)
    have w: "waiting cr fs tg \<longleftrightarrow> (if tg = target then blocked_on_keys (tls_state e') = Some cr
        else waiting cr (tls_flows t) tg)" for cr tg
      by (simp add: waiting_def looped(2))
    show ?thesis
    proof (cases r)
      case (Ok u)
      with looped(4) have "blocked_on_keys (tls_state e') = None" by (simp add: loop_post_def)
      with w not have "waiting cr fs tg \<longleftrightarrow> waiting cr (tls_flows t) tg" for cr tg by auto
      with Ok t' assms(1,3) fok' show ?thesis by (simp add: tracker_ok_def)
    next
      case (Retry crm)
      obtain cr m where crm: "crm = (cr, m)" by (cases crm)
      with looped(4) Retry have b: "blocked_on_keys (tls_state e') = Some cr" by (simp add: loop_post_def)
      have "owner cr = target" using assms(3) t' Retry crm b looped(2) by (auto simp: owned_def)
      moreover have "queue_of t cr' = []" if "owner cr' = target" for cr'
        using assms(1) not [of cr'] that unfolding tracker_ok_def by blast
      ultimately show ?thesis
        using w b Retry crm t' assms(1,3) fok' by (auto simp: tracker_ok_def queue_of_enqueue)
    qed
  qed
qed

lemma tracker_on_side_data_ok:
  assumes "tracker_ok owner t" and "tracker_on_side_data R db d t = Some (Inr (t', out))"
  shows "tracker_ok owner t'"
proof (cases "\<exists>ty cr s q. d = NewKeyReceived ty cr s \<and> queued t cr = Some q \<and> q \<noteq> []")
  case True
  then obtain ty cr s q where d: "d = NewKeyReceived ty cr s" "queued t cr = Some q" "q \<noteq> []" by blast
  obtain q' fs calls where dr: "drain_queue R db q (tls_flows t) = Some (Inr (q', fs, calls))"
    and t': "t' = t\<lparr>queued := (queued t)(cr \<mapsto> q'), tls_flows := fs\<rparr>"
    using assms(2) d by (auto simp: tracker_on_side_data_def res_simps)
  have qo: "queue_of t cr = q" using d(2) by (simp add: queue_of_def)
  have inv: "flows_ok (tls_flows t)" "waiting cr (tls_flows t) (owner cr)" "\<forall>(m, x) \<in> set q. mm_target m = owner cr"
    using assms(1) d(3) qo unfolding tracker_ok_def by blast+
  obtain e where e: "tls_flows t (owner cr) = Some e" "blocked_on_keys (tls_state e) = Some cr"
    using inv(2) by (auto simp: waiting_def)
  have "state_random (tls_state e) = Some cr" using e(2) by (cases "tls_state e") auto
  moreover have "is_tls (owner cr)" using inv(1) e(1) by (simp add: flows_ok_def)
  ultimately obtain e' where e': "fs = (tls_flows t)(owner cr \<mapsto> e')" "state_ok (tls_state e')"
    "\<forall>(m, x) \<in> set q'. mm_target m = owner cr"
    "q' \<noteq> [] \<longrightarrow> blocked_on_keys (tls_state e') = Some cr"
    "q' = [] \<longrightarrow> blocked_on_keys (tls_state e') = None"
    using drain_queue_post [OF dr inv(1) _ e(1) inv(3)] d(3) by blast
  have b': "blocked_on_keys (tls_state e') = Some cr' \<longleftrightarrow> cr' = cr \<and> q' \<noteq> []" for cr'
    using e'(4,5) by (cases "q' = []") auto
  have fo: "flows_ok fs" "owned owner fs"
    using inv(1) assms(1) e'(1,2) b' \<open>is_tls (owner cr)\<close> by (auto simp: flows_ok_def owned_def tracker_ok_def)
  have w: "waiting cr' fs (owner cr') \<longleftrightarrow> (if cr' = cr then q' \<noteq> [] else waiting cr' (tls_flows t) (owner cr'))" for cr'
    using e(1,2) b' by (auto simp: waiting_def e'(1))
  have qq: "queue_of t' cr' = (if cr' = cr then q' else queue_of t cr')" for cr'
    by (simp add: t' queue_of_def)
  show ?thesis
    using assms(1) fo w qq e'(3) by (simp add: tracker_ok_def t')
next
  case False
  then have "t' = t \<or> (\<exists>cr. queued t cr = Some [] \<and> t' = t\<lparr>queued := (queued t)(cr \<mapsto> []), tls_flows := tls_flows t\<rparr>)"
    using assms(2) by (cases d) (auto simp: tracker_on_side_data_def split: option.splits)
  then have "t' = t" by (auto simp: fun_upd_idem)
  with assms(1) show ?thesis by simp
qed

section \<open>Reachable trackers\<close>

inductive tls_reachable ::
  "('d, 'c, 'p, 'v, 'w) rustls \<Rightarrow> (ClientRandom \<Rightarrow> IPTarget) \<Rightarrow> ('d, 'c) TLSFlowTracker \<Rightarrow> bool"
  for R owner where
  start: "tls_reachable R owner TLSFlowTracker_new"
| on_data: "tls_reachable R owner t \<Longrightarrow> tracker_on_data R db timing target c data t = Some (Inr (t', out)) \<Longrightarrow>
    owned owner (tls_flows t') \<Longrightarrow> tls_reachable R owner t'"
| on_side_data: "tls_reachable R owner t \<Longrightarrow> tracker_on_side_data R db d t = Some (Inr (t', out)) \<Longrightarrow>
    tls_reachable R owner t'"

lemma tls_reachable_ok: "tls_reachable R owner t \<Longrightarrow> tracker_ok owner t"
proof (induction rule: tls_reachable.induct)
  case start
  show ?case
    by (simp add: tracker_ok_def TLSFlowTracker_new_def flows_ok_def owned_def queue_of_def waiting_def)
qed (blast intro: tracker_on_data_ok tracker_on_side_data_ok)+

section \<open>Termination\<close>

text \<open>
  What the layer relies on to come to an end: a deframer that is well formed stays so, and a record
  popped makes what is left in it and in its buffer smaller.
\<close>

locale deframing =
  fixes R :: "('d, 'c, 'p, 'v, 'w) rustls"
    and ok :: "'d \<Rightarrow> bool"
    and unread :: "'d \<Rightarrow> bytes \<Rightarrow> nat"
  assumes default_ok: "ok (df_default R)"
    and keeps_ok: "ok (deframer side) \<Longrightarrow> read_and_deframe R side = Inr (side', msg) \<Longrightarrow> ok (deframer side')"
    and pops_less: "ok (deframer side) \<Longrightarrow> read_and_deframe R side = Inr (side', Some v) \<Longrightarrow>
      unread (deframer side') (read_buffer side') < unread (deframer side) (read_buffer side)"
begin

definition flow_ok :: "('d, 'c) TLSFlow \<Rightarrow> bool" where
  "flow_ok e \<longleftrightarrow> (\<forall>c. ok (fst (buffers e c)))"

definition deframers_ok :: "(IPTarget \<rightharpoonup> ('d, 'c) TLSFlow) \<Rightarrow> bool" where
  "deframers_ok fs \<longleftrightarrow> (\<forall>target e. fs target = Some e \<longrightarrow> flow_ok e)"

lemma round_keeps: "on_data_round R db timing target c entry = Inr step \<Longrightarrow> flow_ok entry \<Longrightarrow> flow_ok (round_flow step)"
  by (erule on_data_round_buffers) (auto simp: flow_ok_def buffers_def dest: keeps_ok)

lemma loop_keeps: "on_data_loop R db timing target c entry out = Some (Inr (r, e, calls)) \<Longrightarrow> flow_ok entry \<Longrightarrow> flow_ok e"
  by (induction rule: on_data_loop_induct) (auto dest: round_keeps)

lemma loop_returns: "flow_ok entry \<Longrightarrow> \<exists>y. on_data_loop R db timing target c entry out = Some y"
proof (induction "unread (deframer (flow_side c entry)) (read_buffer (flow_side c entry))" arbitrary: entry out rule: less_induct)
  case less
  show ?case
  proof (cases "\<exists>e calls. on_data_round R db timing target c entry = Inr (Continue e calls)")
    case True
    then obtain e calls where st: "on_data_round R db timing target c entry = Inr (Continue e calls)" by blast
    then obtain side v where rd: "read_and_deframe R (flow_side c entry) = Inr (side, Some v)"
        and b: "buffers e c = (deframer side, read_buffer side)"
      by (rule on_data_round_buffers) force
    have "unread (deframer (flow_side c e)) (read_buffer (flow_side c e)) < unread (deframer (flow_side c entry)) (read_buffer (flow_side c entry))"
      using pops_less [OF _ rd] b less.prems by (simp add: buffers_def flow_ok_def)
    moreover have "flow_ok e" using round_keeps [OF st less.prems] by simp
    ultimately show ?thesis using st less.hyps [of e "out @ calls"] by (subst on_data_loop.simps) simp
  next
    case False
    then show ?thesis by (subst on_data_loop.simps) (auto split: sum.split round.split)
  qed
qed

lemma entry_ok: "deframers_ok fs \<Longrightarrow> flow_ok (tls_entry R target fs)"
proof (cases "fs target")
  case None
  then show ?thesis
    by (simp add: tls_entry_def flow_ok_def TLSFlow_new_def TLSSide_new_def buffers_def flow_side_def default_ok)
qed (simp add: tls_entry_def deframers_ok_def)

lemma flow_ok_extend:
  "flow_ok e \<Longrightarrow> flow_ok (set_flow_side c (flow_side c e\<lparr>read_buffer := bs\<rparr>) e)"
  by (auto simp: flow_ok_def) (auto simp: buffers_def)

lemma inner_on_data_returns: "deframers_ok fs \<Longrightarrow> \<exists>y. inner_on_data R db timing target c data fs = Some y"
  using loop_returns [OF flow_ok_extend [OF entry_ok]]
  by (auto simp: inner_on_data_def Let_def split: option.split)

lemma inner_on_data_keeps:
  assumes "inner_on_data R db timing target c data fs = Some (Inr (r, fs', calls))" and "deframers_ok fs"
  shows "deframers_ok fs'"
  using assms(1) loop_keeps [OF _ flow_ok_extend [OF entry_ok [OF assms(2)]]] assms(2) entry_ok [OF assms(2)]
  by (auto simp: inner_on_data_def Let_def deframers_ok_def res_bind_Inr_iff split: if_split_asm option.split_asm)

lemma do_message_keeps: "do_message R db entry c msg timing target = Inr (r, e, calls) \<Longrightarrow> flow_ok entry \<Longrightarrow> flow_ok e"
  by (simp add: flow_ok_def do_message_buffers)

lemma process_message_keeps:
  "process_message R db meta msg fs = Inr (r, fs', calls) \<Longrightarrow> deframers_ok fs \<Longrightarrow> deframers_ok fs'"
  using do_message_keeps [OF _ entry_ok, of db "mm_target meta" fs]
  by (auto simp: process_message_def deframers_ok_def res_bind_Inr_iff split: if_split_asm)

lemma process_queued_returns: "deframers_ok fs \<Longrightarrow> \<exists>y. process_queued R db meta x fs = Some y"
  using inner_on_data_returns by (cases x) (auto simp: process_queued_def)

lemma process_queued_keeps:
  "process_queued R db meta x fs = Some (Inr (r, fs', calls)) \<Longrightarrow> deframers_ok fs \<Longrightarrow> deframers_ok fs'"
  by (cases x) (auto simp: process_queued_def res_bind_Inr_iff dest: inner_on_data_keeps process_message_keeps)

lemma drain_queue_returns: "deframers_ok fs \<Longrightarrow> \<exists>y. drain_queue R db q fs = Some y"
proof (induction q arbitrary: fs)
  case (Cons p q)
  obtain meta x where p: "p = (meta, x)" by (cases p)
  obtain y where y: "process_queued R db meta x fs = Some y" using process_queued_returns [OF Cons.prems] by blast
  show ?case
  proof (cases y)
    case (Inr z)
    obtain r fs1 calls where z: "z = (r, fs1, calls)" by (cases z)
    with y Inr have "deframers_ok fs1" using process_queued_keeps Cons.prems by blast
    from Cons.IH [OF this] y Inr z p show ?thesis by (cases r) auto
  qed (use y p in simp)
qed simp

lemma drain_queue_keeps: "drain_queue R db q fs = Some (Inr (q', fs', calls)) \<Longrightarrow> deframers_ok fs \<Longrightarrow> deframers_ok fs'"
proof (induction q arbitrary: fs calls)
  case (Cons p q)
  obtain meta x where p: "p = (meta, x)" by (cases p)
  with Cons.prems(1) obtain r fs1 calls1 where pq: "process_queued R db meta x fs = Some (Inr (r, fs1, calls1))"
    by (auto split: option.split_asm sum.split_asm)
  note ok = process_queued_keeps [OF pq Cons.prems(2)]
  from Cons.prems(1) p pq ok Cons.IH [OF _ ok] show ?case by (cases r) (auto simp: res_bind_Inr_iff)
qed simp

lemma reachable_ok: "tls_reachable R owner t \<Longrightarrow> deframers_ok (tls_flows t)"
proof (induction rule: tls_reachable.induct)
  case start
  show ?case by (simp add: deframers_ok_def TLSFlowTracker_new_def)
next
  case (on_data t db timing target c data t' out)
  then show ?case
    by (auto simp: tracker_on_data_def Let_def res_bind_Inr_iff dest!: inner_on_data_keeps split: OkOrRetry.split)
next
  case (on_side_data t db d t' out)
  then show ?case
    by (auto simp: tracker_on_side_data_def res_bind_Inr_iff dest!: drain_queue_keeps split: SideData.split_asm option.split_asm)
qed

lemma tracker_returns:
  assumes "tls_reachable R owner t"
  shows "(\<exists>y. tracker_on_data R db timing target c data t = Some y) \<and> (\<exists>y. tracker_on_side_data R db d t = Some y)"
  using inner_on_data_returns [OF reachable_ok [OF assms]] drain_queue_returns [OF reachable_ok [OF assms]]
  by (auto simp: tracker_on_data_def tracker_on_side_data_def Let_def split: SideData.split option.split)

end

section \<open>Waiting for keys\<close>

text \<open>
  C9. In every state the tracker reaches by data and keys arriving in any order, the records queued for
  a client random all belong to the flow that sent it, and the flow waits for keys exactly as long as
  that queue is not empty: no flow is left waiting without queued data, and no data is left queued
  once its flow has gone on.  This needs that no two flows share a client random.
\<close>

theorem tls_waits_iff_queued:
  assumes "tls_reachable R owner t"
  shows "(queue_of t cr \<noteq> [] \<longleftrightarrow> waiting cr (tls_flows t) (owner cr))
    \<and> (\<forall>(m, x) \<in> set (queue_of t cr). mm_target m = owner cr)"
  using tls_reachable_ok [OF assms] by (simp add: tracker_ok_def)

text \<open>
  A small record layer: each byte of the stream is one record, the bytes 1 to 4 standing for the
  handshake messages and any other byte for application data.
\<close>

definition example_handshake :: "HandshakeType \<Rightarrow> HandshakePayload \<Rightarrow> Message" where
  "example_handshake t p = \<lparr>msg_version = TLSv1_2, msg_payload = MP_Handshake \<lparr>hmp_typ = t, hmp_payload = p\<rparr> []\<rparr>"

definition example_session :: SessionId where
  "example_session = \<lparr>sid_len = 0, sid_data = []\<rparr>"

definition example_message :: "u8 \<Rightarrow> Message" where
  "example_message b =
     (if b = 1 then example_handshake HT_ClientHello (HP_ClientHello
        \<lparr>client_version = TLSv1_2, ch_random = [7], ch_session_id = example_session, ch_cipher_suites = [CipherSuite 0x1301],
         ch_compression_methods = [Comp_Null], ch_extensions = []\<rparr>)
      else if b = 2 then example_handshake HT_ServerHello (HP_ServerHello
        \<lparr>sh_legacy_version = TLSv1_2, sh_random = [8], sh_session_id = example_session, sh_cipher_suite = CipherSuite 0x1301,
         sh_compression_method = Comp_Null, sh_extensions = []\<rparr>)
      else if b = 3 then example_handshake HT_EncryptedExtensions (HP_EncryptedExtensions [SE_Protocols [ascii ''h2'']])
      else if b = 4 then example_handshake HT_Finished (HP_Finished [])
      else \<lparr>msg_version = TLSv1_2, msg_payload = MP_ApplicationData [b]\<rparr>)"

definition example_pop :: "bytes \<Rightarrow> unit \<Rightarrow> (bytes \<times> unit \<times> (u8 \<times> bool) option) res" where
  "example_pop df u = Inr (case df of [] \<Rightarrow> ([], (), None) | b # bs \<Rightarrow> (bs, (), Some (b, False)))"

definition example_rustls :: "(bytes, unit, u8, unit, unit) rustls" where
  "example_rustls =
     \<lparr>df_default = [], cs_new = (\<lambda>s. ()), df_read = (\<lambda>df buf. Inr (df @ buf, [])), df_pop = example_pop,
      finish_trial_decryption = id, message_try_from = (\<lambda>b. Some (example_message b)),
      handshake_from_data = (\<lambda>su a b. Inr ()), install_client_handshake_secrets = (\<lambda>ks early. Inr),
      install_server_handshake_secrets = (\<lambda>ks. Inr), traffic_from_data = (\<lambda>su a b c. Inr ()), load_keys = (\<lambda>ks side. Inr)\<rparr>"

definition example_suite :: Tls13CipherSuite where
  "example_suite = suite13 0x1301 Aes128Gcm AES_128_GCM SHA256"

lemma find_example_suite [simp]: "find (\<lambda>s. suite_id s = CipherSuite 0x1301) ALL_CIPHER_SUITES = Some (Suite_Tls13 example_suite)"
  by (simp add: ALL_CIPHER_SUITES_def suite_id_def suite_common_def suite13_def TLS13_AES_128_GCM_SHA256_def TLS13_AES_256_GCM_SHA384_def
      TLS13_CHACHA20_POLY1305_SHA256_def example_suite_def)

definition example_target :: IPTarget where
  "example_target = IPTarget_V4 40000 443 1 2"

definition example_timing :: TimingInfo where
  "example_timing = \<lparr>received_on_wire = 5, other_times = Map.empty\<rparr>"

lemmas tls_example_defs = example_message_def example_handshake_def example_session_def example_pop_def example_rustls_def example_target_def example_timing_def

lemmas tls_eval = tls_example_defs tracker_on_data_def inner_on_data_def tls_entry_def is_tls_def TLSFlow_new_def
  TLSSide_new_def TLSFlowTracker_new_def on_data_loop.simps on_data_round_def read_and_deframe_def deframe_def flow_side_def
  set_flow_side_def do_message_def drive_ExpectServerHello_def drive_WaitForFinish_def require_handshake_msg_def
  call_of_event_def enqueue_def KeyDB_default_def lookup_secret_def Let_def

definition example_blocked :: "(bytes, unit) TLSFlowTracker" where
  "example_blocked =
     \<lparr>queued = [ClientRandom [7] \<mapsto> [(\<lparr>mm_timing = example_timing, mm_target = example_target, mm_to_client = True\<rparr>,
                 Queued_Message (example_message 2))]],
      tls_flows = [example_target \<mapsto>
        \<lparr>tls_server = \<lparr>common_state = (), deframer = [], read_buffer = []\<rparr>,
         tls_client = \<lparr>common_state = (), deframer = [9], read_buffer = []\<rparr>,
         tls_state = NeedKeys (ExpectServerHello (ClientRandom [7])) (ClientRandom [7])\<rparr>]\<rparr>"

definition example_hello :: "(bytes, unit) TLSFlowTracker" where
  "example_hello =
     \<lparr>queued = Map.empty,
      tls_flows = [example_target \<mapsto>
        \<lparr>tls_server = \<lparr>common_state = (), deframer = [], read_buffer = []\<rparr>,
         tls_client = \<lparr>common_state = (), deframer = [], read_buffer = []\<rparr>,
         tls_state = ExpectServerHello (ClientRandom [7])\<rparr>]\<rparr>"

lemma example_hello_step:
  "tracker_on_data example_rustls KeyDB_default example_timing example_target False [1] TLSFlowTracker_new =
   Some (Inr (example_hello, []))"
  by (simp add: tls_eval example_hello_def)

lemma example_blocked_step:
  "tracker_on_data example_rustls KeyDB_default example_timing example_target True [2, 9] example_hello =
   Some (Inr (example_blocked, []))"
  by (simp add: tls_eval example_hello_def example_blocked_def)

lemma example_blocked_reachable: "tls_reachable example_rustls (\<lambda>cr. example_target) example_blocked"
proof (rule tls_reachable.on_data [OF _ example_blocked_step])
  show "tls_reachable example_rustls (\<lambda>cr. example_target) example_hello"
    by (rule tls_reachable.on_data [OF tls_reachable.start example_hello_step])
      (simp add: owned_def example_hello_def)
qed (simp add: owned_def example_blocked_def)

theorem tls_waits_iff_queued_witness:
  "queue_of example_blocked (ClientRandom [7]) \<noteq> []
   \<and> waiting (ClientRandom [7]) (tls_flows example_blocked) example_target"
proof -
  have "queue_of example_blocked (ClientRandom [7]) \<noteq> []" by (simp add: queue_of_def example_blocked_def)
  with tls_waits_iff_queued [OF example_blocked_reachable, of "ClientRandom [7]"] show ?thesis by simp
qed

section \<open>Replaying a record\<close>

fun underlying :: "TLSState \<Rightarrow> TLSState" where
  "underlying (NeedKeys s cr) = underlying s"
| "underlying s = s"

lemma drive_underlying: "drive R db s fl c msg = drive R db (underlying s) fl c msg"
  by (induction s) simp_all

lemma drive_missing_key:
  assumes "drive R db s fl c msg = Inr (Drive_Err s' (MissingKey cr), fl', ev)"
  shows "s' = underlying s \<and> fl' = fl \<and> ev = []"
  using assms
proof (induction s)
  case (ExpectServerHello cr)
  then show ?case
    by (auto simp: drive_ExpectServerHello_def Let_def res_bind_Inr_iff split: if_splits option.splits sum.splits SupportedCipherSuite.splits)
next
  case (WaitForFinish su cr cf sf)
  then show ?case
    by (auto simp: drive_WaitForFinish_def Let_def res_bind_Inr_iff
        split: if_splits option.splits MessagePayload.splits)
qed (auto split: if_splits sum.splits)

text \<open>
  C19. A record that could not be processed for want of a key leaves no trace but the waiting state: no
  call is made, and processing it again with any other key database, from the waiting state, does
  exactly what processing it with that database in the first place would have done.
\<close>

theorem missing_key_idempotent:
  assumes "do_message R db entry c msg timing target = Inr (Retry cr, entry', calls)"
  shows "calls = [] \<and> do_message R db' entry' c msg timing' target = do_message R db' entry c msg timing' target"
proof -
  from assms obtain dr entry1 ev s where d:
    "drive R db (tls_state entry) (entry\<lparr>tls_state := Failed\<rparr>) c msg = Inr (dr, entry1, ev)"
    "calls = map (call_of_event timing target) ev" "entry' = entry1\<lparr>tls_state := s\<rparr>"
    and dr: "case dr of Drive_Ok s1 \<Rightarrow> (Retry cr :: (bool, ClientRandom) OkOrRetry) = Ok True \<and> s = s1
     | Drive_Err s1 (MissingKey cr') \<Rightarrow> (Retry cr :: (bool, ClientRandom) OkOrRetry) = Retry cr' \<and> s = NeedKeys s1 cr'
     | Drive_Err s1 e \<Rightarrow> (Retry cr :: (bool, ClientRandom) OkOrRetry) = Ok False \<and> s = tls_state entry1"
    by (rule do_message_Inr)
  from dr obtain s1 where s1: "dr = Drive_Err s1 (MissingKey cr)" "s = NeedKeys s1 cr"
    by (auto split: drive_result.splits TLSDecodeError.splits)
  with drive_missing_key d(1) have k: "s1 = underlying (tls_state entry)" "entry1 = entry\<lparr>tls_state := Failed\<rparr>" "ev = []"
    by blast+
  have "drive R db' (underlying (underlying (tls_state entry))) fl c msg = drive R db' (tls_state entry) fl c msg" for fl
    by (metis drive_underlying)
  with k d(2,3) s1(2) drive_underlying [of R db' "tls_state entry'"] show ?thesis
    by (simp add: do_message_def Let_def)
qed

theorem missing_key_idempotent_witness:
  "\<exists>entry. do_message example_rustls KeyDB_default entry True (example_message 2) example_timing example_target =
       Inr (Retry (ClientRandom [7]), entry\<lparr>tls_state := NeedKeys (tls_state entry) (ClientRandom [7])\<rparr>, [])
   \<and> do_message example_rustls (on_secret (ClientRandom [7]) ExporterSecret (Secret []) KeyDB_default)
       (entry\<lparr>tls_state := NeedKeys (tls_state entry) (ClientRandom [7])\<rparr>) True (example_message 2) example_timing example_target =
     do_message example_rustls (on_secret (ClientRandom [7]) ExporterSecret (Secret []) KeyDB_default)
       entry True (example_message 2) example_timing example_target"
proof -
  define entry where "entry = (TLSFlow_new example_rustls)\<lparr>tls_state := ExpectServerHello (ClientRandom [7])\<rparr>"
  have r: "do_message example_rustls KeyDB_default entry True (example_message 2) example_timing example_target =
       Inr (Retry (ClientRandom [7]), entry\<lparr>tls_state := NeedKeys (tls_state entry) (ClientRandom [7])\<rparr>, [])"
    by (simp add: entry_def tls_eval)
  from missing_key_idempotent [OF r] r show ?thesis by blast
qed

section \<open>Calls, panics and termination\<close>

text \<open>
  The calls a message should lead to in a state of the handshake: once the keys of the handshake are
  installed, application data is handed on, and the first protocols among the encrypted extensions
  are announced; nothing else is.
\<close>

definition offered_protocols :: "ServerExtension list \<Rightarrow> bytes list list" where
  "offered_protocols exts = [protos. SE_Protocols protos \<leftarrow> exts]"

definition expected_calls :: "TimingInfo \<Rightarrow> IPTarget \<Rightarrow> bool \<Rightarrow> TLSState \<Rightarrow> Message \<Rightarrow> bytes listener_call list" where
  "expected_calls timing target c state msg =
     (case (underlying state, msg_payload msg) of
        (WaitForFinish suite cr cf sf, MP_ApplicationData bs) \<Rightarrow>
          [OnData (timing\<lparr>other_times := typemap_insert TlsConnectionStart (received_on_wire timing) (other_times timing)\<rparr>)
             target c bs]
      | (WaitForFinish suite cr cf sf, MP_Handshake h enc) \<Rightarrow>
          (case (hmp_typ h, hmp_payload h) of
             (HT_EncryptedExtensions, HP_EncryptedExtensions exts) \<Rightarrow>
               (case offered_protocols exts of
                  [] \<Rightarrow> []
                | protos # _ \<Rightarrow> [OnSideData (ALPNCompleted target (map ProtocolName protos))])
           | _ \<Rightarrow> [])
      | _ \<Rightarrow> [])"

text \<open>
  The messages a direction of a flow handles in a call, each with the state it is handled in: records
  are taken from the deframer one after the other until it gives none or a message is not processed
  in full, and records that do not parse are skipped.
\<close>

inductive handles ::
  "('d, 'c, 'p, 'v, 'w) rustls \<Rightarrow> KeyDB \<Rightarrow> TimingInfo \<Rightarrow> IPTarget \<Rightarrow> bool \<Rightarrow> ('d, 'c) TLSFlow \<Rightarrow> (TLSState \<times> Message) list \<Rightarrow> bool"
  for R :: "('d, 'c, 'p, 'v, 'w) rustls" and db timing target c
where
  drained: "handles R db timing target c entry []"
    if "read_and_deframe R (flow_side c entry) = Inr (side, None)"
| skipped: "handles R db timing target c entry ms"
    if "read_and_deframe R (flow_side c entry) = Inr (side, Some v)" and "message_try_from R v = None"
      and "handles R db timing target c (set_flow_side c side entry) ms"
| stopped: "handles R db timing target c entry [(tls_state entry, msg)]"
    if "read_and_deframe R (flow_side c entry) = Inr (side, Some v)" and "message_try_from R v = Some msg"
      and "do_message R db (set_flow_side c side entry) c msg timing target = Inr (r, entry', calls)" and "r \<noteq> Ok True"
| handled: "handles R db timing target c entry ((tls_state entry, msg) # ms)"
    if "read_and_deframe R (flow_side c entry) = Inr (side, Some v)" and "message_try_from R v = Some msg"
      and "do_message R db (set_flow_side c side entry) c msg timing target = Inr (Ok True, entry', calls)"
      and "handles R db timing target c entry' ms"

lemma find_protocols_first:
  "find_protocols exts =
     (case offered_protocols exts of [] \<Rightarrow> None | protos # _ \<Rightarrow> Some (map ProtocolName protos))"
  by (induction exts) (auto simp: find_protocols_def offered_protocols_def split: ServerExtension.splits)

lemma drive_WaitForFinish_calls:
  assumes "drive_WaitForFinish R db su cr cf sf fl c msg = Inr (dr, fl', ev)"
  shows "map (call_of_event timing target) ev = expected_calls timing target c (WaitForFinish su cr cf sf) msg"
proof (cases "msg_payload msg")
  case (MP_Handshake h enc)
  show ?thesis
  proof (cases "hmp_typ h = HT_EncryptedExtensions \<and> as_EncryptedExtensions (hmp_payload h) \<noteq> None")
    case True
    then obtain exts where "hmp_payload h = HP_EncryptedExtensions exts" by (cases "hmp_payload h") auto
    with assms MP_Handshake True show ?thesis
      by (cases "offered_protocols exts")
        (auto simp: drive_WaitForFinish_def expected_calls_def call_of_event_def find_protocols_first)
  next
    case False
    then have none: "(if hmp_typ h = HT_EncryptedExtensions then as_EncryptedExtensions (hmp_payload h) else None) = None" by auto
    have "ev = []"
      using assms MP_Handshake unfolding drive_WaitForFinish_def Let_def
      by (simp add: none) (auto simp: res_bind_Inr_iff split: if_splits option.splits)
    moreover have "expected_calls timing target c (WaitForFinish su cr cf sf) msg = []"
      using False MP_Handshake by (cases "hmp_payload h") (auto simp: expected_calls_def split: HandshakeType.splits)
    ultimately show ?thesis by simp
  qed
qed (use assms in \<open>auto simp: drive_WaitForFinish_def expected_calls_def call_of_event_def\<close>)

lemma do_message_calls:
  assumes "do_message R db entry c msg timing target = Inr (r, entry', calls)"
  shows "calls = expected_calls timing target c (tls_state entry) msg"
proof -
  from assms obtain dr entry1 ev where d:
    "drive R db (underlying (tls_state entry)) (entry\<lparr>tls_state := Failed\<rparr>) c msg = Inr (dr, entry1, ev)"
    and calls: "calls = map (call_of_event timing target) ev"
    by (rule do_message_Inr) (metis drive_underlying)
  have "underlying s \<noteq> NeedKeys s' cr" for s s' cr by (induction s) auto
  with d show ?thesis
    unfolding calls
  proof (cases "underlying (tls_state entry)")
    case (ExpectServerHello cr)
    with d have "drive_ExpectServerHello R db cr (entry\<lparr>tls_state := Failed\<rparr>) c msg = Inr (dr, entry1, ev)" by simp
    then have "ev = []" by (auto dest: drive_ExpectServerHello_cases)
    with ExpectServerHello show "map (call_of_event timing target) ev = expected_calls timing target c (tls_state entry) msg"
      by (simp add: expected_calls_def)
  next
    case (WaitForFinish su cr cf sf)
    with d have w: "drive_WaitForFinish R db su cr cf sf (entry\<lparr>tls_state := Failed\<rparr>) c msg = Inr (dr, entry1, ev)" by simp
    show "map (call_of_event timing target) ev = expected_calls timing target c (tls_state entry) msg"
      unfolding drive_WaitForFinish_calls [OF w] by (simp add: expected_calls_def WaitForFinish)
  qed (auto simp: expected_calls_def split: if_splits sum.splits)
qed

lemma on_data_loop_calls:
  assumes "on_data_loop R db timing target c entry out = Some (Inr (r, entry', out'))"
  shows "\<exists>ms. handles R db timing target c entry ms
    \<and> out' = out @ concat (map (\<lambda>(s, m). expected_calls timing target c s m) ms)"
  using assms
proof (induction rule: on_data_loop_induct)
  case (break entry out r e calls)
  from break show ?case
  proof (cases rule: on_data_round_cases)
    case (idle side msg)
    then show ?thesis by (cases msg) (auto intro: handles.drained)
  next
    case (message side v msg r' e' calls')
    from message(4) have "r' \<noteq> Ok True" "calls' = calls" by (auto split: OkOrRetry.splits if_splits)
    with handles.stopped [OF message(1-3)] do_message_calls [OF message(3)] show ?thesis by fastforce
  qed
next
  case (continue entry out e1 calls1 r e calls)
  then obtain ms where ms: "handles R db timing target c e1 ms"
    "calls = (out @ calls1) @ concat (map (\<lambda>(s, m). expected_calls timing target c s m) ms)" by blast
  from continue(1) show ?case
  proof (cases rule: on_data_round_cases)
    case (idle side msg)
    then obtain v where "msg = Some v" "e1 = set_flow_side c side entry" "calls1 = []" by (cases msg) auto
    with idle ms show ?thesis by (auto intro: handles.skipped)
  next
    case (message side v msg r' e' calls')
    from message(4) have "r' = Ok True" "calls' = calls1" "e' = e1" by (auto split: OkOrRetry.splits if_splits)
    with handles.handled [OF message(1,2)] message(3) do_message_calls [OF message(3)] ms show ?thesis by fastforce
  qed
qed

text \<open>
  C20. The calls on the next layer while a chunk of data is processed are exactly those of the messages the
  flow handles, in order: for each message of application data once the keys of the handshake are
  installed, its bytes, for the flow and the direction they came from and stamped with the capture time of
  the chunk as the time of the TLS record; for each message of encrypted extensions, the first list of
  protocols in it; and nothing for any other message, for flows that wait for keys, and for flows to other
  ports than 443.
\<close>

theorem tls_calls_exact:
  assumes "tracker_on_data R db timing target c data t = Some (Inr (t', out))"
  defines "entry \<equiv> tls_entry R target (tls_flows t)"
  shows "if is_tls target \<and> blocked_on_keys (tls_state entry) = None
    then \<exists>ms. handles R db timing target c
           (set_flow_side c ((flow_side c entry)\<lparr>read_buffer := read_buffer (flow_side c entry) @ data\<rparr>) entry) ms
         \<and> out = concat (map (\<lambda>(s, m). expected_calls timing target c s m) ms)
    else out = []"
proof -
  obtain r fs where i: "inner_on_data R db timing target c data (tls_flows t) = Some (Inr (r, fs, out))"
    using assms(1) by (auto simp: tracker_on_data_def Let_def res_simps)
  show ?thesis
  proof (cases "is_tls target \<and> blocked_on_keys (tls_state entry) = None")
    case True
    with i obtain e' where "on_data_loop R db timing target c
        (set_flow_side c ((flow_side c entry)\<lparr>read_buffer := read_buffer (flow_side c entry) @ data\<rparr>) entry) [] = Some (Inr (r, e', out))"
      by (auto simp: inner_on_data_def Let_def res_simps entry_def)
    from on_data_loop_calls [OF this] True show ?thesis by simp
  next
    case False
    then have "out = []"
      using i by (cases "is_tls target") (auto simp: inner_on_data_def Let_def entry_def)
    then show ?thesis unfolding if_not_P [OF False] .
  qed
qed

definition example_ready :: "(bytes, unit) TLSFlowTracker" where
  "example_ready = example_hello\<lparr>tls_flows := [example_target \<mapsto>
     (TLSFlow_new example_rustls)\<lparr>tls_state := WaitForFinish example_suite (ClientRandom [7]) False False\<rparr>]\<rparr>"

definition example_keys :: KeyDB where
  "example_keys = on_secret (ClientRandom [7]) ServerHandshakeTrafficSecret (Secret [])
     (on_secret (ClientRandom [7]) ClientHandshakeTrafficSecret (Secret []) KeyDB_default)"

lemma example_ready_step:
  "tracker_on_data example_rustls example_keys example_timing example_target True [2] example_hello =
   Some (Inr (example_ready, []))"
  by (simp add: tls_eval example_hello_def example_ready_def example_keys_def on_secret_def)

lemma example_ready_reachable: "tls_reachable example_rustls (\<lambda>cr. example_target) example_ready"
proof (rule tls_reachable.on_data [OF _ example_ready_step])
  show "tls_reachable example_rustls (\<lambda>cr. example_target) example_hello"
    by (rule tls_reachable.on_data [OF tls_reachable.start example_hello_step])
      (simp add: owned_def example_hello_def)
qed (simp add: owned_def example_ready_def)

lemma example_data_step:
  "tracker_on_data example_rustls example_keys example_timing example_target False [9, 3] example_ready =
   Some (Inr (example_ready,
     [OnData (example_timing\<lparr>other_times := [TlsConnectionStart \<mapsto> 5]\<rparr>) example_target False [9],
      OnSideData (ALPNCompleted example_target [ProtocolName (ascii ''h2'')])]))"
  by (simp add: tls_eval example_hello_def example_ready_def find_protocols_def typemap_insert_def)

theorem tls_calls_exact_witness:
  "\<exists>ms. handles example_rustls example_keys example_timing example_target False
       (set_flow_side False ((flow_side False (tls_entry example_rustls example_target (tls_flows example_ready)))\<lparr>read_buffer := [9, 3]\<rparr>)
          (tls_entry example_rustls example_target (tls_flows example_ready))) ms
     \<and> concat (map (\<lambda>(s, m). expected_calls example_timing example_target False s m) ms) =
       [OnData (example_timing\<lparr>other_times := [TlsConnectionStart \<mapsto> 5]\<rparr>) example_target False [9],
        OnSideData (ALPNCompleted example_target [ProtocolName (ascii ''h2'')])]"
proof -
  have e: "tls_entry example_rustls example_target (tls_flows example_ready) =
      (TLSFlow_new example_rustls)\<lparr>tls_state := WaitForFinish example_suite (ClientRandom [7]) False False\<rparr>"
    by (simp add: tls_entry_def example_ready_def)
  have "is_tls example_target" "read_buffer (flow_side False (tls_entry example_rustls example_target (tls_flows example_ready))) = []"
    unfolding e by (simp_all add: is_tls_def example_target_def flow_side_def TLSFlow_new_def TLSSide_new_def)
  with tls_calls_exact [OF example_data_step] show ?thesis by (auto simp: e)
qed

text \<open>Key schedules that can be installed without a panic.\<close>

definition installs :: "('d, 'c, 'p, 'v, 'w) rustls \<Rightarrow> bool" where
  "installs R \<longleftrightarrow> (\<forall>su a b. \<exists>ks. handshake_from_data R su a b = Inr ks) \<and> (\<forall>ks e c. \<exists>c'. install_client_handshake_secrets R ks e c = Inr c')
     \<and> (\<forall>ks c. \<exists>c'. install_server_handshake_secrets R ks c = Inr c')
     \<and> (\<forall>su a b c. \<exists>ks. traffic_from_data R su a b c = Inr ks) \<and> (\<forall>ks side c. \<exists>c'. load_keys R ks side c = Inr c')"

lemma installs_Inl:
  assumes "installs R"
  shows "handshake_from_data R su a b \<noteq> Inl p" "install_client_handshake_secrets R v e c \<noteq> Inl p" "install_server_handshake_secrets R v c \<noteq> Inl p"
    "traffic_from_data R su a b x \<noteq> Inl p" "load_keys R w side c \<noteq> Inl p"
  using assms unfolding installs_def by (metis Inl_Inr_False)+

lemma do_message_panics_iff:
  assumes "installs R"
  shows "do_message R db entry c msg timing target = Inl p \<longleftrightarrow>
     (\<exists>cr. underlying (tls_state entry) = ExpectServerHello cr \<and>
        (if c
         then p = UnimplementedCode
              \<and> (\<exists>shp suite. require_handshake_msg msg HT_ServerHello as_ServerHello = Inr shp
                   \<and> find (\<lambda>s. suite_id s = sh_cipher_suite shp) ALL_CIPHER_SUITES = Some (Suite_Tls12 suite))
              \<and> lookup_secret db cr ClientHandshakeTrafficSecret \<noteq> None
              \<and> lookup_secret db cr ServerHandshakeTrafficSecret \<noteq> None
         else p = UnreachableCode))"
proof -
  have d: "do_message R db entry c msg timing target = Inl p \<longleftrightarrow>
      drive R db (underlying (tls_state entry)) (entry\<lparr>tls_state := Failed\<rparr>) c msg = Inl p"
    by (cases "drive R db (tls_state entry) (entry\<lparr>tls_state := Failed\<rparr>) c msg")
      (auto simp: do_message_def Let_def drive_underlying [symmetric]
        split: drive_result.splits TLSDecodeError.splits)
  have u: "underlying s \<noteq> NeedKeys s' cr" for s s' cr
    by (induction s) auto
  have w: "drive_WaitForFinish R db su cr cf sf fl c msg \<noteq> Inl p" for su cr cf sf fl
    by (auto simp: drive_WaitForFinish_def Let_def res_bind_Inl_iff installs_Inl [OF assms] split: MessagePayload.split option.split)
  show ?thesis
    unfolding d
    by (cases "underlying (tls_state entry)")
      (auto simp: drive_ExpectServerHello_def Let_def u w res_bind_Inl_iff installs_Inl [OF assms] split: option.splits sum.splits SupportedCipherSuite.splits)
qed

section \<open>Records left in the deframer\<close>

text \<open>
  Replaying a queued message reads nothing from the deframer, so records that arrived together with
  it stay there until more data of that direction arrives.
\<close>

theorem late_key_leaves_records:
  "\<exists>t'. tracker_on_side_data example_rustls example_keys
           (NewKeyReceived ServerHandshakeTrafficSecret (ClientRandom [7]) (Secret [])) example_blocked =
         Some (Inr (t', [OnSideData (NewKeyReceived ServerHandshakeTrafficSecret (ClientRandom [7]) (Secret []))]))
       \<and> queue_of t' (ClientRandom [7]) = []
       \<and> (\<exists>e. tls_flows t' example_target = Some e \<and> deframer (tls_client e) = [9])"
  by (simp add: tracker_on_side_data_def process_queued_def process_message_def queue_of_def example_blocked_def
      tls_eval example_keys_def on_secret_def)

end
