(* ===== verification/Http1.thy ===== *)
theory Http1
  imports Listener_Stack
begin

text \<open>
  HTTP/1 decoding (\<open>crates/net_decode/src/http.rs\<close>): the events handed to the next layer, header
  maps and content lengths, and the flow that follows the requests and responses of a connection.

  The functions of the crates \<open>httparse\<close> and \<open>http\<close> that the code calls are the fields of the
  record \<open>http_lib\<close>, a parameter.  Their values (methods, URIs, header names and values) are byte
  strings.  Lengths (\<open>usize\<close>) are natural numbers: they count bytes held in memory.  Request ids are
  64-bit; the counter that hands them out panics when it would overflow.
\<close>

section \<open>Events\<close>

type_synonym RequestId = u64
type_synonym HeaderMap = "(bytes \<times> bytes) list"

datatype Version = HTTP_09 | HTTP_10 | HTTP_11 | HTTP_2 | HTTP_3

record RequestParts =
  req_method :: bytes
  req_uri :: bytes
  req_version :: Version
  req_headers :: HeaderMap

record ResponseParts =
  resp_status :: u16
  resp_version :: Version
  resp_headers :: HeaderMap

datatype HTTPStreamEvent =
    NewRequest RequestId RequestParts
  | ReqBodyChunk RequestId bytes
  | RequestFinished RequestId nat
  | NewResponse RequestId ResponseParts
  | RespBodyChunk RequestId bytes
  | ResponseFinished RequestId nat

fun event_id :: "HTTPStreamEvent \<Rightarrow> RequestId" where
  "event_id (NewRequest i parts) = i"
| "event_id (ReqBodyChunk i chunk) = i"
| "event_id (RequestFinished i len) = i"
| "event_id (NewResponse i parts) = i"
| "event_id (RespBodyChunk i chunk) = i"
| "event_id (ResponseFinished i len) = i"

text \<open>The closure \<open>new_request_id\<close> over the tracker's counter.\<close>

definition new_request_id :: "RequestId \<Rightarrow> (RequestId \<times> RequestId) res" where
  "new_request_id counter = (if counter = - 1 then Inl ArithOverflow else Inr (counter, counter + 1))"

section \<open>The parsers\<close>

datatype 'r parse_status = ParseErr | ParsePartial | ParseComplete nat 'r

record http1_request =
  q_method :: "bytes option"
  q_path :: "bytes option"
  q_version :: "u8 option"
  q_headers :: "(bytes \<times> bytes) list"

record http1_response =
  r_code :: "u16 option"
  r_version :: "u8 option"
  r_headers :: "(bytes \<times> bytes) list"

record http_lib =
  parse_request :: "bytes \<Rightarrow> http1_request parse_status"
  parse_response :: "bytes \<Rightarrow> http1_response parse_status"
  method_from_bytes :: "bytes \<Rightarrow> bytes option"
  uri_parse :: "bytes \<Rightarrow> bytes option"
  status_from_u16 :: "u16 \<Rightarrow> u16 option"
  header_name_from_bytes :: "bytes \<Rightarrow> bytes option"
  header_value_try_from :: "bytes \<Rightarrow> bytes option"
  header_value_to_str :: "bytes \<Rightarrow> bytes option"
  scheme_try_from :: "bytes \<Rightarrow> bytes option"
  authority_try_from :: "bytes \<Rightarrow> bytes option"
  path_and_query_try_from :: "bytes \<Rightarrow> bytes option"
  uri_from_parts :: "bytes option \<Rightarrow> bytes option \<Rightarrow> bytes option \<Rightarrow> bytes option"

section \<open>Headers\<close>

definition EMPTY_HEADER :: "bytes \<times> bytes" where
  "EMPTY_HEADER = ([], [])"

fun to_header_map :: "http_lib \<Rightarrow> (bytes \<times> bytes) list \<Rightarrow> HeaderMap" where
  "to_header_map L [] = []"
| "to_header_map L (h # hs) =
     (if h = EMPTY_HEADER then []
      else case header_name_from_bytes L (fst h) of
             None \<Rightarrow> to_header_map L hs
           | Some name \<Rightarrow>
               (case header_value_try_from L (snd h) of
                  None \<Rightarrow> to_header_map L hs
                | Some v \<Rightarrow> (name, v) # to_header_map L hs))"

definition CONTENT_LENGTH :: bytes where
  "CONTENT_LENGTH = ascii ''content-length''"

text \<open>\<open>usize::from_str_radix(s, 10)\<close>: digits after an optional plus sign, below \<open>2 ^ 64\<close>.\<close>

definition from_str_radix_10 :: "bytes \<Rightarrow> nat option" where
  "from_str_radix_10 s =
     (let ds = (case s of c # cs \<Rightarrow> if c = 43 \<and> cs \<noteq> [] then cs else s | [] \<Rightarrow> [])
      in if ds = [] \<or> \<not> list_all (\<lambda>c. 48 \<le> unat c \<and> unat c \<le> 57) ds then None
         else
           (let n = foldl (\<lambda>a c. 10 * a + (unat c - 48)) 0 ds
            in if n < 18446744073709551616 then Some n else None))"

definition content_length :: "http_lib \<Rightarrow> HeaderMap \<Rightarrow> nat" where
  "content_length L hm =
     (case Option.bind (map_of hm CONTENT_LENGTH)
             (\<lambda>v. Option.bind (header_value_to_str L v) from_str_radix_10) of
        Some n \<Rightarrow> n
      | None \<Rightarrow> 0)"

datatype HTTPParseError =
  BadVersion u8 | BadUri | InvalidUriParts | InvalidMethod | InvalidStatusCode | ParseFailed

definition decode_http1_version :: "u8 \<Rightarrow> HTTPParseError + Version" where
  "decode_http1_version v = (if v = 0 then Inr HTTP_10 else if v = 1 then Inr HTTP_11 else Inl (BadVersion v))"

section \<open>The flow\<close>

datatype HTTP1ParserState = RecvHeaders | Body | ParserError

record HTTP1Flow =
  h1_request_id :: RequestId
  client_state :: HTTP1ParserState
  server_state :: HTTP1ParserState
  req_buf :: bytes
  req_remain :: nat
  req_sent :: nat
  resp_buf :: bytes
  resp_remain :: nat
  resp_sent :: nat

definition HTTP1Flow_new :: "RequestId \<Rightarrow> HTTP1Flow" where
  "HTTP1Flow_new request_id =
     \<lparr>h1_request_id = request_id, client_state = RecvHeaders, server_state = RecvHeaders,
      req_buf = [], req_remain = 0, req_sent = 0, resp_buf = [], resp_remain = 0, resp_sent = 0\<rparr>"

type_synonym http_calls = "HTTPStreamEvent listener_call list"

definition stream_body ::
  "TimingInfo \<Rightarrow> IPTarget \<Rightarrow> bool \<Rightarrow> bytes \<Rightarrow> HTTP1Flow \<Rightarrow> RequestId \<Rightarrow>
   (nat \<times> HTTP1Flow \<times> RequestId \<times> http_calls) res" where
  "stream_body timing target to_client chunk flow counter =
     (let rid = h1_request_id flow
      in if to_client then
           (let to_consume = min (length chunk) (resp_remain flow);
                flow = flow\<lparr>resp_remain := resp_remain flow - to_consume, req_sent := req_sent flow + to_consume\<rparr>;
                calls = [OnData timing target to_client (RespBodyChunk rid chunk)]
            in if resp_remain flow = 0 then
                 res_bind (new_request_id counter) (\<lambda>(new_id, counter).
                   Inr (to_consume, HTTP1Flow_new new_id, counter,
                        calls @ [OnData timing target to_client (ResponseFinished rid (req_sent flow))]))
               else Inr (to_consume, flow, counter, calls))
         else
           (let to_consume = min (length chunk) (req_remain flow);
                flow = flow\<lparr>req_remain := req_remain flow - to_consume, req_sent := req_sent flow + to_consume\<rparr>;
                calls = [OnData timing target to_client (ReqBodyChunk rid chunk)]
            in if req_remain flow = 0 then
                 Inr (to_consume, flow, counter,
                      calls @ [OnData timing target to_client (RequestFinished rid (req_sent flow))])
               else Inr (to_consume, flow, counter, calls)))"

text \<open>
  The request head: the error or the number of bytes eaten, the flow, the counter and the calls.  The
  parts of the head are decoded in the order of the source, each failure returning at once.
\<close>

definition request_parts :: "http_lib \<Rightarrow> http1_request \<Rightarrow> (HTTPParseError + RequestParts) res" where
  "request_parts L request =
     res_bind (unwrap (q_method request)) (\<lambda>m.
     (case method_from_bytes L m of
        None \<Rightarrow> Inr (Inl InvalidMethod)
      | Some meth \<Rightarrow>
     res_bind (unwrap (q_path request)) (\<lambda>path.
     (case uri_parse L path of
        None \<Rightarrow> Inr (Inl BadUri)
      | Some uri \<Rightarrow>
     res_bind (unwrap (q_version request)) (\<lambda>v.
     (case decode_http1_version v of
        Inl e \<Rightarrow> Inr (Inl e)
      | Inr version \<Rightarrow>
          Inr (Inr \<lparr>req_method = meth, req_uri = uri, req_version = version,
                    req_headers = to_header_map L (q_headers request)\<rparr>)))))))"

definition response_parts :: "http_lib \<Rightarrow> http1_response \<Rightarrow> (HTTPParseError + ResponseParts) res" where
  "response_parts L response =
     res_bind (unwrap (r_code response)) (\<lambda>code.
     (case status_from_u16 L code of
        None \<Rightarrow> Inr (Inl InvalidStatusCode)
      | Some status \<Rightarrow>
     res_bind (unwrap (r_version response)) (\<lambda>v.
     (case decode_http1_version v of
        Inl e \<Rightarrow> Inr (Inl e)
      | Inr version \<Rightarrow>
          Inr (Inr \<lparr>resp_status = status, resp_version = version,
                    resp_headers = to_header_map L (r_headers response)\<rparr>)))))"

definition do_server_recv_headers ::
  "http_lib \<Rightarrow> TimingInfo \<Rightarrow> IPTarget \<Rightarrow> bytes \<Rightarrow> HTTP1Flow \<Rightarrow> RequestId \<Rightarrow>
   ((HTTPParseError + nat) \<times> HTTP1Flow \<times> RequestId \<times> http_calls) res" where
  "do_server_recv_headers L timing target data flow counter =
     (let flow = flow\<lparr>req_buf := req_buf flow @ data\<rparr>
      in case parse_request L (req_buf flow) of
           ParsePartial \<Rightarrow> Inr (Inr 0, flow, counter, [])
         | ParseErr \<Rightarrow> Inr (Inl ParseFailed, flow, counter, [])
         | ParseComplete body_start request \<Rightarrow>
             (let flow = flow\<lparr>req_sent := req_sent flow + body_start\<rparr>
              in res_bind (request_parts L request) (\<lambda>r.
                   case r of
                     Inl e \<Rightarrow> Inr (Inl e, flow, counter, [])
                   | Inr parts \<Rightarrow>
                       (let flow = flow\<lparr>req_remain := content_length L (req_headers parts), server_state := Body\<rparr>;
                            calls = [OnData timing target False (NewRequest (h1_request_id flow) parts)]
                        in res_bind (slice_from body_start (req_buf flow)) (\<lambda>body.
                           res_bind (stream_body timing target False body (flow\<lparr>req_buf := []\<rparr>) counter)
                             (\<lambda>(n, flow, counter, calls'). Inr (Inr (body_start + n), flow, counter, calls @ calls')))))))"

definition do_client_recv_headers ::
  "http_lib \<Rightarrow> TimingInfo \<Rightarrow> IPTarget \<Rightarrow> bytes \<Rightarrow> HTTP1Flow \<Rightarrow> RequestId \<Rightarrow>
   ((HTTPParseError + nat) \<times> HTTP1Flow \<times> RequestId \<times> http_calls) res" where
  "do_client_recv_headers L timing target data flow counter =
     (let flow = flow\<lparr>resp_buf := resp_buf flow @ data\<rparr>
      in case parse_response L (resp_buf flow) of
           ParsePartial \<Rightarrow> Inr (Inr 0, flow, counter, [])
         | ParseErr \<Rightarrow> Inr (Inl ParseFailed, flow, counter, [])
         | ParseComplete body_start response \<Rightarrow>
             (let flow = flow\<lparr>resp_sent := resp_sent flow + body_start\<rparr>
              in res_bind (response_parts L response) (\<lambda>r.
                   case r of
                     Inl e \<Rightarrow> Inr (Inl e, flow, counter, [])
                   | Inr parts \<Rightarrow>
                       (let flow = flow\<lparr>resp_remain := content_length L (resp_headers parts), client_state := Body\<rparr>;
                            calls = [OnData timing target True (NewResponse (h1_request_id flow) parts)]
                        in res_bind (slice_from body_start (resp_buf flow)) (\<lambda>body.
                           res_bind (stream_body timing target True body (flow\<lparr>resp_buf := []\<rparr>) counter)
                             (\<lambda>(n, flow, counter, calls'). Inr (Inr (body_start + n), flow, counter, calls @ calls')))))))"

text \<open>One round of the loop of \<open>handle_request\<close>; \<open>None\<close> stands for the early return.\<close>

definition handle_step ::
  "http_lib \<Rightarrow> TimingInfo \<Rightarrow> IPTarget \<Rightarrow> bool \<Rightarrow> bytes \<Rightarrow> HTTP1Flow \<Rightarrow> RequestId \<Rightarrow>
   (nat \<times> HTTP1Flow \<times> RequestId \<times> http_calls) option res" where
  "handle_step L timing target to_client data flow counter =
     (case (to_client, if to_client then client_state flow else server_state flow) of
        (False, RecvHeaders) \<Rightarrow>
          res_bind (do_server_recv_headers L timing target data flow counter) (\<lambda>(r, flow, counter, calls).
            case r of
              Inr n \<Rightarrow> Inr (Some (n, flow, counter, calls))
            | Inl e \<Rightarrow> Inr (Some (0, flow\<lparr>server_state := ParserError\<rparr>, counter, calls)))
      | (True, RecvHeaders) \<Rightarrow>
          res_bind (do_client_recv_headers L timing target data flow counter) (\<lambda>(r, flow, counter, calls).
            case r of
              Inr n \<Rightarrow> Inr (Some (n, flow, counter, calls))
            | Inl e \<Rightarrow> Inr (Some (0, flow\<lparr>client_state := ParserError\<rparr>, counter, calls)))
      | (_, Body) \<Rightarrow>
          res_bind (stream_body timing target to_client data flow counter) (\<lambda>r. Inr (Some r))
      | (_, ParserError) \<Rightarrow> Inr None)"

partial_function (option) http1_handle_request ::
  "http_lib \<Rightarrow> TimingInfo \<Rightarrow> IPTarget \<Rightarrow> bool \<Rightarrow> bytes \<Rightarrow> HTTP1Flow \<Rightarrow> RequestId \<Rightarrow> http_calls \<Rightarrow>
   (HTTP1Flow \<times> RequestId \<times> http_calls) res option" where
  "http1_handle_request L timing target to_client data flow counter out =
     (if data = [] then Some (Inr (flow, counter, out))
      else
        (case handle_step L timing target to_client data flow counter of
           Inl p \<Rightarrow> Some (Inl p)
         | Inr None \<Rightarrow> Some (Inr (flow, counter, out))
         | Inr (Some (eaten, flow, counter, calls)) \<Rightarrow>
             (case slice_from eaten data of
                Inl p \<Rightarrow> Some (Inl p)
              | Inr data \<Rightarrow>
                  http1_handle_request L timing target to_client data flow counter (out @ calls))))"

end
