(* ===== verification/Http1_Flow.thy ===== *)
theory Http1_Flow
  imports Http1
begin

text \<open>
  What the HTTP/1 flow guarantees: the events of whole messages, of several responses in one chunk and of
  bodies in several chunks, inputs on which its loop does not return, and the request ids its events carry.
\<close>

section \<open>Whole messages\<close>

lemma handle_request_Nil [simp]:
  "http1_handle_request L timing target to_client [] flow counter out = Some (Inr (flow, counter, out))"
  by (subst http1_handle_request.simps) simp

lemma handle_request_step:
  assumes "data \<noteq> []" and "handle_step L timing target c data flow counter = Inr (Some (n, flow', counter', calls))"
    and "n \<le> length data"
  shows "http1_handle_request L timing target c data flow counter out =
     http1_handle_request L timing target c (drop n data) flow' counter' (out @ calls)"
  using assms by (subst http1_handle_request.simps) (simp add: slice_from_def)

text \<open>
  C38. A request that arrives in one chunk, head and a body of the announced length, is reported as a
  new request with its parts, one body chunk and the end of the request with the full length of the
  message; the flow then waits for the response.
\<close>

theorem request_in_one_chunk:
  assumes "server_state flow = RecvHeaders" and "req_buf flow = []" and "data \<noteq> []"
    and "parse_request L data = ParseComplete body_start request"
    and "request_parts L request = Inr (Inr parts)"
    and "body_start \<le> length data" and "content_length L (req_headers parts) = length data - body_start"
  shows "http1_handle_request L timing target False data flow counter out =
     Some (Inr (flow\<lparr>server_state := Body, req_remain := 0, req_sent := req_sent flow + length data\<rparr>, counter,
       out @ [OnData timing target False (NewRequest (h1_request_id flow) parts),
              OnData timing target False (ReqBodyChunk (h1_request_id flow) (drop body_start data)),
              OnData timing target False (RequestFinished (h1_request_id flow) (req_sent flow + length data))]))"
proof -
  have "handle_step L timing target False data flow counter =
      Inr (Some (length data, flow\<lparr>server_state := Body, req_remain := 0, req_sent := req_sent flow + length data\<rparr>, counter,
        [OnData timing target False (NewRequest (h1_request_id flow) parts),
         OnData timing target False (ReqBodyChunk (h1_request_id flow) (drop body_start data)),
         OnData timing target False (RequestFinished (h1_request_id flow) (req_sent flow + length data))]))"
    using assms by (simp add: handle_step_def do_server_recv_headers_def Let_def slice_from_def stream_body_def)
  from handle_request_step [OF assms(3) this] show ?thesis by simp
qed

text \<open>
  C39. A response that arrives in one chunk is reported as a new response, one body chunk and the end of
  the response, and the flow is ready for the next request under a new request id.  The length
  reported at the end is the number of request bytes counted so far plus the length of the body.
\<close>

theorem response_in_one_chunk:
  assumes "client_state flow = RecvHeaders" and "resp_buf flow = []" and "data \<noteq> []" and "counter \<noteq> - 1"
    and "parse_response L data = ParseComplete body_start response"
    and "response_parts L response = Inr (Inr parts)"
    and "body_start \<le> length data" and "content_length L (resp_headers parts) = length data - body_start"
  shows "http1_handle_request L timing target True data flow counter out =
     Some (Inr (HTTP1Flow_new counter, counter + 1,
       out @ [OnData timing target True (NewResponse (h1_request_id flow) parts),
              OnData timing target True (RespBodyChunk (h1_request_id flow) (drop body_start data)),
              OnData timing target True
                (ResponseFinished (h1_request_id flow) (req_sent flow + (length data - body_start)))]))"
proof -
  have "handle_step L timing target True data flow counter =
      Inr (Some (length data, HTTP1Flow_new counter, counter + 1,
        [OnData timing target True (NewResponse (h1_request_id flow) parts),
         OnData timing target True (RespBodyChunk (h1_request_id flow) (drop body_start data)),
         OnData timing target True
           (ResponseFinished (h1_request_id flow) (req_sent flow + (length data - body_start)))]))"
    using assms
    by (simp add: handle_step_def do_client_recv_headers_def Let_def slice_from_def stream_body_def new_request_id_def)
  from handle_request_step [OF assms(3) this] show ?thesis by simp
qed

section \<open>Bodies in several chunks\<close>

fun feed_chunks ::
  "http_lib \<Rightarrow> TimingInfo \<Rightarrow> IPTarget \<Rightarrow> bool \<Rightarrow> bytes list \<Rightarrow> HTTP1Flow \<Rightarrow> RequestId \<Rightarrow> http_calls \<Rightarrow>
   (HTTP1Flow \<times> RequestId \<times> http_calls) res option" where
  "feed_chunks L timing target c [] flow counter out = Some (Inr (flow, counter, out))"
| "feed_chunks L timing target c (d # ds) flow counter out =
     (case http1_handle_request L timing target c d flow counter out of
        Some (Inr (flow, counter, out)) \<Rightarrow> feed_chunks L timing target c ds flow counter out
      | r \<Rightarrow> r)"

text \<open>
  C25. A request body of the announced length that arrives in any number of further chunks is reported
  chunk by chunk, in order and unchanged, and its end exactly once, after the last chunk and with the
  total length.
\<close>

theorem request_body_in_chunks:
  assumes "server_state flow = Body" and "\<forall>d \<in> set ds. d \<noteq> []" and "ds \<noteq> []"
    and "req_remain flow = length (concat ds)"
  shows "feed_chunks L timing target False ds flow counter out =
     Some (Inr (flow\<lparr>req_remain := 0, req_sent := req_sent flow + length (concat ds)\<rparr>, counter,
       out @ map (\<lambda>d. OnData timing target False (ReqBodyChunk (h1_request_id flow) d)) ds
           @ [OnData timing target False (RequestFinished (h1_request_id flow) (req_sent flow + length (concat ds)))]))"
  using assms
proof (induction ds arbitrary: flow out)
  case (Cons d ds)
  have d: "d \<noteq> []" using Cons.prems by simp
  show ?case
  proof (cases "ds = []")
    case True
    have "handle_step L timing target False d flow counter =
        Inr (Some (length d, flow\<lparr>req_remain := 0, req_sent := req_sent flow + length d\<rparr>, counter,
          [OnData timing target False (ReqBodyChunk (h1_request_id flow) d),
           OnData timing target False (RequestFinished (h1_request_id flow) (req_sent flow + length d))]))"
      using Cons.prems True by (simp add: handle_step_def stream_body_def Let_def)
    from handle_request_step [OF d this] True show ?thesis by simp
  next
    case False
    let ?flow = "flow\<lparr>req_remain := length (concat ds), req_sent := req_sent flow + length d\<rparr>"
    have "length (concat ds) \<noteq> 0" using False Cons.prems(2) by (cases ds) auto
    then have "handle_step L timing target False d flow counter =
        Inr (Some (length d, ?flow, counter, [OnData timing target False (ReqBodyChunk (h1_request_id flow) d)]))"
      using Cons.prems by (simp add: handle_step_def stream_body_def Let_def)
    from handle_request_step [OF d this]
    have "http1_handle_request L timing target False d flow counter out =
        Some (Inr (?flow, counter, out @ [OnData timing target False (ReqBodyChunk (h1_request_id flow) d)]))"
      by simp
    moreover have "feed_chunks L timing target False ds ?flow counter
        (out @ [OnData timing target False (ReqBodyChunk (h1_request_id flow) d)]) =
      Some (Inr (?flow\<lparr>req_remain := 0, req_sent := req_sent ?flow + length (concat ds)\<rparr>, counter,
       (out @ [OnData timing target False (ReqBodyChunk (h1_request_id flow) d)])
           @ map (\<lambda>d. OnData timing target False (ReqBodyChunk (h1_request_id ?flow) d)) ds
           @ [OnData timing target False (RequestFinished (h1_request_id ?flow) (req_sent ?flow + length (concat ds)))]))"
      by (rule Cons.IH) (use Cons.prems False in auto)
    ultimately show ?thesis by (simp add: add.assoc)
  qed
qed simp

section \<open>Several responses in one chunk\<close>

text \<open>
  A whole response: its head, its body and its parts.  \<open>httparse\<close> documents that it parses a
  complete head and gives its length whatever bytes follow; on a part of a head it asks for more.
\<close>

type_synonym response_message = "bytes \<times> bytes \<times> ResponseParts"

definition response_bytes :: "response_message \<Rightarrow> bytes" where
  "response_bytes = (\<lambda>(head, body, parts). head @ body)"

definition whole_response :: "http_lib \<Rightarrow> response_message \<Rightarrow> bool" where
  "whole_response L = (\<lambda>(head, body, parts). head \<noteq> [] \<and> content_length L (resp_headers parts) = length body
     \<and> (\<exists>response. response_parts L response = Inr (Inr parts)
          \<and> (\<forall>rest. parse_response L (head @ rest) = ParseComplete (length head) response)))"

text \<open>What the flow reports of them, from the current id, byte count and counter.\<close>

fun responses_reported ::
  "TimingInfo \<Rightarrow> IPTarget \<Rightarrow> RequestId \<Rightarrow> nat \<Rightarrow> RequestId \<Rightarrow> response_message list \<Rightarrow> http_calls" where
  "responses_reported timing target rid sent counter [] = []"
| "responses_reported timing target rid sent counter ((head, body, parts) # rs) =
     [OnData timing target True (NewResponse rid parts),
      OnData timing target True (RespBodyChunk rid (body @ concat (map response_bytes rs))),
      OnData timing target True (ResponseFinished rid (sent + length body))]
     @ responses_reported timing target counter 0 (counter + 1) rs"

lemma whole_response_step:
  assumes "whole_response L (head, body, parts)" and "client_state flow = RecvHeaders" and "resp_buf flow = []"
    and "counter \<noteq> - 1"
  shows "handle_step L timing target True (head @ body @ rest) flow counter =
     Inr (Some (length (head @ body), HTTP1Flow_new counter, counter + 1,
       [OnData timing target True (NewResponse (h1_request_id flow) parts),
        OnData timing target True (RespBodyChunk (h1_request_id flow) (body @ rest)),
        OnData timing target True (ResponseFinished (h1_request_id flow) (req_sent flow + length body))]))"
proof -
  from assms(1) obtain response where "response_parts L response = Inr (Inr parts)"
    "parse_response L (head @ body @ rest) = ParseComplete (length head) response"
    "content_length L (resp_headers parts) = length body"
    by (auto simp: whole_response_def)
  with assms(2-) show ?thesis
    by (simp add: handle_step_def do_client_recv_headers_def Let_def slice_from_def stream_body_def new_request_id_def)
qed

text \<open>
  A chunk that holds any number of whole responses is processed to its end: each of them is reported,
  in order, as a new response, a body chunk and its end, under consecutive request ids, and nothing is
  left over.  The body chunk of a response holds the rest of the chunk, the responses that follow it
  included.
\<close>

theorem responses_in_one_chunk:
  assumes "list_all (whole_response L) rs" and "client_state flow = RecvHeaders" and "resp_buf flow = []"
    and "unat counter + length rs < 2 ^ 64"
  shows "http1_handle_request L timing target True (concat (map response_bytes rs)) flow counter out =
     Some (Inr (if rs = [] then flow else HTTP1Flow_new (counter + word_of_nat (length rs) - 1),
       counter + word_of_nat (length rs),
       out @ responses_reported timing target (h1_request_id flow) (req_sent flow) counter rs))"
  using assms
proof (induction rs arbitrary: flow counter out)
  case (Cons r rs)
  obtain head body parts where r: "r = (head, body, parts)" by (cases r)
  let ?rest = "concat (map response_bytes rs)"
  have ne: "head \<noteq> []" using Cons.prems(1) r by (simp add: whole_response_def)
  have c: "counter \<noteq> - 1"
  proof
    assume "counter = - 1"
    then have "unat counter = 2 ^ 64 - 1" by (simp add: unsigned_minus_1_eq_mask mask_eq_exp_minus_1)
    with Cons.prems(4) show False by simp
  qed
  have u: "unat (counter + 1) = unat counter + 1"
    using Cons.prems(4) by (simp add: unat_word_ariths)
  have "whole_response L (head, body, parts)" using Cons.prems(1) r by simp
  from handle_request_step [OF _ whole_response_step [OF this Cons.prems(2,3) c, of timing target ?rest]] ne
  have "http1_handle_request L timing target True (concat (map response_bytes (r # rs))) flow counter out =
     http1_handle_request L timing target True ?rest (HTTP1Flow_new counter) (counter + 1)
       (out @ [OnData timing target True (NewResponse (h1_request_id flow) parts),
        OnData timing target True (RespBodyChunk (h1_request_id flow) (body @ ?rest)),
        OnData timing target True (ResponseFinished (h1_request_id flow) (req_sent flow + length body))])"
    by (simp add: r response_bytes_def)
  with Cons.IH [of "HTTP1Flow_new counter" "counter + 1"] Cons.prems(1,4) u show ?case
    by (simp add: HTTP1Flow_new_def r add.assoc [symmetric])
qed simp

section \<open>Requests that are never finished with\<close>

text \<open>
  The loop of \<open>handle_request\<close> does not end on request data that follows a finished request before
  its response has arrived (a pipelined request): no byte is consumed, and every round reports the
  end of the request again.
\<close>

definition request_done :: "bool \<Rightarrow> bytes \<Rightarrow> HTTP1Flow \<Rightarrow> bool" where
  "request_done c data flow \<longleftrightarrow> \<not> c \<and> data \<noteq> [] \<and> server_state flow = Body \<and> req_remain flow = 0"

theorem pipelined_request_never_returns:
  assumes "server_state flow = Body" and "req_remain flow = 0" and "data \<noteq> []"
  shows "http1_handle_request L timing target False data flow counter out = None"
proof (cases "http1_handle_request L timing target False data flow counter out")
  case (Some y)
  have "\<not> request_done False data flow"
  proof (rule http1_handle_request.raw_induct
      [where P = "\<lambda>L timing target c data flow counter out y. \<not> request_done c data flow", OF _ Some], goal_cases)
    case (1 f L timing target c data flow counter out y)
    show ?case
    proof
      assume d: "request_done c data flow"
      let ?calls = "[OnData timing target False (ReqBodyChunk (h1_request_id flow) data),
          OnData timing target False (RequestFinished (h1_request_id flow) (req_sent flow))]"
      from d 1(2) have "f L timing target c data (flow\<lparr>req_remain := 0, req_sent := req_sent flow\<rparr>) counter (out @ ?calls) = Some y"
        by (auto simp: request_done_def handle_step_def stream_body_def slice_from_def Let_def)
      from 1(1) [OF this] d show False by (simp add: request_done_def)
    qed
  qed
  with assms show ?thesis by (simp add: request_done_def)
qed simp

text \<open>
  A request head that is not complete yet is buffered, but the same data is then fed again, so the
  parser next sees it twice.
\<close>

theorem split_head_fed_twice:
  assumes "server_state flow = RecvHeaders" and "data \<noteq> []" and "parse_request L (req_buf flow @ data) = ParsePartial"
  shows "http1_handle_request L timing target False data flow counter out =
     http1_handle_request L timing target False data (flow\<lparr>req_buf := req_buf flow @ data\<rparr>) counter out"
proof -
  have "handle_step L timing target False data flow counter =
      Inr (Some (0, flow\<lparr>req_buf := req_buf flow @ data\<rparr>, counter, []))"
    using assms by (simp add: handle_step_def do_server_recv_headers_def Let_def)
  from handle_request_step [OF assms(2) this] show ?thesis by simp
qed

section \<open>Request ids\<close>

text \<open>The ids handed out while a counter went from one value to another.\<close>

definition fresh_ids :: "RequestId \<Rightarrow> RequestId \<Rightarrow> RequestId set" where
  "fresh_ids counter counter' = {i. counter \<le> i \<and> i < counter'}"

text \<open>All the calls are events of one connection that carry ids of a set.\<close>

definition calls_for :: "IPTarget \<Rightarrow> RequestId set \<Rightarrow> http_calls \<Rightarrow> bool" where
  "calls_for target ids calls \<longleftrightarrow>
     (\<forall>call \<in> set calls. \<exists>timing c ev. call = OnData timing target c ev \<and> event_id ev \<in> ids)"

lemma calls_for_simps [simp]:
  "calls_for target ids []" "calls_for target ids (xs @ ys) \<longleftrightarrow> calls_for target ids xs \<and> calls_for target ids ys"
  "calls_for target ids (OnData timing tg c ev # xs) \<longleftrightarrow> tg = target \<and> event_id ev \<in> ids \<and> calls_for target ids xs"
  by (auto simp: calls_for_def)

lemma calls_for_mono: "calls_for target A calls \<Longrightarrow> A \<subseteq> B \<Longrightarrow> calls_for target B calls"
  by (fastforce simp: calls_for_def)

lemma new_request_id_Inr:
  "new_request_id counter = Inr (i, counter') \<longleftrightarrow> counter \<noteq> - 1 \<and> i = counter \<and> counter' = counter + 1"
  by (auto simp: new_request_id_def)

lemma u64_Suc: "(counter :: u64) \<noteq> - 1 \<Longrightarrow> counter < counter + 1"
proof -
  assume "counter \<noteq> - 1"
  then have "unat counter \<noteq> 18446744073709551615" by (simp add: word_unat_eq_iff unsigned_minus_1_eq_mask mask_eq_exp_minus_1)
  moreover have "unat counter < 18446744073709551616" using unsigned_less [of counter, where 'a = nat] by simp
  ultimately have "unat (counter + 1) = unat counter + 1" by (simp add: unat_word_ariths)
  then show "counter < counter + 1" by (simp add: word_less_nat_alt)
qed

text \<open>
  What a handler may do with ids: the id of the flow stays or becomes one handed out meanwhile, and
  its events carry the old id or one of those.
\<close>

definition ids_ok :: "IPTarget \<Rightarrow> RequestId \<Rightarrow> RequestId \<Rightarrow> RequestId \<Rightarrow> RequestId \<Rightarrow> http_calls \<Rightarrow> bool" where
  "ids_ok target rid counter rid' counter' calls \<longleftrightarrow> counter \<le> counter'
     \<and> rid' \<in> insert rid (fresh_ids counter counter') \<and> calls_for target (insert rid (fresh_ids counter counter')) calls"

lemma fresh_ids_self [simp]: "fresh_ids counter counter = {}"
  by (auto simp: fresh_ids_def)

lemma ids_ok_refl [simp]: "ids_ok target rid counter rid counter calls \<longleftrightarrow> calls_for target {rid} calls"
  by (simp add: ids_ok_def)

lemma fresh_ids_split:
  "a \<le> b \<Longrightarrow> b \<le> c \<Longrightarrow> fresh_ids a c = fresh_ids a b \<union> fresh_ids b c"
  by (auto simp: fresh_ids_def)

lemma ids_ok_trans:
  assumes "ids_ok target r0 c0 r1 c1 xs" and "ids_ok target r1 c1 r2 c2 ys"
  shows "ids_ok target r0 c0 r2 c2 (xs @ ys)"
proof -
  have le: "c0 \<le> c1" "c1 \<le> c2" using assms by (simp_all add: ids_ok_def)
  note split = fresh_ids_split [OF le]
  have A: "calls_for target (insert r0 (fresh_ids c0 c2)) xs"
    using assms(1) by (auto simp: split ids_ok_def elim!: calls_for_mono)
  have sub: "insert r1 (fresh_ids c1 c2) \<subseteq> insert r0 (fresh_ids c0 c2)"
    using assms(1) by (auto simp: split ids_ok_def)
  have "calls_for target (insert r1 (fresh_ids c1 c2)) ys" using assms(2) by (simp add: ids_ok_def)
  note B = calls_for_mono [OF this sub]
  have "r2 \<in> insert r0 (fresh_ids c0 c2)" using assms(2) sub by (auto simp: ids_ok_def)
  with A B le show ?thesis by (simp add: ids_ok_def)
qed

lemma fresh_ids_Suc: "counter \<noteq> - 1 \<Longrightarrow> counter \<in> fresh_ids counter (counter + 1)"
  by (simp add: fresh_ids_def u64_Suc)

lemma stream_body_ids:
  assumes "stream_body timing target c chunk flow counter = Inr (n, flow', counter', calls)"
  shows "ids_ok target (h1_request_id flow) counter (h1_request_id flow') counter' calls"
  using assms fresh_ids_Suc [of counter] u64_Suc [of counter]
  by (auto simp: stream_body_def Let_def res_simps new_request_id_Inr HTTP1Flow_new_def ids_ok_def split: if_splits)

lemma do_server_recv_headers_ids:
  assumes "do_server_recv_headers L timing target data flow counter = Inr (r, flow', counter', calls)"
  shows "ids_ok target (h1_request_id flow) counter (h1_request_id flow') counter' calls"
proof (cases "parse_request L (req_buf flow @ data)")
  case (ParseComplete b request)
  show ?thesis
  proof (cases "request_parts L request")
    case (Inr q)
    show ?thesis
    proof (cases q)
      case p: (Inr parts)
      let ?fl = "flow\<lparr>req_sent := req_sent flow + b,
        req_remain := content_length L (req_headers parts), server_state := Body, req_buf := []\<rparr>"
      obtain k calls1 body where k: "stream_body timing target False body ?fl counter = Inr (k, flow', counter', calls1)"
        and cs: "calls = OnData timing target False (NewRequest (h1_request_id flow) parts) # calls1"
        using assms ParseComplete Inr p by (auto simp: do_server_recv_headers_def Let_def res_simps)
      from stream_body_ids [OF k] cs show ?thesis by (auto simp: ids_ok_def)
    qed (use assms ParseComplete Inr in \<open>auto simp: do_server_recv_headers_def Let_def\<close>)
  qed (use assms ParseComplete in \<open>auto simp: do_server_recv_headers_def Let_def\<close>)
qed (use assms in \<open>auto simp: do_server_recv_headers_def Let_def\<close>)

lemma do_client_recv_headers_ids:
  assumes "do_client_recv_headers L timing target data flow counter = Inr (r, flow', counter', calls)"
  shows "ids_ok target (h1_request_id flow) counter (h1_request_id flow') counter' calls"
proof (cases "parse_response L (resp_buf flow @ data)")
  case (ParseComplete b response)
  show ?thesis
  proof (cases "response_parts L response")
    case (Inr q)
    show ?thesis
    proof (cases q)
      case p: (Inr parts)
      let ?fl = "flow\<lparr>resp_sent := resp_sent flow + b,
        resp_remain := content_length L (resp_headers parts), client_state := Body, resp_buf := []\<rparr>"
      obtain k calls1 body where k: "stream_body timing target True body ?fl counter = Inr (k, flow', counter', calls1)"
        and cs: "calls = OnData timing target True (NewResponse (h1_request_id flow) parts) # calls1"
        using assms ParseComplete Inr p by (auto simp: do_client_recv_headers_def Let_def res_simps)
      from stream_body_ids [OF k] cs show ?thesis by (auto simp: ids_ok_def)
    qed (use assms ParseComplete Inr in \<open>auto simp: do_client_recv_headers_def Let_def\<close>)
  qed (use assms ParseComplete in \<open>auto simp: do_client_recv_headers_def Let_def\<close>)
qed (use assms in \<open>auto simp: do_client_recv_headers_def Let_def\<close>)

lemma handle_step_ids:
  assumes "handle_step L timing target c data flow counter = Inr (Some (n, flow', counter', calls))"
  shows "ids_ok target (h1_request_id flow) counter (h1_request_id flow') counter' calls"
proof (cases "if c then client_state flow else server_state flow")
  case RecvHeaders
  show ?thesis
  proof (cases c)
    case True
    obtain r flow1 where "do_client_recv_headers L timing target data flow counter = Inr (r, flow1, counter', calls)"
      "h1_request_id flow' = h1_request_id flow1"
      using assms RecvHeaders True
      by (cases "do_client_recv_headers L timing target data flow counter")
        (auto simp: handle_step_def split: sum.splits)
    then show ?thesis using do_client_recv_headers_ids by metis
  next
    case False
    obtain r flow1 where "do_server_recv_headers L timing target data flow counter = Inr (r, flow1, counter', calls)"
      "h1_request_id flow' = h1_request_id flow1"
      using assms RecvHeaders False
      by (cases "do_server_recv_headers L timing target data flow counter")
        (auto simp: handle_step_def split: sum.splits)
    then show ?thesis using do_server_recv_headers_ids by metis
  qed
next
  case Body
  with assms have "stream_body timing target c data flow counter = Inr (n, flow', counter', calls)"
    by (cases c) (auto simp: handle_step_def res_simps)
  then show ?thesis by (rule stream_body_ids)
next
  case ParserError
  with assms show ?thesis by (cases c) (auto simp: handle_step_def)
qed

lemma handle_request_ids:
  assumes "http1_handle_request L timing target c data flow counter out = Some (Inr (flow', counter', out'))"
  shows "\<exists>calls. out' = out @ calls \<and>
    ids_ok target (h1_request_id flow) counter (h1_request_id flow') counter' calls"
proof -
  let ?P = "\<lambda>(L :: http_lib) (timing :: TimingInfo) (target :: IPTarget) (c :: bool) (data :: bytes) flow counter out
      (y :: (HTTP1Flow \<times> RequestId \<times> http_calls) res). \<forall>flow' counter' out'. y = Inr (flow', counter', out') \<longrightarrow>
    (\<exists>calls. out' = out @ calls \<and> ids_ok target (h1_request_id flow) counter (h1_request_id flow') counter' calls)"
  have "?P L timing target c data flow counter out (Inr (flow', counter', out'))"
  proof (rule http1_handle_request.raw_induct [where P = ?P, OF _ assms], goal_cases)
    case (1 f L timing target c data flow counter out y)
    show ?case
    proof (cases "\<exists>n flow1 counter1 calls data1. data \<noteq> []
        \<and> handle_step L timing target c data flow counter = Inr (Some (n, flow1, counter1, calls))
        \<and> slice_from n data = Inr data1")
      case True
      then obtain n flow1 counter1 calls data1 where s: "data \<noteq> []"
        "handle_step L timing target c data flow counter = Inr (Some (n, flow1, counter1, calls))"
        "slice_from n data = Inr data1" by blast
      with 1(2) have "f L timing target c data1 flow1 counter1 (out @ calls) = Some y" by simp
      from 1(1) [OF this] handle_step_ids [OF s(2)] show ?thesis
        using ids_ok_trans by fastforce
    next
      case False
      with 1(2) show ?thesis
        by (auto split: if_splits sum.splits option.splits)
    qed
  qed
  then show ?thesis by blast
qed

section \<open>Examples\<close>

text \<open>A parser of heads of three bytes that announce a body of two bytes.\<close>

definition example_head :: "(bytes \<times> bytes) list" where
  "example_head = [(CONTENT_LENGTH, [50]), EMPTY_HEADER]"

definition example_lib :: http_lib where
  "example_lib =
     \<lparr>parse_request = (\<lambda>buf. if length buf < 3 then ParsePartial else ParseComplete 3
        \<lparr>q_method = Some (ascii ''GET''), q_path = Some (ascii ''/''), q_version = Some 1, q_headers = example_head\<rparr>),
      parse_response = (\<lambda>buf. if length buf < 3 then ParseErr else ParseComplete 3
        \<lparr>r_code = Some 200, r_version = Some 1, r_headers = example_head\<rparr>),
      method_from_bytes = Some, uri_parse = Some, status_from_u16 = Some, header_name_from_bytes = Some,
      header_value_try_from = Some, header_value_to_str = Some, scheme_try_from = Some, authority_try_from = Some,
      path_and_query_try_from = Some, uri_from_parts = (\<lambda>s a p. p)\<rparr>"

definition http_time :: TimingInfo where
  "http_time = \<lparr>received_on_wire = 5, other_times = Map.empty\<rparr>"

definition http_target :: IPTarget where
  "http_target = IPTarget_V4 40000 80 1 2"

lemmas http1_eval = example_lib_def example_head_def request_parts_def response_parts_def decode_http1_version_def
  to_header_map.simps CONTENT_LENGTH_def EMPTY_HEADER_def content_length_def from_str_radix_10_def ascii_def
  HTTP1Flow_new_def Let_def

theorem request_in_one_chunk_witness:
  "\<exists>parts. http1_handle_request example_lib http_time http_target False [1, 2, 3, 8, 9] (HTTP1Flow_new 0) 1 [] =
     Some (Inr ((HTTP1Flow_new 0)\<lparr>server_state := Body, req_remain := 0, req_sent := 5\<rparr>, 1,
       [OnData http_time http_target False (NewRequest 0 parts),
        OnData http_time http_target False (ReqBodyChunk 0 [8, 9]),
        OnData http_time http_target False (RequestFinished 0 5)]))"
proof -
  let ?parts = "\<lparr>req_method = ascii ''GET'', req_uri = ascii ''/'', req_version = HTTP_11, req_headers = [(CONTENT_LENGTH, [50])]\<rparr>"
  have "http1_handle_request example_lib http_time http_target False [1, 2, 3, 8, 9] (HTTP1Flow_new 0) 1 [] =
     Some (Inr ((HTTP1Flow_new 0)\<lparr>server_state := Body, req_remain := 0, req_sent := 5\<rparr>, 1,
       [OnData http_time http_target False (NewRequest 0 ?parts),
        OnData http_time http_target False (ReqBodyChunk 0 [8, 9]),
        OnData http_time http_target False (RequestFinished 0 5)]))"
    using request_in_one_chunk [of "HTTP1Flow_new 0" "[1, 2, 3, 8, 9]" example_lib 3
        "\<lparr>q_method = Some (ascii ''GET''), q_path = Some (ascii ''/''), q_version = Some 1, q_headers = example_head\<rparr>"
        ?parts http_time http_target 1 "[]"]
    by (simp add: http1_eval)
  then show ?thesis by blast
qed

theorem response_in_one_chunk_witness:
  "\<exists>parts. http1_handle_request example_lib http_time http_target True [1, 2, 3, 8, 9] (HTTP1Flow_new 0) 1 [] =
     Some (Inr (HTTP1Flow_new 1, 2,
       [OnData http_time http_target True (NewResponse 0 parts),
        OnData http_time http_target True (RespBodyChunk 0 [8, 9]),
        OnData http_time http_target True (ResponseFinished 0 2)]))"
proof -
  let ?parts = "\<lparr>resp_status = 200, resp_version = HTTP_11, resp_headers = [(CONTENT_LENGTH, [50])]\<rparr>"
  have "http1_handle_request example_lib http_time http_target True [1, 2, 3, 8, 9] (HTTP1Flow_new 0) 1 [] =
     Some (Inr (HTTP1Flow_new 1, 2,
       [OnData http_time http_target True (NewResponse 0 ?parts),
        OnData http_time http_target True (RespBodyChunk 0 [8, 9]),
        OnData http_time http_target True (ResponseFinished 0 2)]))"
    using response_in_one_chunk [of "HTTP1Flow_new 0" "[1, 2, 3, 8, 9]" 1 example_lib 3
        "\<lparr>r_code = Some 200, r_version = Some 1, r_headers = example_head\<rparr>"
        ?parts http_time http_target "[]"]
    by (simp add: http1_eval)
  then show ?thesis by blast
qed

theorem request_body_in_chunks_witness:
  "feed_chunks example_lib http_time http_target False [[8, 9], [7]]
     ((HTTP1Flow_new 0)\<lparr>server_state := Body, req_remain := 3\<rparr>) 1 [] =
   Some (Inr ((HTTP1Flow_new 0)\<lparr>server_state := Body, req_remain := 0, req_sent := 3\<rparr>, 1,
     [OnData http_time http_target False (ReqBodyChunk 0 [8, 9]), OnData http_time http_target False (ReqBodyChunk 0 [7]),
      OnData http_time http_target False (RequestFinished 0 3)]))"
  using request_body_in_chunks [of "(HTTP1Flow_new 0)\<lparr>server_state := Body, req_remain := 3\<rparr>" "[[8, 9], [7]]"
      example_lib http_time http_target 1 "[]"]
  by (simp add: HTTP1Flow_new_def del: feed_chunks.simps)

text \<open>A parser that, like \<open>httparse\<close>, asks for more until the head, here a line, is complete.\<close>

definition line_lib :: http_lib where
  "line_lib = example_lib\<lparr>parse_response := (\<lambda>buf.
     if 10 \<in> set buf then ParseComplete (Suc (length (takeWhile (\<lambda>b. b \<noteq> 10) buf)))
       \<lparr>r_code = Some 200, r_version = Some 1, r_headers = example_head\<rparr>
     else ParsePartial)\<rparr>"

theorem responses_in_one_chunk_witness:
  "\<exists>parts. parse_response line_lib [72] = ParsePartial
     \<and> http1_handle_request line_lib http_time http_target True [72, 10, 1, 2, 73, 10, 3, 4] (HTTP1Flow_new 0) 1 [] =
     Some (Inr (HTTP1Flow_new 2, 3,
       [OnData http_time http_target True (NewResponse 0 parts),
        OnData http_time http_target True (RespBodyChunk 0 [1, 2, 73, 10, 3, 4]),
        OnData http_time http_target True (ResponseFinished 0 2),
        OnData http_time http_target True (NewResponse 1 parts),
        OnData http_time http_target True (RespBodyChunk 1 [3, 4]),
        OnData http_time http_target True (ResponseFinished 1 2)]))"
proof -
  let ?parts = "\<lparr>resp_status = 200, resp_version = HTTP_11, resp_headers = [(CONTENT_LENGTH, [50])]\<rparr>"
  let ?rs = "[([72, 10], [1, 2], ?parts), ([73, 10], [3, 4], ?parts)]"
  have "response_parts line_lib \<lparr>r_code = Some 200, r_version = Some 1, r_headers = example_head\<rparr> = Inr (Inr ?parts)"
    "content_length line_lib (resp_headers ?parts) = 2"
    by (simp_all add: http1_eval line_lib_def)
  then have "list_all (whole_response line_lib) ?rs"
    by (auto simp: whole_response_def) (auto simp: line_lib_def)
  from responses_in_one_chunk [OF this, of "HTTP1Flow_new 0" 1 http_time http_target "[]"]
  have "http1_handle_request line_lib http_time http_target True [72, 10, 1, 2, 73, 10, 3, 4] (HTTP1Flow_new 0) 1 [] =
     Some (Inr (HTTP1Flow_new 2, 3, responses_reported http_time http_target 0 0 1 ?rs))"
    by (simp add: HTTP1Flow_new_def response_bytes_def)
  then show ?thesis by (auto simp: response_bytes_def line_lib_def)
qed

end
