(* ===== verification/Http2.thy ===== *)
theory Http2
  imports Http1
begin

text \<open>
  HTTP/2 decoding (\<open>crates/net_decode/src/http.rs\<close>): the state of a stream, the events of a frame,
  and the flow that feeds the two codecs of a connection.

  The frame codec and the reader of the connection preface are those of the crate \<open>h2-intercept\<close>;
  here they are the fields of the record \<open>h2_lib\<close>, a parameter, over the type variables \<open>'k\<close> for a
  codec with its input buffer and \<open>'h\<close> for a preface reader.
\<close>

section \<open>Frames\<close>

type_synonym StreamId = u32

record Pseudo =
  ps_method :: "bytes option"
  ps_scheme :: "bytes option"
  ps_authority :: "bytes option"
  ps_path :: "bytes option"
  ps_status :: "u16 option"

text \<open>Stream, payload and END_STREAM of data; stream, fields, END_STREAM and END_HEADERS of headers.\<close>

datatype HTTP2Frame =
    F_Data StreamId bytes bool
  | F_Headers StreamId Pseudo HeaderMap bool bool
  | F_Priority
  | F_PushPromise StreamId
  | F_Settings
  | F_Ping
  | F_GoAway
  | F_WindowUpdate
  | F_Reset StreamId

fun stream_id :: "HTTP2Frame \<Rightarrow> StreamId option" where
  "stream_id (F_Data sid payload es) = Some sid"
| "stream_id (F_Headers sid pseudo hs es eh) = Some sid"
| "stream_id F_Priority = None"
| "stream_id (F_PushPromise sid) = Some sid"
| "stream_id F_Settings = None"
| "stream_id F_Ping = None"
| "stream_id F_GoAway = None"
| "stream_id F_WindowUpdate = None"
| "stream_id (F_Reset sid) = Some sid"

definition pseudo_to_uri :: "http_lib \<Rightarrow> Pseudo \<Rightarrow> HTTPParseError + bytes" where
  "pseudo_to_uri L pseudo =
     (case uri_from_parts L
             (Option.bind (ps_scheme pseudo) (scheme_try_from L))
             (Option.bind (ps_authority pseudo) (authority_try_from L))
             (Option.bind (ps_path pseudo) (path_and_query_try_from L)) of
        Some uri \<Rightarrow> Inr uri
      | None \<Rightarrow> Inl InvalidUriParts)"

section \<open>Streams\<close>

datatype SideState = Side_Headers | Side_HeadersContinued | Side_Data

datatype StreamState = Stream_Open | HalfClosedServer | HalfClosedClient | Stream_Closed | Stream_Error

record Stream =
  st_state :: StreamState
  st_server :: SideState
  st_client :: SideState
  st_request_id :: RequestId

definition Stream_new :: "RequestId \<Rightarrow> Stream" where
  "Stream_new request_id =
     \<lparr>st_state = Stream_Open, st_server = Side_Headers, st_client = Side_Headers, st_request_id = request_id\<rparr>"

text \<open>Which of its two callbacks a frame makes \<open>drive_state\<close> call, after the state has changed.\<close>

datatype callback = NoCallback | OnDataCallback | OnHeadersCallback

definition open_or_half_closed ::
  "bool \<Rightarrow> Stream \<Rightarrow> HTTP2Frame \<Rightarrow> StreamState \<times> StreamState \<Rightarrow> (Stream \<times> callback) res" where
  "open_or_half_closed to_client this frame nexts =
     (let our_next = (if to_client then fst nexts else snd nexts)
      in case frame of
           F_Headers sid pseudo hs end_stream end_headers \<Rightarrow>
             if end_stream \<and> \<not> end_headers then Inl AssertFailed
             else
               (let side = (if end_headers then Side_Data else Side_HeadersContinued);
                    this = (if to_client then this\<lparr>st_client := side\<rparr> else this\<lparr>st_server := side\<rparr>);
                    this = (if end_stream then this\<lparr>st_state := our_next\<rparr> else this)
                in Inr (this, OnHeadersCallback))
         | F_Data sid payload end_stream \<Rightarrow>
             Inr (if end_stream then this\<lparr>st_state := our_next\<rparr> else this, OnDataCallback)
         | _ \<Rightarrow> Inr (this\<lparr>st_state := Stream_Error\<rparr>, NoCallback))"

definition is_reset :: "HTTP2Frame \<Rightarrow> bool" where
  "is_reset frame = (case frame of F_Reset sid \<Rightarrow> True | _ \<Rightarrow> False)"

definition stream_drive_state :: "bool \<Rightarrow> HTTP2Frame \<Rightarrow> Stream \<Rightarrow> (Stream \<times> callback) res" where
  "stream_drive_state to_client frame this =
     (case st_state this of
        Stream_Open \<Rightarrow> open_or_half_closed to_client this frame (HalfClosedServer, HalfClosedClient)
      | HalfClosedClient \<Rightarrow>
          if to_client then open_or_half_closed to_client this frame (Stream_Closed, Stream_Closed)
          else if is_reset frame then Inr (this, NoCallback)
          else Inr (this\<lparr>st_state := Stream_Error\<rparr>, NoCallback)
      | HalfClosedServer \<Rightarrow>
          if \<not> to_client then open_or_half_closed to_client this frame (Stream_Closed, Stream_Closed)
          else if is_reset frame then Inr (this, NoCallback)
          else Inr (this\<lparr>st_state := Stream_Error\<rparr>, NoCallback)
      | Stream_Closed \<Rightarrow> Inr (this, NoCallback)
      | Stream_Error \<Rightarrow> Inr (this, NoCallback))"

text \<open>The two closures of \<open>on_h2_frame\<close>: the events they send on, or the error they return.\<close>

definition data_events :: "bool \<Rightarrow> RequestId \<Rightarrow> bytes \<Rightarrow> bool \<Rightarrow> HTTPStreamEvent list" where
  "data_events to_client rid payload end_stream =
     (if to_client then RespBodyChunk rid payload # (if end_stream then [ResponseFinished rid 0] else [])
      else ReqBodyChunk rid payload # (if end_stream then [RequestFinished rid 0] else []))"

definition headers_events ::
  "http_lib \<Rightarrow> bool \<Rightarrow> RequestId \<Rightarrow> Pseudo \<Rightarrow> HeaderMap \<Rightarrow> bool \<Rightarrow> (HTTPParseError + HTTPStreamEvent list) res" where
  "headers_events L to_client rid pseudo hs end_stream =
     (if to_client then
        res_bind (expect (ps_status pseudo)) (\<lambda>status.
          Inr (Inr [NewResponse rid \<lparr>resp_status = status, resp_version = HTTP_2, resp_headers = hs\<rparr>]))
      else
        (case pseudo_to_uri L pseudo of
           Inl e \<Rightarrow> Inr (Inl e)
         | Inr uri \<Rightarrow>
             (let parts = \<lparr>req_method = (case ps_method pseudo of Some m \<Rightarrow> m | None \<Rightarrow> ascii ''GET''),
                           req_uri = uri, req_version = HTTP_2, req_headers = hs\<rparr>
              in Inr (Inr (NewRequest rid parts # (if end_stream then [RequestFinished rid 0] else []))))))"

definition callback_events ::
  "http_lib \<Rightarrow> bool \<Rightarrow> HTTP2Frame \<Rightarrow> RequestId \<Rightarrow> callback \<Rightarrow> (HTTPParseError + HTTPStreamEvent list) res" where
  "callback_events L to_client frame rid cb =
     (case (cb, frame) of
        (OnDataCallback, F_Data sid payload end_stream) \<Rightarrow> Inr (Inr (data_events to_client rid payload end_stream))
      | (OnHeadersCallback, F_Headers sid pseudo hs end_stream end_headers) \<Rightarrow>
          headers_events L to_client rid pseudo hs end_stream
      | _ \<Rightarrow> Inr (Inr []))"

section \<open>The flow\<close>

datatype poll_frame = PollFrame HTTP2Frame | PollError | PollNone | PollPending
datatype 'k poll_preface = PrefaceOk 'k | PrefaceError | PrefacePending

record ('k, 'h) h2_lib =
  codec_new :: 'k
  codec_append :: "'k \<Rightarrow> bytes \<Rightarrow> 'k"
  codec_poll :: "'k \<Rightarrow> 'k \<times> poll_frame"
  preface_new :: 'h
  preface_append :: "'h \<Rightarrow> bytes \<Rightarrow> 'h"
  preface_poll :: "'h \<Rightarrow> 'h \<times> 'k poll_preface"

datatype ('k, 'h) HTTP2Server = Handshake 'h | Serve 'k | Server_Error

type_synonym Streams = "StreamId \<rightharpoonup> Stream"

record ('k, 'h) HTTP2Flow =
  h2_request_id :: RequestId
  streams :: Streams
  h2_client :: 'k
  h2_server :: "('k, 'h) HTTP2Server"

definition HTTP2Flow_new :: "('k, 'h) h2_lib \<Rightarrow> RequestId \<Rightarrow> ('k, 'h) HTTP2Flow" where
  "HTTP2Flow_new K request_id =
     \<lparr>h2_request_id = request_id, streams = Map.empty, h2_client = codec_new K,
      h2_server = Handshake (preface_new K)\<rparr>"

definition stream_entry :: "StreamId \<Rightarrow> Streams \<Rightarrow> RequestId \<Rightarrow> (Stream \<times> RequestId) res" where
  "stream_entry sid ss counter =
     (case ss sid of
        Some stream \<Rightarrow> Inr (stream, counter)
      | None \<Rightarrow> res_bind (new_request_id counter) (\<lambda>(i, counter). Inr (Stream_new i, counter)))"

definition on_h2_frame ::
  "http_lib \<Rightarrow> TimingInfo \<Rightarrow> IPTarget \<Rightarrow> bool \<Rightarrow> HTTP2Frame \<Rightarrow> Streams \<Rightarrow> RequestId \<Rightarrow>
   (HTTPParseError option \<times> Streams \<times> RequestId \<times> http_calls) res" where
  "on_h2_frame L timing target to_client frame ss counter =
     (case stream_id frame of
        None \<Rightarrow> Inr (None, ss, counter, [])
      | Some sid \<Rightarrow>
          if sid = 0 then Inr (None, ss, counter, [])
          else
            res_bind (stream_entry sid ss counter) (\<lambda>(stream, counter).
            res_bind (stream_drive_state to_client frame stream) (\<lambda>(stream, cb).
            res_bind (callback_events L to_client frame (st_request_id stream) cb) (\<lambda>r.
              case r of
                Inl e \<Rightarrow> Inr (Some e, ss(sid \<mapsto> stream), counter, [])
              | Inr evs \<Rightarrow>
                  Inr (None, ss(sid \<mapsto> stream), counter, map (OnData timing target to_client) evs)))))"

partial_function (option) feed_codec_loop ::
  "('k, 'h) h2_lib \<Rightarrow> http_lib \<Rightarrow> TimingInfo \<Rightarrow> IPTarget \<Rightarrow> bool \<Rightarrow> 'k \<Rightarrow> Streams \<Rightarrow> RequestId \<Rightarrow> http_calls \<Rightarrow>
   (HTTPParseError option \<times> 'k \<times> Streams \<times> RequestId \<times> http_calls) res option" where
  "feed_codec_loop K L timing target to_client codec ss counter out =
     (case codec_poll K codec of
        (codec, PollFrame f) \<Rightarrow>
          (case on_h2_frame L timing target to_client f ss counter of
             Inl p \<Rightarrow> Some (Inl p)
           | Inr (e, ss, counter, calls) \<Rightarrow>
               (case e of
                  Some err \<Rightarrow> Some (Inr (Some err, codec, ss, counter, out @ calls))
                | None \<Rightarrow> feed_codec_loop K L timing target to_client codec ss counter (out @ calls)))
      | (codec, PollError) \<Rightarrow> feed_codec_loop K L timing target to_client codec ss counter out
      | (codec, PollNone) \<Rightarrow> Some (Inr (None, codec, ss, counter, out))
      | (codec, PollPending) \<Rightarrow> Some (Inl UnreachableCode))"

definition feed_codec ::
  "('k, 'h) h2_lib \<Rightarrow> http_lib \<Rightarrow> TimingInfo \<Rightarrow> IPTarget \<Rightarrow> bool \<Rightarrow> bytes \<Rightarrow> 'k \<Rightarrow> Streams \<Rightarrow> RequestId \<Rightarrow>
   (HTTPParseError option \<times> 'k \<times> Streams \<times> RequestId \<times> http_calls) res option" where
  "feed_codec K L timing target to_client data codec ss counter =
     feed_codec_loop K L timing target to_client (codec_append K codec data) ss counter []"

definition http2_handle_request ::
  "('k, 'h) h2_lib \<Rightarrow> http_lib \<Rightarrow> TimingInfo \<Rightarrow> IPTarget \<Rightarrow> bool \<Rightarrow> bytes \<Rightarrow> ('k, 'h) HTTP2Flow \<Rightarrow> RequestId \<Rightarrow>
   (HTTPParseError option \<times> ('k, 'h) HTTP2Flow \<times> RequestId \<times> http_calls) res option" where
  "http2_handle_request K L timing target to_client data flow counter =
     (if to_client then
        map_option (\<lambda>r. res_bind r (\<lambda>(e, codec, ss, counter, calls).
            Inr (e, flow\<lparr>h2_client := codec, streams := ss\<rparr>, counter, calls)))
          (feed_codec K L timing target to_client data (h2_client flow) (streams flow) counter)
      else
        (case h2_server flow of
           Handshake hs \<Rightarrow>
             (case preface_poll K (preface_append K hs data) of
                (hs, PrefaceOk codec) \<Rightarrow> Some (Inr (None, flow\<lparr>h2_server := Serve codec\<rparr>, counter, []))
              | (hs, PrefaceError) \<Rightarrow> Some (Inr (None, flow\<lparr>h2_server := Server_Error\<rparr>, counter, []))
              | (hs, PrefacePending) \<Rightarrow> Some (Inl UnreachableCode))
         | Serve codec \<Rightarrow>
             map_option (\<lambda>r. res_bind r (\<lambda>(e, codec, ss, counter, calls).
                 Inr (e, flow\<lparr>h2_server := Serve codec, streams := ss\<rparr>, counter, calls)))
               (feed_codec K L timing target to_client data codec (streams flow) counter)
         | Server_Error \<Rightarrow> Some (Inr (None, flow, counter, []))))"

end
