(* ===== verification/Http2_Streams.thy ===== *)
theory Http2_Streams
  imports Http2
begin

text \<open>
  What a stream of HTTP/2 reports: whole exchanges whatever the interleaving of the two directions, the
  finality of the end of a request or response, and the frames on which the stream's code panics or
  keeps silent.
\<close>

section \<open>A stream on its own\<close>

definition stream_step :: "http_lib \<Rightarrow> bool \<Rightarrow> HTTP2Frame \<Rightarrow> Stream \<Rightarrow> (Stream \<times> HTTPStreamEvent list) res" where
  "stream_step L c frame s =
     res_bind (stream_drive_state c frame s) (\<lambda>(s, cb).
     res_bind (callback_events L c frame (st_request_id s) cb) (\<lambda>r.
       Inr (s, case r of Inl e \<Rightarrow> [] | Inr evs \<Rightarrow> evs)))"

fun stream_run :: "http_lib \<Rightarrow> (bool \<times> HTTP2Frame) list \<Rightarrow> Stream \<Rightarrow> (Stream \<times> HTTPStreamEvent list) res" where
  "stream_run L [] s = Inr (s, [])"
| "stream_run L ((c, f) # fs) s =
     res_bind (stream_step L c f s) (\<lambda>(s, evs).
     res_bind (stream_run L fs s) (\<lambda>(s, evs'). Inr (s, evs @ evs')))"

text \<open>A frame of a known stream does to the connection what it does to the stream.\<close>

lemma on_h2_frame_stream:
  assumes "stream_id frame = Some sid" and "sid \<noteq> 0" and "ss sid = Some s"
    and "on_h2_frame L timing target c frame ss counter = Inr (e, ss', counter', calls)"
  shows "\<exists>s' evs. stream_step L c frame s = Inr (s', evs) \<and> ss' = ss(sid \<mapsto> s') \<and> counter' = counter
    \<and> calls = map (OnData timing target c) evs"
proof -
  obtain s1 cb r where "stream_drive_state c frame s = Inr (s1, cb)"
    "callback_events L c frame (st_request_id s1) cb = Inr r"
    using assms by (auto simp: on_h2_frame_def stream_entry_def res_simps)
  with assms show ?thesis
    by (cases r) (auto simp: on_h2_frame_def stream_entry_def stream_step_def)
qed

section \<open>Exchanges\<close>

fun is_request_event :: "HTTPStreamEvent \<Rightarrow> bool" where
  "is_request_event (NewRequest i parts) = True"
| "is_request_event (ReqBodyChunk i chunk) = True"
| "is_request_event (RequestFinished i len) = True"
| "is_request_event ev = False"

definition events_of :: "bool \<Rightarrow> HTTPStreamEvent list \<Rightarrow> HTTPStreamEvent list" where
  "events_of c evs = filter (\<lambda>ev. is_request_event ev \<longleftrightarrow> \<not> c) evs"

lemma events_of_append [simp]: "events_of c (xs @ ys) = events_of c xs @ events_of c ys"
  by (simp add: events_of_def)

definition frame_callback :: "HTTP2Frame \<Rightarrow> callback" where
  "frame_callback f = (case f of F_Data sid p es \<Rightarrow> OnDataCallback | F_Headers sid ps hs es eh \<Rightarrow> OnHeadersCallback
     | _ \<Rightarrow> NoCallback)"

definition ends :: "HTTP2Frame \<Rightarrow> bool" where
  "ends f = (case f of F_Data sid p es \<Rightarrow> es | F_Headers sid ps hs es eh \<Rightarrow> es | _ \<Rightarrow> False)"

text \<open>
  What a frame should be reported as: a chunk of the body and, with END_STREAM, the end of the message;
  or the head of the message.  The end of a message without a body is expected for requests only.
\<close>

definition frame_events :: "http_lib \<Rightarrow> bool \<Rightarrow> RequestId \<Rightarrow> HTTP2Frame \<Rightarrow> HTTPStreamEvent list" where
  "frame_events L c rid f =
     (case f of
        F_Data sid p es \<Rightarrow>
          (if c then [RespBodyChunk rid p] else [ReqBodyChunk rid p])
          @ (if es then if c then [ResponseFinished rid 0] else [RequestFinished rid 0] else [])
      | F_Headers sid ps hs es eh \<Rightarrow>
          if c then [NewResponse rid \<lparr>resp_status = the (ps_status ps), resp_version = HTTP_2, resp_headers = hs\<rparr>]
          else NewRequest rid \<lparr>req_method = (case ps_method ps of Some m \<Rightarrow> m | None \<Rightarrow> ascii ''GET''),
                               req_uri = projr (pseudo_to_uri L ps), req_version = HTTP_2, req_headers = hs\<rparr>
               # (if es then [RequestFinished rid 0] else [])
      | _ \<Rightarrow> [])"

text \<open>A data or headers frame that can be reported, with its headers complete if it ends its direction.\<close>

definition good_frame :: "http_lib \<Rightarrow> bool \<Rightarrow> HTTP2Frame \<Rightarrow> bool" where
  "good_frame L c f \<longleftrightarrow>
     (case f of
        F_Data sid p es \<Rightarrow> True
      | F_Headers sid ps hs es eh \<Rightarrow>
          (es \<longrightarrow> eh) \<and> (if c then ps_status ps \<noteq> None else \<not> isl (pseudo_to_uri L ps))
      | _ \<Rightarrow> False)"

fun good_direction :: "http_lib \<Rightarrow> bool \<Rightarrow> HTTP2Frame list \<Rightarrow> bool" where
  "good_direction L c [] = False"
| "good_direction L c [f] = (good_frame L c f \<and> ends f)"
| "good_direction L c (f # fs) = (good_frame L c f \<and> \<not> ends f \<and> good_direction L c fs)"

definition frames_to :: "bool \<Rightarrow> (bool \<times> HTTP2Frame) list \<Rightarrow> HTTP2Frame list" where
  "frames_to c fs = map snd (filter (\<lambda>p. fst p = c) fs)"

lemma frames_to_simps [simp]:
  "frames_to c [] = []" "frames_to c ((d, f) # fs) = (if d = c then f # frames_to c fs else frames_to c fs)"
  by (simp_all add: frames_to_def)

lemma good_frame_events:
  assumes "good_frame L c f"
  shows "callback_events L c f rid (frame_callback f) = Inr (Inr (frame_events L c rid f))
    \<and> events_of d (frame_events L c rid f) = (if d = c then frame_events L c rid f else [])"
proof (cases f)
  case (F_Data sid p es)
  then show ?thesis
    by (auto simp: callback_events_def frame_callback_def frame_events_def data_events_def events_of_def)
next
  case (F_Headers sid ps hs es eh)
  show ?thesis
  proof (cases c)
    case True
    with assms F_Headers obtain st where "ps_status ps = Some st" by (auto simp: good_frame_def)
    with True F_Headers show ?thesis
      by (auto simp: callback_events_def frame_callback_def frame_events_def headers_events_def events_of_def)
  next
    case False
    with assms F_Headers obtain u where "pseudo_to_uri L ps = Inr u"
      by (cases "pseudo_to_uri L ps") (auto simp: good_frame_def)
    with False F_Headers show ?thesis
      by (auto simp: callback_events_def frame_callback_def frame_events_def headers_events_def events_of_def Let_def)
  qed
qed (use assms in \<open>auto simp: good_frame_def\<close>)

text \<open>The state of a stream from which directions are finished.\<close>

definition state_of :: "bool \<Rightarrow> bool \<Rightarrow> StreamState" where
  "state_of request_done response_done =
     (if request_done then (if response_done then Stream_Closed else HalfClosedClient)
      else if response_done then HalfClosedServer else Stream_Open)"

lemma good_frame_step:
  assumes "good_frame L c f" and "st_state s = state_of rd sd" and "\<not> (if c then sd else rd)"
  shows "\<exists>s'. stream_step L c f s = Inr (s', frame_events L c (st_request_id s) f)
    \<and> st_request_id s' = st_request_id s
    \<and> st_state s' = state_of (rd \<or> (\<not> c \<and> ends f)) (sd \<or> (c \<and> ends f))"
proof -
  obtain s' where "stream_drive_state c f s = Inr (s', frame_callback f)" "st_request_id s' = st_request_id s"
    "st_state s' = state_of (rd \<or> (\<not> c \<and> ends f)) (sd \<or> (c \<and> ends f))"
    using assms
    by (cases f; cases c; cases rd; cases sd)
      (auto simp: good_frame_def stream_drive_state_def open_or_half_closed_def state_of_def frame_callback_def ends_def Let_def)
  with good_frame_events [OF assms(1), of "st_request_id s"] show ?thesis by (auto simp: stream_step_def)
qed

lemma stream_run_exchange:
  assumes "st_state s = state_of rd sd"
    and "if rd then frames_to False fs = [] else good_direction L False (frames_to False fs)"
    and "if sd then frames_to True fs = [] else good_direction L True (frames_to True fs)"
  shows "\<exists>s' evs. stream_run L fs s = Inr (s', evs) \<and> st_state s' = Stream_Closed
    \<and> (\<forall>d. events_of d evs = concat (map (frame_events L d (st_request_id s)) (frames_to d fs)))"
  using assms
proof (induction fs arbitrary: s rd sd)
  case Nil
  then have "rd" "sd" by (auto split: if_splits)
  with Nil show ?case by (auto simp: state_of_def events_of_def)
next
  case (Cons p fs)
  obtain c f where p: "p = (c, f)" by (cases p)
  have open_: "\<not> (if c then sd else rd)" using Cons.prems(2,3) p by (cases c) auto
  then have good: "good_direction L c (f # frames_to c fs)" using Cons.prems(2,3) p by (cases c) auto
  then have gf: "good_frame L c f" by (cases "frames_to c fs") auto
  obtain s1 where s1: "stream_step L c f s = Inr (s1, frame_events L c (st_request_id s) f)"
    "st_request_id s1 = st_request_id s"
    "st_state s1 = state_of (rd \<or> (\<not> c \<and> ends f)) (sd \<or> (c \<and> ends f))"
    using good_frame_step [OF gf Cons.prems(1) open_] by blast
  have rest: "if ends f then frames_to c fs = [] else good_direction L c (frames_to c fs)"
    using good by (cases "frames_to c fs") auto
  have "\<exists>s' evs. stream_run L fs s1 = Inr (s', evs) \<and> st_state s' = Stream_Closed
      \<and> (\<forall>d. events_of d evs = concat (map (frame_events L d (st_request_id s1)) (frames_to d fs)))"
    by (rule Cons.IH [OF s1(3)]; cases c) (use Cons.prems(2,3) p rest open_ in \<open>auto split: if_splits\<close>)
  then obtain s' evs where r: "stream_run L fs s1 = Inr (s', evs)" "st_state s' = Stream_Closed"
    "\<And>d. events_of d evs = concat (map (frame_events L d (st_request_id s)) (frames_to d fs))"
    using s1(2) by auto
  show ?case
    using s1(1) r good_frame_events [OF gf, of "st_request_id s"] by (auto simp: p)
qed

text \<open>
  The frames of a message: its headers, then its body in chunks, the last frame with END_STREAM.
\<close>

fun body_frames :: "StreamId \<Rightarrow> bytes list \<Rightarrow> HTTP2Frame list" where
  "body_frames sid [] = []"
| "body_frames sid [d] = [F_Data sid d True]"
| "body_frames sid (d # ds) = F_Data sid d False # body_frames sid ds"

definition message_frames :: "StreamId \<Rightarrow> Pseudo \<Rightarrow> HeaderMap \<Rightarrow> bytes list \<Rightarrow> HTTP2Frame list" where
  "message_frames sid ps hs body = F_Headers sid ps hs (body = []) True # body_frames sid body"

lemma good_body: "body \<noteq> [] \<Longrightarrow> good_direction L c (body_frames sid body)"
proof (induction sid body rule: body_frames.induct)
  case (3 sid d e ds)
  then show ?case by (cases ds) (simp_all add: good_frame_def ends_def)
qed (simp_all add: good_frame_def ends_def)

lemma good_message:
  assumes "if c then ps_status ps \<noteq> None else \<not> isl (pseudo_to_uri L ps)"
  shows "good_direction L c (message_frames sid ps hs body)"
proof (cases body)
  case Nil
  with assms show ?thesis by (simp add: message_frames_def good_frame_def ends_def)
next
  case (Cons d ds)
  obtain f fs where "body_frames sid body = f # fs" using Cons by (cases ds) auto
  with good_body [of body L c sid] Cons assms show ?thesis
    by (simp add: message_frames_def good_frame_def ends_def del: body_frames.simps)
qed

lemma body_frames_events:
  "concat (map (frame_events L True rid) (body_frames sid body)) =
     map (RespBodyChunk rid) body @ (if body = [] then [] else [ResponseFinished rid 0])"
  "concat (map (frame_events L False rid) (body_frames sid body)) =
     map (ReqBodyChunk rid) body @ (if body = [] then [] else [RequestFinished rid 0])"
  by (induction sid body rule: body_frames.induct) (simp_all add: frame_events_def)

text \<open>
  C23. An exchange on a new stream, a request and a response that each consist of a headers frame and any
  number of data frames of which the last has END_STREAM, is reported as follows whatever the
  interleaving of the two directions: the request as its head (method, URI and headers), the chunks of
  its body in order and unchanged, and its end; the response as its head (status and headers), the chunks of its body in
  order and unchanged, and, unless it has no body, its end.  The stream ends up closed.
\<close>

theorem http2_exchange_reported:
  assumes "frames_to False fs = message_frames sid ps hs body"
    and "frames_to True fs = message_frames sid ps' hs' body'"
    and "pseudo_to_uri L ps = Inr uri" and "ps_method ps = Some meth" and "ps_status ps' = Some status"
  shows "\<exists>s' evs. stream_run L fs (Stream_new rid) = Inr (s', evs) \<and> st_state s' = Stream_Closed
    \<and> events_of False evs =
        NewRequest rid \<lparr>req_method = meth, req_uri = uri, req_version = HTTP_2, req_headers = hs\<rparr>
        # map (ReqBodyChunk rid) body @ [RequestFinished rid 0]
    \<and> events_of True evs =
        NewResponse rid \<lparr>resp_status = status, resp_version = HTTP_2, resp_headers = hs'\<rparr>
        # map (RespBodyChunk rid) body' @ (if body' = [] then [] else [ResponseFinished rid 0])"
proof -
  have "good_direction L False (frames_to False fs)" "good_direction L True (frames_to True fs)"
    unfolding assms(1,2) using assms(3,5) by (auto intro: good_message)
  then obtain s' evs where r: "stream_run L fs (Stream_new rid) = Inr (s', evs)" "st_state s' = Stream_Closed"
    and e: "\<And>d. events_of d evs = concat (map (frame_events L d rid) (frames_to d fs))"
    using stream_run_exchange [of "Stream_new rid" False False fs L] by (auto simp: Stream_new_def state_of_def)
  have "events_of False evs =
        NewRequest rid \<lparr>req_method = meth, req_uri = uri, req_version = HTTP_2, req_headers = hs\<rparr>
        # map (ReqBodyChunk rid) body @ [RequestFinished rid 0]"
    unfolding e assms(1) message_frames_def using assms(3,4)
    by (simp add: body_frames_events) (simp add: frame_events_def)
  moreover have "events_of True evs =
        NewResponse rid \<lparr>resp_status = status, resp_version = HTTP_2, resp_headers = hs'\<rparr>
        # map (RespBodyChunk rid) body' @ (if body' = [] then [] else [ResponseFinished rid 0])"
    unfolding e assms(2) message_frames_def using assms(5)
    by (simp add: body_frames_events) (simp add: frame_events_def)
  ultimately show ?thesis using r by blast
qed

section \<open>The end of a direction is final\<close>

definition finished :: "bool \<Rightarrow> HTTPStreamEvent \<Rightarrow> bool" where
  "finished c ev = (case ev of RequestFinished i n \<Rightarrow> \<not> c | ResponseFinished i n \<Rightarrow> c | _ \<Rightarrow> False)"

definition direction_done :: "bool \<Rightarrow> Stream \<Rightarrow> bool" where
  "direction_done c s \<longleftrightarrow> st_state s \<in> {Stream_Closed, Stream_Error, if c then HalfClosedServer else HalfClosedClient}"

lemma callback_events_direction:
  "callback_events L c f rid cb = Inr (Inr evs) \<Longrightarrow> d \<noteq> c \<Longrightarrow> events_of d evs = []"
  by (auto simp: callback_events_def data_events_def headers_events_def events_of_def Let_def res_simps
      split: callback.splits HTTP2Frame.splits if_splits sum.splits)

lemma callback_events_finished:
  assumes "callback_events L c f rid cb = Inr (Inr evs)" and "ev \<in> set evs" and "finished d ev"
  shows "d = c \<and> ends f \<and> cb \<noteq> NoCallback \<and> (\<exists>pre. evs = pre @ [ev] \<and> \<not> list_ex (finished d) pre)"
  using assms
  by (auto simp: callback_events_def data_events_def headers_events_def finished_def ends_def Let_def res_simps
      split: callback.splits HTTP2Frame.splits if_splits sum.splits)

lemma drive_state_done:
  assumes "stream_drive_state c f s = Inr (s', cb)"
  shows "(direction_done d s \<longrightarrow> direction_done d s') \<and> (direction_done c s \<longrightarrow> cb = NoCallback)
    \<and> (ends f \<longrightarrow> cb \<noteq> NoCallback \<longrightarrow> direction_done c s')"
  using assms
  by (cases f; cases "st_state s"; cases c; cases d)
    (auto simp: stream_drive_state_def open_or_half_closed_def direction_done_def ends_def Let_def is_reset_def
      split: if_splits)

lemma stream_step_done:
  assumes "stream_step L c f s = Inr (s', evs)"
  shows "(direction_done d s \<longrightarrow> direction_done d s' \<and> events_of d evs = [])
    \<and> (\<forall>pre ev post. evs = pre @ ev # post \<longrightarrow> finished d ev \<longrightarrow> post = [] \<and> direction_done d s')"
proof -
  obtain cb r where d: "stream_drive_state c f s = Inr (s', cb)"
    and r: "callback_events L c f (st_request_id s') cb = Inr r"
    and evs: "evs = (case r of Inl e \<Rightarrow> [] | Inr evs \<Rightarrow> evs)"
    using assms by (auto simp: stream_step_def res_simps)
  have "events_of d evs = []" if "direction_done d s"
  proof (cases "d = c")
    case True
    then have "cb = NoCallback" using drive_state_done [OF d, of d] that by simp
    with r evs show ?thesis by (auto simp: callback_events_def events_of_def)
  next
    case False
    with r evs callback_events_direction show ?thesis by (cases r) (auto simp: events_of_def)
  qed
  moreover have "post = [] \<and> direction_done d s'" if "evs = pre @ ev # post" and "finished d ev" for pre ev post
  proof -
    have mem: "ev \<in> set evs" using that(1) by simp
    then obtain evs' where e: "r = Inr evs'" "evs' = evs" using evs by (cases r) auto
    from mem callback_events_finished [of L c f "st_request_id s'" cb evs ev d] r e that(2)
    obtain pre' where fin: "d = c" "ends f" "cb \<noteq> NoCallback" "evs = pre' @ [ev]" "\<not> list_ex (finished d) pre'" by auto
    have "post = []"
    proof (rule ccontr)
      assume "post \<noteq> []"
      with that(1) fin(4) have "ev \<in> set pre'" by (metis append_butlast_last_id butlast_append butlast_snoc in_set_conv_decomp list.simps(3) butlast.simps(2))
      with fin(5) that(2) show False by (auto simp: list_ex_iff)
    qed
    with drive_state_done [OF d, of d] fin show ?thesis by simp
  qed
  ultimately show ?thesis using drive_state_done [OF d, of d] by auto
qed

lemma stream_run_done:
  "stream_run L fs s = Inr (s', evs) \<Longrightarrow> direction_done d s \<Longrightarrow> events_of d evs = []"
proof (induction fs arbitrary: s evs)
  case (Cons p fs)
  obtain c f where p: "p = (c, f)" by (cases p)
  obtain s1 e1 e2 where st: "stream_step L c f s = Inr (s1, e1)" and r: "stream_run L fs s1 = Inr (s', e2)"
    and evs: "evs = e1 @ e2"
    using Cons.prems(1) by (auto simp: p res_simps)
  from stream_step_done [OF st, of d] Cons.prems(2) Cons.IH [OF r] evs show ?case by simp
qed (simp add: events_of_def)

text \<open>
  C24. The end of a request or response on a stream is final: whatever frames arrive on the stream, in
  either direction and any order, no event of a direction follows the event that reports its end, so
  each end is reported at most once.
\<close>

theorem http2_end_is_final:
  assumes "stream_run L fs s = Inr (s', evs)" and "evs = pre @ ev # post" and "finished d ev"
  shows "events_of d post = []"
  using assms
proof (induction fs arbitrary: s evs pre)
  case (Cons p fs)
  obtain c f where p: "p = (c, f)" by (cases p)
  obtain s1 e1 e2 where st: "stream_step L c f s = Inr (s1, e1)" and r: "stream_run L fs s1 = Inr (s', e2)"
    and evs: "evs = e1 @ e2"
    using Cons.prems(1) by (auto simp: p res_simps)
  show ?case
  proof (cases "length pre < length e1")
    case True
    then obtain post1 where e1: "e1 = pre @ ev # post1" "post = post1 @ e2"
      using evs Cons.prems(2) by (auto simp: append_eq_append_conv2 append_eq_Cons_conv Cons_eq_append_conv)
    from stream_step_done [OF st, of d] e1(1) Cons.prems(3) have "post1 = []" "direction_done d s1" by blast+
    with stream_run_done [OF r] e1(2) show ?thesis by simp
  next
    case False
    then obtain pre2 where "e2 = pre2 @ ev # post"
      using evs Cons.prems(2) by (auto simp: append_eq_append_conv2 append_eq_Cons_conv Cons_eq_append_conv)
    from Cons.IH [OF r this Cons.prems(3)] show ?thesis .
  qed
qed simp

section \<open>Examples and silent ends\<close>

definition stream_lib :: http_lib where
  "stream_lib =
     \<lparr>parse_request = (\<lambda>buf. ParseErr), parse_response = (\<lambda>buf. ParseErr), method_from_bytes = Some, uri_parse = Some,
      status_from_u16 = Some, header_name_from_bytes = Some, header_value_try_from = Some, header_value_to_str = Some,
      scheme_try_from = Some, authority_try_from = Some, path_and_query_try_from = Some, uri_from_parts = (\<lambda>s a p. p)\<rparr>"

definition request_pseudo :: Pseudo where
  "request_pseudo = \<lparr>ps_method = Some (ascii ''POST''), ps_scheme = None, ps_authority = None, ps_path = Some (ascii ''/''), ps_status = None\<rparr>"

definition response_pseudo :: Pseudo where
  "response_pseudo = \<lparr>ps_method = None, ps_scheme = None, ps_authority = None, ps_path = None, ps_status = Some 200\<rparr>"

definition example_frames :: "(bool \<times> HTTP2Frame) list" where
  "example_frames =
     [(False, F_Headers 1 request_pseudo [] False True), (True, F_Headers 1 response_pseudo [] False True),
      (False, F_Data 1 [4, 5] True), (True, F_Data 1 [6] True)]"

lemmas h2_eval = stream_lib_def request_pseudo_def response_pseudo_def example_frames_def good_frame_def ends_def
  pseudo_to_uri_def frame_events_def frame_callback_def callback_events_def data_events_def headers_events_def
  stream_step_def stream_drive_state_def open_or_half_closed_def Stream_new_def Let_def

theorem http2_exchange_reported_witness:
  "\<exists>s' evs. stream_run stream_lib example_frames (Stream_new 3) = Inr (s', evs) \<and> st_state s' = Stream_Closed
     \<and> events_of False evs =
         [NewRequest 3 \<lparr>req_method = ascii ''POST'', req_uri = ascii ''/'', req_version = HTTP_2, req_headers = []\<rparr>,
          ReqBodyChunk 3 [4, 5], RequestFinished 3 0]
     \<and> events_of True evs = [NewResponse 3 \<lparr>resp_status = 200, resp_version = HTTP_2, resp_headers = []\<rparr>,
                            RespBodyChunk 3 [6], ResponseFinished 3 0]"
proof -
  have "frames_to False example_frames = message_frames 1 request_pseudo [] [[4, 5]]"
    "frames_to True example_frames = message_frames 1 response_pseudo [] [[6]]"
    "pseudo_to_uri stream_lib request_pseudo = Inr (ascii ''/'')"
    "ps_method request_pseudo = Some (ascii ''POST'')" "ps_status response_pseudo = Some 200"
    by (simp_all add: h2_eval message_frames_def)
  from http2_exchange_reported [OF this, of 3] show ?thesis by simp
qed

theorem http2_end_is_final_witness:
  "\<exists>s' pre post. stream_run stream_lib (example_frames @ [(False, F_Data 1 [7] True)]) (Stream_new 3) =
       Inr (s', pre @ RequestFinished 3 0 # post) \<and> events_of False post = []"
proof -
  let ?pre = "[NewRequest 3 \<lparr>req_method = ascii ''POST'', req_uri = ascii ''/'', req_version = HTTP_2, req_headers = []\<rparr>,
    NewResponse 3 \<lparr>resp_status = 200, resp_version = HTTP_2, resp_headers = []\<rparr>, ReqBodyChunk 3 [4, 5]]"
  let ?post = "[RespBodyChunk 3 [6], ResponseFinished 3 0]"
  obtain s' where r: "stream_run stream_lib (example_frames @ [(False, F_Data 1 [7] True)]) (Stream_new 3) =
      Inr (s', ?pre @ RequestFinished 3 0 # ?post)"
    by (simp add: h2_eval)
  have "finished False (RequestFinished 3 0)" by (simp add: finished_def)
  from http2_end_is_final [OF r refl this] r show ?thesis by blast
qed

text \<open>
  A response whose headers end the stream (no body) is never reported as finished, although a request
  without a body is.
\<close>

theorem bodyless_response_not_finished:
  assumes "st_state s = HalfClosedClient"
  shows "\<exists>s'. stream_step L True (F_Headers sid response_pseudo hs True True) s =
           Inr (s', [NewResponse (st_request_id s) \<lparr>resp_status = 200, resp_version = HTTP_2, resp_headers = hs\<rparr>])
         \<and> st_state s' = Stream_Closed"
  using assms by (simp add: h2_eval)

text \<open>Trailers of a response, a headers frame without a status, make the decoder panic.\<close>

theorem response_trailers_panic:
  assumes "st_state s \<in> {Stream_Open, HalfClosedClient}" and "ps_status pseudo = None"
  shows "stream_step L True (F_Headers sid pseudo hs True True) s = Inl ExpectFailed"
  using assms by (auto simp: h2_eval expect_def)

text \<open>
  Client frames that arrive in the same chunk as the connection preface are not decoded with it: no
  event is reported until more client data arrives.
\<close>

theorem preface_chunk_not_decoded:
  assumes "h2_server flow = Handshake hs"
    and "http2_handle_request K L timing target False data flow counter = Some (Inr (e, flow', counter', calls))"
  shows "calls = [] \<and> streams flow' = streams flow"
  using assms by (auto simp: http2_handle_request_def split: prod.splits poll_preface.splits)

end
