(* ===== verification/Http_Tracker.thy ===== *)
theory Http_Tracker
  imports Http1_Flow Http2
begin

text \<open>
  The HTTP request tracker (\<open>HTTPRequestTracker\<close> of \<open>crates/net_decode/src/http.rs\<close>): one HTTP/1 or
  HTTP/2 flow per connection and one counter of request ids, and the proof that request ids identify
  connections.
\<close>

section \<open>The tracker\<close>

datatype ('k, 'h) HTTPFlow = Flow_HTTP1 HTTP1Flow | Flow_HTTP2 "('k, 'h) HTTP2Flow"

record ('k, 'h) HTTPRequestTracker =
  tr_request_id :: RequestId
  http_flows :: "IPTarget \<rightharpoonup> ('k, 'h) HTTPFlow"

definition HTTPRequestTracker_new :: "('k, 'h) HTTPRequestTracker" where
  "HTTPRequestTracker_new = \<lparr>tr_request_id = 0, http_flows = Map.empty\<rparr>"

text \<open>\<open>entry(target).or_insert_with(..)\<close> with a flow made from a new request id.\<close>

definition http_entry ::
  "(RequestId \<Rightarrow> ('k, 'h) HTTPFlow) \<Rightarrow> IPTarget \<Rightarrow> ('k, 'h) HTTPRequestTracker \<Rightarrow>
   (('k, 'h) HTTPFlow \<times> RequestId) res" where
  "http_entry mk_flow target t =
     (case http_flows t target of
        Some f \<Rightarrow> Inr (f, tr_request_id t)
      | None \<Rightarrow> res_bind (new_request_id (tr_request_id t)) (\<lambda>(i, counter). Inr (mk_flow i, counter)))"

definition handle_flow ::
  "('k, 'h) h2_lib \<Rightarrow> http_lib \<Rightarrow> TimingInfo \<Rightarrow> IPTarget \<Rightarrow> bool \<Rightarrow> bytes \<Rightarrow> ('k, 'h) HTTPFlow \<Rightarrow> RequestId \<Rightarrow>
   (('k, 'h) HTTPFlow \<times> RequestId \<times> http_calls) res option" where
  "handle_flow K L timing target to_client data f counter =
     (case f of
        Flow_HTTP1 entry \<Rightarrow>
          map_option (\<lambda>r. res_bind r (\<lambda>(entry, counter, calls). Inr (Flow_HTTP1 entry, counter, calls)))
            (http1_handle_request L timing target to_client data entry counter [])
      | Flow_HTTP2 entry \<Rightarrow>
          map_option (\<lambda>r. res_bind r (\<lambda>(e, entry, counter, calls). Inr (Flow_HTTP2 entry, counter, calls)))
            (http2_handle_request K L timing target to_client data entry counter))"

definition http_on_data ::
  "('k, 'h) h2_lib \<Rightarrow> http_lib \<Rightarrow> TimingInfo \<Rightarrow> IPTarget \<Rightarrow> bool \<Rightarrow> bytes \<Rightarrow> ('k, 'h) HTTPRequestTracker \<Rightarrow>
   (('k, 'h) HTTPRequestTracker \<times> http_calls) res" where
  "http_on_data K L timing target to_client data t =
     res_bind (http_entry (\<lambda>i. Flow_HTTP1 (HTTP1Flow_new i)) target t) (\<lambda>(f, counter).
     res_bind (returned (handle_flow K L timing target to_client data f counter)) (\<lambda>(f, counter, calls).
       Inr (t\<lparr>tr_request_id := counter, http_flows := (http_flows t)(target \<mapsto> f)\<rparr>, calls)))"

definition http_on_side_data ::
  "('k, 'h) h2_lib \<Rightarrow> SideData \<Rightarrow> ('k, 'h) HTTPRequestTracker \<Rightarrow>
   (('k, 'h) HTTPRequestTracker \<times> http_calls) res" where
  "http_on_side_data K d t =
     (case d of
        ALPNCompleted target protocols \<Rightarrow>
          if list_ex (\<lambda>p. p = ProtocolName (ascii ''h2'')) protocols then
            res_bind (http_entry (\<lambda>i. Flow_HTTP2 (HTTP2Flow_new K i)) target t) (\<lambda>(f, counter).
              Inr (t\<lparr>tr_request_id := counter, http_flows := (http_flows t)(target \<mapsto> f)\<rparr>, [OnSideData d]))
          else Inr (t, [OnSideData d])
      | NewKeyReceived ty cr secret \<Rightarrow> Inr (t, [OnSideData d]))"

definition http_listener ::
  "('k, 'h) h2_lib \<Rightarrow> http_lib \<Rightarrow> (('k, 'h) HTTPRequestTracker, bytes, HTTPStreamEvent) listener" where
  "http_listener K L t call =
     (case call of
        OnData timing target to_client data \<Rightarrow> http_on_data K L timing target to_client data t
      | OnSideData d \<Rightarrow> http_on_side_data K d t)"

section \<open>Ids of a flow\<close>

fun flow_ids :: "('k, 'h) HTTPFlow \<Rightarrow> RequestId set" where
  "flow_ids (Flow_HTTP1 f) = {h1_request_id f}"
| "flow_ids (Flow_HTTP2 f) = insert (h2_request_id f) (st_request_id ` ran (streams f))"

definition stream_ids :: "Streams \<Rightarrow> RequestId set" where
  "stream_ids ss = st_request_id ` ran ss"

lemma stream_drive_state_id:
  "stream_drive_state c frame s = Inr (s', cb) \<Longrightarrow> st_request_id s' = st_request_id s"
  by (auto simp: stream_drive_state_def open_or_half_closed_def Let_def
      split: StreamState.splits HTTP2Frame.splits if_splits)

lemma callback_events_ids:
  "callback_events L c frame rid cb = Inr (Inr evs) \<Longrightarrow> \<forall>ev \<in> set evs. event_id ev = rid"
  by (auto simp: callback_events_def data_events_def headers_events_def Let_def res_simps
      split: callback.splits HTTP2Frame.splits if_splits sum.splits)

lemma calls_for_map: "calls_for target ids (map (OnData timing target c) evs) \<longleftrightarrow> event_id ` set evs \<subseteq> ids"
  by (induction evs) auto

lemma stream_ids_update: "stream_ids (ss(sid \<mapsto> s)) \<subseteq> insert (st_request_id s) (stream_ids ss)"
  by (auto simp: stream_ids_def ran_def)

text \<open>What a frame may do to the ids of the streams: keep them, add new ones, and use those.\<close>

definition stream_ids_ok :: "IPTarget \<Rightarrow> Streams \<Rightarrow> RequestId \<Rightarrow> Streams \<Rightarrow> RequestId \<Rightarrow> http_calls \<Rightarrow> bool" where
  "stream_ids_ok target ss counter ss' counter' calls \<longleftrightarrow> counter \<le> counter'
     \<and> stream_ids ss' \<subseteq> stream_ids ss \<union> fresh_ids counter counter'
     \<and> calls_for target (stream_ids ss \<union> fresh_ids counter counter') calls"

lemma stream_ids_ok_refl [simp]: "stream_ids_ok target ss counter ss counter []"
  by (simp add: stream_ids_ok_def)

lemma stream_ids_ok_trans:
  assumes "stream_ids_ok target s0 c0 s1 c1 xs" and "stream_ids_ok target s1 c1 s2 c2 ys"
  shows "stream_ids_ok target s0 c0 s2 c2 (xs @ ys)"
proof -
  have le: "c0 \<le> c1" "c1 \<le> c2" using assms by (simp_all add: stream_ids_ok_def)
  note split = fresh_ids_split [OF le]
  have A: "calls_for target (stream_ids s0 \<union> fresh_ids c0 c2) xs"
    using assms(1) by (auto simp: split stream_ids_ok_def elim!: calls_for_mono)
  have sub: "stream_ids s1 \<union> fresh_ids c1 c2 \<subseteq> stream_ids s0 \<union> fresh_ids c0 c2"
    using assms(1) by (auto simp: split stream_ids_ok_def)
  have "calls_for target (stream_ids s1 \<union> fresh_ids c1 c2) ys" using assms(2) by (simp add: stream_ids_ok_def)
  note B = calls_for_mono [OF this sub]
  have "stream_ids s2 \<subseteq> stream_ids s0 \<union> fresh_ids c0 c2" using assms(2) sub by (auto simp: stream_ids_ok_def)
  with A B le show ?thesis by (simp add: stream_ids_ok_def)
qed

lemma stream_entry_ids:
  assumes "stream_entry sid ss counter = Inr (s, counter')"
  shows "counter \<le> counter' \<and> st_request_id s \<in> stream_ids ss \<union> fresh_ids counter counter'"
  using assms fresh_ids_Suc [of counter] u64_Suc [of counter]
  by (auto simp: stream_entry_def res_simps new_request_id_Inr Stream_new_def stream_ids_def ran_def
      split: option.splits)

lemma on_h2_frame_ids:
  assumes "on_h2_frame L timing target c frame ss counter = Inr (e, ss', counter', calls)"
  shows "stream_ids_ok target ss counter ss' counter' calls"
proof (cases "\<exists>sid. stream_id frame = Some sid \<and> sid \<noteq> 0")
  case True
  then obtain sid where sid: "stream_id frame = Some sid" "sid \<noteq> 0" by blast
  obtain s c1 s1 cb r where
    s: "stream_entry sid ss counter = Inr (s, c1)" "stream_drive_state c frame s = Inr (s1, cb)"
    and r: "callback_events L c frame (st_request_id s1) cb = Inr r"
    using assms sid by (auto simp: on_h2_frame_def res_simps)
  have id: "st_request_id s1 = st_request_id s" by (rule stream_drive_state_id [OF s(2)])
  have res: "ss' = ss(sid \<mapsto> s1)" "counter' = c1" "calls_for target {st_request_id s1} calls"
    using assms sid s r callback_events_ids [of L c frame "st_request_id s1" cb]
    by (cases r; auto simp: on_h2_frame_def calls_for_map)+
  have "counter \<le> c1" and mem: "{st_request_id s1} \<subseteq> stream_ids ss \<union> fresh_ids counter c1"
    using stream_entry_ids [OF s(1)] id by simp_all
  moreover have "stream_ids (ss(sid \<mapsto> s1)) \<subseteq> stream_ids ss \<union> fresh_ids counter c1"
    using stream_ids_update [of ss sid s1] mem by blast
  ultimately show ?thesis using res calls_for_mono [OF res(3) mem] by (simp add: stream_ids_ok_def)
next
  case False
  with assms show ?thesis by (auto simp: on_h2_frame_def split: option.splits if_splits)
qed

lemma feed_codec_loop_ids:
  fixes K :: "('k, 'h) h2_lib"
  assumes "feed_codec_loop K L timing target c codec ss counter out = Some (Inr (e, codec', ss', counter', out'))"
  shows "\<exists>calls. out' = out @ calls \<and> stream_ids_ok target ss counter ss' counter' calls"
proof -
  let ?P = "\<lambda>(K :: ('k, 'h) h2_lib) (L :: http_lib) (timing :: TimingInfo) (target :: IPTarget) (c :: bool) (codec :: 'k)
      ss counter out (y :: (HTTPParseError option \<times> 'k \<times> Streams \<times> RequestId \<times> http_calls) res).
    \<forall>e codec' ss' counter' out'. y = Inr (e, codec', ss', counter', out') \<longrightarrow>
      (\<exists>calls. out' = out @ calls \<and> stream_ids_ok target ss counter ss' counter' calls)"
  have "?P K L timing target c codec ss counter out (Inr (e, codec', ss', counter', out'))"
  proof (rule feed_codec_loop.raw_induct [where P = ?P, OF _ assms], goal_cases)
    case (1 f K L timing target c codec ss counter out y)
    obtain codec1 pf where p: "codec_poll K codec = (codec1, pf)" by (cases "codec_poll K codec")
    show ?case
    proof (cases pf)
      case (PollFrame frame)
      show ?thesis
      proof (cases "on_h2_frame L timing target c frame ss counter")
        case (Inr q)
        obtain e1 ss1 c1 calls where q: "q = (e1, ss1, c1, calls)" by (cases q)
        note ids = on_h2_frame_ids [OF Inr [unfolded q]]
        show ?thesis
        proof (cases e1)
          case None
          with 1(2) p PollFrame Inr q have "f K L timing target c codec1 ss1 c1 (out @ calls) = Some y" by simp
          from 1(1) [OF this] ids show ?thesis by (fastforce intro: stream_ids_ok_trans)
        next
          case (Some err)
          with 1(2) p PollFrame Inr q ids show ?thesis by auto
        qed
      qed (use 1(2) p PollFrame in auto)
    next
      case PollError
      with 1(2) p have "f K L timing target c codec1 ss counter out = Some y" by simp
      from 1(1) [OF this] show ?thesis .
    qed (use 1(2) p in auto)
  qed
  then show ?thesis by blast
qed

section \<open>Ids identify connections\<close>

lemma handle_flow_ids:
  assumes "handle_flow K L timing target c data f counter = Some (Inr (f', counter', calls))"
  shows "counter \<le> counter' \<and> flow_ids f' \<subseteq> flow_ids f \<union> fresh_ids counter counter'
    \<and> calls_for target (flow_ids f \<union> fresh_ids counter counter') calls"
proof (cases f)
  case (Flow_HTTP1 e)
  obtain e' where "http1_handle_request L timing target c data e counter [] = Some (Inr (e', counter', calls))"
    and f': "f' = Flow_HTTP1 e'"
    using assms Flow_HTTP1 by (auto simp: handle_flow_def res_simps)
  from handle_request_ids [OF this(1)] f' Flow_HTTP1 show ?thesis
    by (auto simp: ids_ok_def)
next
  case (Flow_HTTP2 e)
  obtain err e' where h: "http2_handle_request K L timing target c data e counter = Some (Inr (err, e', counter', calls))"
    and f': "f' = Flow_HTTP2 e'"
    using assms Flow_HTTP2 by (auto simp: handle_flow_def res_simps)
  have "h2_request_id e' = h2_request_id e \<and> stream_ids_ok target (streams e) counter (streams e') counter' calls"
  proof (cases "c \<or> (\<exists>codec. h2_server e = Serve codec)")
    case True
    then obtain codec codec' where
      "feed_codec_loop K L timing target c codec (streams e) counter [] = Some (Inr (err, codec', streams e', counter', calls))"
      "h2_request_id e' = h2_request_id e"
      using h by (auto simp: http2_handle_request_def feed_codec_def res_simps split: if_splits HTTP2Server.splits)
    with feed_codec_loop_ids [OF this(1)] show ?thesis by simp
  next
    case False
    with h show ?thesis
      by (auto simp: http2_handle_request_def split: HTTP2Server.splits prod.splits poll_preface.splits)
  qed
  then have *: "h2_request_id e' = h2_request_id e" "counter \<le> counter'"
    "stream_ids (streams e') \<subseteq> stream_ids (streams e) \<union> fresh_ids counter counter'"
    "calls_for target (stream_ids (streams e) \<union> fresh_ids counter counter') calls"
    by (simp_all add: stream_ids_ok_def)
  have "stream_ids (streams e) \<union> fresh_ids counter counter' \<subseteq> flow_ids f \<union> fresh_ids counter counter'"
    by (auto simp: Flow_HTTP2 stream_ids_def)
  from calls_for_mono [OF *(4) this] *(1-3) show ?thesis
    by (auto simp: f' Flow_HTTP2 stream_ids_def)
qed

text \<open>All ids in use were handed out by the counter.\<close>

definition tracker_ids_ok :: "('k, 'h) HTTPRequestTracker \<Rightarrow> bool" where
  "tracker_ids_ok t \<longleftrightarrow> (\<forall>target f. http_flows t target = Some f \<longrightarrow> (\<forall>i \<in> flow_ids f. i < tr_request_id t))"

definition counter_le :: "('k, 'h) HTTPRequestTracker \<Rightarrow> ('k, 'h) HTTPRequestTracker \<Rightarrow> bool" where
  "counter_le t t' \<longleftrightarrow> tr_request_id t \<le> tr_request_id t'"

text \<open>The ids of a connection, and what a call on that connection may do to them.\<close>

definition known_ids :: "('k, 'h) HTTPRequestTracker \<Rightarrow> IPTarget \<Rightarrow> RequestId set" where
  "known_ids t target = (case http_flows t target of Some f \<Rightarrow> flow_ids f | None \<Rightarrow> {})"

definition ids_step :: "IPTarget \<Rightarrow> ('k, 'h) HTTPRequestTracker \<Rightarrow> ('k, 'h) HTTPRequestTracker \<Rightarrow> http_calls \<Rightarrow> bool" where
  "ids_step target t t' out \<longleftrightarrow> tr_request_id t \<le> tr_request_id t'
     \<and> (\<forall>tg. tg \<noteq> target \<longrightarrow> known_ids t' tg = known_ids t tg)
     \<and> known_ids t' target \<subseteq> known_ids t target \<union> fresh_ids (tr_request_id t) (tr_request_id t')
     \<and> (\<forall>timing tg c ev. OnData timing tg c ev \<in> set out \<longrightarrow> tg = target
          \<and> event_id ev \<in> known_ids t target \<union> fresh_ids (tr_request_id t) (tr_request_id t'))"

lemma http_entry_ids:
  assumes "http_entry mk target t = Inr (f, counter)" and "\<And>i. flow_ids (mk i) = {i}"
  shows "tr_request_id t \<le> counter \<and> flow_ids f \<subseteq> known_ids t target \<union> fresh_ids (tr_request_id t) counter"
  using assms(1) fresh_ids_Suc [of "tr_request_id t"] u64_Suc [of "tr_request_id t"]
  by (auto simp: http_entry_def known_ids_def assms(2) res_simps new_request_id_Inr split: option.splits)

lemma http_on_data_ids:
  assumes "http_on_data K L timing target c data t = Inr (t', out)"
  shows "ids_step target t t' out"
proof -
  obtain f c1 f' c2 where e: "http_entry (\<lambda>i. Flow_HTTP1 (HTTP1Flow_new i)) target t = Inr (f, c1)"
    and h: "handle_flow K L timing target c data f c1 = Some (Inr (f', c2, out))"
    and t': "t' = t\<lparr>tr_request_id := c2, http_flows := (http_flows t)(target \<mapsto> f')\<rparr>"
    using assms by (auto simp: http_on_data_def res_simps)
  have e1: "tr_request_id t \<le> c1" "flow_ids f \<subseteq> known_ids t target \<union> fresh_ids (tr_request_id t) c1"
    using http_entry_ids [OF e] by (simp_all add: HTTP1Flow_new_def)
  have h1: "c1 \<le> c2" "flow_ids f' \<subseteq> flow_ids f \<union> fresh_ids c1 c2" "calls_for target (flow_ids f \<union> fresh_ids c1 c2) out"
    using handle_flow_ids [OF h] by simp_all
  have sub: "flow_ids f \<union> fresh_ids c1 c2 \<subseteq> known_ids t target \<union> fresh_ids (tr_request_id t) c2"
    using e1 fresh_ids_split [OF e1(1) h1(1)] by auto
  have "tr_request_id t \<le> c2" using e1(1) h1(1) by simp
  moreover have "known_ids t' target = flow_ids f'" "\<And>tg. tg \<noteq> target \<Longrightarrow> known_ids t' tg = known_ids t tg"
    by (simp_all add: t' known_ids_def)
  moreover have "flow_ids f' \<subseteq> known_ids t target \<union> fresh_ids (tr_request_id t) c2" using h1(2) sub by blast
  moreover note calls_for_mono [OF h1(3) sub]
  ultimately show ?thesis by (fastforce simp: ids_step_def t' calls_for_def)
qed

lemma http_on_side_data_ids:
  assumes "http_on_side_data K d t = Inr (t', out)"
  shows "\<exists>target. ids_step target t t' out"
proof (cases "t' = t")
  case True
  with assms show ?thesis
    by (auto simp: http_on_side_data_def ids_step_def res_simps split: SideData.splits if_splits)
next
  case False
  then obtain target protocols f c1 where d: "d = ALPNCompleted target protocols"
    and e: "http_entry (\<lambda>i. Flow_HTTP2 (HTTP2Flow_new K i)) target t = Inr (f, c1)"
    and t': "t' = t\<lparr>tr_request_id := c1, http_flows := (http_flows t)(target \<mapsto> f)\<rparr>" "out = [OnSideData d]"
    using assms by (auto simp: http_on_side_data_def res_simps split: SideData.splits if_splits)
  have "tr_request_id t \<le> c1 \<and> flow_ids f \<subseteq> known_ids t target \<union> fresh_ids (tr_request_id t) c1"
    using http_entry_ids [OF e] by (simp add: HTTP2Flow_new_def)
  then show ?thesis using t' by (auto simp: ids_step_def known_ids_def intro!: exI [of _ target])
qed

lemma http_listener_ids:
  assumes "http_listener K L t call = Inr (t', out)"
  shows "\<exists>target. ids_step target t t' out"
  using assms by (cases call) (auto simp: http_listener_def dest: http_on_data_ids http_on_side_data_ids)

lemma tracker_ids_ok_known: "tracker_ids_ok t \<longleftrightarrow> (\<forall>target. \<forall>i \<in> known_ids t target. i < tr_request_id t)"
  by (auto simp: tracker_ids_ok_def known_ids_def split: option.splits)

lemma ids_step_ok:
  assumes "ids_step target t t' out" and "tracker_ids_ok t"
  shows "tracker_ids_ok t' \<and> counter_le t t'"
proof -
  have le: "tr_request_id t \<le> tr_request_id t'" using assms(1) by (simp add: ids_step_def)
  have "i < tr_request_id t'" if "i \<in> known_ids t' tg" for i tg
  proof (cases "tg = target")
    case True
    with that assms(1) have "i \<in> known_ids t target \<or> i \<in> fresh_ids (tr_request_id t) (tr_request_id t')"
      by (auto simp: ids_step_def)
    then show ?thesis
      using assms(2) le by (auto simp: tracker_ids_ok_known fresh_ids_def intro: less_le_trans)
  next
    case False
    with that assms(1) have "i \<in> known_ids t tg" by (simp add: ids_step_def)
    with assms(2) le show ?thesis by (auto simp: tracker_ids_ok_known intro: less_le_trans)
  qed
  with le show ?thesis by (simp add: tracker_ids_ok_known counter_le_def)
qed

interpretation http: listener_contract "http_listener K L" tracker_ids_ok counter_le for K L
proof (unfold_locales, goal_cases)
  case (1 s)
  then show ?case by (simp add: counter_le_def)
next
  case (2 s t u)
  then show ?case by (simp add: counter_le_def)
next
  case (3 s c s' out)
  then show ?case using http_listener_ids ids_step_ok by blast
next
  case (4 s c s' out)
  then show ?case using http_listener_ids ids_step_ok by blast
qed

text \<open>An owner of every id: the connection it was handed out to.\<close>

definition owner_ok :: "(RequestId \<Rightarrow> IPTarget) \<Rightarrow> ('k, 'h) HTTPRequestTracker \<Rightarrow> bool" where
  "owner_ok owner t \<longleftrightarrow> (\<forall>target. \<forall>i \<in> known_ids t target. i < tr_request_id t \<and> owner i = target)"

definition extend :: "RequestId \<Rightarrow> IPTarget \<Rightarrow> (RequestId \<Rightarrow> IPTarget) \<Rightarrow> RequestId \<Rightarrow> IPTarget" where
  "extend counter target owner i = (if i < counter then owner i else target)"

lemma owner_step:
  assumes "ids_step target t t' out" and "owner_ok owner t"
  defines "owner' \<equiv> extend (tr_request_id t) target owner"
  shows "owner_ok owner' t'
    \<and> (\<forall>timing tg c ev. OnData timing tg c ev \<in> set out \<longrightarrow> event_id ev < tr_request_id t' \<and> owner' (event_id ev) = tg)"
proof -
  let ?new = "fresh_ids (tr_request_id t) (tr_request_id t')"
  have le: "tr_request_id t \<le> tr_request_id t'" using assms(1) by (simp add: ids_step_def)
  have old: "i < tr_request_id t' \<and> owner' i = tg" if "i \<in> known_ids t tg" for i tg
    using assms(2) that le by (auto simp: owner_ok_def owner'_def extend_def intro: less_le_trans)
  have new: "i < tr_request_id t' \<and> owner' i = target" if "i \<in> ?new" for i
    using that by (auto simp: fresh_ids_def owner'_def extend_def)
  have "i < tr_request_id t' \<and> owner' i = tg" if "i \<in> known_ids t' tg" for i tg
    using assms(1) that old new by (cases "tg = target") (auto simp: ids_step_def)
  moreover have "event_id ev < tr_request_id t' \<and> owner' (event_id ev) = tg" if "OnData timing tg c ev \<in> set out" for timing tg c ev
    using assms(1) that old new by (fastforce simp: ids_step_def)
  ultimately show ?thesis by (auto simp: owner_ok_def)
qed

text \<open>Owners are never revised below the counter.\<close>

lemma feed_owner:
  assumes "feed (http_listener K L) t calls = Inr (t', out)" and "owner_ok owner t"
  shows "\<exists>owner'. owner_ok owner' t' \<and> tr_request_id t \<le> tr_request_id t'
    \<and> (\<forall>i < tr_request_id t. owner' i = owner i)
    \<and> (\<forall>timing tg c ev. OnData timing tg c ev \<in> set out \<longrightarrow> event_id ev < tr_request_id t' \<and> owner' (event_id ev) = tg)"
  using assms
proof (induction calls arbitrary: t owner out)
  case Nil
  then show ?case by auto
next
  case (Cons call calls)
  from Cons.prems(1) obtain t1 out1 out2 where s: "http_listener K L t call = Inr (t1, out1)"
    and r: "feed (http_listener K L) t1 calls = Inr (t', out2)" and out: "out = out1 @ out2"
    by (auto simp: res_simps)
  obtain target where st: "ids_step target t t1 out1" using http_listener_ids [OF s] by blast
  define owner1 where "owner1 = extend (tr_request_id t) target owner"
  have o1: "owner_ok owner1 t1"
    "\<And>timing tg c ev. OnData timing tg c ev \<in> set out1 \<Longrightarrow> event_id ev < tr_request_id t1 \<and> owner1 (event_id ev) = tg"
    using owner_step [OF st Cons.prems(2)] by (auto simp: owner1_def)
  obtain owner2 where o2: "owner_ok owner2 t'" "tr_request_id t1 \<le> tr_request_id t'"
    "\<forall>i < tr_request_id t1. owner2 i = owner1 i"
    "\<And>timing tg c ev. OnData timing tg c ev \<in> set out2 \<Longrightarrow> event_id ev < tr_request_id t' \<and> owner2 (event_id ev) = tg"
    using Cons.IH [OF r o1(1)] by blast
  have le: "tr_request_id t \<le> tr_request_id t1" using st by (simp add: ids_step_def)
  have "owner2 i = owner i" if "i < tr_request_id t" for i
    using o2(3) that le by (simp add: owner1_def extend_def less_le_trans)
  moreover have "event_id ev < tr_request_id t' \<and> owner2 (event_id ev) = tg" if "OnData timing tg c ev \<in> set out" for timing tg c ev
    using that o1(2) [of timing tg c ev] o2 unfolding out by (auto intro: less_le_trans)
  ultimately show ?case using o2(1,2) le by (intro exI [of _ owner2]) auto
qed

text \<open>
  C22. Over any run of the tracker, the request id of an event identifies its connection: two events with
  the same id belong to the same connection, however many connections, HTTP versions and requests
  interleave.
\<close>

theorem http_ids_identify_connections:
  assumes "feed (http_listener K L) HTTPRequestTracker_new calls = Inr (t', out)"
    and "OnData timing1 target1 c1 ev1 \<in> set out" and "OnData timing2 target2 c2 ev2 \<in> set out"
    and "event_id ev1 = event_id ev2"
  shows "target1 = target2"
proof -
  have "owner_ok (\<lambda>i. target1) (HTTPRequestTracker_new :: ('a, 'b) HTTPRequestTracker)"
    by (simp add: owner_ok_def known_ids_def HTTPRequestTracker_new_def)
  from feed_owner [OF assms(1) this] assms(2-4) show ?thesis by metis
qed

text \<open>
  C40. The counter of request ids never goes back, and every id in use lies below it, so no id is handed
  out twice.
\<close>

theorem http_counter_monotone:
  assumes "feed (http_listener K L) HTTPRequestTracker_new calls = Inr (t, out)"
    and "feed (http_listener K L) t calls' = Inr (t', out')"
  shows "tracker_ids_ok t' \<and> tr_request_id t \<le> tr_request_id t'"
proof -
  have "tracker_ids_ok (HTTPRequestTracker_new :: ('a, 'b) HTTPRequestTracker)"
    by (simp add: tracker_ids_ok_def HTTPRequestTracker_new_def)
  from http.feed_inv [OF this assms(1)] have "tracker_ids_ok t" .
  from http.feed_contract [OF this assms(2)] show ?thesis by (simp add: counter_le_def)
qed

section \<open>An example run\<close>

definition example_h2 :: "(HTTP2Frame list, unit) h2_lib" where
  "example_h2 =
     \<lparr>codec_new = [], codec_append = (\<lambda>k data. k),
      codec_poll = (\<lambda>k. case k of [] \<Rightarrow> ([], PollNone) | f # fs \<Rightarrow> (fs, PollFrame f)),
      preface_new = (), preface_append = (\<lambda>h data. ()), preface_poll = (\<lambda>h. ((), PrefaceOk []))\<rparr>"

definition http_target2 :: IPTarget where
  "http_target2 = IPTarget_V4 40001 80 1 2"

definition example_calls :: "bytes listener_call list" where
  "example_calls = [OnData http_time http_target False [1, 2, 3, 8, 9], OnData http_time http_target2 False [1, 2, 3, 4]]"

lemma example_run:
  "\<exists>t' out. feed (http_listener example_h2 example_lib) HTTPRequestTracker_new example_calls = Inr (t', out)
     \<and> OnData http_time http_target False (ReqBodyChunk 0 [8, 9]) \<in> set out
     \<and> OnData http_time http_target2 False (ReqBodyChunk 1 [4]) \<in> set out"
  by (simp add: example_calls_def http_listener_def http_on_data_def http_entry_def HTTPRequestTracker_new_def
      new_request_id_def handle_flow_def http1_handle_request.simps handle_step_def do_server_recv_headers_def
      stream_body_def slice_from_def http1_eval http_target_def http_target2_def)

theorem http_ids_identify_connections_witness:
  "\<exists>t' ev1 ev2 out. feed (http_listener example_h2 example_lib) HTTPRequestTracker_new example_calls = Inr (t', out)
     \<and> OnData http_time http_target False ev1 \<in> set out \<and> OnData http_time http_target2 False ev2 \<in> set out
     \<and> event_id ev1 \<noteq> event_id ev2"
proof -
  obtain t' ev1 ev2 out where r: "feed (http_listener example_h2 example_lib) HTTPRequestTracker_new example_calls = Inr (t', out)"
    "OnData http_time http_target False ev1 \<in> set out" "OnData http_time http_target2 False ev2 \<in> set out"
    using example_run by blast
  have "http_target \<noteq> http_target2" by (simp add: http_target_def http_target2_def)
  with http_ids_identify_connections [OF r] r show ?thesis by blast
qed

theorem http_counter_monotone_witness:
  "\<exists>t t' out out'. feed (http_listener example_h2 example_lib) HTTPRequestTracker_new example_calls = Inr (t, out)
     \<and> feed (http_listener example_h2 example_lib) t [OnSideData (ALPNCompleted http_target [])] = Inr (t', out')
     \<and> tracker_ids_ok t' \<and> tr_request_id t \<le> tr_request_id t'"
proof -
  obtain t out where r: "feed (http_listener example_h2 example_lib) HTTPRequestTracker_new example_calls = Inr (t, out)"
    using example_run by blast
  moreover have s: "feed (http_listener example_h2 example_lib) t [OnSideData (ALPNCompleted http_target [])] =
      Inr (t, [OnSideData (ALPNCompleted http_target [])])"
    by (simp add: http_listener_def http_on_side_data_def)
  moreover note http_counter_monotone [OF r s]
  ultimately show ?thesis by blast
qed

end
