(* ===== verification/Pcap.thy ===== *)
theory Pcap
  imports Key_Db Listener_Stack
begin

text \<open>
  Reading and writing capture files: \<open>dump_pcap\<close> and the interface table of
  \<open>crates/net_decode/src/chomp.rs\<close>, \<open>PcapWriter\<close> of \<open>crates/wire_blahaj/src/pcap_writer.rs\<close>, and
  \<open>CaptureToPcap\<close> of \<open>crates/libclipper/src/capture.rs\<close>.

  A file is a sequence of blocks; their byte encoding is that of the crate \<open>pcap_parser\<close>, whose reader
  is the parameter \<open>pcap_reader\<close>.  The frame consumer is a sequence of calls.  Arithmetic on \<open>u64\<close> and
  \<open>u32\<close> that would overflow panics.
\<close>

section \<open>Blocks\<close>

text \<open>Interface id, low and high half of the time stamp, captured and original length and data of a packet.\<close>

datatype pcap_block =
    SectionHeader bytes
  | InterfaceDescription u8
  | DecryptionSecrets u32 bytes
  | EnhancedPacket u32 u32 u32 u32 u32 bytes
  | OtherBlock

datatype pcap_result = NextBlock nat pcap_block | NextLegacy nat | Eof | Incomplete | OtherError

record 'p pcap_reader =
  rd_next :: "'p \<Rightarrow> 'p \<times> pcap_result"
  rd_consume :: "nat \<Rightarrow> 'p \<Rightarrow> 'p"
  rd_refill :: "'p \<Rightarrow> 'p option"
  rd_ts_resolution :: "u8 \<Rightarrow> u64 option"

datatype chomper_call = Chomp TimingInfo bytes | OnKeys bytes

definition slice_to :: "nat \<Rightarrow> 'a list \<Rightarrow> 'a list res" where
  "slice_to n xs = (if n \<le> length xs then Inr (take n xs) else Inl SliceOutOfRange)"

section \<open>Interfaces\<close>

record InterfaceDescriptor =
  timestamp_to_nanos :: u64

definition mul_u64 :: "u64 \<Rightarrow> u64 \<Rightarrow> u64 res" where
  "mul_u64 a b = (if unat a * unat b < 18446744073709551616 then Inr (a * b) else Inl ArithOverflow)"

definition resolve_timestamp :: "InterfaceDescriptor \<Rightarrow> u32 \<Rightarrow> u32 \<Rightarrow> Nanos res" where
  "resolve_timestamp d low high =
     (let full = push_bit 32 (ucast high :: u64) OR (ucast low :: u64)
      in mul_u64 full (timestamp_to_nanos d))"

definition NS_PER_S :: u64 where
  "NS_PER_S = 1000000000"

definition DEFAULT_RESOLUTION :: u64 where
  "DEFAULT_RESOLUTION = 1000000"

definition descriptor_from :: "u64 option \<Rightarrow> InterfaceDescriptor res" where
  "descriptor_from ts_resolution =
     (let ticks_per_sec = (case ts_resolution of Some t \<Rightarrow> t | None \<Rightarrow> DEFAULT_RESOLUTION)
      in if ticks_per_sec = 0 then Inl DivByZero
         else Inr \<lparr>timestamp_to_nanos = NS_PER_S div ticks_per_sec\<rparr>)"

record InterfaceDB =
  last_seen :: u32
  interfaces :: "(u32, InterfaceDescriptor) btree"

definition InterfaceDB_default :: InterfaceDB where
  "InterfaceDB_default = \<lparr>last_seen = 0, interfaces = []\<rparr>"

definition on_interface :: "u64 option \<Rightarrow> InterfaceDB \<Rightarrow> InterfaceDB res" where
  "on_interface ts_resolution db =
     (let i = last_seen db
      in if i = - 1 then Inl ArithOverflow
         else res_bind (descriptor_from ts_resolution) (\<lambda>d.
                Inr (db\<lparr>last_seen := i + 1, interfaces := bt_insert i d (interfaces db)\<rparr>)))"

definition get_interface :: "InterfaceDB \<Rightarrow> u32 \<Rightarrow> InterfaceDescriptor option" where
  "get_interface db i = bt_get (interfaces db) i"

section \<open>Reading a file\<close>

text \<open>
  What the loop does with one block: \<open>None\<close> is the \<open>continue\<close> that skips the rest of the round, and
  otherwise the interface table and the calls made.
\<close>

definition dump_block ::
  "(u8 \<Rightarrow> u64 option) \<Rightarrow> pcap_block \<Rightarrow> InterfaceDB \<Rightarrow> (InterfaceDB \<times> chomper_call list) option res" where
  "dump_block ts_resolution block db =
     (case block of
        InterfaceDescription tsresol \<Rightarrow>
          res_bind (on_interface (ts_resolution tsresol) db) (\<lambda>db. Inr (Some (db, [])))
      | DecryptionSecrets secrets_len data \<Rightarrow>
          res_bind (slice_to (unat secrets_len) data) (\<lambda>dsb. Inr (Some (db, [OnKeys dsb])))
      | EnhancedPacket if_id ts_low ts_high caplen origlen data \<Rightarrow>
          (case get_interface db if_id of
             None \<Rightarrow> Inr None
           | Some iface \<Rightarrow>
               res_bind (resolve_timestamp iface ts_low ts_high) (\<lambda>ts.
                 Inr (Some (db, [Chomp \<lparr>received_on_wire = ts, other_times = Map.empty\<rparr> data]))))
      | _ \<Rightarrow> Inr (Some (db, [])))"

partial_function (option) dump_pcap_loop ::
  "'p pcap_reader \<Rightarrow> 'p \<Rightarrow> InterfaceDB \<Rightarrow> chomper_call list \<Rightarrow> chomper_call list res option" where
  "dump_pcap_loop RD pcap db out =
     (case rd_next RD pcap of
        (pcap, NextBlock offset block) \<Rightarrow>
          (case dump_block (rd_ts_resolution RD) block db of
             Inl p \<Rightarrow> Some (Inl p)
           | Inr None \<Rightarrow> dump_pcap_loop RD pcap db out
           | Inr (Some (db, calls)) \<Rightarrow> dump_pcap_loop RD (rd_consume RD offset pcap) db (out @ calls))
      | (pcap, NextLegacy offset) \<Rightarrow> Some (Inl UnimplementedCode)
      | (pcap, Eof) \<Rightarrow> Some (Inr out)
      | (pcap, Incomplete) \<Rightarrow>
          (case rd_refill RD pcap of
             None \<Rightarrow> Some (Inl UnwrapFailed)
           | Some pcap \<Rightarrow> dump_pcap_loop RD pcap db out)
      | (pcap, OtherError) \<Rightarrow> Some (Inl ExpectFailed))"

definition dump_pcap :: "'p pcap_reader \<Rightarrow> 'p \<Rightarrow> chomper_call list res option" where
  "dump_pcap RD pcap = dump_pcap_loop RD pcap InterfaceDB_default []"

section \<open>Writing a file\<close>

record PcapWriter =
  if_index_map :: "(u32, u32) btree"
  pcap_if_index :: u32

definition PcapWriter_new :: "bytes \<Rightarrow> PcapWriter \<times> pcap_block list" where
  "PcapWriter_new app_name =
     (\<lparr>if_index_map = [], pcap_if_index = 0\<rparr>, [SectionHeader (take (min (length app_name) 65535) app_name)])"

definition pcap_interface_id :: "u32 \<Rightarrow> PcapWriter \<Rightarrow> (u32 \<times> PcapWriter \<times> pcap_block list) res" where
  "pcap_interface_id if_index w =
     (case bt_get (if_index_map w) if_index of
        Some i \<Rightarrow> Inr (i, w, [])
      | None \<Rightarrow>
          (let ret = pcap_if_index w
           in if ret = - 1 then Inl ArithOverflow
              else Inr (ret, w\<lparr>if_index_map := bt_insert if_index ret (if_index_map w), pcap_if_index := ret + 1\<rparr>,
                        [InterfaceDescription 9])))"

definition pcap_on_packet :: "Nanos \<Rightarrow> u32 \<Rightarrow> bytes \<Rightarrow> PcapWriter \<Rightarrow> (PcapWriter \<times> pcap_block list) res" where
  "pcap_on_packet time if_index data w =
     res_bind (pcap_interface_id if_index w) (\<lambda>(i, w, blocks).
       (let ts_high = drop_bit 32 time AND 0xffffffff; ts_low = time AND 0xffffffff
        in Inr (w, blocks @ [EnhancedPacket i (ucast ts_low) (ucast ts_high) (word_of_nat (length data)) (word_of_nat (length data)) data])))"

definition pcap_on_dsb :: "bytes \<Rightarrow> pcap_block list" where
  "pcap_on_dsb dsb = [DecryptionSecrets (word_of_nat (length dsb)) dsb]"

text \<open>\<open>CaptureToPcap\<close>: the main file, the temporary file of packets and the writer.\<close>

record CaptureToPcap =
  cap_file :: "pcap_block list"
  packets_file :: "pcap_block list"
  cap_writer :: PcapWriter

definition CaptureToPcap_new :: "bytes \<Rightarrow> CaptureToPcap" where
  "CaptureToPcap_new app_name =
     (let (w, blocks) = PcapWriter_new app_name
      in \<lparr>cap_file = blocks, packets_file = [], cap_writer = w\<rparr>)"

definition capture_on_packet :: "Nanos \<Rightarrow> u32 \<Rightarrow> bytes \<Rightarrow> CaptureToPcap \<Rightarrow> CaptureToPcap res" where
  "capture_on_packet time if_index packet c =
     res_bind (pcap_on_packet time if_index packet (cap_writer c)) (\<lambda>(w, blocks).
       Inr (c\<lparr>cap_writer := w, packets_file := packets_file c @ blocks\<rparr>))"

definition capture_shutdown :: "ClientRandom list \<Rightarrow> KeyDB \<Rightarrow> CaptureToPcap \<Rightarrow> pcap_block list" where
  "capture_shutdown order key_db c = cap_file c @ pcap_on_dsb (to_key_log order key_db) @ packets_file c"

fun capture_packets :: "(Nanos \<times> u32 \<times> bytes) list \<Rightarrow> CaptureToPcap \<Rightarrow> CaptureToPcap res" where
  "capture_packets [] c = Inr c"
| "capture_packets ((time, if_index, packet) # ps) c =
     res_bind (capture_on_packet time if_index packet c) (capture_packets ps)"

section \<open>Time stamps\<close>

lemma ts_halves:
  "push_bit 32 (ucast (ucast (drop_bit 32 time AND 0xffffffff) :: u32) :: u64)
     OR ucast (ucast (time AND 0xffffffff) :: u32) = (time :: u64)"
proof -
  have m: "(0xffffffff :: u64) = mask 32" by (simp add: mask_eq_exp_minus_1)
  show ?thesis
    unfolding m by (rule bit_word_eqI) (auto simp: bit_simps)
qed

lemma resolve_written:
  "timestamp_to_nanos d = 1 \<Longrightarrow>
   resolve_timestamp d (ucast (time AND 0xffffffff)) (ucast (drop_bit 32 time AND 0xffffffff)) = Inr time"
  using unsigned_less [of time, where 'a = nat] by (simp add: resolve_timestamp_def ts_halves mul_u64_def)

section \<open>A file read back\<close>

text \<open>The blocks of a file in order, each with a defined interface: what reading them all does.\<close>

fun dump_blocks :: "(u8 \<Rightarrow> u64 option) \<Rightarrow> pcap_block list \<Rightarrow> InterfaceDB \<Rightarrow> (InterfaceDB \<times> chomper_call list) option res" where
  "dump_blocks ts [] db = Inr (Some (db, []))"
| "dump_blocks ts (b # bs) db =
     res_bind (dump_block ts b db) (\<lambda>r.
       case r of
         None \<Rightarrow> Inr None
       | Some (db, calls) \<Rightarrow>
           res_bind (dump_blocks ts bs db) (\<lambda>r. Inr (map_option (\<lambda>(db, calls'). (db, calls @ calls')) r)))"

lemma dump_blocks_append:
  "dump_blocks ts (xs @ ys) db =
     res_bind (dump_blocks ts xs db) (\<lambda>r.
       case r of
         None \<Rightarrow> Inr None
       | Some (db, calls) \<Rightarrow>
           res_bind (dump_blocks ts ys db) (\<lambda>r. Inr (map_option (\<lambda>(db, calls'). (db, calls @ calls')) r)))"
proof (induction xs arbitrary: db)
  case Nil
  show ?case by (cases "dump_blocks ts ys db") (simp_all add: option.map_ident case_prod_unfold)
next
  case (Cons b xs)
  show ?case
  proof (cases "dump_block ts b db")
    case (Inr r)
    show ?thesis
    proof (cases r)
      case (Some p)
      obtain db1 c1 where p: "p = (db1, c1)" by (cases p)
      show ?thesis
      proof (cases "dump_blocks ts xs db1")
        case r2: (Inr r2)
        show ?thesis
        proof (cases r2)
          case s2: (Some p2)
          obtain db2 c2 where "p2 = (db2, c2)" by (cases p2)
          with Inr Some p r2 s2 Cons.IH [of db1] show ?thesis
            by (cases "dump_blocks ts ys db2") (auto simp: option.map_comp comp_def case_prod_unfold)
        qed (use Inr Some p r2 Cons.IH [of db1] in simp)
      qed (use Inr Some p Cons.IH [of db1] in simp)
    qed (use Inr in simp)
  qed simp
qed

text \<open>A reader of a list of blocks: it offers the first block until it is consumed.\<close>

definition list_reader :: "(u8 \<Rightarrow> u64 option) \<Rightarrow> pcap_block list pcap_reader" where
  "list_reader ts =
     \<lparr>rd_next = (\<lambda>bs. (bs, case bs of [] \<Rightarrow> Eof | b # r \<Rightarrow> NextBlock 1 b)), rd_consume = drop,
      rd_refill = Some, rd_ts_resolution = ts\<rparr>"

text \<open>
  What is relied on of a reader that holds a list of blocks: after at most a number of refills it
  offers the first block, and once that block is consumed it holds the rest; at the end it reports
  the end of the file.
\<close>

definition reads_blocks :: "'p pcap_reader \<Rightarrow> ('p \<Rightarrow> pcap_block list \<Rightarrow> bool) \<Rightarrow> ('p \<Rightarrow> nat) \<Rightarrow> bool" where
  "reads_blocks RD holds_blocks pending \<longleftrightarrow>
     (\<forall>p b bs p' r. holds_blocks p (b # bs) \<and> rd_next RD p = (p', r) \<longrightarrow>
        (\<exists>n. r = NextBlock n b \<and> holds_blocks (rd_consume RD n p') bs)
        \<or> (r = Incomplete \<and> (\<exists>p''. rd_refill RD p' = Some p'' \<and> holds_blocks p'' (b # bs) \<and> pending p'' < pending p)))
     \<and> (\<forall>p p' r. holds_blocks p [] \<and> rd_next RD p = (p', r) \<longrightarrow> r = Eof)"

lemma dump_pcap_loop_blocks:
  assumes "reads_blocks RD holds_blocks pending" and "holds_blocks p bs"
    and "dump_blocks (rd_ts_resolution RD) bs db = Inr (Some (db', calls))"
  shows "dump_pcap_loop RD p db out = Some (Inr (out @ calls))"
  using assms(2,3)
proof (induction bs arbitrary: p db out calls)
  case Nil
  obtain p' r where p': "rd_next RD p = (p', r)" by (cases "rd_next RD p")
  with Nil.prems assms(1) have "r = Eof" unfolding reads_blocks_def by blast
  with p' Nil.prems show ?case by (simp add: dump_pcap_loop.simps)
next
  case (Cons b bs)
  obtain db1 c1 c2 where b: "dump_block (rd_ts_resolution RD) b db = Inr (Some (db1, c1))"
    and r: "dump_blocks (rd_ts_resolution RD) bs db1 = Inr (Some (db', c2))" and calls: "calls = c1 @ c2"
    using Cons.prems(2) by (auto simp: res_simps split: option.splits)
  have step: "dump_pcap_loop RD q db out = Some (Inr (out @ calls))" if "holds_blocks q (b # bs)" for q
    using that
  proof (induction "pending q" arbitrary: q rule: less_induct)
    case less
    obtain q' res where q': "rd_next RD q = (q', res)" by (cases "rd_next RD q")
    with less.prems assms(1) have "(\<exists>n. res = NextBlock n b \<and> holds_blocks (rd_consume RD n q') bs)
        \<or> (res = Incomplete \<and> (\<exists>q''. rd_refill RD q' = Some q'' \<and> holds_blocks q'' (b # bs) \<and> pending q'' < pending q))"
      unfolding reads_blocks_def by blast
    then show ?case
    proof (elim disjE exE conjE)
      fix n
      assume n: "res = NextBlock n b" "holds_blocks (rd_consume RD n q') bs"
      from Cons.IH [OF n(2) r, of "out @ c1"] q' n(1) b calls show ?thesis
        by (subst dump_pcap_loop.simps) simp
    next
      fix q''
      assume i: "res = Incomplete" "rd_refill RD q' = Some q''" "holds_blocks q'' (b # bs)" "pending q'' < pending q"
      from less.hyps [OF i(4,3)] q' i(1,2) show ?thesis
        by (subst dump_pcap_loop.simps) simp
    qed
  qed
  from step [OF Cons.prems(1)] show ?case .
qed

lemma reads_blocks_list: "reads_blocks (list_reader ts) (=) (\<lambda>p. 0)"
  by (auto simp: reads_blocks_def list_reader_def)

section \<open>The interface tables of writer and reader\<close>

text \<open>The reader of what a writer has written so far knows its interfaces, all with nanosecond stamps.\<close>

definition tables_agree :: "PcapWriter \<Rightarrow> InterfaceDB \<Rightarrow> bool" where
  "tables_agree w db \<longleftrightarrow>
     bt_ok (if_index_map w) \<and> bt_ok (interfaces db) \<and> last_seen db = pcap_if_index w
     \<and> (\<forall>k i. bt_get (if_index_map w) k = Some i \<longrightarrow> get_interface db i = Some \<lparr>timestamp_to_nanos = 1\<rparr>)"

lemma tables_agree_interface:
  assumes "tables_agree w db" and "pcap_interface_id if_index w = Inr (i, w', blocks)"
    and "ts 9 = Some 1000000000"
  shows "\<exists>db'. dump_blocks ts blocks db = Inr (Some (db', [])) \<and> tables_agree w' db'
    \<and> get_interface db' i = Some \<lparr>timestamp_to_nanos = 1\<rparr>"
proof (cases "bt_get (if_index_map w) if_index")
  case None
  let ?d = "\<lparr>timestamp_to_nanos = 1\<rparr>"
  let ?db = "db\<lparr>last_seen := pcap_if_index w + 1, interfaces := bt_insert (pcap_if_index w) ?d (interfaces db)\<rparr>"
  from None assms(2) have w: "pcap_if_index w \<noteq> - 1" "i = pcap_if_index w" "blocks = [InterfaceDescription 9]"
      "w' = w\<lparr>if_index_map := bt_insert if_index (pcap_if_index w) (if_index_map w), pcap_if_index := pcap_if_index w + 1\<rparr>"
    by (auto simp: pcap_interface_id_def Let_def split: if_splits)
  have "descriptor_from (ts 9) = Inr ?d"
    using assms(3) by (simp add: descriptor_from_def NS_PER_S_def)
  with w(1) assms(1) have "dump_blocks ts blocks db = Inr (Some (?db, []))"
    by (simp add: w(3) dump_block_def on_interface_def tables_agree_def Let_def)
  moreover have "tables_agree w' ?db \<and> get_interface ?db i = Some ?d"
    using assms(1) by (auto simp: tables_agree_def get_interface_def w bt_ok_insert bt_get_insert)
  ultimately show ?thesis by blast
next
  case (Some j)
  with assms show ?thesis by (auto simp: pcap_interface_id_def tables_agree_def)
qed

lemma tables_agree_packet:
  assumes "tables_agree w db" and "pcap_on_packet time if_index data w = Inr (w', blocks)"
    and "ts 9 = Some 1000000000"
  shows "\<exists>db'. dump_blocks ts blocks db =
      Inr (Some (db', [Chomp \<lparr>received_on_wire = time, other_times = Map.empty\<rparr> data])) \<and> tables_agree w' db'"
proof -
  obtain i bs where i: "pcap_interface_id if_index w = Inr (i, w', bs)"
    and blocks: "blocks = bs @ [EnhancedPacket i (ucast (time AND 0xffffffff)) (ucast (drop_bit 32 time AND 0xffffffff))
      (word_of_nat (length data)) (word_of_nat (length data)) data]"
    using assms(2) by (auto simp: pcap_on_packet_def Let_def res_simps)
  from tables_agree_interface [where ts = ts, OF assms(1) i assms(3)] obtain db' where
    "dump_blocks ts bs db = Inr (Some (db', []))" "tables_agree w' db'" "get_interface db' i = Some \<lparr>timestamp_to_nanos = 1\<rparr>"
    by blast
  then show ?thesis
    by (auto simp: blocks dump_blocks_append dump_block_def resolve_written)
qed

lemma tables_agree_packets:
  assumes "tables_agree (cap_writer c) db" and "capture_packets ps c = Inr c'" and "ts 9 = Some 1000000000"
  shows "\<exists>blocks db'. packets_file c' = packets_file c @ blocks \<and> cap_file c' = cap_file c
    \<and> dump_blocks ts blocks db =
        Inr (Some (db', map (\<lambda>(time, if_index, data). Chomp \<lparr>received_on_wire = time, other_times = Map.empty\<rparr> data) ps))"
  using assms(1,2)
proof (induction ps arbitrary: c db)
  case (Cons p ps)
  obtain time if_index data where p: "p = (time, if_index, data)" by (cases p)
  obtain w b1 where w: "pcap_on_packet time if_index data (cap_writer c) = Inr (w, b1)"
    and rest: "capture_packets ps (c\<lparr>cap_writer := w, packets_file := packets_file c @ b1\<rparr>) = Inr c'"
    using Cons.prems(2) by (auto simp: p capture_on_packet_def res_simps)
  from tables_agree_packet [where ts = ts, OF Cons.prems(1) w assms(3)] obtain db1 where
    db1: "dump_blocks ts b1 db = Inr (Some (db1, [Chomp \<lparr>received_on_wire = time, other_times = Map.empty\<rparr> data]))"
      "tables_agree w db1" by blast
  from Cons.IH [OF _ rest, of db1] db1(2) obtain blocks db' where
    "packets_file c' = packets_file c @ b1 @ blocks" "cap_file c' = cap_file c"
    "dump_blocks ts blocks db1 = Inr (Some (db', map (\<lambda>(time, if_index, data).
       Chomp \<lparr>received_on_wire = time, other_times = Map.empty\<rparr> data) ps))"
    by auto
  with db1(1) show ?case
    by (intro exI [of _ "b1 @ blocks"] exI [of _ db']) (simp add: dump_blocks_append p)
qed simp

text \<open>
  C11. A capture replays: reading back the file that a capture has written hands the key log to the
  frame consumer first and then every captured packet, in order, unchanged and with the time stamp it
  was captured with, whatever interfaces the packets came from.  The reader is relied on to decode
  the blocks, and to read the resolution byte 9 as nanoseconds.
\<close>

theorem capture_file_round_trip:
  assumes "capture_packets ps (CaptureToPcap_new app_name) = Inr c"
    and "reads_blocks RD holds_blocks pending" and "rd_ts_resolution RD 9 = Some 1000000000"
    and "length (to_key_log order db) < 2 ^ 32"
    and "holds_blocks p (capture_shutdown order db c)"
  shows "dump_pcap RD p = Some (Inr (OnKeys (to_key_log order db) #
     map (\<lambda>(time, if_index, data). Chomp \<lparr>received_on_wire = time, other_times = Map.empty\<rparr> data) ps))"
proof -
  let ?c = "CaptureToPcap_new app_name" and ?keys = "to_key_log order db"
  have "tables_agree (cap_writer ?c) InterfaceDB_default"
    by (simp add: CaptureToPcap_new_def PcapWriter_new_def tables_agree_def InterfaceDB_default_def)
  from tables_agree_packets [where ts = "rd_ts_resolution RD", OF this assms(1,3)] obtain blocks db' where
    c: "packets_file c = blocks" "cap_file c = [SectionHeader (take (min (length app_name) 65535) app_name)]"
    and r: "dump_blocks (rd_ts_resolution RD) blocks InterfaceDB_default = Inr (Some (db',
      map (\<lambda>(time, if_index, data). Chomp \<lparr>received_on_wire = time, other_times = Map.empty\<rparr> data) ps))"
    by (auto simp: CaptureToPcap_new_def PcapWriter_new_def)
  have "unat (word_of_nat (length ?keys) :: u32) = length ?keys"
    using assms(4) by (simp add: unat_of_nat take_bit_nat_eq_self)
  with r have "dump_blocks (rd_ts_resolution RD) (capture_shutdown order db c) InterfaceDB_default =
      Inr (Some (db', OnKeys ?keys #
        map (\<lambda>(time, if_index, data). Chomp \<lparr>received_on_wire = time, other_times = Map.empty\<rparr> data) ps))"
    by (simp add: capture_shutdown_def c pcap_on_dsb_def dump_block_def slice_to_def)
  from dump_pcap_loop_blocks [OF assms(2,5) this] show ?thesis
    by (simp add: dump_pcap_def)
qed

theorem capture_file_round_trip_witness:
  "dump_pcap (list_reader (\<lambda>b. Some (10 ^ unat b)))
     (capture_shutdown [] KeyDB_default
       \<lparr>cap_file = [SectionHeader [67]],
        packets_file = [InterfaceDescription 9, EnhancedPacket 0 5 1 2 2 [1, 2], EnhancedPacket 0 6 1 1 1 [3]],
        cap_writer = \<lparr>if_index_map = [(4, 0)], pcap_if_index = 1\<rparr>\<rparr>) =
   Some (Inr [OnKeys [], Chomp \<lparr>received_on_wire = 4294967301, other_times = Map.empty\<rparr> [1, 2],
     Chomp \<lparr>received_on_wire = 4294967302, other_times = Map.empty\<rparr> [3]])"
proof -
  let ?c = "\<lparr>cap_file = [SectionHeader [67]],
      packets_file = [InterfaceDescription 9, EnhancedPacket 0 5 1 2 2 [1, 2], EnhancedPacket 0 6 1 1 1 [3]],
      cap_writer = \<lparr>if_index_map = [(4, 0)], pcap_if_index = 1\<rparr>\<rparr>"
  have "capture_packets [(4294967301, 4, [1, 2]), (4294967302, 4, [3])] (CaptureToPcap_new [67]) = Inr ?c"
    by (simp add: CaptureToPcap_new_def PcapWriter_new_def capture_on_packet_def pcap_on_packet_def
        pcap_interface_id_def bt_get_def Let_def drop_bit_eq_div)
  from capture_file_round_trip [OF this reads_blocks_list, of "\<lambda>b. Some (10 ^ unat b)" "[]" KeyDB_default]
  show ?thesis by (simp add: list_reader_def to_key_log_def)
qed

text \<open>
  A packet whose interface the file does not define makes \<open>dump_pcap\<close> run forever: the \<open>continue\<close>
  skips the \<open>consume\<close>, so the reader offers the same block again.
\<close>

theorem undefined_interface_never_returns:
  assumes "get_interface db i = None" and "rd_next RD p = (p, NextBlock n (EnhancedPacket i lo hi caplen origlen data))"
  shows "dump_pcap_loop RD p db out = None"
proof (cases "dump_pcap_loop RD p db out")
  case (Some y)
  let ?stuck = "\<lambda>(RD :: 'a pcap_reader) p db.
      get_interface db i = None \<and> rd_next RD p = (p, NextBlock n (EnhancedPacket i lo hi caplen origlen data))"
  have "\<not> ?stuck RD p db"
  proof (rule dump_pcap_loop.raw_induct
      [where P = "\<lambda>(RD :: 'a pcap_reader) p db out y. \<not> ?stuck RD p db", OF _ Some], goal_cases)
    case (1 f RD p db out y)
    show ?case
    proof
      assume st: "?stuck RD p db"
      with 1(2) have "f RD p db out = Some y" by (simp add: dump_block_def)
      from 1(1) [OF this] st show False by simp
    qed
  qed
  with assms show ?thesis by simp
qed simp

end
