(* ===== verification/Dispatch.thy ===== *)
theory Dispatch
  imports Http_Tracker Tls_Queue Tcp_Follower
begin

text \<open>
  The dispatcher of \<open>crates/net_decode/src/dispatch.rs\<close> and its use in \<open>crates/net_decode/src/lib.rs\<close>.

  The listeners of a dispatcher share one state, of which each uses its own part; a dispatcher is the
  list of its rules.  A \<open>ListenerJoin\<close> hands the calls of several listeners to one: as every listener
  returns the calls it makes in order, joining listeners is appending their calls.
\<close>

section \<open>Rules\<close>

type_synonym ('s, 'm, 'n) dispatch_rule = "(IPTarget \<Rightarrow> bool) \<times> ('s, 'm, 'n) listener"

definition match_port :: "u16 \<Rightarrow> IPTarget \<Rightarrow> bool" where
  "match_port port target \<longleftrightarrow> server_port target = port"

definition dispatcher_add ::
  "('s, 'm, 'n) dispatch_rule list \<Rightarrow> (IPTarget \<Rightarrow> bool) \<Rightarrow> ('s, 'm, 'n) listener \<Rightarrow> ('s, 'm, 'n) dispatch_rule list" where
  "dispatcher_add listeners m listener = listeners @ [(m, listener)]"

fun dispatch_data ::
  "('s, 'm, 'n) dispatch_rule list \<Rightarrow> TimingInfo \<Rightarrow> IPTarget \<Rightarrow> bool \<Rightarrow> 'm \<Rightarrow> 's \<Rightarrow> ('s \<times> 'n listener_call list) res" where
  "dispatch_data [] timing target to_client data s = Inr (s, [])"
| "dispatch_data ((m, l) # listeners) timing target to_client data s =
     (if m target then l s (OnData timing target to_client data)
      else dispatch_data listeners timing target to_client data s)"

fun dispatch_side_data ::
  "('s, 'm, 'n) dispatch_rule list \<Rightarrow> SideData \<Rightarrow> 's \<Rightarrow> ('s \<times> 'n listener_call list) res" where
  "dispatch_side_data [] d s = Inr (s, [])"
| "dispatch_side_data ((m, l) # listeners) d s =
     res_bind (l s (OnSideData d)) (\<lambda>(s, out).
     res_bind (dispatch_side_data listeners d s) (\<lambda>(s, out'). Inr (s, out @ out')))"

definition dispatch :: "('s, 'm, 'n) dispatch_rule list \<Rightarrow> ('s, 'm, 'n) listener" where
  "dispatch listeners s call =
     (case call of
        OnData timing target to_client data \<Rightarrow> dispatch_data listeners timing target to_client data s
      | OnSideData d \<Rightarrow> dispatch_side_data listeners d s)"

definition no_op :: "('s, 'm, 'n) listener" where
  "no_op s call = Inr (s, [])"

text \<open>A listener that uses the first or the second part of the state.\<close>

definition on_first :: "('s, 'm, 'n) listener \<Rightarrow> ('s \<times> 't, 'm, 'n) listener" where
  "on_first l = (\<lambda>(s, t) call. res_bind (l s call) (\<lambda>(s, out). Inr ((s, t), out)))"

definition on_second :: "('t, 'm, 'n) listener \<Rightarrow> ('s \<times> 't, 'm, 'n) listener" where
  "on_second l = (\<lambda>(s, t) call. res_bind (l t call) (\<lambda>(t, out). Inr ((s, t), out)))"

lemma feed_on_first: "feed (on_first l) (s, t) calls = res_bind (feed l s calls) (\<lambda>(s, out). Inr ((s, t), out))"
proof (induction calls arbitrary: s)
  case (Cons c calls)
  show ?case
  proof (cases "l s c")
    case (Inr p)
    obtain s1 o1 where p: "p = (s1, o1)" by (cases p)
    with Inr Cons.IH [of s1] show ?thesis
      by (cases "feed l s1 calls") (auto simp: on_first_def)
  qed (simp add: on_first_def)
qed simp

section \<open>Contracts of dispatchers\<close>

text \<open>
  If every rule keeps a contract then so does the dispatcher, whichever rules match.
\<close>

locale dispatch_contract =
  fixes rules :: "('s, 'm, 'n) dispatch_rule list"
    and inv :: "'s \<Rightarrow> bool"
    and le :: "'s \<Rightarrow> 's \<Rightarrow> bool"
  assumes le_refl: "le s s"
    and le_trans: "le s t \<Longrightarrow> le t u \<Longrightarrow> le s u"
    and rule_ok: "(m, l) \<in> set rules \<Longrightarrow> inv s \<Longrightarrow> l s c = Inr (s', out) \<Longrightarrow> inv s' \<and> le s s'"
begin

lemma dispatch_data_ok:
  "set rs \<subseteq> set rules \<Longrightarrow> inv s \<Longrightarrow> dispatch_data rs timing target c d s = Inr (s', out) \<Longrightarrow> inv s' \<and> le s s'"
  by (induction rs) (auto split: if_splits intro: le_refl dest: rule_ok)

lemma dispatch_side_data_ok:
  "set rs \<subseteq> set rules \<Longrightarrow> inv s \<Longrightarrow> dispatch_side_data rs d s = Inr (s', out) \<Longrightarrow> inv s' \<and> le s s'"
proof (induction rs arbitrary: s out)
  case (Cons r rs)
  obtain m l where r: "r = (m, l)" by (cases r)
  from Cons.prems obtain s1 o1 o2 where s1: "l s (OnSideData d) = Inr (s1, o1)"
    and rest: "dispatch_side_data rs d s1 = Inr (s', o2)"
    by (auto simp: r res_simps split: prod.splits)
  have "inv s1 \<and> le s s1" using rule_ok [of m l s "OnSideData d" s1 o1] s1 Cons.prems(1,2) r by auto
  with Cons.IH [OF _ _ rest] Cons.prems(1) show ?case by (auto intro: le_trans)
qed (auto intro: le_refl)

end

sublocale dispatch_contract \<subseteq> disp: listener_contract "dispatch rules" inv le
proof
  fix s c s' out
  assume "inv s" and "dispatch rules s c = Inr (s', out)"
  then have *: "inv s' \<and> le s s'"
    by (cases c) (auto simp: dispatch_def dest: dispatch_data_ok [OF order_refl] dispatch_side_data_ok [OF order_refl])
  then show "inv s'" by simp
  from * show "le s s'" by simp
qed (blast intro: le_refl le_trans)+

end
