(* ===== verification/Chomp.thy ===== *)
theory Chomp
  imports Dispatch Pcap
begin

text \<open>
  The frame consumer \<open>EthernetChomper\<close> of \<open>crates/net_decode/src/chomp.rs\<close> and the stack that
  \<open>chomper\<close> of \<open>crates/net_decode/src/lib.rs\<close> puts behind it: plain HTTP on port 80, and TLS with HTTP
  above it on port 443, joined in one listener of HTTP events.

  The header parsers of \<open>pktparse\<close> are the fields of the record \<open>pktparse\<close>.  The key database is
  shared between the consumer and the TLS layer, so the stack is a function of it.
\<close>

section \<open>Frames\<close>

datatype EtherType = EtherType_IPv4 | EtherType_IPv6 | EtherType_Other u16

record pktparse =
  parse_ethernet_frame :: "bytes \<Rightarrow> (bytes \<times> EtherType) option"
  parse_ipv4_header :: "bytes \<Rightarrow> (bytes \<times> IPv4Header) option"
  parse_ipv6_header :: "bytes \<Rightarrow> (bytes \<times> IPv6Header) option"
  parse_tcp_header :: "bytes \<Rightarrow> (bytes \<times> TcpHeader) option"

record 's EthernetChomper =
  tcp_follower :: TcpFollower
  recv :: 's
  ch_key_db :: KeyDB

type_synonym ('s, 'n) receiver = "KeyDB \<Rightarrow> ('s, bytes, 'n) listener"

definition follow ::
  "pktparse \<Rightarrow> ('s, 'n) receiver \<Rightarrow> TimingInfo \<Rightarrow> IPHeader \<Rightarrow> bytes \<Rightarrow> 's EthernetChomper \<Rightarrow>
   ('s EthernetChomper \<times> 'n listener_call list) res" where
  "follow P l timing header remain ch =
     res_bind (follower_chomp (parse_tcp_header P) timing header remain (tcp_follower ch)) (\<lambda>(fol, calls).
     res_bind (feed (l (ch_key_db ch)) (recv ch) calls) (\<lambda>(s, out).
       Inr (ch\<lparr>tcp_follower := fol, recv := s\<rparr>, out)))"

definition chomp ::
  "pktparse \<Rightarrow> ('s, 'n) receiver \<Rightarrow> TimingInfo \<Rightarrow> bytes \<Rightarrow> 's EthernetChomper \<Rightarrow>
   ('s EthernetChomper \<times> 'n listener_call list) res" where
  "chomp P l timing packet ch =
     (case parse_ethernet_frame P packet of
        Some (remain, ethertype) \<Rightarrow>
          (case ethertype of
             EtherType_IPv4 \<Rightarrow>
               (case parse_ipv4_header P remain of
                  Some (remain, pkt) \<Rightarrow> follow P l timing (IPHeader_V4 pkt) remain ch
                | None \<Rightarrow> Inr (ch, []))
           | EtherType_IPv6 \<Rightarrow>
               (case parse_ipv6_header P remain of
                  Some (remain, pkt) \<Rightarrow> follow P l timing (IPHeader_V6 pkt) remain ch
                | None \<Rightarrow> Inr (ch, []))
           | EtherType_Other e \<Rightarrow> Inr (ch, []))
      | None \<Rightarrow> Inr (ch, []))"

definition on_keys ::
  "(bytes \<Rightarrow> bytes option) \<Rightarrow> ('s, 'n) receiver \<Rightarrow> bytes \<Rightarrow> 's EthernetChomper \<Rightarrow>
   ('s EthernetChomper \<times> 'n listener_call list) res" where
  "on_keys hex_decode l dsb ch =
     (let (db, secrets) = load_key_log hex_decode dsb (ch_key_db ch);
          new_keys = map (\<lambda>(client_random, ty, secret). NewKeyReceived ty client_random secret) secrets
      in res_bind (feed (l db) (recv ch) (map OnSideData new_keys)) (\<lambda>(s, out).
           Inr (ch\<lparr>recv := s, ch_key_db := db\<rparr>, out)))"

definition on_key ::
  "('s, 'n) receiver \<Rightarrow> ClientRandom \<Rightarrow> SecretType \<Rightarrow> Secret \<Rightarrow> 's EthernetChomper \<Rightarrow>
   ('s EthernetChomper \<times> 'n listener_call list) res" where
  "on_key l client_random ty secret ch =
     res_bind (l (ch_key_db ch) (recv ch) (OnSideData (NewKeyReceived ty client_random secret))) (\<lambda>(s, out).
       Inr (ch\<lparr>recv := s\<rparr>, out))"

section \<open>The stack\<close>

definition tls_listener ::
  "('d, 'c, 'p, 'v, 'w) rustls \<Rightarrow> KeyDB \<Rightarrow> (('d, 'c) TLSFlowTracker, bytes, bytes) listener" where
  "tls_listener R db t call =
     returned (case call of
                 OnData timing target to_client data \<Rightarrow> tracker_on_data R db timing target to_client data t
               | OnSideData d \<Rightarrow> tracker_on_side_data R db d t)"

type_synonym ('d, 'c, 'k, 'h) stack_state =
  "('k, 'h) HTTPRequestTracker \<times> ('d, 'c) TLSFlowTracker \<times> ('k, 'h) HTTPRequestTracker"

definition chomper_rules ::
  "('d, 'c, 'p, 'v, 'w) rustls \<Rightarrow> ('k, 'h) h2_lib \<Rightarrow> http_lib \<Rightarrow> KeyDB \<Rightarrow>
   (('d, 'c, 'k, 'h) stack_state, bytes, HTTPStreamEvent) dispatch_rule list" where
  "chomper_rules R K L db =
     dispatcher_add
       (dispatcher_add [] (match_port 80) (on_first (http_listener K L)))
       (match_port 443) (on_second (stack (tls_listener R db) (http_listener K L)))"

definition chomper_recv ::
  "('d, 'c, 'p, 'v, 'w) rustls \<Rightarrow> ('k, 'h) h2_lib \<Rightarrow> http_lib \<Rightarrow>
   (('d, 'c, 'k, 'h) stack_state, HTTPStreamEvent) receiver" where
  "chomper_recv R K L db = dispatch (chomper_rules R K L db)"

definition chomper :: "KeyDB \<Rightarrow> ('d, 'c, 'k, 'h) stack_state EthernetChomper" where
  "chomper db =
     \<lparr>tcp_follower = TcpFollower_default,
      recv = (HTTPRequestTracker_new, TLSFlowTracker_new, HTTPRequestTracker_new), ch_key_db = db\<rparr>"

text \<open>A sequence of frames with their capture times.\<close>

fun chomp_frames ::
  "pktparse \<Rightarrow> ('s, 'n) receiver \<Rightarrow> (TimingInfo \<times> bytes) list \<Rightarrow> 's EthernetChomper \<Rightarrow>
   ('s EthernetChomper \<times> 'n listener_call list) res" where
  "chomp_frames P l [] ch = Inr (ch, [])"
| "chomp_frames P l ((timing, packet) # fs) ch =
     res_bind (chomp P l timing packet ch) (\<lambda>(ch, out).
     res_bind (chomp_frames P l fs ch) (\<lambda>(ch, out'). Inr (ch, out @ out')))"

section \<open>What a frame carries\<close>

text \<open>The connection, TCP header and payload of a frame, if it has one.\<close>

definition decode_ip :: "pktparse \<Rightarrow> IPHeader \<Rightarrow> bytes \<Rightarrow> (IPTarget \<times> TcpHeader \<times> bytes) option" where
  "decode_ip P header remain =
     (if proto header = IPProtocol_TCP
      then map_option (\<lambda>(remain, tcp). (from_headers header tcp, tcp, remain)) (parse_tcp_header P remain)
      else None)"

definition decode_frame :: "pktparse \<Rightarrow> bytes \<Rightarrow> (IPTarget \<times> TcpHeader \<times> bytes) option" where
  "decode_frame P packet =
     Option.bind (parse_ethernet_frame P packet) (\<lambda>(remain, ethertype).
       case ethertype of
         EtherType_IPv4 \<Rightarrow> Option.bind (parse_ipv4_header P remain) (\<lambda>(remain, pkt). decode_ip P (IPHeader_V4 pkt) remain)
       | EtherType_IPv6 \<Rightarrow> Option.bind (parse_ipv6_header P remain) (\<lambda>(remain, pkt). decode_ip P (IPHeader_V6 pkt) remain)
       | EtherType_Other e \<Rightarrow> None)"

definition receive ::
  "('s, 'n) receiver \<Rightarrow> TimingInfo \<Rightarrow> (IPTarget \<times> TcpHeader \<times> bytes) option \<Rightarrow> 's EthernetChomper \<Rightarrow>
   ('s EthernetChomper \<times> 'n listener_call list) res" where
  "receive l timing packet ch =
     (case packet of
        None \<Rightarrow> Inr (ch, [])
      | Some (target, tcp, data) \<Rightarrow>
          res_bind (record_flow timing target tcp data (tcp_follower ch)) (\<lambda>(fol, calls).
          res_bind (feed (l (ch_key_db ch)) (recv ch) calls) (\<lambda>(s, out).
            Inr (ch\<lparr>tcp_follower := fol, recv := s\<rparr>, out))))"

lemma follow_decode: "follow P l timing header remain ch = receive l timing (decode_ip P header remain) ch"
  by (auto simp: follow_def follower_chomp_def decode_ip_def receive_def split: IPProtocol.splits option.splits)

lemma chomp_decode: "chomp P l timing packet ch = receive l timing (decode_frame P packet) ch"
  by (auto simp: chomp_def decode_frame_def follow_decode receive_def split: option.splits EtherType.splits)

lemma chomp_frames_decode:
  assumes "list_all2 (\<lambda>(timing, packet) (timing', p). timing' = timing \<and> decode_frame P packet = Some p) frames ps"
    and "record_flows ps (tcp_follower ch) = Inr (fol, calls)"
    and "feed (l (ch_key_db ch)) (recv ch) calls = Inr (s, out)"
  shows "chomp_frames P l frames ch = Inr (ch\<lparr>tcp_follower := fol, recv := s\<rparr>, out)"
  using assms
proof (induction frames ps arbitrary: ch calls out rule: list_all2_induct)
  case (Cons f fs p ps)
  obtain timing packet target tcp data where f: "f = (timing, packet)" "p = (timing, target, tcp, data)"
    and d: "decode_frame P packet = Some (target, tcp, data)"
    using Cons.hyps(1) by (cases f; cases p) auto
  obtain fol1 c1 c2 where r: "record_flow timing target tcp data (tcp_follower ch) = Inr (fol1, c1)"
    "record_flows ps fol1 = Inr (fol, c2)" "calls = c1 @ c2"
    using Cons.prems(1) by (auto simp: f res_simps)
  obtain s1 o1 o2 where s: "feed (l (ch_key_db ch)) (recv ch) c1 = Inr (s1, o1)"
    "feed (l (ch_key_db ch)) s1 c2 = Inr (s, o2)" "out = o1 @ o2"
    using Cons.prems(2) by (auto simp: r(3) feed_append res_simps)
  let ?ch = "ch\<lparr>tcp_follower := fol1, recv := s1\<rparr>"
  have "chomp P l timing packet ch = Inr (?ch, o1)"
    by (simp add: chomp_decode d receive_def r(1) s(1))
  moreover have "chomp_frames P l fs ?ch = Inr (?ch\<lparr>tcp_follower := fol, recv := s\<rparr>, o2)"
    using Cons.IH [of ?ch c2 o2] r(2) s(2) by simp
  ultimately show ?case by (simp add: f s(3))
qed simp

section \<open>A request on port 80\<close>

lemma contiguous_nonempty: "contiguous sq len n hs \<Longrightarrow> h \<in> set hs \<Longrightarrow> 0 < len h"
  by (induction hs arbitrary: n) auto


lemma recv_port_80:
  "server_port target = 80 \<Longrightarrow> chomper_recv R K L db s (OnData timing target c d) =
     on_first (http_listener K L) s (OnData timing target c d)"
  by (simp add: chomper_recv_def chomper_rules_def dispatcher_add_def dispatch_def match_port_def)

lemma recv_port_443:
  "server_port target = 443 \<Longrightarrow> chomper_recv R K L db s (OnData timing target c d) =
     on_second (stack (tls_listener R db) (http_listener K L)) s (OnData timing target c d)"
  by (simp add: chomper_recv_def chomper_rules_def dispatcher_add_def dispatch_def match_port_def)

lemma feed_plain:
  assumes "\<forall>c \<in> set calls. \<exists>timing to_client data. c = OnData timing key to_client data" and "server_port key = 80"
  shows "feed (chomper_recv R K L db) (plain, rest) calls =
     res_bind (feed (http_listener K L) plain calls) (\<lambda>(plain, out). Inr ((plain, rest), out))"
  using assms(1)
proof (induction calls arbitrary: plain)
  case (Cons c calls)
  obtain timing to_client data where c: "c = OnData timing key to_client data" using Cons.prems by auto
  have "chomper_recv R K L db (plain, rest) c = on_first (http_listener K L) (plain, rest) c"
    using assms(2) by (simp add: recv_port_80 c)
  moreover have "feed (chomper_recv R K L db) (p, rest) calls =
      res_bind (feed (http_listener K L) p calls) (\<lambda>(plain, out). Inr ((plain, rest), out))" for p
    using Cons.IH Cons.prems by simp
  ultimately show ?case
    by (cases "http_listener K L plain c"; cases "feed (http_listener K L) (fst (projr (http_listener K L plain c))) calls")
      (auto simp: on_first_def)
qed simp

text \<open>The chunks of a body, each reported as it arrives, and the end of the request after the last.\<close>

lemma http_body_calls:
  assumes "map call_payload calls = map (\<lambda>d. Some (key, False, d)) ds" and "http_flows t key = Some (Flow_HTTP1 flow)"
    and "server_state flow = Body" and "req_remain flow = length (concat ds)" and "ds \<noteq> []" and "\<forall>d \<in> set ds. d \<noteq> []"
  shows "\<exists>t' out. feed (http_listener K L) t calls = Inr (t', out)
    \<and> map call_payload out = map (\<lambda>e. Some (key, False, e))
        (map (ReqBodyChunk (h1_request_id flow)) ds @
         [RequestFinished (h1_request_id flow) (req_sent flow + length (concat ds))])"
  using assms
proof (induction ds arbitrary: calls t flow)
  case (Cons d ds)
  obtain c calls' timing where calls: "calls = c # calls'" "c = OnData timing key False d"
    "map call_payload calls' = map (\<lambda>d. Some (key, False, d)) ds"
    using Cons.prems(1) by (cases calls) (auto elim!: call_payload.elims)
  have d: "d \<noteq> []" using Cons.prems by simp
  show ?case
  proof (cases "ds = []")
    case True
    have "handle_step L timing key False d flow (tr_request_id t) =
        Inr (Some (length d, flow\<lparr>req_remain := 0, req_sent := req_sent flow + length d\<rparr>, tr_request_id t,
          [OnData timing key False (ReqBodyChunk (h1_request_id flow) d),
           OnData timing key False (RequestFinished (h1_request_id flow) (req_sent flow + length d))]))"
      using Cons.prems True by (simp add: handle_step_def stream_body_def Let_def)
    from handle_request_step [OF d this] True Cons.prems(2) calls show ?thesis
      by (simp add: http_listener_def http_on_data_def http_entry_def handle_flow_def)
  next
    case False
    let ?flow = "flow\<lparr>req_remain := length (concat ds), req_sent := req_sent flow + length d\<rparr>"
    let ?t = "t\<lparr>tr_request_id := tr_request_id t, http_flows := (http_flows t)(key \<mapsto> Flow_HTTP1 ?flow)\<rparr>"
    have "length (concat ds) \<noteq> 0" using False Cons.prems(6) by (cases ds) auto
    then have "handle_step L timing key False d flow (tr_request_id t) =
        Inr (Some (length d, ?flow, tr_request_id t, [OnData timing key False (ReqBodyChunk (h1_request_id flow) d)]))"
      using Cons.prems by (simp add: handle_step_def stream_body_def Let_def)
    from handle_request_step [OF d this] Cons.prems(2)
    have 1: "http_listener K L t c = Inr (?t, [OnData timing key False (ReqBodyChunk (h1_request_id flow) d)])"
      by (simp add: http_listener_def http_on_data_def http_entry_def handle_flow_def calls(2))
    have "\<exists>t' out. feed (http_listener K L) ?t calls' = Inr (t', out)
        \<and> map call_payload out = map (\<lambda>e. Some (key, False, e))
            (map (ReqBodyChunk (h1_request_id ?flow)) ds @
             [RequestFinished (h1_request_id ?flow) (req_sent ?flow + length (concat ds))])"
      by (rule Cons.IH) (use Cons.prems False calls(3) in auto)
    with 1 show ?thesis by (auto simp: calls(1) add.assoc)
  qed
qed simp

text \<open>The chunk with the head of a request, and with all or the first part of its body.\<close>

lemma http_head_call:
  assumes "http_flows t key = None" and "tr_request_id t \<noteq> - 1" and "data \<noteq> []"
    and "parse_request L data = ParseComplete body_start request" and "request_parts L request = Inr (Inr parts)"
    and "body_start \<le> length data" and "content_length L (req_headers parts) = length data - body_start + left"
  defines "i \<equiv> tr_request_id t"
  shows "\<exists>t' flow. http_listener K L t (OnData timing key False data) =
      Inr (t', map (OnData timing key False) ([NewRequest i parts, ReqBodyChunk i (drop body_start data)] @
            (if left = 0 then [RequestFinished i (length data)] else [])))
    \<and> http_flows t' key = Some (Flow_HTTP1 flow) \<and> server_state flow = Body \<and> req_remain flow = left
    \<and> h1_request_id flow = i \<and> req_sent flow = length data"
proof -
  let ?flow = "HTTP1Flow_new i"
  let ?flow' = "?flow\<lparr>server_state := Body, req_remain := left, req_sent := length data\<rparr>"
  let ?calls = "map (OnData timing key False) ([NewRequest i parts, ReqBodyChunk i (drop body_start data)] @
            (if left = 0 then [RequestFinished i (length data)] else []))"
  have "handle_step L timing key False data ?flow (i + 1) = Inr (Some (length data, ?flow', i + 1, ?calls))"
    using assms by (simp add: handle_step_def do_server_recv_headers_def Let_def slice_from_def stream_body_def HTTP1Flow_new_def) linarith
  from handle_request_step [OF assms(3) this]
  have "http1_handle_request L timing key False data ?flow (i + 1) [] = Some (Inr (?flow', i + 1, ?calls))" by simp
  with assms(1,2) show ?thesis
    by (simp add: http_listener_def http_on_data_def http_entry_def handle_flow_def new_request_id_def i_def HTTP1Flow_new_def)
qed

lemma http_request_calls:
  assumes "map call_payload calls = map (\<lambda>d. Some (key, False, d)) (data # ds)"
    and "http_flows t key = None" and "tr_request_id t \<noteq> - 1" and "\<forall>d \<in> set (data # ds). d \<noteq> []"
    and "parse_request L data = ParseComplete body_start request" and "request_parts L request = Inr (Inr parts)"
    and "body_start \<le> length data" and "content_length L (req_headers parts) = length (concat (data # ds)) - body_start"
  defines "i \<equiv> tr_request_id t"
  shows "\<exists>t' out. feed (http_listener K L) t calls = Inr (t', out)
    \<and> map call_payload out = map (\<lambda>e. Some (key, False, e))
        (NewRequest i parts # map (ReqBodyChunk i) (drop body_start data # ds) @
         [RequestFinished i (length (concat (data # ds)))])"
proof -
  obtain c calls' timing where calls: "calls = c # calls'" "c = OnData timing key False data"
    "map call_payload calls' = map (\<lambda>d. Some (key, False, d)) ds"
    using assms(1) by (cases calls) (auto elim!: call_payload.elims)
  have len: "content_length L (req_headers parts) = length data - body_start + length (concat ds)"
    using assms(7,8) by simp
  from http_head_call [OF assms(2,3) _ assms(5-7) len, of K timing] assms(4)
  obtain t1 flow where h: "http_listener K L t c = Inr (t1, map (OnData timing key False)
      ([NewRequest i parts, ReqBodyChunk i (drop body_start data)] @
       (if length (concat ds) = 0 then [RequestFinished i (length data)] else [])))"
    and f: "http_flows t1 key = Some (Flow_HTTP1 flow)" "server_state flow = Body" "req_remain flow = length (concat ds)"
      "h1_request_id flow = i" "req_sent flow = length data"
    by (auto simp: i_def calls(2))
  show ?thesis
  proof (cases "ds = []")
    case True
    with h calls show ?thesis by simp
  next
    case False
    have "length (concat ds) \<noteq> 0" using False assms(4) by (cases ds) auto
    moreover obtain t' out where "feed (http_listener K L) t1 calls' = Inr (t', out)"
      "map call_payload out = map (\<lambda>e. Some (key, False, e))
        (map (ReqBodyChunk i) ds @ [RequestFinished i (length data + length (concat ds))])"
      using http_body_calls [OF calls(3) f(1-3) False, of K L] assms(4) f(4,5) by auto
    ultimately show ?thesis using h by (simp add: calls(1))
  qed
qed

text \<open>
  C3. From frames to events: on an established connection to port 80, a request whose head is in the
  first segment and whose body is in that and any number of further segments is reported as exactly
  the new request, its body chunks in stream order and its end with the total length, in whatever
  order the frames with these segments are captured.  The announced content length is that of the
  body, and the frames carry the segments according to the header parsers.
\<close>

theorem plain_request_end_to_end:
  assumes "flows (tcp_follower ch) key = Some fl" and "flows (tcp_follower ch) (flip key) = None"
    and "\<And>d. established_at (n d) (rx_side d fl)" and "server_port key = 80"
    and "data_stream (n False) (seg # segs)" and "mset (map snd arrivals) = mset (seg # segs)"
    and "list_all2 (\<lambda>(timing, packet) (timing', p). timing' = timing \<and> decode_frame P packet = Some p)
           frames (packets_to key arrivals)"
    and "recv ch = (plain, rest)" and "http_flows plain key = None" and "tr_request_id plain \<noteq> - 1"
    and "parse_request L (snd seg) = ParseComplete body_start request" and "request_parts L request = Inr (Inr parts)"
    and "body_start \<le> length (snd seg)"
    and "content_length L (req_headers parts) = length (concat (map snd (seg # segs))) - body_start"
  shows "\<exists>ch' out. chomp_frames P (chomper_recv R K L) frames ch = Inr (ch', out)
    \<and> map call_payload out = map (\<lambda>e. Some (key, False, e))
        (NewRequest (tr_request_id plain) parts
         # map (ReqBodyChunk (tr_request_id plain)) (drop body_start (snd seg) # map snd segs)
         @ [RequestFinished (tr_request_id plain) (length (concat (map snd (seg # segs))))])"
proof -
  let ?ps = "map (Pair False) arrivals" and ?segs = "\<lambda>d. if d then [] else seg # segs"
  have ps: "conversation key ?ps = packets_to key arrivals"
    by (simp add: conversation_def packets_to_def case_prod_unfold)
  have tr: "travelling False ?ps = arrivals" "travelling True ?ps = []"
    by (simp_all add: travelling_def filter_map comp_def)
  have "\<exists>fol' fl' calls. record_flows (conversation key ?ps) (tcp_follower ch) = Inr (fol', calls)
      \<and> flows fol' = (flows (tcp_follower ch))(key \<mapsto> fl')
      \<and> (\<forall>d. map call_payload (calls_to d calls) = map (\<lambda>seg. Some (key, d, snd seg)) (?segs d)
           \<and> established_at (n d + word_of_nat (stream_length (?segs d))) (rx_side d fl'))"
  proof (rule conversation_reassembled [OF assms(1,2,3)])
    fix d
    show "data_stream (n d) (?segs d)" using assms(5) by (cases d) (simp_all add: data_stream_def)
    show "mset (map snd (travelling d ?ps)) = mset (?segs d)" using assms(6) tr by (cases d) simp_all
  qed
  then obtain fol' calls where r: "record_flows (packets_to key arrivals) (tcp_follower ch) = Inr (fol', calls)"
    and d: "\<And>d. map call_payload (calls_to d calls) = map (\<lambda>seg. Some (key, d, snd seg)) (?segs d)"
    unfolding ps by blast
  have all: "calls_to False calls = calls"
    unfolding calls_to_def
  proof (rule filter_True, rule ballI)
    fix c
    assume c: "c \<in> set calls"
    have "calls_to True calls = []" using d [of True] by simp
    with c have "call_dir c \<noteq> Some True" by (auto simp: calls_to_def filter_empty_conv)
    moreover have "call_dir c \<noteq> None" using record_flows_data [OF r] c by blast
    ultimately show "call_dir c = Some False" by (cases "call_dir c") auto
  qed
  have pay: "map call_payload calls = map (\<lambda>d. Some (key, False, d)) (snd seg # map snd segs)"
    using d [of False] unfolding all by simp
  have ne: "\<forall>d \<in> set (snd seg # map snd segs). d \<noteq> []"
    using assms(5) contiguous_nonempty unfolding data_stream_def by fastforce
  obtain plain' out where h: "feed (http_listener K L) plain calls = Inr (plain', out)"
    "map call_payload out = map (\<lambda>e. Some (key, False, e))
        (NewRequest (tr_request_id plain) parts
         # map (ReqBodyChunk (tr_request_id plain)) (drop body_start (snd seg) # map snd segs)
         @ [RequestFinished (tr_request_id plain) (length (concat (map snd (seg # segs))))])"
    using http_request_calls [OF pay assms(9,10) ne assms(11-13), of K] assms(14) by auto
  have "\<forall>c \<in> set calls. \<exists>timing to_client data. c = OnData timing key to_client data"
  proof
    fix c
    assume "c \<in> set calls"
    then have "call_payload c \<in> set (map call_payload calls)" by simp
    then obtain b where "call_payload c = Some (key, False, b)" unfolding pay by auto
    then show "\<exists>timing to_client data. c = OnData timing key to_client data" by (cases c) auto
  qed
  from feed_plain [OF this assms(4), of R K L "ch_key_db ch" plain rest] h(1)
  have "feed (chomper_recv R K L (ch_key_db ch)) (recv ch) calls = Inr ((plain', rest), out)"
    by (simp add: assms(8))
  from chomp_frames_decode [where l = "chomper_recv R K L", OF assms(7) r this] h(2) show ?thesis by blast
qed

definition plain_parser :: pktparse where
  "plain_parser =
     \<lparr>parse_ethernet_frame = (\<lambda>b. Some (b, EtherType_IPv4)),
      parse_ipv4_header = (\<lambda>b. Some (b, \<lparr>v4_source_addr = 1, v4_dest_addr = 2, v4_protocol = IPProtocol_TCP\<rparr>)),
      parse_ipv6_header = (\<lambda>b. None),
      parse_tcp_header = (\<lambda>b. case b of [] \<Rightarrow> None | q # r \<Rightarrow>
        Some (r, (example_header (if q = 0 then 4294967294 else ucast q) 0 False True)\<lparr>dest_port := 80\<rparr>))\<rparr>"

definition plain_chomper :: "(bytes, unit, HTTP2Frame list, unit) stack_state EthernetChomper" where
  "plain_chomper = (chomper KeyDB_default)\<lparr>tcp_follower := \<lparr>flows = [http_target \<mapsto> example_flow]\<rparr>\<rparr>"

theorem plain_request_end_to_end_witness:
  "\<exists>ch' out parts. chomp_frames plain_parser (chomper_recv example_rustls example_h2 example_lib)
       [(http_time, [2, 9]), (http_time, [0, 1, 2, 3, 8])] plain_chomper = Inr (ch', out)
     \<and> map call_payload out = map (\<lambda>e. Some (http_target, False, e))
         [NewRequest 0 parts, ReqBodyChunk 0 [8], ReqBodyChunk 0 [9], RequestFinished 0 5]"
proof -
  let ?h = "\<lambda>q. (example_header q 0 False True)\<lparr>dest_port := 80\<rparr>"
  let ?seg = "(?h 4294967294, [1, 2, 3, 8]) :: Segment" and ?segs = "[(?h 2, [9])] :: Segment list"
  let ?arrivals = "[(http_time, ?h 2, [9]), (http_time, ?h 4294967294, [1, 2, 3, 8])]"
  let ?request = "\<lparr>q_method = Some (ascii ''GET''), q_path = Some (ascii ''/''), q_version = Some 1, q_headers = example_head\<rparr>"
  let ?parts = "\<lparr>req_method = ascii ''GET'', req_uri = ascii ''/'', req_version = HTTP_11, req_headers = [(CONTENT_LENGTH, [50])]\<rparr>"
  have s: "data_stream (example_start False) (?seg # ?segs)"
    by (simp add: data_stream_def sequence_number_def example_header_def example_start_def)
  have f: "list_all2 (\<lambda>(timing, packet) (timing', p). timing' = timing \<and> decode_frame plain_parser packet = Some p)
      [(http_time, [2, 9]), (http_time, [0, 1, 2, 3, 8])] (packets_to http_target ?arrivals)"
    by (simp add: packets_to_def decode_frame_def decode_ip_def plain_parser_def example_header_def http_target_def)
  have "\<exists>ch' out. chomp_frames plain_parser (chomper_recv example_rustls example_h2 example_lib)
       [(http_time, [2, 9]), (http_time, [0, 1, 2, 3, 8])] plain_chomper = Inr (ch', out)
     \<and> map call_payload out = map (\<lambda>e. Some (http_target, False, e))
        (NewRequest (tr_request_id (HTTPRequestTracker_new :: (HTTP2Frame list, unit) HTTPRequestTracker)) ?parts
         # map (ReqBodyChunk (tr_request_id (HTTPRequestTracker_new :: (HTTP2Frame list, unit) HTTPRequestTracker)))
             (drop 3 (snd ?seg) # map snd ?segs)
         @ [RequestFinished (tr_request_id (HTTPRequestTracker_new :: (HTTP2Frame list, unit) HTTPRequestTracker))
              (length (concat (map snd (?seg # ?segs))))])"
    by (rule plain_request_end_to_end [OF _ _ example_established _ s _ f,
          where plain = HTTPRequestTracker_new and request = ?request])
      (simp_all add: plain_chomper_def chomper_def http_target_def HTTPRequestTracker_new_def http1_eval)
  then show ?thesis by (auto simp: HTTPRequestTracker_new_def)
qed

section \<open>Reachable states\<close>

text \<open>What every state of the frame consumer satisfies, whatever frames and keys it is given.\<close>

definition chomper_ok :: "('d, 'c, 'k, 'h) stack_state EthernetChomper \<Rightarrow> bool" where
  "chomper_ok ch \<longleftrightarrow> follower_ok (tcp_follower ch) \<and> (case recv ch of (plain, tls, http) \<Rightarrow>
     tracker_ids_ok plain \<and> tracker_ids_ok http)"

definition stack_ok :: "('d, 'c, 'k, 'h) stack_state \<Rightarrow> bool" where
  "stack_ok = (\<lambda>(plain, tls, http). tracker_ids_ok plain \<and> tracker_ids_ok http)"

definition stack_le :: "('d, 'c, 'k, 'h) stack_state \<Rightarrow> ('d, 'c, 'k, 'h) stack_state \<Rightarrow> bool" where
  "stack_le = (\<lambda>(plain, tls, http) (plain', tls', http'). counter_le plain plain' \<and> counter_le http http')"

lemma stack_listener_ok:
  assumes "stack (tls_listener R db) (http_listener K L) (tls, http) c = Inr ((tls', http'), out)" and "tracker_ids_ok http"
  shows "tracker_ids_ok http' \<and> counter_le http http'"
proof -
  obtain calls where "feed (http_listener K L) http calls = Inr (http', out)"
    using assms(1) by (auto simp: stack_def res_simps)
  from http.feed_contract [OF assms(2) this] show ?thesis .
qed

interpretation recv: dispatch_contract "chomper_rules R K L db" stack_ok stack_le for R K L db
proof
  fix m l s c s' out
  assume "(m, l) \<in> set (chomper_rules R K L db)" and "stack_ok s" and "l s c = Inr (s', out)"
  then show "stack_ok s' \<and> stack_le s s'"
    by (cases s; cases s')
      (auto simp: chomper_rules_def dispatcher_add_def on_first_def on_second_def res_simps stack_ok_def stack_le_def
        intro: http.le_refl dest: stack_listener_ok http.step_inv http.step_le)
qed (auto simp: stack_le_def counter_le_def)

inductive chomper_reachable ::
  "pktparse \<Rightarrow> (bytes \<Rightarrow> bytes option) \<Rightarrow> ('d, 'c, 'p, 'v, 'w) rustls \<Rightarrow> ('k, 'h) h2_lib \<Rightarrow> http_lib \<Rightarrow>
   ('d, 'c, 'k, 'h) stack_state EthernetChomper \<Rightarrow> bool"
  for P hex_decode R K L where
  start: "chomper_reachable P hex_decode R K L (chomper db)"
| frame: "chomper_reachable P hex_decode R K L ch \<Longrightarrow>
    (\<And>target tcp data. decode_frame P packet = Some (target, tcp, data) \<Longrightarrow> length data < 2 ^ 32) \<Longrightarrow>
    chomp P (chomper_recv R K L) timing packet ch = Inr (ch', out) \<Longrightarrow> chomper_reachable P hex_decode R K L ch'"
| keys: "chomper_reachable P hex_decode R K L ch \<Longrightarrow> on_keys hex_decode (chomper_recv R K L) dsb ch = Inr (ch', out) \<Longrightarrow>
    chomper_reachable P hex_decode R K L ch'"
| key: "chomper_reachable P hex_decode R K L ch \<Longrightarrow>
    on_key (chomper_recv R K L) cr ty secret (ch\<lparr>ch_key_db := on_secret cr ty secret (ch_key_db ch)\<rparr>) = Inr (ch', out) \<Longrightarrow>
    chomper_reachable P hex_decode R K L ch'"

lemma chomp_ok:
  assumes "chomper_ok ch" and "chomp P (chomper_recv R K L) timing packet ch = Inr (ch', out)"
    and "\<And>target tcp data. decode_frame P packet = Some (target, tcp, data) \<Longrightarrow> length data < 2 ^ 32"
  shows "chomper_ok ch'"
proof (cases "decode_frame P packet")
  case None
  with assms(1,2) show ?thesis by (simp add: chomp_decode receive_def)
next
  case (Some p)
  obtain target tcp data where p: "p = (target, tcp, data)" by (cases p)
  obtain fol calls s where r: "record_flow timing target tcp data (tcp_follower ch) = Inr (fol, calls)"
    and f: "feed (chomper_recv R K L (ch_key_db ch)) (recv ch) calls = Inr (s, out)"
    and ch': "ch' = ch\<lparr>tcp_follower := fol, recv := s\<rparr>"
    using assms(2) by (auto simp: chomp_decode receive_def Some p res_simps)
  have "follower_ok fol"
    using record_flow_total [of "tcp_follower ch" data target tcp timing] r assms(1,3) Some p
    by (auto simp: chomper_ok_def split: if_splits)
  moreover have "stack_ok (recv ch)" using assms(1) by (simp add: chomper_ok_def stack_ok_def)
  then have "stack_ok s" using recv.disp.feed_inv f unfolding chomper_recv_def by blast
  ultimately show ?thesis by (simp add: chomper_ok_def ch' stack_ok_def)
qed

lemma recv_ok:
  assumes "chomper_ok ch" and "feed (chomper_recv R K L db) (recv ch) calls = Inr (s, out)"
  shows "chomper_ok (ch\<lparr>recv := s\<rparr>)"
proof -
  have "stack_ok (recv ch)" using assms(1) by (simp add: chomper_ok_def stack_ok_def)
  then have "stack_ok s" using recv.disp.feed_inv assms(2) unfolding chomper_recv_def by blast
  with assms(1) show ?thesis by (simp add: chomper_ok_def stack_ok_def)
qed

lemma chomper_ok_key_db [simp]: "chomper_ok (ch\<lparr>ch_key_db := db\<rparr>) \<longleftrightarrow> chomper_ok ch"
  by (simp add: chomper_ok_def)

text \<open>
  C16. Every state that the frame consumer reaches from its start, by frames, key logs and single keys in
  any order, is well-formed: the reorder buffers of all connections hold only segments of their
  windows, both HTTP trackers hand out fresh request ids, and so the TCP layer can only panic on a
  frame outside the window of its connection.
\<close>

theorem chomper_reachable_ok:
  assumes "chomper_reachable P hex_decode R K L ch" and "decode_frame P packet = Some (target, tcp, data)"
    and "length data < 2 ^ 32" and "\<not> out_of_window (tcp_follower ch) target tcp"
  shows "chomper_ok ch \<and> (\<exists>fol calls. record_flow timing target tcp data (tcp_follower ch) = Inr (fol, calls)
    \<and> chomp P (chomper_recv R K L) timing packet ch =
        res_bind (feed (chomper_recv R K L (ch_key_db ch)) (recv ch) calls) (\<lambda>(s, out).
          Inr (ch\<lparr>tcp_follower := fol, recv := s\<rparr>, out)))"
proof -
  have ok: "chomper_ok ch"
    using assms(1)
  proof induction
    case (start db)
    show ?case
      by (simp add: chomper_ok_def chomper_def follower_ok_def TcpFollower_default_def tracker_ids_ok_def HTTPRequestTracker_new_def)
  next
    case (frame ch packet timing ch' out)
    from chomp_ok [OF frame.IH frame.hyps(3,2)] show ?case .
  next
    case (keys ch dsb ch' out)
    obtain db secrets where l: "load_key_log hex_decode dsb (ch_key_db ch) = (db, secrets)" by fastforce
    obtain s where s: "feed (chomper_recv R K L db) (recv ch)
        (map OnSideData (map (\<lambda>(cr, ty, secret). NewKeyReceived ty cr secret) secrets)) = Inr (s, out)"
      and ch': "ch' = ch\<lparr>recv := s, ch_key_db := db\<rparr>"
      using keys.hyps(2) by (auto simp: on_keys_def l res_simps)
    from recv_ok [OF keys.IH s] show ?case by (simp add: ch')
  next
    case (key ch cr ty secret ch' out)
    obtain s where s: "chomper_recv R K L (on_secret cr ty secret (ch_key_db ch)) (recv ch)
        (OnSideData (NewKeyReceived ty cr secret)) = Inr (s, out)"
      and ch': "ch' = ch\<lparr>ch_key_db := on_secret cr ty secret (ch_key_db ch), recv := s\<rparr>"
      using key.hyps(2) by (auto simp: on_key_def res_simps)
    from s have "feed (chomper_recv R K L (on_secret cr ty secret (ch_key_db ch))) (recv ch)
        [OnSideData (NewKeyReceived ty cr secret)] = Inr (s, out)" by simp
    from recv_ok [OF key.IH this] show ?case by (simp add: chomper_ok_def ch')
  qed
  then have "follower_ok (tcp_follower ch)" by (simp add: chomper_ok_def)
  from record_flow_total [OF this assms(3), of target tcp timing] assms(4) obtain fol calls where
    "record_flow timing target tcp data (tcp_follower ch) = Inr (fol, calls)" by auto
  with ok show ?thesis by (simp add: chomp_decode assms(2) receive_def)
qed

theorem chomper_reachable_ok_witness:
  "\<exists>fol calls. record_flow http_time http_target ((example_header 2 0 False True)\<lparr>dest_port := 80\<rparr>) [9]
       (tcp_follower (chomper KeyDB_default :: (bytes, unit, HTTP2Frame list, unit) stack_state EthernetChomper)) = Inr (fol, calls)
     \<and> chomper_ok (chomper KeyDB_default :: (bytes, unit, HTTP2Frame list, unit) stack_state EthernetChomper)"
proof -
  let ?ch = "chomper KeyDB_default :: (bytes, unit, HTTP2Frame list, unit) stack_state EthernetChomper"
  let ?tcp = "(example_header 2 0 False True)\<lparr>dest_port := 80\<rparr>"
  have "chomper_reachable plain_parser decode_pairs example_rustls example_h2 example_lib ?ch"
    by (rule chomper_reachable.start)
  moreover have "decode_frame plain_parser [2, 9] = Some (http_target, ?tcp, [9])"
    by (simp add: decode_frame_def decode_ip_def plain_parser_def example_header_def http_target_def)
  moreover have "\<not> out_of_window (tcp_follower ?ch) http_target ?tcp"
    by (simp add: out_of_window_def chomper_def TcpFollower_default_def)
  ultimately show ?thesis
    using chomper_reachable_ok [of plain_parser decode_pairs example_rustls example_h2 example_lib ?ch "[2, 9]"
        http_target ?tcp "[9]" http_time] by auto
qed

text \<open>
  The two HTTP trackers of the stack count request ids on their own, both from 0: a connection to port
  80 and one to port 443 get the same id, although the listener behind them takes ids to be unique.
\<close>

definition short_lib :: http_lib where
  "short_lib = example_lib\<lparr>parse_request := (\<lambda>buf. ParseComplete 1
     \<lparr>q_method = Some (ascii ''GET''), q_path = Some (ascii ''/''), q_version = Some 1, q_headers = [EMPTY_HEADER]\<rparr>)\<rparr>"

lemma tls_data_step:
  "tracker_on_data example_rustls example_keys example_timing example_target False [9] example_ready =
   Some (Inr (example_ready,
     [OnData (example_timing\<lparr>other_times := [TlsConnectionStart \<mapsto> 5]\<rparr>) example_target False [9]]))"
  by (simp add: tls_eval example_hello_def example_ready_def typemap_insert_def)

lemma short_request:
  "http_listener K short_lib HTTPRequestTracker_new (OnData timing target False [b]) =
     Inr (\<lparr>tr_request_id = 1, http_flows = [target \<mapsto> Flow_HTTP1
            ((HTTP1Flow_new 0)\<lparr>server_state := Body, req_remain := 0, req_sent := 1\<rparr>)]\<rparr>,
       map (OnData timing target False)
         [NewRequest 0 \<lparr>req_method = ascii ''GET'', req_uri = ascii ''/'', req_version = HTTP_11, req_headers = []\<rparr>,
          ReqBodyChunk 0 [], RequestFinished 0 1])"
  by (simp add: http_listener_def http_on_data_def http_entry_def HTTPRequestTracker_new_def
      new_request_id_def handle_flow_def http1_handle_request.simps handle_step_def do_server_recv_headers_def
      stream_body_def slice_from_def short_lib_def http1_eval)

theorem request_ids_collide:
  "\<exists>s out parts timing timing'. feed (chomper_recv example_rustls example_h2 short_lib example_keys)
       (HTTPRequestTracker_new, example_ready, HTTPRequestTracker_new)
       [OnData http_time http_target False [1], OnData example_timing example_target False [9]] = Inr (s, out)
     \<and> OnData timing http_target False (NewRequest 0 parts) \<in> set out
     \<and> OnData timing' example_target False (NewRequest 0 parts) \<in> set out"
  by (simp add: recv_port_80 recv_port_443 http_target_def example_target_def on_first_def on_second_def stack_def)
    (auto simp: tls_listener_def tls_data_step [unfolded example_target_def] short_request)

end
