(* ===== verification/Event_Buffer.thy ===== *)
theory Event_Buffer
  imports Clipper_Prelude "HOL-Library.Sublist"
begin

text \<open>
  The event buffer of \<open>crates/libclipper/src/devtools.rs\<close>: a bounded backlog of past events, and a
  broadcast channel for new ones, so that a client that connects late gets the history first.

  The state of the buffer holds the sequence of messages sent on the channel so far, and a receiver
  the number of those it has passed.  What \<open>recv\<close> of tokio's broadcast channel returns is a parameter:
  a function of that sequence and that number.

  The backlog is behind a lock and the channel is not, so \<open>send\<close> and \<open>receiver\<close> each take two steps, between
  which the other one may run: \<open>send\<close> pushes to the backlog and then publishes on the channel, and
  \<open>receiver\<close> measures the backlog and then subscribes.  A run is a sequence of such steps.
\<close>

section \<open>The buffer\<close>

record 'a EventBuffer =
  new_events :: "'a list"
  backlog :: "'a list"
  backlog_capacity :: nat

definition EventBuffer_new :: "nat \<Rightarrow> 'a EventBuffer" where
  "EventBuffer_new capacity = \<lparr>new_events = [], backlog = [], backlog_capacity = capacity\<rparr>"

text \<open>The two steps of \<open>send\<close>: the block that holds the lock, and the channel.\<close>

definition buffer_push :: "'a \<Rightarrow> 'a EventBuffer \<Rightarrow> 'a EventBuffer" where
  "buffer_push msg b =
     (let lock = backlog b @ [msg];
          excess_elements = length lock - backlog_capacity b
      in b\<lparr>backlog := drop excess_elements lock\<rparr>)"

definition buffer_publish :: "'a \<Rightarrow> 'a EventBuffer \<Rightarrow> 'a EventBuffer" where
  "buffer_publish msg b = b\<lparr>new_events := new_events b @ [msg]\<rparr>"

definition buffer_send :: "'a \<Rightarrow> 'a EventBuffer \<Rightarrow> 'a EventBuffer" where
  "buffer_send msg b = buffer_publish msg (buffer_push msg b)"

text \<open>A receiver: the next position in the backlog, the end of that part, the place in the channel.\<close>

record receiver_state =
  rc_pos :: nat
  rc_end :: nat
  rc_channel :: nat

text \<open>\<open>receiver\<close> has the lock only while it reads the length of the backlog; then it subscribes.\<close>

definition receiver_measure :: "'a EventBuffer \<Rightarrow> nat" where
  "receiver_measure b = length (backlog b)"

definition receiver_subscribe :: "nat \<Rightarrow> 'a EventBuffer \<Rightarrow> receiver_state" where
  "receiver_subscribe end_pos b = \<lparr>rc_pos = 0, rc_end = end_pos, rc_channel = length (new_events b)\<rparr>"

text \<open>A message; some messages lost to a slow receiver; no message yet.  Each with the new place.\<close>

datatype 'a channel_result = Received 'a nat | Lagged nat | Pending

type_synonym 'a channel_recv = "'a list \<Rightarrow> nat \<Rightarrow> 'a channel_result"

text \<open>
  One poll of the stream: the item it yields, if any.  The index into the backlog is checked, as in
  the program.  A report of lost messages is skipped, and the channel asked again.
\<close>

datatype 'a stream_item = Yield 'a | Again | Waiting

definition receiver_poll ::
  "'a channel_recv \<Rightarrow> 'a EventBuffer \<Rightarrow> receiver_state \<Rightarrow> (receiver_state \<times> 'a stream_item) res" where
  "receiver_poll chan b r =
     (if rc_pos r < rc_end r then
        (if rc_pos r < length (backlog b)
         then Inr (r\<lparr>rc_pos := rc_pos r + 1\<rparr>, Yield (backlog b ! rc_pos r))
         else Inl SliceOutOfRange)
      else
        (case chan (new_events b) (rc_channel r) of
           Received v n \<Rightarrow> Inr (r\<lparr>rc_channel := n\<rparr>, Yield v)
         | Lagged n \<Rightarrow> Inr (r\<lparr>rc_channel := n\<rparr>, Again)
         | Pending \<Rightarrow> Inr (r, Waiting)))"

section \<open>The backlog\<close>

definition latest :: "nat \<Rightarrow> 'a list \<Rightarrow> 'a list" where
  "latest n xs = drop (length xs - n) xs"

lemma latest_latest: "latest n (latest n xs @ ys) = latest n (xs @ ys)"
proof (cases "length xs \<le> n")
  case False
  let ?k = "length xs - n"
  have "drop ?k xs @ ys = drop ?k (xs @ ys)" by simp
  moreover have "length (drop ?k xs @ ys) - n = length ys" using False by simp
  moreover have "length (xs @ ys) - n = length ys + ?k" using False by simp
  ultimately show ?thesis unfolding latest_def by (metis drop_drop)
qed (simp add: latest_def)

lemma buffer_steps [simp]:
  "backlog (buffer_push m b) = latest (backlog_capacity b) (backlog b @ [m])"
  "new_events (buffer_push m b) = new_events b" "backlog_capacity (buffer_push m b) = backlog_capacity b"
  "backlog (buffer_publish m b) = backlog b"
  "new_events (buffer_publish m b) = new_events b @ [m]" "backlog_capacity (buffer_publish m b) = backlog_capacity b"
  by (simp_all add: buffer_push_def buffer_publish_def latest_def Let_def)

lemma buffer_send_simps [simp]:
  "backlog (buffer_send m b) = latest (backlog_capacity b) (backlog b @ [m])"
  "backlog_capacity (buffer_send m b) = backlog_capacity b" "new_events (buffer_send m b) = new_events b @ [m]"
  by (simp_all add: buffer_send_def)

lemma buffer_sends_events [simp]:
  "new_events (fold buffer_send msgs b) = new_events b @ msgs"
  "backlog_capacity (fold buffer_send msgs b) = backlog_capacity b"
  by (induction msgs arbitrary: b) simp_all

lemma backlog_sends:
  "backlog b = latest (backlog_capacity b) xs \<Longrightarrow>
   backlog (fold buffer_send msgs b) = latest (backlog_capacity b) (xs @ msgs)"
proof (induction msgs arbitrary: b xs)
  case (Cons m msgs)
  have "backlog (buffer_send m b) = latest (backlog_capacity (buffer_send m b)) (xs @ [m])"
    by (simp add: Cons.prems latest_latest)
  from Cons.IH [OF this] show ?case by simp
qed simp

text \<open>
  C32. The backlog of a buffer is the end of what was sent: after any sequence of messages it holds
  exactly the last ones of them, as many as its capacity allows, in order.
\<close>

theorem backlog_is_latest:
  "backlog (fold buffer_send msgs (EventBuffer_new capacity)) = drop (length msgs - capacity) msgs
   \<and> length (backlog (fold buffer_send msgs (EventBuffer_new capacity))) = min capacity (length msgs)"
  using backlog_sends [of "EventBuffer_new capacity" "[]" msgs] by (simp add: EventBuffer_new_def latest_def)

section \<open>A receiver\<close>

text \<open>
  The documented behaviour of the channel for a receiver that is never further behind than a given
  number of messages: it gets every message sent after it subscribed, in order.
\<close>

definition in_order_within :: "nat \<Rightarrow> 'a channel_recv \<Rightarrow> bool" where
  "in_order_within n chan \<longleftrightarrow>
     (\<forall>log k. k \<le> length log \<and> length log - k \<le> n \<longrightarrow>
        chan log k = (if k < length log then Received (log ! k) (k + 1) else Pending))"

text \<open>A receiver that is being created, and one that exists; the steps of senders and of one receiver.\<close>

datatype receiver_phase = NoReceiver | Measured nat | Streaming receiver_state

datatype 'a buffer_op = Push 'a | Publish 'a | Measure | Subscribe | Poll

fun buffer_op_step ::
  "'a channel_recv \<Rightarrow> 'a buffer_op \<Rightarrow> 'a EventBuffer \<times> receiver_phase \<Rightarrow> (('a EventBuffer \<times> receiver_phase) \<times> 'a list) res" where
  "buffer_op_step chan (Push m) (b, ph) = Inr ((buffer_push m b, ph), [])"
| "buffer_op_step chan (Publish m) (b, ph) = Inr ((buffer_publish m b, ph), [])"
| "buffer_op_step chan Measure (b, NoReceiver) = Inr ((b, Measured (receiver_measure b)), [])"
| "buffer_op_step chan Subscribe (b, Measured end_pos) = Inr ((b, Streaming (receiver_subscribe end_pos b)), [])"
| "buffer_op_step chan Poll (b, Streaming r) =
     res_bind (receiver_poll chan b r) (\<lambda>(r, item).
       Inr ((b, Streaming r), case item of Yield v \<Rightarrow> [v] | _ \<Rightarrow> []))"
| "buffer_op_step chan op st = Inr (st, [])"

fun run_buffer ::
  "'a channel_recv \<Rightarrow> 'a buffer_op list \<Rightarrow> 'a EventBuffer \<times> receiver_phase \<Rightarrow> (('a EventBuffer \<times> receiver_phase) \<times> 'a list) res" where
  "run_buffer chan [] st = Inr (st, [])"
| "run_buffer chan (op # ops) st =
     res_bind (buffer_op_step chan op st) (\<lambda>(st, xs).
     res_bind (run_buffer chan ops st) (\<lambda>(st, ys). Inr (st, xs @ ys)))"

definition pushed :: "'a buffer_op list \<Rightarrow> 'a list" where
  "pushed ops = concat (map (\<lambda>op. case op of Push m \<Rightarrow> [m] | _ \<Rightarrow> []) ops)"

definition published :: "'a buffer_op list \<Rightarrow> 'a list" where
  "published ops = concat (map (\<lambda>op. case op of Publish m \<Rightarrow> [m] | _ \<Rightarrow> []) ops)"

lemma pushed_simps [simp]:
  "pushed [] = []" "pushed (op # ops) = (case op of Push m \<Rightarrow> [m] | _ \<Rightarrow> []) @ pushed ops"
  "published [] = []" "published (op # ops) = (case op of Publish m \<Rightarrow> [m] | _ \<Rightarrow> []) @ published ops"
  by (simp_all add: pushed_def published_def)

fun is_send :: "'a buffer_op \<Rightarrow> bool" where
  "is_send (Push m) = True"
| "is_send (Publish m) = True"
| "is_send op = False"

text \<open>
  A receiver keeps up in a run: whenever a message is pushed while the receiver has not read all of its
  part of the backlog, the backlog has room; and whenever it asks the channel, it is at most a given
  number of messages behind.
\<close>

fun reading :: "receiver_phase \<Rightarrow> bool" where
  "reading NoReceiver = False"
| "reading (Measured end_pos) = (0 < end_pos)"
| "reading (Streaming r) = (rc_pos r < rc_end r)"

fun in_time :: "nat \<Rightarrow> 'a buffer_op \<Rightarrow> 'a EventBuffer \<times> receiver_phase \<Rightarrow> bool" where
  "in_time n (Push m) (b, ph) = (reading ph \<longrightarrow> length (backlog b) < backlog_capacity b)"
| "in_time n Poll (b, Streaming r) = (rc_pos r < rc_end r \<or> length (new_events b) - rc_channel r \<le> n)"
| "in_time n op st = True"

fun keeps_up :: "'a channel_recv \<Rightarrow> nat \<Rightarrow> 'a buffer_op list \<Rightarrow> 'a EventBuffer \<times> receiver_phase \<Rightarrow> bool" where
  "keeps_up chan n [] st = True"
| "keeps_up chan n (op # ops) st =
     (in_time n op st \<and> (case buffer_op_step chan op st of Inl p \<Rightarrow> True | Inr (st, xs) \<Rightarrow> keeps_up chan n ops st))"

lemma run_buffer_append:
  "run_buffer chan (xs @ ys) st =
     res_bind (run_buffer chan xs st) (\<lambda>(st, items).
     res_bind (run_buffer chan ys st) (\<lambda>(st, items'). Inr (st, items @ items')))"
proof (induction xs arbitrary: st)
  case Nil
  show ?case by (cases "run_buffer chan ys st") auto
next
  case (Cons op xs)
  show ?case
  proof (cases "buffer_op_step chan op st")
    case (Inr q)
    obtain st1 zs where q: "q = (st1, zs)" by (cases q)
    show ?thesis
    proof (cases "run_buffer chan xs st1")
      case x: (Inr q2)
      obtain st2 items where "q2 = (st2, items)" by (cases q2)
      with x q Inr Cons.IH show ?thesis by (cases "run_buffer chan ys st2") auto
    qed (use q Inr Cons.IH in simp)
  qed simp
qed

lemma keeps_up_append:
  "run_buffer chan xs st = Inr (st', items) \<Longrightarrow>
   keeps_up chan n (xs @ ys) st \<longleftrightarrow> keeps_up chan n xs st \<and> keeps_up chan n ys st'"
  by (induction xs arbitrary: st items) (auto simp: res_simps)

lemma keeps_up_prefix: "keeps_up chan n (xs @ ys) st \<Longrightarrow> keeps_up chan n xs st"
  by (induction xs arbitrary: st) (auto split: sum.splits)

text \<open>
  What is still to come for a receiver: the rest of its part of the backlog and the messages on the
  channel.
\<close>

definition to_come :: "'a EventBuffer \<Rightarrow> receiver_state \<Rightarrow> 'a list" where
  "to_come b r = drop (rc_pos r) (take (rc_end r) (backlog b)) @ drop (rc_channel r) (new_events b)"

definition receiver_ok :: "'a EventBuffer \<Rightarrow> receiver_state \<Rightarrow> bool" where
  "receiver_ok b r \<longleftrightarrow> rc_pos r \<le> rc_end r \<and> (rc_pos r < rc_end r \<longrightarrow> rc_end r \<le> length (backlog b))
     \<and> rc_channel r \<le> length (new_events b)"

lemma receiver_poll_first:
  assumes "receiver_ok b r" and "in_order_within n chan" and "in_time n Poll (b, Streaming r)"
  shows "case to_come b r of
      [] \<Rightarrow> receiver_poll chan b r = Inr (r, Waiting)
    | v # vs \<Rightarrow> \<exists>r'. receiver_poll chan b r = Inr (r', Yield v) \<and> to_come b r' = vs \<and> receiver_ok b r'"
proof (cases "rc_pos r < rc_end r")
  case True
  with assms(1) have "drop (rc_pos r) (take (rc_end r) (backlog b)) =
      backlog b ! rc_pos r # drop (rc_pos r + 1) (take (rc_end r) (backlog b))"
    by (simp add: receiver_ok_def Cons_nth_drop_Suc [symmetric])
  with True assms(1) show ?thesis by (simp add: to_come_def receiver_poll_def receiver_ok_def)
next
  case False
  with assms(1) have e: "rc_pos r = rc_end r" by (simp add: receiver_ok_def)
  have c: "chan (new_events b) (rc_channel r) =
      (if rc_channel r < length (new_events b) then Received (new_events b ! rc_channel r) (rc_channel r + 1) else Pending)"
    using assms False by (simp add: in_order_within_def receiver_ok_def)
  show ?thesis
  proof (cases "rc_channel r < length (new_events b)")
    case True
    then have "drop (rc_channel r) (new_events b) =
        new_events b ! rc_channel r # drop (rc_channel r + 1) (new_events b)"
      by (simp add: Cons_nth_drop_Suc [symmetric])
    with True e c assms(1) show ?thesis by (simp add: to_come_def receiver_poll_def receiver_ok_def)
  qed (use e c in \<open>simp add: to_come_def receiver_poll_def\<close>)
qed

lemma latest_room: "length xs < n \<Longrightarrow> latest n (xs @ [m]) = xs @ [m]"
  by (simp add: latest_def)

lemma receiver_push:
  assumes "receiver_ok b r" and "in_time n (Push m) (b, Streaming r)"
  shows "receiver_ok (buffer_push m b) r \<and> to_come (buffer_push m b) r = to_come b r"
  using assms by (cases "rc_pos r < rc_end r") (auto simp: receiver_ok_def to_come_def latest_room)

lemma receiver_publish:
  "receiver_ok b r \<Longrightarrow> receiver_ok (buffer_publish m b) r \<and> to_come (buffer_publish m b) r = to_come b r @ [m]"
  by (simp add: receiver_ok_def to_come_def)

lemma streaming_in_order:
  assumes "receiver_ok b r" and "in_order_within n chan" and "keeps_up chan n ops (b, Streaming r)"
  shows "\<exists>b' r' items. run_buffer chan ops (b, Streaming r) = Inr ((b', Streaming r'), items) \<and> receiver_ok b' r'
    \<and> to_come b r @ published ops = items @ to_come b' r'"
  using assms(1,3)
proof (induction ops arbitrary: b r)
  case (Cons op ops)
  show ?case
  proof (cases op)
    case (Push m)
    with Cons.prems receiver_push [of b r n m] Cons.IH [of "buffer_push m b" r] show ?thesis by auto
  next
    case (Publish m)
    with Cons.prems receiver_publish [of b r m] Cons.IH [of "buffer_publish m b" r] show ?thesis by auto
  next
    case Poll
    have t: "in_time n Poll (b, Streaming r)" using Cons.prems(2) Poll by simp
    note p = receiver_poll_first [OF Cons.prems(1) assms(2) t]
    show ?thesis
    proof (cases "to_come b r")
      case Nil
      with p Poll Cons.prems Cons.IH [of b r] show ?thesis by auto
    next
      case (Cons v vs)
      with p obtain r1 where "receiver_poll chan b r = Inr (r1, Yield v)" "to_come b r1 = vs" "receiver_ok b r1" by auto
      with Poll Cons.prems Cons Cons.IH [of b r1] show ?thesis by fastforce
    qed
  qed (use Cons.prems Cons.IH [of b r] in auto)
qed simp

lemma streaming_polls:
  assumes "receiver_ok b r" and "in_order_within n chan" and "keeps_up chan n (replicate k Poll) (b, Streaming r)"
  shows "\<exists>r'. run_buffer chan (replicate k Poll) (b, Streaming r) = Inr ((b, Streaming r'), take k (to_come b r))"
  using assms(1,3)
proof (induction k arbitrary: r)
  case (Suc k)
  note p = receiver_poll_first [OF Suc.prems(1) assms(2)]
  show ?case
  proof (cases "to_come b r")
    case Nil
    with p Suc.prems Suc.IH [of r] show ?thesis by auto
  next
    case (Cons v vs)
    with p Suc.prems obtain r1 where "receiver_poll chan b r = Inr (r1, Yield v)" "to_come b r1 = vs" "receiver_ok b r1" by auto
    with Suc.prems Cons Suc.IH [of r1] show ?thesis by auto
  qed
qed simp

text \<open>Sends before the receiver is created, and while it is being created.\<close>

lemma sends_before:
  assumes "list_all is_send ops" and "backlog b = latest (backlog_capacity b) xs"
  shows "\<exists>b'. run_buffer chan ops (b, NoReceiver) = Inr ((b', NoReceiver), []) \<and> backlog_capacity b' = backlog_capacity b
    \<and> backlog b' = latest (backlog_capacity b) (xs @ pushed ops)"
  using assms
proof (induction ops arbitrary: b xs)
  case (Cons op ops)
  show ?case
  proof (cases op)
    case (Push m)
    have "backlog (buffer_push m b) = latest (backlog_capacity b) (xs @ [m])"
      by (simp add: Cons.prems(2) latest_latest)
    with Cons.IH [of "buffer_push m b" "xs @ [m]"] Cons.prems(1) Push show ?thesis by auto
  next
    case (Publish m)
    with Cons.IH [of "buffer_publish m b" xs] Cons.prems show ?thesis by auto
  qed (use Cons.prems in simp_all)
qed simp

lemma sends_during:
  assumes "list_all is_send ops" and "e \<le> length (backlog b)" and "keeps_up chan n ops (b, Measured e)"
  shows "\<exists>b'. run_buffer chan ops (b, Measured e) = Inr ((b', Measured e), []) \<and> (0 < e \<longrightarrow> e \<le> length (backlog b'))
    \<and> take e (backlog b') = take e (backlog b)"
  using assms
proof (induction ops arbitrary: b)
  case (Cons op ops)
  show ?case
  proof (cases op)
    case (Push m)
    show ?thesis
    proof (cases "0 < e")
      case True
      with Cons.prems Push have "length (backlog b) < backlog_capacity b" by simp
      with Cons.IH [of "buffer_push m b"] Cons.prems Push show ?thesis by (auto simp: latest_room)
    qed (use Cons.IH [of "buffer_push m b"] Cons.prems Push in auto)
  next
    case (Publish m)
    with Cons.IH [of "buffer_publish m b"] Cons.prems show ?thesis by auto
  qed (use Cons.prems in simp_all)
qed simp

text \<open>
  C33. A client that connects late gets the history, then what is new: whatever the interleaving of the
  steps of the senders with those of a receiver that keeps up, the receiver yields a prefix of the
  backlog as it was measured (the last messages pushed until then, as many as the capacity allows)
  followed by the messages published after it subscribed, and with enough polls exactly all of these, in
  order.  So a message counts twice if its send pushed it before the measurement and published it after
  the subscription, and is missed if it was both pushed and published between the two.
\<close>

theorem late_client_sees_history:
  fixes chan :: "'a channel_recv" and pre gap post :: "'a buffer_op list" and capacity n :: nat
  assumes "list_all is_send pre" and "list_all is_send gap" and "in_order_within n chan"
  defines "ops \<equiv> pre @ Measure # gap @ Subscribe # post"
    and "history \<equiv> drop (length (pushed pre) - capacity) (pushed pre) @ published post"
    and "start \<equiv> (EventBuffer_new capacity, NoReceiver)"
  assumes "keeps_up chan n (ops @ replicate (length history) Poll) start"
  shows "\<exists>st st' items. run_buffer chan ops start = Inr (st, items) \<and> prefix items history
    \<and> run_buffer chan (ops @ replicate (length history) Poll) start = Inr (st', history)"
proof -
  let ?polls = "replicate (length history) Poll"
  obtain b1 where b1: "run_buffer chan pre start = Inr ((b1, NoReceiver), [])" "backlog b1 = latest capacity (pushed pre)"
    using sends_before [OF assms(1), of "EventBuffer_new capacity" "[]" chan]
    by (auto simp: start_def EventBuffer_new_def latest_def)
  let ?e = "length (backlog b1)"
  have k1: "keeps_up chan n ((gap @ Subscribe # post) @ ?polls) (b1, Measured ?e)"
    using assms(7) b1(1) by (simp add: ops_def keeps_up_append receiver_measure_def)
  then have "keeps_up chan n gap (b1, Measured ?e)" using keeps_up_prefix by auto
  with sends_during [OF assms(2)] obtain b2 where
    b2: "run_buffer chan gap (b1, Measured ?e) = Inr ((b2, Measured ?e), [])" "0 < ?e \<longrightarrow> ?e \<le> length (backlog b2)"
      "take ?e (backlog b2) = backlog b1"
    by (metis order_refl take_all)
  let ?r = "receiver_subscribe ?e b2"
  have ok: "receiver_ok b2 ?r" and t: "to_come b2 ?r @ published post = history"
    using b2(2,3) b1(2) by (simp_all add: receiver_ok_def receiver_subscribe_def to_come_def history_def latest_def)
  have k2: "keeps_up chan n (post @ ?polls) (b2, Streaming ?r)"
    using k1 b2(1) by (simp add: keeps_up_append)
  then have "keeps_up chan n post (b2, Streaming ?r)" by (rule keeps_up_prefix)
  from streaming_in_order [OF ok assms(3) this] obtain b3 r3 items where
    r3: "run_buffer chan post (b2, Streaming ?r) = Inr ((b3, Streaming r3), items)" "receiver_ok b3 r3"
      "history = items @ to_come b3 r3"
    unfolding t by blast
  have k3: "keeps_up chan n ?polls (b3, Streaming r3)" using k2 r3(1) by (simp add: keeps_up_append)
  have ops: "run_buffer chan ops start = Inr ((b3, Streaming r3), items)"
    using b1(1) b2(1) r3(1) by (simp add: ops_def run_buffer_append receiver_measure_def)
  have "take (length history) (to_come b3 r3) = to_come b3 r3" using r3(3) by simp
  with streaming_polls [OF r3(2) assms(3) k3] obtain r4 where
    "run_buffer chan ?polls (b3, Streaming r3) = Inr ((b3, Streaming r4), to_come b3 r3)" by auto
  with ops r3(3) have "run_buffer chan (ops @ ?polls) start = Inr ((b3, Streaming r4), history)"
    by (simp add: run_buffer_append)
  with ops r3(3) show ?thesis by (auto simp: prefix_def)
qed

definition full_channel :: "'a channel_recv" where
  "full_channel log k = (if k < length log then Received (log ! k) (k + 1) else Pending)"

lemmas buffer_eval = EventBuffer_new_def receiver_measure_def receiver_subscribe_def receiver_poll_def full_channel_def latest_def

theorem late_client_sees_history_witness:
  "\<exists>st. run_buffer full_channel
       [Push 1, Publish 1, Push 2, Publish 2, Measure, Subscribe, Poll, Push 3, Poll, Publish 3, Poll, Push 4, Publish 4,
        Poll, Poll, Poll, Poll]
       (EventBuffer_new 3, NoReceiver) = Inr (st, [1, 2, 3, 4 :: nat])"
proof -
  let ?pre = "[Push 1, Publish 1, Push 2, Publish 2 :: nat buffer_op]"
    and ?post = "[Poll, Push 3, Poll, Publish 3, Poll, Push 4, Publish 4 :: nat buffer_op]"
  have c: "in_order_within 1 full_channel" by (simp add: in_order_within_def full_channel_def)
  have h: "drop (length (pushed ?pre) - 3) (pushed ?pre) @ published ?post = [1, 2, 3, 4]" by simp
  have l: "length [1, 2, 3, 4 :: nat] = 4" by simp
  have s: "list_all is_send ?pre" "list_all is_send ([] :: nat buffer_op list)" by simp_all
  have k: "keeps_up full_channel 1 ((?pre @ Measure # [] @ Subscribe # ?post) @ replicate 4 Poll) (EventBuffer_new 3, NoReceiver)"
    by (simp add: buffer_eval numeral_eq_Suc)
  from late_client_sees_history [OF s c, where capacity = 3 and post = ?post, unfolded h l, OF k] show ?thesis by (auto simp: numeral_eq_Suc)
qed

text \<open>
  A message sent between the two steps of \<open>receiver\<close> is missed; one whose send is between its two
  steps while a receiver is created is yielded twice.
\<close>

theorem creation_misses_event:
  "\<exists>st. run_buffer full_channel [Push 1, Publish 1, Measure, Push 2, Publish 2, Subscribe, Poll, Poll, Poll]
     (EventBuffer_new 4, NoReceiver) = Inr (st, [1 :: nat])"
  by (simp add: buffer_eval)

theorem creation_repeats_event:
  "\<exists>st. run_buffer full_channel [Push 1, Measure, Subscribe, Publish 1, Poll, Poll, Poll]
     (EventBuffer_new 4, NoReceiver) = Inr (st, [1, 1 :: nat])"
  by (simp add: buffer_eval)

text \<open>
  When the backlog is full, a message sent while a receiver reads it shifts the remaining ones: the
  receiver skips one event and later gets another one twice.
\<close>

theorem full_backlog_skips:
  "\<exists>st. run_buffer full_channel
     [Push 1, Publish 1, Push 2, Publish 2, Measure, Subscribe, Poll, Push 3, Publish 3, Poll, Poll]
     (EventBuffer_new 2, NoReceiver) = Inr (st, [1, 3, 3 :: nat])"
  by (simp add: buffer_eval)

end
