(* ===== verification/Utf8.thy ===== *)
theory Utf8
  imports Clipper_Prelude
begin

text \<open>
  UTF-8 as the standard library checks it: \<open>str::from_utf8\<close>, \<open>String::from_utf8\<close> and
  \<open>String::from_utf8_lossy\<close>, which \<open>crates/libclipper/src/devtools.rs\<close> uses to put headers and bodies
  into protocol messages.

  \<open>utf8_step\<close> reads one character or one maximal invalid part from the front of a byte string, as the
  iterator over \<open>Utf8Chunk\<close> does.
\<close>

datatype utf8_item = Utf8_Char nat | Utf8_Invalid nat

definition is_continuation :: "u8 \<Rightarrow> bool" where
  "is_continuation b \<longleftrightarrow> 0x80 \<le> b \<and> b \<le> 0xBF"

text \<open>The second byte allowed after a first byte of a sequence of three or four.\<close>

definition second_of_three :: "u8 \<Rightarrow> u8 \<Rightarrow> bool" where
  "second_of_three a b \<longleftrightarrow>
     (if a = 0xE0 then 0xA0 \<le> b \<and> b \<le> 0xBF
      else if a = 0xED then 0x80 \<le> b \<and> b \<le> 0x9F
      else is_continuation b)"

definition second_of_four :: "u8 \<Rightarrow> u8 \<Rightarrow> bool" where
  "second_of_four a b \<longleftrightarrow>
     (if a = 0xF0 then 0x90 \<le> b \<and> b \<le> 0xBF
      else if a = 0xF4 then 0x80 \<le> b \<and> b \<le> 0x8F
      else is_continuation b)"

definition utf8_width :: "u8 \<Rightarrow> nat" where
  "utf8_width a =
     (if a < 0x80 then 1
      else if 0xC2 \<le> a \<and> a \<le> 0xDF then 2
      else if 0xE0 \<le> a \<and> a \<le> 0xEF then 3
      else if 0xF0 \<le> a \<and> a \<le> 0xF4 then 4
      else 0)"

definition byte_at :: "nat \<Rightarrow> bytes \<Rightarrow> u8" where
  "byte_at i bs = (if i < length bs then bs ! i else 0)"

text \<open>Bytes past the end read as 0, which continues no sequence.\<close>

definition utf8_step :: "u8 \<Rightarrow> bytes \<Rightarrow> utf8_item" where
  "utf8_step a rest =
     (let w = utf8_width a
      in if w = 1 then Utf8_Char 1
         else if w = 2 then
           (if is_continuation (byte_at 0 rest) then Utf8_Char 2 else Utf8_Invalid 1)
         else if w = 3 then
           (if \<not> second_of_three a (byte_at 0 rest) then Utf8_Invalid 1
            else if \<not> is_continuation (byte_at 1 rest) then Utf8_Invalid 2
            else Utf8_Char 3)
         else if w = 4 then
           (if \<not> second_of_four a (byte_at 0 rest) then Utf8_Invalid 1
            else if \<not> is_continuation (byte_at 1 rest) then Utf8_Invalid 2
            else if \<not> is_continuation (byte_at 2 rest) then Utf8_Invalid 3
            else Utf8_Char 4)
         else Utf8_Invalid 1)"

lemma utf8_step_size:
  "utf8_step a rest = Utf8_Char n \<Longrightarrow> 0 < n" "utf8_step a rest = Utf8_Invalid n \<Longrightarrow> 0 < n"
  by (auto simp: utf8_step_def Let_def split: if_splits)

function utf8_valid :: "bytes \<Rightarrow> bool" where
  "utf8_valid [] = True"
| "utf8_valid (a # rest) =
     (case utf8_step a rest of Utf8_Char n \<Rightarrow> utf8_valid (drop n (a # rest)) | Utf8_Invalid n \<Rightarrow> False)"
  by pat_completeness auto
termination by (relation "measure length") (auto dest: utf8_step_size)

definition from_utf8 :: "bytes \<Rightarrow> bytes option" where
  "from_utf8 bs = (if utf8_valid bs then Some bs else None)"

definition REPLACEMENT :: bytes where
  "REPLACEMENT = [0xEF, 0xBF, 0xBD]"

function from_utf8_lossy :: "bytes \<Rightarrow> bytes" where
  "from_utf8_lossy [] = []"
| "from_utf8_lossy (a # rest) =
     (case utf8_step a rest of
        Utf8_Char n \<Rightarrow> take n (a # rest) @ from_utf8_lossy (drop n (a # rest))
      | Utf8_Invalid n \<Rightarrow> REPLACEMENT @ from_utf8_lossy (drop n (a # rest)))"
  by pat_completeness auto
termination by (relation "measure length") (auto dest: utf8_step_size)

lemma lossy_valid: "utf8_valid bs \<Longrightarrow> from_utf8_lossy bs = bs"
proof (induction bs rule: utf8_valid.induct)
  case (2 a rest)
  show ?case
  proof (cases "utf8_step a rest")
    case (Utf8_Char n)
    with 2 have "from_utf8_lossy (drop n (a # rest)) = drop n (a # rest)" by simp
    with Utf8_Char show ?thesis by (simp del: take_Cons drop_Cons)
  qed (use 2 in simp)
qed simp

lemma byte_at_zero [simp]:
  "\<not> is_continuation 0" "\<not> second_of_three a 0" "\<not> second_of_four a 0"
  by (simp_all add: is_continuation_def second_of_three_def second_of_four_def)

lemma byte_at_take: "i < m \<Longrightarrow> m \<le> length rest \<Longrightarrow> byte_at i (take m rest @ ys) = byte_at i rest"
  by (simp add: byte_at_def nth_append)

lemma byte_at_within:
  "is_continuation (byte_at i rest) \<Longrightarrow> i < length rest"
  "second_of_three a (byte_at i rest) \<Longrightarrow> i < length rest"
  "second_of_four a (byte_at i rest) \<Longrightarrow> i < length rest"
  by (auto simp: byte_at_def split: if_splits)

text \<open>The lengths of a character by the width of its first byte.\<close>

lemma utf8_step_Char_iff:
  "utf8_step a rest = Utf8_Char n \<longleftrightarrow> n = utf8_width a \<and>
     (n = 1
      \<or> n = 2 \<and> is_continuation (byte_at 0 rest)
      \<or> n = 3 \<and> second_of_three a (byte_at 0 rest) \<and> is_continuation (byte_at 1 rest)
      \<or> n = 4 \<and> second_of_four a (byte_at 0 rest) \<and> is_continuation (byte_at 1 rest) \<and> is_continuation (byte_at 2 rest))"
  unfolding utf8_step_def Let_def by (simp split: if_split) linarith

lemma utf8_step_char:
  assumes "utf8_step a rest = Utf8_Char n"
  shows "n \<le> Suc (length rest) \<and> utf8_step a (take (n - 1) rest @ ys) = Utf8_Char n"
proof -
  have l: "n \<le> Suc (length rest)"
    using assms byte_at_within(1) [of 0 rest] byte_at_within(1) [of 1 rest] byte_at_within(1) [of 2 rest]
    unfolding utf8_step_Char_iff by linarith
  then have t: "byte_at i (take (n - 1) rest @ ys) = byte_at i rest" if "i < n - 1" for i
    using that by (simp add: byte_at_take)
  have "utf8_step a (take (n - 1) rest @ ys) = Utf8_Char n"
    using assms t [of 0] t [of 1] t [of 2] unfolding utf8_step_Char_iff by (elim conjE disjE) simp_all
  with l show ?thesis by simp
qed

lemma utf8_valid_char: "utf8_step a rest = Utf8_Char n \<Longrightarrow> utf8_valid (take n (a # rest) @ ys) = utf8_valid ys"
proof -
  assume s: "utf8_step a rest = Utf8_Char n"
  obtain m where n: "n = Suc m" using utf8_step_size(1) [OF s] by (cases n) auto
  from utf8_step_char [OF s, of ys] n have "m \<le> length rest" "utf8_step a (take m rest @ ys) = Utf8_Char (Suc m)"
    by simp_all
  then show ?thesis by (simp add: n)
qed

lemma utf8_valid_replacement: "utf8_valid (REPLACEMENT @ ys) = utf8_valid ys"
  by (simp add: REPLACEMENT_def utf8_step_def utf8_width_def second_of_three_def is_continuation_def byte_at_def)

lemma lossy_is_valid: "utf8_valid (from_utf8_lossy bs)"
proof (induction bs rule: from_utf8_lossy.induct)
  case (2 a rest)
  show ?case
  proof (cases "utf8_step a rest")
    case (Utf8_Char n)
    with 2 have "utf8_valid (from_utf8_lossy (drop n (a # rest)))" by simp
    then have "utf8_valid (take n (a # rest) @ from_utf8_lossy (drop n (a # rest)))"
      using utf8_valid_char [OF Utf8_Char] by simp
    with Utf8_Char show ?thesis by (simp del: take_Cons drop_Cons)
  next
    case (Utf8_Invalid n)
    with 2 have "utf8_valid (from_utf8_lossy (drop n (a # rest)))" by simp
    with Utf8_Invalid show ?thesis by (simp add: utf8_valid_replacement del: utf8_valid.simps)
  qed
qed simp

end
