(* ===== verification/Devtools.thy ===== *)
theory Devtools
  imports Event_Buffer Utf8 Http1 Complex_Main
begin

text \<open>
  The devtools side of \<open>crates/libclipper/src/devtools.rs\<close>: the listener that turns HTTP events into
  protocol events and collects bodies, and the state of a connected devtools client.

  JSON values and the serialisers of \<open>serde_json\<close>, the base64 encoder and the header conversion of
  the crate \<open>http\<close> are fields of the record \<open>cdp_lib\<close>.  A message of the protocol is modelled before
  its serialisation; fields that the code always sets to \<open>None\<close> are left out.  Floating point numbers
  are real numbers with the rounding of \<open>f64\<close> as a parameter.
\<close>

section \<open>Events and bodies\<close>

datatype DevtoolsProtoEventInner =
    Dev_NewRequest RequestId "bytes option" RequestParts
  | Dev_NewResponse RequestId ResponseParts
  | Dev_RespBodyChunk RequestId bytes
  | Dev_ResponseFinished RequestId nat

record DevtoolsProtoEvent =
  ev_timing :: TimingInfo
  ev_inner :: DevtoolsProtoEventInner

type_synonym ResponseBodyTracker = "(RequestId, bytes) btree"

definition on_chunk :: "RequestId \<Rightarrow> bytes \<Rightarrow> ResponseBodyTracker \<Rightarrow> ResponseBodyTracker" where
  "on_chunk request_id chunk t =
     bt_insert request_id ((case bt_get t request_id of Some v \<Rightarrow> v | None \<Rightarrow> []) @ chunk) t"

definition body_data :: "ResponseBodyTracker \<Rightarrow> RequestId \<Rightarrow> bytes option" where
  "body_data t request_id = bt_get t request_id"

section \<open>The listener\<close>

record DevtoolsListener =
  dl_send :: "DevtoolsProtoEvent EventBuffer"
  dl_response_bodies :: ResponseBodyTracker
  requests_inflight :: "(RequestId, RequestParts \<times> bytes option) btree"

definition make_devtools_listener :: DevtoolsListener where
  "make_devtools_listener = \<lparr>dl_send = EventBuffer_new 1000, dl_response_bodies = [], requests_inflight = []\<rparr>"

definition send_event_inner :: "TimingInfo \<Rightarrow> DevtoolsProtoEventInner \<Rightarrow> DevtoolsListener \<Rightarrow> DevtoolsListener" where
  "send_event_inner timing inner l = l\<lparr>dl_send := buffer_send \<lparr>ev_timing = timing, ev_inner = inner\<rparr> (dl_send l)\<rparr>"

definition devtools_on_data :: "TimingInfo \<Rightarrow> HTTPStreamEvent \<Rightarrow> DevtoolsListener \<Rightarrow> DevtoolsListener res" where
  "devtools_on_data timing data l =
     (case data of
        NewRequest i parts \<Rightarrow>
          Inr (case bt_get (requests_inflight l) i of
                 Some e \<Rightarrow> l
               | None \<Rightarrow> l\<lparr>requests_inflight := bt_insert i (parts, None) (requests_inflight l)\<rparr>)
      | ReqBodyChunk i chunk \<Rightarrow>
          res_bind (expect (bt_get (requests_inflight l) i)) (\<lambda>(parts, body).
            (let body = (case body of None \<Rightarrow> [] | Some d \<Rightarrow> d)
             in Inr (l\<lparr>requests_inflight := bt_insert i (parts, Some (body @ chunk)) (requests_inflight l)\<rparr>)))
      | RequestFinished i len \<Rightarrow>
          res_bind (expect (bt_get (requests_inflight l) i)) (\<lambda>(parts, body).
            Inr (send_event_inner timing (Dev_NewRequest i body parts)
                   (l\<lparr>requests_inflight := bt_remove i (requests_inflight l)\<rparr>)))
      | NewResponse i parts \<Rightarrow> Inr (send_event_inner timing (Dev_NewResponse i parts) l)
      | RespBodyChunk i chunk \<Rightarrow>
          Inr (send_event_inner timing (Dev_RespBodyChunk i chunk)
                 (l\<lparr>dl_response_bodies := on_chunk i chunk (dl_response_bodies l)\<rparr>))
      | ResponseFinished i len \<Rightarrow> Inr (send_event_inner timing (Dev_ResponseFinished i len) l))"

definition devtools_listener :: "(DevtoolsListener, HTTPStreamEvent, HTTPStreamEvent) listener" where
  "devtools_listener l call =
     (case call of
        OnData timing target to_client data \<Rightarrow> res_bind (devtools_on_data timing data l) (\<lambda>l. Inr (l, []))
      | OnSideData d \<Rightarrow> Inr (l, []))"

section \<open>Protocol messages\<close>

function fmt_decimal :: "nat \<Rightarrow> bytes" where
  "fmt_decimal n = (if n < 10 then [word_of_nat (48 + n)] else fmt_decimal (n div 10) @ [word_of_nat (48 + n mod 10)])"
  by pat_completeness auto
termination by (relation "measure id") auto

declare fmt_decimal.simps [simp del]

definition id_to_string :: "RequestId \<Rightarrow> bytes" where
  "id_to_string i = fmt_decimal (unat i)"

definition nanos_to_seconds :: "(real \<Rightarrow> real) \<Rightarrow> Nanos \<Rightarrow> real" where
  "nanos_to_seconds rnd nanos = rnd (rnd (real (unat nanos)) / 1000000000)"

definition to_cdp_headers :: "HeaderMap \<Rightarrow> bytes \<rightharpoonup> bytes" where
  "to_cdp_headers hm =
     fold (\<lambda>(name, val) m. case from_utf8 val of Some s \<Rightarrow> m(name \<mapsto> s) | None \<Rightarrow> m) hm Map.empty"

fun to_chrome_proto_version :: "Version \<Rightarrow> bytes option" where
  "to_chrome_proto_version HTTP_09 = Some (ascii ''http/0.9'')"
| "to_chrome_proto_version HTTP_10 = Some (ascii ''http/1.0'')"
| "to_chrome_proto_version HTTP_11 = Some (ascii ''http/1.1'')"
| "to_chrome_proto_version HTTP_2 = Some (ascii ''h2'')"
| "to_chrome_proto_version HTTP_3 = Some (ascii ''h3'')"

record network_Request =
  nr_url :: bytes
  nr_method :: bytes
  nr_headers :: "bytes \<rightharpoonup> bytes"
  nr_post_data :: "bytes option"
  nr_has_post_data :: "bool option"
  nr_initial_priority :: bytes
  nr_referrer_policy :: bytes

record network_Response =
  ns_url :: bytes
  ns_status :: int
  ns_status_text :: bytes
  ns_headers :: "bytes \<rightharpoonup> bytes"
  ns_mime_type :: bytes
  ns_connection_reused :: bool
  ns_connection_id :: real
  ns_encoded_data_length :: real
  ns_protocol :: "bytes option"
  ns_security_state :: bytes

text \<open>The events, with the request id and the time stamp first.\<close>

datatype cdp_event =
    EventRequestWillBeSent bytes real bytes bytes network_Request real bytes bool
  | EventResponseReceived bytes real bytes bytes network_Response bool
  | EventDataReceived bytes real int int
  | EventLoadingFinished bytes real real

datatype 'j cdp_message =
    Message_Response nat "'j option" "(int \<times> bytes) option"
  | Message_Event cdp_event

record 'j MethodCall =
  mc_id :: nat
  mc_method :: bytes
  mc_params :: 'j

record 'j cdp_lib =
  get_body_params :: "'j \<Rightarrow> bytes option"
  body_returns :: "bytes \<Rightarrow> bool \<Rightarrow> 'j option"
  empty_object :: 'j
  base64_encode :: "bytes \<Rightarrow> bytes"
  value_to_str :: "bytes \<Rightarrow> bytes option"
  f64_round :: "real \<Rightarrow> real"

definition dispatch_event :: "'j cdp_lib \<Rightarrow> DevtoolsProtoEvent \<Rightarrow> 'j cdp_message" where
  "dispatch_event J msg =
     (let seconds = nanos_to_seconds (f64_round J) (received_on_wire (ev_timing msg)); timestamp = seconds
      in Message_Event (case ev_inner msg of
           Dev_NewRequest i body parts \<Rightarrow>
             EventRequestWillBeSent (id_to_string i) timestamp [] []
               \<lparr>nr_url = req_uri parts, nr_method = req_method parts, nr_headers = to_cdp_headers (req_headers parts),
                nr_post_data = map_option from_utf8_lossy body, nr_has_post_data = map_option (\<lambda>_. True) body,
                nr_initial_priority = ascii ''Medium'', nr_referrer_policy = ascii ''origin''\<rparr>
               seconds (ascii ''other'') False
         | Dev_NewResponse i parts \<Rightarrow>
             EventResponseReceived (id_to_string i) timestamp [] (ascii ''Other'')
               \<lparr>ns_url = [], ns_status = uint (resp_status parts), ns_status_text = [],
                ns_headers = to_cdp_headers (resp_headers parts),
                ns_mime_type = (case Option.bind (map_of (resp_headers parts) (ascii ''content-type'')) (value_to_str J) of
                                  Some s \<Rightarrow> s | None \<Rightarrow> []),
                ns_connection_reused = False, ns_connection_id = 0, ns_encoded_data_length = 0,
                ns_protocol = to_chrome_proto_version (resp_version parts), ns_security_state = ascii ''neutral''\<rparr>
               False
         | Dev_RespBodyChunk i data \<Rightarrow>
             EventDataReceived (id_to_string i) timestamp (int (length data)) (int (length data))
         | Dev_ResponseFinished i len \<Rightarrow>
             EventLoadingFinished (id_to_string i) timestamp (f64_round J (real len))))"

section \<open>A client\<close>

record ClientState =
  network_enabled :: bool

datatype conn_error = BadParams | BadRequestId | SerializeFailed

definition METHOD_NOT_FOUND :: int where
  "METHOD_NOT_FOUND = - 32601"

definition handle_msg ::
  "'j cdp_lib \<Rightarrow> ResponseBodyTracker \<Rightarrow> 'j MethodCall \<Rightarrow> ClientState \<Rightarrow> ClientState \<times> (conn_error + 'j cdp_message)" where
  "handle_msg J response_bodies msg st =
     (if mc_method msg = ascii ''Network.enable'' then
        (st\<lparr>network_enabled := True\<rparr>, Inr (Message_Response (mc_id msg) (Some (empty_object J)) None))
      else if mc_method msg = ascii ''Network.getResponseBody'' then
        (st, case get_body_params J (mc_params msg) of
               None \<Rightarrow> Inl BadParams
             | Some request_id \<Rightarrow>
                 (case from_str_radix_10 request_id of
                    None \<Rightarrow> Inl BadRequestId
                  | Some i \<Rightarrow>
                      (case map_option (\<lambda>data. case from_utf8 data of
                                Some r \<Rightarrow> (False, r)
                              | None \<Rightarrow> (True, base64_encode J data)) (body_data response_bodies (word_of_nat i)) of
                         Some (base64_encoded, body) \<Rightarrow>
                           (case body_returns J body base64_encoded of
                              None \<Rightarrow> Inl SerializeFailed
                            | Some v \<Rightarrow> Inr (Message_Response (mc_id msg) (Some v) None))
                       | None \<Rightarrow> Inr (Message_Response (mc_id msg) None (Some (- 1, ascii ''data not available''))))))
      else (st, Inr (Message_Response (mc_id msg) None (Some (METHOD_NOT_FOUND, ascii ''method not found'')))))"

text \<open>What \<open>select!\<close> may take next in \<open>handle_conn\<close>; the response bodies are read when a message arrives.\<close>

datatype 'j conn_input =
    Cancelled
  | Incoming ResponseBodyTracker "'j MethodCall"
  | IncomingError
  | IncomingClosed
  | Outgoing DevtoolsProtoEvent
  | OutgoingClosed

record 'j conn_state =
  cn_client :: ClientState
  cn_open :: bool
  cn_sent :: "'j cdp_message list"

definition conn_new :: "'j conn_state" where
  "conn_new = \<lparr>cn_client = \<lparr>network_enabled = False\<rparr>, cn_open = True, cn_sent = []\<rparr>"

text \<open>One round of the loop; \<open>None\<close> when the branch is disabled or the loop has ended.\<close>

definition conn_step :: "'j cdp_lib \<Rightarrow> 'j conn_input \<Rightarrow> 'j conn_state \<Rightarrow> 'j conn_state option" where
  "conn_step J inp c =
     (if \<not> cn_open c then None
      else case inp of
             Cancelled \<Rightarrow> Some (c\<lparr>cn_open := False\<rparr>)
           | Incoming bodies msg \<Rightarrow>
               (case handle_msg J bodies msg (cn_client c) of
                  (st, Inl e) \<Rightarrow> Some (c\<lparr>cn_client := st, cn_open := False\<rparr>)
                | (st, Inr reply) \<Rightarrow> Some (c\<lparr>cn_client := st, cn_sent := cn_sent c @ [reply]\<rparr>))
           | IncomingError \<Rightarrow> Some (c\<lparr>cn_open := False\<rparr>)
           | IncomingClosed \<Rightarrow> Some (c\<lparr>cn_open := False\<rparr>)
           | Outgoing e \<Rightarrow>
               (if network_enabled (cn_client c) then Some (c\<lparr>cn_sent := cn_sent c @ [dispatch_event J e]\<rparr>) else None)
           | OutgoingClosed \<Rightarrow>
               (if network_enabled (cn_client c) then Some (c\<lparr>cn_open := False\<rparr>) else None))"

fun handle_conn :: "'j cdp_lib \<Rightarrow> 'j conn_input list \<Rightarrow> 'j conn_state \<Rightarrow> 'j conn_state option" where
  "handle_conn J [] c = Some c"
| "handle_conn J (inp # inps) c = Option.bind (conn_step J inp c) (handle_conn J inps)"

section \<open>What the listener collects\<close>

definition listener_ok :: "DevtoolsListener \<Rightarrow> bool" where
  "listener_ok l \<longleftrightarrow> bt_ok (requests_inflight l) \<and> bt_ok (dl_response_bodies l)"

fun events_in :: "HTTPStreamEvent listener_call list \<Rightarrow> HTTPStreamEvent list" where
  "events_in [] = []"
| "events_in (OnData timing target to_client ev # calls) = ev # events_in calls"
| "events_in (OnSideData d # calls) = events_in calls"

definition is_request_of :: "RequestId \<Rightarrow> HTTPStreamEvent \<Rightarrow> bool" where
  "is_request_of i ev \<longleftrightarrow> event_id ev = i \<and>
     (case ev of NewRequest j parts \<Rightarrow> True | ReqBodyChunk j chunk \<Rightarrow> True | RequestFinished j len \<Rightarrow> True | _ \<Rightarrow> False)"

fun announces :: "RequestId \<Rightarrow> DevtoolsProtoEventInner \<Rightarrow> bool" where
  "announces i (Dev_NewRequest j body parts) = (j = i)"
| "announces i ev = False"

text \<open>The part of the listener that belongs to one request, and what an event of that request does to it.\<close>

definition request_view ::
  "RequestId \<Rightarrow> DevtoolsListener \<Rightarrow> (RequestParts \<times> bytes option) option \<times> DevtoolsProtoEventInner list" where
  "request_view i l =
     (bt_get (requests_inflight l) i, filter (announces i) (map ev_inner (new_events (dl_send l))))"

fun view_step ::
  "RequestId \<Rightarrow> HTTPStreamEvent \<Rightarrow> (RequestParts \<times> bytes option) option \<times> DevtoolsProtoEventInner list \<Rightarrow>
   (RequestParts \<times> bytes option) option \<times> DevtoolsProtoEventInner list" where
  "view_step i (NewRequest j parts) (None, evs) = (Some (parts, None), evs)"
| "view_step i (ReqBodyChunk j chunk) (Some (parts, body), evs) =
     (Some (parts, Some ((case body of None \<Rightarrow> [] | Some d \<Rightarrow> d) @ chunk)), evs)"
| "view_step i (RequestFinished j len) (Some (parts, body), evs) = (None, evs @ [Dev_NewRequest i body parts])"
| "view_step i ev v = v"

lemma listener_ok_new: "listener_ok make_devtools_listener"
  by (simp add: listener_ok_def make_devtools_listener_def)

lemma devtools_on_data_ok:
  "listener_ok l \<Longrightarrow> devtools_on_data timing ev l = Inr l' \<Longrightarrow> listener_ok l'"
  by (cases ev) (auto simp: devtools_on_data_def listener_ok_def send_event_inner_def on_chunk_def bt_ok_insert bt_ok_remove
      res_simps Let_def split: option.splits)

lemma devtools_on_data_view:
  assumes "listener_ok l" and "devtools_on_data timing ev l = Inr l'"
  shows "request_view i l' = (if is_request_of i ev then view_step i ev (request_view i l) else request_view i l)"
proof (cases ev)
  case (ReqBodyChunk j chunk)
  with assms(2) obtain parts body where b: "bt_get (requests_inflight l) j = Some (parts, body)"
    by (cases "bt_get (requests_inflight l) j") (auto simp: devtools_on_data_def)
  with assms(2) ReqBodyChunk have "l' = l\<lparr>requests_inflight :=
      bt_insert j (parts, Some ((case body of None \<Rightarrow> [] | Some d \<Rightarrow> d) @ chunk)) (requests_inflight l)\<rparr>"
    by (simp add: devtools_on_data_def)
  with assms(1) b ReqBodyChunk show ?thesis
    by (auto simp: request_view_def is_request_of_def listener_ok_def bt_get_insert)
qed (use assms in \<open>auto simp: devtools_on_data_def listener_ok_def send_event_inner_def request_view_def is_request_of_def
      bt_get_insert bt_get_remove res_simps expect_def split: option.splits\<close>)

lemma devtools_listener_simps [simp]:
  "devtools_listener l (OnData timing target c ev) = res_bind (devtools_on_data timing ev l) (\<lambda>l. Inr (l, []))"
  "devtools_listener l (OnSideData d) = Inr (l, [])"
  by (simp_all add: devtools_listener_def)

lemma feed_devtools:
  assumes "listener_ok l" and "feed devtools_listener l calls = Inr (l', out)"
  shows "request_view i l' = fold (view_step i) (filter (is_request_of i) (events_in calls)) (request_view i l)
    \<and> listener_ok l'"
  using assms
proof (induction calls arbitrary: l out)
  case (Cons c calls)
  show ?case
  proof (cases c)
    case (OnData timing target to_client ev)
    with Cons.prems(2) obtain l1 out1 where l1: "devtools_on_data timing ev l = Inr l1"
      and r: "feed devtools_listener l1 calls = Inr (l', out1)"
      by (auto simp: res_simps)
    from devtools_on_data_ok [OF Cons.prems(1) l1] have ok: "listener_ok l1" .
    from Cons.IH [OF ok r] devtools_on_data_view [OF Cons.prems(1) l1, of i] OnData show ?thesis by simp
  next
    case (OnSideData d)
    with Cons.prems(2) have "feed devtools_listener l calls = Inr (l', out)"
      by (auto simp: res_simps)
    from Cons.IH [OF Cons.prems(1) this] OnSideData show ?thesis by simp
  qed
qed simp

lemma view_chunks:
  "fold (view_step i) (map (ReqBodyChunk i) cs) (Some (parts, body), evs) =
     (Some (parts, if cs = [] then body else Some ((case body of None \<Rightarrow> [] | Some d \<Rightarrow> d) @ concat cs)), evs)"
  by (induction cs arbitrary: body) (auto split: option.splits)

text \<open>
  C17. A request is announced to the devtools client once, with its whole body: if among the events of
  any run of the listener those of a request are its head, some body chunks and its end, then exactly
  one protocol event announces it, with its parts and the concatenation of the chunks, however the
  events of other requests interleave.
\<close>

theorem devtools_request_announced:
  assumes "feed devtools_listener make_devtools_listener calls = Inr (l, out)"
    and "filter (is_request_of i) (events_in calls) =
           NewRequest i parts # map (ReqBodyChunk i) cs @ [RequestFinished i len]"
  shows "filter (announces i) (map ev_inner (new_events (dl_send l))) =
     [Dev_NewRequest i (if cs = [] then None else Some (concat cs)) parts]"
proof -
  have "request_view i make_devtools_listener = (None, [])"
    by (simp add: request_view_def make_devtools_listener_def EventBuffer_new_def)
  with feed_devtools [OF listener_ok_new assms(1), of i] assms(2)
  have "request_view i l = (None, [Dev_NewRequest i (if cs = [] then None else Some (concat cs)) parts])"
    by (simp add: view_chunks)
  then show ?thesis by (simp add: request_view_def)
qed

definition example_parts :: RequestParts where
  "example_parts = \<lparr>req_method = ascii ''GET'', req_uri = ascii ''/'', req_version = HTTP_11, req_headers = []\<rparr>"

definition example_devtools_calls :: "HTTPStreamEvent listener_call list" where
  "example_devtools_calls =
     map (OnData \<lparr>received_on_wire = 5, other_times = Map.empty\<rparr> (IPTarget_V4 40000 80 1 2) False)
       [NewRequest 0 example_parts, NewRequest 1 example_parts, ReqBodyChunk 0 [7], RequestFinished 1 4,
        ReqBodyChunk 0 [8, 9], RequestFinished 0 7, RespBodyChunk 0 [104], RespBodyChunk 1 [255], RespBodyChunk 0 [105]]"

lemmas devtools_eval = example_devtools_calls_def example_parts_def devtools_on_data_def send_event_inner_def
  make_devtools_listener_def EventBuffer_new_def buffer_send_def on_chunk_def bt_get_def Let_def

theorem devtools_request_announced_witness:
  "\<exists>l out. feed devtools_listener make_devtools_listener example_devtools_calls = Inr (l, out)
     \<and> filter (announces 0) (map ev_inner (new_events (dl_send l))) = [Dev_NewRequest 0 (Some [7, 8, 9]) example_parts]"
proof -
  obtain l out where r: "feed devtools_listener make_devtools_listener example_devtools_calls = Inr (l, out)"
    by (simp add: devtools_eval)
  have "filter (is_request_of 0) (events_in example_devtools_calls) =
      NewRequest 0 example_parts # map (ReqBodyChunk 0) [[7], [8, 9]] @ [RequestFinished 0 7]"
    by (simp add: example_devtools_calls_def is_request_of_def)
  from devtools_request_announced [OF r this] r show ?thesis by simp
qed

text \<open>Two requests in flight under one id: the end of the second one panics.\<close>

theorem shared_id_panics:
  "feed devtools_listener make_devtools_listener
     (map (OnData timing target c) [NewRequest i p, NewRequest i q, RequestFinished i m, RequestFinished i n]) = Inl ExpectFailed"
  by (simp add: devtools_eval expect_def)

section \<open>Decimal numbers\<close>

lemma digit_byte: "d < 10 \<Longrightarrow> unat (word_of_nat (48 + d) :: u8) = 48 + d"
  unfolding unat_of_nat by simp

lemma fmt_decimal_digits: "fmt_decimal n \<noteq> [] \<and> list_all (\<lambda>c. 48 \<le> unat c \<and> unat c \<le> 57) (fmt_decimal n)"
proof (induction n rule: fmt_decimal.induct)
  case (1 n)
  show ?case
    using 1 digit_byte [of n] digit_byte [of "n mod 10"]
    by (subst (1 2) fmt_decimal.simps) (simp del: of_nat_add, linarith)
qed

lemma fmt_decimal_value: "foldl (\<lambda>a c. 10 * a + (unat c - 48)) 0 (fmt_decimal n) = n"
proof (induction n rule: fmt_decimal.induct)
  case (1 n)
  show ?case
    using 1 digit_byte [of n] digit_byte [of "n mod 10"]
    by (subst fmt_decimal.simps) (simp del: of_nat_add)
qed

lemma from_str_radix_10_fmt: "n < 2 ^ 64 \<Longrightarrow> from_str_radix_10 (fmt_decimal n) = Some n"
proof -
  assume n: "n < 2 ^ 64"
  obtain c cs where c: "fmt_decimal n = c # cs" using fmt_decimal_digits [of n] by (cases "fmt_decimal n") auto
  then have "c \<noteq> 43" using fmt_decimal_digits [of n] by auto
  then have "(case fmt_decimal n of c # cs \<Rightarrow> if c = 43 \<and> cs \<noteq> [] then cs else fmt_decimal n | [] \<Rightarrow> []) = fmt_decimal n"
    by (simp add: c)
  with n fmt_decimal_digits [of n] fmt_decimal_value [of n] show ?thesis
    unfolding from_str_radix_10_def Let_def by simp
qed

lemma id_round_trip: "map_option word_of_nat (from_str_radix_10 (id_to_string i)) = Some i"
proof -
  have "unat i < 2 ^ 64" using unsigned_less [of i, where 'a = nat] by simp
  from from_str_radix_10_fmt [OF this] show ?thesis by (simp add: id_to_string_def)
qed

section \<open>Response bodies\<close>

definition response_chunks :: "RequestId \<Rightarrow> HTTPStreamEvent list \<Rightarrow> bytes list" where
  "response_chunks i evs = concat (map (\<lambda>ev. case ev of RespBodyChunk j c \<Rightarrow> if j = i then [c] else [] | _ \<Rightarrow> []) evs)"

lemma response_chunks_simps [simp]:
  "response_chunks i [] = []"
  "response_chunks i (ev # evs) =
     (case ev of RespBodyChunk j c \<Rightarrow> if j = i then [c] else [] | _ \<Rightarrow> []) @ response_chunks i evs"
  by (simp_all add: response_chunks_def)

definition extend_body :: "bytes option \<Rightarrow> bytes list \<Rightarrow> bytes option" where
  "extend_body b cs = (if cs = [] then b else Some ((case b of None \<Rightarrow> [] | Some d \<Rightarrow> d) @ concat cs))"

lemma devtools_on_data_body:
  assumes "listener_ok l" and "devtools_on_data timing ev l = Inr l'"
  shows "body_data (dl_response_bodies l') i = extend_body (body_data (dl_response_bodies l) i)
     (case ev of RespBodyChunk j c \<Rightarrow> if j = i then [c] else [] | _ \<Rightarrow> [])"
  using assms
  by (cases ev) (auto simp: devtools_on_data_def listener_ok_def send_event_inner_def on_chunk_def body_data_def extend_body_def
      bt_get_insert res_simps expect_def split: option.splits)

lemma extend_body_append: "extend_body b (xs @ ys) = extend_body (extend_body b xs) ys"
  by (auto simp: extend_body_def)

lemma feed_devtools_body:
  assumes "listener_ok l" and "feed devtools_listener l calls = Inr (l', out)"
  shows "body_data (dl_response_bodies l') i =
     extend_body (body_data (dl_response_bodies l) i) (response_chunks i (events_in calls))"
  using assms
proof (induction calls arbitrary: l out)
  case Nil
  then show ?case by (simp add: extend_body_def)
next
  case (Cons c calls)
  show ?case
  proof (cases c)
    case (OnData timing target to_client ev)
    with Cons.prems(2) obtain l1 out1 where l1: "devtools_on_data timing ev l = Inr l1"
      and r: "feed devtools_listener l1 calls = Inr (l', out1)"
      by (auto simp: res_simps)
    from Cons.IH [OF devtools_on_data_ok [OF Cons.prems(1) l1] r] devtools_on_data_body [OF Cons.prems(1) l1, of i] OnData
    show ?thesis by (simp add: extend_body_append)
  next
    case (OnSideData d)
    with Cons.prems(2) have "feed devtools_listener l calls = Inr (l', out)" by (auto simp: res_simps)
    from Cons.IH [OF Cons.prems(1) this] OnSideData show ?thesis by simp
  qed
qed

text \<open>
  C18. The body of a response can be fetched under the id that the protocol events carry: a request for
  the body with the decimal id of a response is answered with all body chunks the listener has seen
  for that id, in order and however they interleave with other events, as text if they are valid
  UTF-8 and in base64 otherwise, and with an error if there were none.
\<close>

theorem response_body_served:
  assumes "feed devtools_listener make_devtools_listener calls = Inr (l, out)"
    and "mc_method msg = ascii ''Network.getResponseBody''" and "get_body_params J (mc_params msg) = Some (id_to_string i)"
  defines "cs \<equiv> response_chunks i (events_in calls)"
  shows "handle_msg J (dl_response_bodies l) msg st =
    (st, if cs = [] then Inr (Message_Response (mc_id msg) None (Some (- 1, ascii ''data not available'')))
         else case (if utf8_valid (concat cs) then body_returns J (concat cs) False
                    else body_returns J (base64_encode J (concat cs)) True) of
                None \<Rightarrow> Inl SerializeFailed
              | Some v \<Rightarrow> Inr (Message_Response (mc_id msg) (Some v) None))"
proof -
  obtain n where n: "from_str_radix_10 (id_to_string i) = Some n" "word_of_nat n = i"
    using id_round_trip [of i] by auto
  have "body_data (dl_response_bodies l) i = (if cs = [] then None else Some (concat cs))"
    using feed_devtools_body [OF listener_ok_new assms(1), of i]
    by (simp add: extend_body_def cs_def make_devtools_listener_def body_data_def)
  moreover have "mc_method msg \<noteq> ascii ''Network.enable''" using assms(2) by (simp add: ascii_def)
  ultimately show ?thesis
    using assms(2,3) n by (simp add: handle_msg_def from_utf8_def)
qed

definition example_cdp :: "bytes cdp_lib" where
  "example_cdp = \<lparr>get_body_params = Some, body_returns = (\<lambda>b e. Some b), empty_object = [], base64_encode = id,
     value_to_str = Some, f64_round = id\<rparr>"

theorem response_body_served_witness:
  "\<exists>l out. feed devtools_listener make_devtools_listener example_devtools_calls = Inr (l, out)
     \<and> handle_msg example_cdp (dl_response_bodies l)
         \<lparr>mc_id = 3, mc_method = ascii ''Network.getResponseBody'', mc_params = id_to_string 0\<rparr> \<lparr>network_enabled = True\<rparr> =
       (\<lparr>network_enabled = True\<rparr>, Inr (Message_Response 3 (Some [104, 105]) None))"
proof -
  let ?msg = "\<lparr>mc_id = 3, mc_method = ascii ''Network.getResponseBody'', mc_params = id_to_string 0\<rparr>"
  obtain l out where r: "feed devtools_listener make_devtools_listener example_devtools_calls = Inr (l, out)"
    by (simp add: devtools_eval)
  have cs: "concat (response_chunks 0 (events_in example_devtools_calls)) = [104, 105]"
    "response_chunks 0 (events_in example_devtools_calls) \<noteq> []"
    by (simp_all add: example_devtools_calls_def)
  have v: "utf8_valid [104, 105]" by (simp add: utf8_step_def utf8_width_def)
  show ?thesis
    using response_body_served [OF r, of ?msg example_cdp 0 "\<lparr>network_enabled = True\<rparr>"] r cs v
    by (simp add: example_cdp_def)
qed

section \<open>A connection\<close>

definition response_ids :: "'j cdp_message list \<Rightarrow> nat list" where
  "response_ids ms = concat (map (\<lambda>m. case m of Message_Response i r e \<Rightarrow> [i] | Message_Event e \<Rightarrow> []) ms)"

definition call_ids :: "'j conn_input list \<Rightarrow> nat list" where
  "call_ids inps = concat (map (\<lambda>inp. case inp of Incoming bodies m \<Rightarrow> [mc_id m] | _ \<Rightarrow> []) inps)"

definition events_sent :: "'j cdp_message list \<Rightarrow> cdp_event list" where
  "events_sent ms = concat (map (\<lambda>m. case m of Message_Event e \<Rightarrow> [e] | Message_Response i r e \<Rightarrow> []) ms)"

text \<open>The events taken from the buffer, and what a message about one of them has to say.\<close>

definition events_taken :: "'j conn_input list \<Rightarrow> DevtoolsProtoEventInner list" where
  "events_taken inps = concat (map (\<lambda>inp. case inp of Outgoing e \<Rightarrow> [ev_inner e] | _ \<Rightarrow> []) inps)"

fun describes :: "cdp_event \<Rightarrow> DevtoolsProtoEventInner \<Rightarrow> bool" where
  "describes (EventRequestWillBeSent rid t loader url req wall typ b) (Dev_NewRequest i body parts) \<longleftrightarrow>
     rid = id_to_string i \<and> nr_url req = req_uri parts \<and> nr_method req = req_method parts
     \<and> nr_post_data req = map_option from_utf8_lossy body"
| "describes (EventResponseReceived rid t loader typ resp b) (Dev_NewResponse i parts) \<longleftrightarrow>
     rid = id_to_string i \<and> ns_status resp = uint (resp_status parts)"
| "describes (EventDataReceived rid t n m) (Dev_RespBodyChunk i chunk) \<longleftrightarrow> rid = id_to_string i \<and> n = int (length chunk)"
| "describes (EventLoadingFinished rid t n) (Dev_ResponseFinished i len) \<longleftrightarrow> rid = id_to_string i"
| "describes e ev \<longleftrightarrow> False"

definition enables :: "'j conn_input \<Rightarrow> bool" where
  "enables inp = (case inp of Incoming bodies m \<Rightarrow> mc_method m = ascii ''Network.enable'' | _ \<Rightarrow> False)"

lemma message_list_simps [simp]:
  "response_ids [] = []" "response_ids (xs @ ys) = response_ids xs @ response_ids ys"
  "response_ids [Message_Response i r e] = [i]" "response_ids [dispatch_event J ev] = []"
  "events_sent [] = []" "events_sent (xs @ ys) = events_sent xs @ events_sent ys"
  "events_sent [Message_Response i r e] = []"
  "call_ids [] = []" "call_ids (inp # inps) = (case inp of Incoming bodies m \<Rightarrow> [mc_id m] | _ \<Rightarrow> []) @ call_ids inps"
  by (simp_all add: response_ids_def events_sent_def call_ids_def dispatch_event_def Let_def)

lemma events_taken_simps [simp]:
  "events_taken [] = []" "events_taken (xs @ ys) = events_taken xs @ events_taken ys"
  "events_taken (inp # inps) = (case inp of Outgoing e \<Rightarrow> [ev_inner e] | _ \<Rightarrow> []) @ events_taken inps"
  by (simp_all add: events_taken_def)

lemma dispatch_event_describes: "list_all2 describes (events_sent [dispatch_event J e]) [ev_inner e]"
  by (cases "ev_inner e") (simp_all add: dispatch_event_def events_sent_def Let_def)

lemma handle_msg_reply:
  "handle_msg J bodies msg st = (st', Inr reply) \<Longrightarrow> \<exists>r e. reply = Message_Response (mc_id msg) r e"
  by (auto simp: handle_msg_def split: if_splits option.splits)

lemma handle_msg_enabled:
  "handle_msg J bodies msg st = (st', r) \<Longrightarrow>
   network_enabled st' \<longleftrightarrow> network_enabled st \<or> mc_method msg = ascii ''Network.enable''"
  by (auto simp: handle_msg_def split: if_splits option.splits)

text \<open>What one round does to the messages sent, for a connection that stays open.\<close>

lemma conn_step_sent:
  assumes "conn_step J inp c = Some c'" and "cn_open c'"
  shows "\<exists>ms. cn_sent c' = cn_sent c @ ms \<and> response_ids ms = call_ids [inp]
    \<and> list_all2 describes (events_sent ms) (events_taken [inp])
    \<and> (network_enabled (cn_client c') \<longleftrightarrow> network_enabled (cn_client c) \<or> enables inp)"
proof (cases inp)
  case (Incoming bodies msg)
  obtain st r where h: "handle_msg J bodies msg (cn_client c) = (st, r)" by fastforce
  with assms Incoming obtain reply where reply: "r = Inr reply" "c' = c\<lparr>cn_client := st, cn_sent := cn_sent c @ [reply]\<rparr>"
    by (cases r) (auto simp: conn_step_def split: if_splits)
  with handle_msg_reply [of J bodies msg "cn_client c" st reply] handle_msg_enabled [OF h] h Incoming show ?thesis
    by (auto simp: enables_def)
next
  case (Outgoing e)
  with assms have "c' = c\<lparr>cn_sent := cn_sent c @ [dispatch_event J e]\<rparr>" by (auto simp: conn_step_def split: if_splits)
  with Outgoing dispatch_event_describes [of J e] show ?thesis by (auto simp: enables_def)
qed (use assms in \<open>auto simp: conn_step_def split: if_splits\<close>)

lemma handle_conn_open: "handle_conn J inps c = Some c' \<Longrightarrow> cn_open c' \<Longrightarrow> cn_open c"
  by (induction inps arbitrary: c) (auto simp: conn_step_def bind_eq_Some_conv split: if_splits)

lemma handle_conn_sent:
  assumes "handle_conn J inps c = Some c'" and "cn_open c'"
  shows "\<exists>ms. cn_sent c' = cn_sent c @ ms \<and> response_ids ms = call_ids inps
    \<and> list_all2 describes (events_sent ms) (events_taken inps)
    \<and> (network_enabled (cn_client c') \<longleftrightarrow> network_enabled (cn_client c) \<or> list_ex enables inps)"
  using assms(1)
proof (induction inps arbitrary: c)
  case (Cons inp inps)
  from Cons.prems obtain c1 where c1: "conn_step J inp c = Some c1" and r: "handle_conn J inps c1 = Some c'"
    by (auto simp: bind_eq_Some_conv)
  from conn_step_sent [OF c1 handle_conn_open [OF r assms(2)]] obtain ms where
    ms: "cn_sent c1 = cn_sent c @ ms" "response_ids ms = call_ids [inp]" "list_all2 describes (events_sent ms) (events_taken [inp])"
      "network_enabled (cn_client c1) \<longleftrightarrow> network_enabled (cn_client c) \<or> enables inp" by blast
  from Cons.IH [OF r] obtain ns where
    ns: "cn_sent c' = cn_sent c1 @ ns" "response_ids ns = call_ids inps" "list_all2 describes (events_sent ns) (events_taken inps)"
      "network_enabled (cn_client c') \<longleftrightarrow> network_enabled (cn_client c1) \<or> list_ex enables inps" by blast
  have "list_all2 describes (events_sent (ms @ ns)) (events_taken [inp] @ events_taken inps)"
    using list_all2_appendI [OF ms(3) ns(3)] by simp
  with ms ns show ?case by (intro exI [of _ "ms @ ns"]) auto
qed simp

lemma not_enabled_no_events:
  assumes "handle_conn J inps c = Some c'" and "cn_open c'" and "\<not> network_enabled (cn_client c)" and "\<not> list_ex enables inps"
  shows "events_taken inps = []"
  using assms(1,3,4)
proof (induction inps arbitrary: c)
  case (Cons inp inps)
  from Cons.prems(1) obtain c1 where c1: "conn_step J inp c = Some c1" and r: "handle_conn J inps c1 = Some c'"
    by (auto simp: bind_eq_Some_conv)
  have "\<not> network_enabled (cn_client c1)"
    using conn_step_sent [OF c1 handle_conn_open [OF r assms(2)]] Cons.prems(2,3) by auto
  with Cons.IH [OF r] Cons.prems(3) have "events_taken inps = []" by simp
  moreover have "inp \<noteq> Outgoing e" for e using c1 Cons.prems(2) by (auto simp: conn_step_def split: if_splits)
  ultimately show ?case by (cases inp) auto
qed simp

lemma handle_conn_append: "handle_conn J (xs @ ys) c = Option.bind (handle_conn J xs c) (handle_conn J ys)"
proof (induction xs arbitrary: c)
  case (Cons x xs)
  then show ?case by (cases "conn_step J x c") simp_all
qed simp

lemma handle_conn_events:
  "cn_open c \<Longrightarrow> network_enabled (cn_client c) \<Longrightarrow>
   handle_conn J (map Outgoing es) c = Some (c\<lparr>cn_sent := cn_sent c @ map (dispatch_event J) es\<rparr>)"
  by (induction es arbitrary: c) (simp_all add: conn_step_def)

text \<open>
  C31. On a devtools connection that stays open, the responses sent are exactly the answers to the calls
  received, one for each call, with its id and in order.  Once the client has called
  \<open>Network.enable\<close>, every event the buffer offers is sent: any sequence of further events is taken,
  and the events sent on the connection then describe, one by one and in order, all events taken.  Until
  that call no event is taken from the buffer.
\<close>

theorem conn_answers_every_call:
  assumes "handle_conn J inps conn_new = Some c" and "cn_open c"
  shows "response_ids (cn_sent c) = call_ids inps
    \<and> (if list_ex enables inps
       then \<forall>es. \<exists>c'. handle_conn J (inps @ map Outgoing es) conn_new = Some c' \<and> cn_open c'
              \<and> list_all2 describes (events_sent (cn_sent c')) (events_taken inps @ map ev_inner es)
       else events_sent (cn_sent c) = [] \<and> (\<forall>e. handle_conn J (inps @ [Outgoing e]) conn_new = None))"
proof (cases "list_ex enables inps")
  case True
  from handle_conn_sent [OF assms] True have c: "response_ids (cn_sent c) = call_ids inps" "network_enabled (cn_client c)"
    by (auto simp: conn_new_def)
  have "\<exists>c'. handle_conn J (inps @ map Outgoing es) conn_new = Some c' \<and> cn_open c'
      \<and> list_all2 describes (events_sent (cn_sent c')) (events_taken inps @ map ev_inner es)" for es
  proof -
    let ?c = "c\<lparr>cn_sent := cn_sent c @ map (dispatch_event J) es\<rparr>"
    have r: "handle_conn J (inps @ map Outgoing es) conn_new = Some ?c"
      using assms handle_conn_events [OF assms(2) c(2)] by (simp add: handle_conn_append)
    have t: "events_taken (map Outgoing es) = map ev_inner es" by (induction es) simp_all
    have "list_all2 describes (events_sent (cn_sent ?c)) (events_taken inps @ map ev_inner es)"
      using handle_conn_sent [OF r] assms(2) by (auto simp: conn_new_def t)
    with r assms(2) show ?thesis by auto
  qed
  with c True show ?thesis by simp
next
  case False
  from handle_conn_sent [OF assms] False obtain ms where ms: "cn_sent c = ms" "response_ids ms = call_ids inps"
      "list_all2 describes (events_sent ms) (events_taken inps)" "\<not> network_enabled (cn_client c)"
    by (auto simp: conn_new_def)
  have "events_taken inps = []" by (rule not_enabled_no_events [OF assms _ False]) (simp add: conn_new_def)
  with ms have "events_sent (cn_sent c) = []" by simp
  moreover have "handle_conn J (inps @ [Outgoing e]) conn_new = None" for e
    using assms ms(4) by (simp add: handle_conn_append conn_step_def)
  ultimately show ?thesis using ms(1,2) False by simp
qed

theorem conn_answers_every_call_witness:
  "\<exists>c c' c''. handle_conn example_cdp [Incoming [] \<lparr>mc_id = 2, mc_method = ascii ''x'', mc_params = []\<rparr>] conn_new = Some c
     \<and> response_ids (cn_sent c) = [2]
     \<and> handle_conn example_cdp [Incoming [] \<lparr>mc_id = 1, mc_method = ascii ''Network.enable'', mc_params = []\<rparr>] conn_new = Some c'
     \<and> handle_conn example_cdp ([Incoming [] \<lparr>mc_id = 1, mc_method = ascii ''Network.enable'', mc_params = []\<rparr>]
          @ map Outgoing [\<lparr>ev_timing = \<lparr>received_on_wire = 5, other_times = Map.empty\<rparr>, ev_inner = Dev_ResponseFinished 7 2\<rparr>])
          conn_new = Some c''
     \<and> list_all2 describes (events_sent (cn_sent c'')) [Dev_ResponseFinished 7 2]"
proof -
  let ?x = "[Incoming [] \<lparr>mc_id = 2, mc_method = ascii ''x'', mc_params = [] :: bytes\<rparr>]"
  let ?enable = "[Incoming [] \<lparr>mc_id = 1, mc_method = ascii ''Network.enable'', mc_params = [] :: bytes\<rparr>]"
  let ?e = "\<lparr>ev_timing = \<lparr>received_on_wire = 5, other_times = Map.empty\<rparr>, ev_inner = Dev_ResponseFinished 7 2\<rparr>"
  obtain c where c: "handle_conn example_cdp ?x conn_new = Some c" "cn_open c"
    by (simp add: conn_step_def handle_msg_def conn_new_def ascii_def)
  obtain c' where c': "handle_conn example_cdp ?enable conn_new = Some c'" "cn_open c'"
    by (simp add: conn_step_def handle_msg_def conn_new_def ascii_def)
  have "list_ex enables ?enable" by (simp add: enables_def)
  note en = conn_answers_every_call [OF c', THEN conjunct2, unfolded if_P [OF this]]
  from en [THEN spec, of "[?e]"] obtain c'' where
    c'': "handle_conn example_cdp (?enable @ map Outgoing [?e]) conn_new = Some c'' \<and> cn_open c''
      \<and> list_all2 describes (events_sent (cn_sent c'')) (events_taken ?enable @ map ev_inner [?e])"
    by (rule exE)
  have t: "events_taken ?enable @ map ev_inner [?e] = [Dev_ResponseFinished 7 2]" "call_ids ?x = [2]" by simp_all
  show ?thesis
    by (intro exI [of _ c] exI [of _ c'] exI [of _ c''] conjI c(1) c'(1) c'' [THEN conjunct1]
        c'' [THEN conjunct2, THEN conjunct2, unfolded t(1)]
        conn_answers_every_call [OF c, THEN conjunct1, unfolded t(2)])
qed

end
