(* ===== verification/Anon_Packets.thy ===== *)
theory Anon_Packets
  imports Listener_Stack
begin

text \<open>
  The addresses of the packet anonymiser \<open>crates/anon_packets/src/lib.rs\<close>: memoised remapping, the scope
  of an address and a random address in a scope.

  A CIDR range is the pair of its first address and its network length; the membership test of the
  crate \<open>cidr\<close> and the random number generator are parameters.
\<close>

section \<open>Memoised remapping\<close>

record ('a, 'g) Mapper =
  mappings :: "'a \<rightharpoonup> 'a"
  downstream :: 'g

definition Mapper_new :: "'g \<Rightarrow> ('a, 'g) Mapper" where
  "Mapper_new g = \<lparr>mappings = Map.empty, downstream = g\<rparr>"

type_synonym ('a, 'g) remapping = "'g \<Rightarrow> 'a \<Rightarrow> ('g \<times> 'a option) res"

text \<open>The loop of \<open>Mapper::remap\<close>, with the number of rounds left.\<close>

primrec remap_loop :: "('a, 'g) remapping \<Rightarrow> nat \<Rightarrow> 'a \<Rightarrow> ('a, 'g) Mapper \<Rightarrow> (('a, 'g) Mapper \<times> 'a option) res" where
  "remap_loop down 0 inp m = Inr (m, None)"
| "remap_loop down (Suc n) inp m =
     res_bind (down (downstream m) inp) (\<lambda>(g, r).
       (let m = m\<lparr>downstream := g\<rparr>
        in case r of
             Some new \<Rightarrow>
               (if mappings m new \<noteq> None then remap_loop down n inp m
                else Inr (m\<lparr>mappings := (mappings m)(inp \<mapsto> new)\<rparr>, Some new))
           | None \<Rightarrow> Inr (m, None)))"

definition mapper_remap :: "('a, 'g) remapping \<Rightarrow> 'a \<Rightarrow> ('a, 'g) Mapper \<Rightarrow> (('a, 'g) Mapper \<times> 'a option) res" where
  "mapper_remap down inp m =
     (case mappings m inp of
        Some v \<Rightarrow> Inr (m, Some v)
      | None \<Rightarrow> remap_loop down 1000 inp m)"

section \<open>Ranges and scopes\<close>

type_synonym Ipv4Cidr = "u32 \<times> nat"
type_synonym Ipv6Cidr = "u128 \<times> nat"

record 'g anon_lib =
  v4_contains :: "Ipv4Cidr \<Rightarrow> u32 \<Rightarrow> bool"
  v6_contains :: "Ipv6Cidr \<Rightarrow> u128 \<Rightarrow> bool"
  gen_u8 :: "'g \<Rightarrow> 'g \<times> u8"
  gen_u32 :: "'g \<Rightarrow> 'g \<times> u32"
  gen_u128 :: "'g \<Rightarrow> 'g \<times> u128"
  choose_index :: "nat \<Rightarrow> 'g \<Rightarrow> 'g \<times> nat"

definition ipv4 :: "u8 \<Rightarrow> u8 \<Rightarrow> u8 \<Rightarrow> u8 \<Rightarrow> u32" where
  "ipv4 a b c d = push_bit 24 (ucast a) OR push_bit 16 (ucast b) OR push_bit 8 (ucast c) OR ucast d"

definition cidrv4 :: "u8 \<times> u8 \<times> u8 \<times> u8 \<Rightarrow> nat \<Rightarrow> Ipv4Cidr" where
  "cidrv4 = (\<lambda>(a, b, c, d) pfx. (ipv4 a b c d, pfx))"

definition addr_part :: "u8 \<Rightarrow> u128 \<Rightarrow> u16" where
  "addr_part start addr = ucast (drop_bit (128 - unat start * 16) addr AND 0xffff)"

text \<open>\<open>Ipv6Addr::new\<close>: the address with the given eight groups.\<close>

definition ipv6 :: "u16 \<Rightarrow> u16 \<Rightarrow> u16 \<Rightarrow> u16 \<Rightarrow> u16 \<Rightarrow> u16 \<Rightarrow> u16 \<Rightarrow> u16 \<Rightarrow> u128" where
  "ipv6 a b c d e f g h =
     push_bit 112 (ucast a) OR push_bit 96 (ucast b) OR push_bit 80 (ucast c) OR push_bit 64 (ucast d) OR
     push_bit 48 (ucast e) OR push_bit 32 (ucast f) OR push_bit 16 (ucast g) OR ucast h"

definition ipv6addr_from_u128 :: "u128 \<Rightarrow> u128" where
  "ipv6addr_from_u128 addr =
     ipv6 (addr_part 1 addr) (addr_part 2 addr) (addr_part 3 addr) (addr_part 4 addr)
       (addr_part 5 addr) (addr_part 6 addr) (addr_part 7 addr) (addr_part 8 addr)"

definition cidrv6 :: "u128 \<Rightarrow> nat \<Rightarrow> Ipv6Cidr" where
  "cidrv6 addr pfx = (ipv6addr_from_u128 addr, pfx)"

definition EXAMPLE_RANGES_V4 :: "Ipv4Cidr list" where
  "EXAMPLE_RANGES_V4 = [cidrv4 (192, 0, 2, 0) 24, cidrv4 (198, 51, 100, 0) 24, cidrv4 (203, 0, 113, 0) 24]"

definition PRIVATE_RANGES_V4 :: "Ipv4Cidr list" where
  "PRIVATE_RANGES_V4 = [cidrv4 (192, 168, 0, 0) 16, cidrv4 (172, 16, 0, 0) 12, cidrv4 (10, 0, 0, 0) 8]"

definition MULTICAST_RANGE_V4 :: Ipv4Cidr where
  "MULTICAST_RANGE_V4 = cidrv4 (224, 0, 0, 0) 4"

definition LINK_LOCAL_RANGE_V4 :: Ipv4Cidr where
  "LINK_LOCAL_RANGE_V4 = cidrv4 (169, 254, 0, 0) 16"

definition LOOPBACK_RANGE_V4 :: Ipv4Cidr where
  "LOOPBACK_RANGE_V4 = cidrv4 (127, 0, 0, 0) 8"

definition EXAMPLE_RANGE_V6 :: Ipv6Cidr where
  "EXAMPLE_RANGE_V6 = cidrv6 0x20010db8000000000000000000000000 32"

definition PRIVATE_RANGE_V6 :: Ipv6Cidr where
  "PRIVATE_RANGE_V6 = cidrv6 0xfc000000000000000000000000000000 7"

definition MULTICAST_RANGE_V6 :: Ipv6Cidr where
  "MULTICAST_RANGE_V6 = cidrv6 0xff000000000000000000000000000000 8"

definition LINK_LOCAL_RANGE_V6 :: Ipv6Cidr where
  "LINK_LOCAL_RANGE_V6 = cidrv6 0xfe800000000000000000000000000000 64"

datatype IPScope = Scope_Public | Scope_Example | Scope_LinkLocal | Scope_Private | Scope_Multicast | Scope_Broadcast | Scope_Loopback

definition random_into_range_v4 :: "'g anon_lib \<Rightarrow> u32 \<Rightarrow> Ipv4Cidr \<Rightarrow> u32 res" where
  "random_into_range_v4 A random net =
     (let addr_within = random AND (push_bit (32 - snd net) 1 - 1);
          addr = fst net OR addr_within
      in if v4_contains A net addr then Inr addr else Inl AssertFailed)"

definition random_into_range_v6 :: "'g anon_lib \<Rightarrow> u128 \<Rightarrow> Ipv6Cidr \<Rightarrow> u128 res" where
  "random_into_range_v6 A random net =
     (let addr_within = random AND (push_bit (128 - snd net) 1 - 1);
          addr = fst net OR addr_within
      in if v6_contains A net addr then Inr addr else Inl AssertFailed)"

text \<open>A random address in one range, or in a randomly chosen one of several.\<close>

definition gen_in_v4 :: "'g anon_lib \<Rightarrow> Ipv4Cidr \<Rightarrow> 'g \<Rightarrow> ('g \<times> u32) res" where
  "gen_in_v4 A net rng =
     (let (rng, r) = gen_u32 A rng in res_bind (random_into_range_v4 A r net) (\<lambda>a. Inr (rng, a)))"

definition choose_in_v4 :: "'g anon_lib \<Rightarrow> Ipv4Cidr list \<Rightarrow> 'g \<Rightarrow> ('g \<times> u32) res" where
  "choose_in_v4 A ranges rng =
     (let (rng, i) = choose_index A (length ranges) rng
      in if i < length ranges then gen_in_v4 A (ranges ! i) rng else Inl UnwrapFailed)"

definition next_v4 :: "'g anon_lib \<Rightarrow> IPScope \<Rightarrow> 'g \<Rightarrow> ('g \<times> u32) res" where
  "next_v4 A scope rng =
     (case scope of
        Scope_Example \<Rightarrow> choose_in_v4 A EXAMPLE_RANGES_V4 rng
      | Scope_Public \<Rightarrow> choose_in_v4 A EXAMPLE_RANGES_V4 rng
      | Scope_LinkLocal \<Rightarrow> gen_in_v4 A LINK_LOCAL_RANGE_V4 rng
      | Scope_Private \<Rightarrow> choose_in_v4 A PRIVATE_RANGES_V4 rng
      | Scope_Multicast \<Rightarrow> gen_in_v4 A MULTICAST_RANGE_V4 rng
      | Scope_Broadcast \<Rightarrow> Inr (rng, ipv4 255 255 255 255)
      | Scope_Loopback \<Rightarrow> Inr (rng, ipv4 127 0 0 1))"

definition gen_in_v6 :: "'g anon_lib \<Rightarrow> Ipv6Cidr \<Rightarrow> 'g \<Rightarrow> ('g \<times> u128) res" where
  "gen_in_v6 A net rng =
     (let (rng, r) = gen_u128 A rng in res_bind (random_into_range_v6 A r net) (\<lambda>a. Inr (rng, a)))"

definition next_v6 :: "'g anon_lib \<Rightarrow> IPScope \<Rightarrow> 'g \<Rightarrow> ('g \<times> u128) res" where
  "next_v6 A scope rng =
     (case scope of
        Scope_Example \<Rightarrow> gen_in_v6 A EXAMPLE_RANGE_V6 rng
      | Scope_Public \<Rightarrow> gen_in_v6 A EXAMPLE_RANGE_V6 rng
      | Scope_LinkLocal \<Rightarrow> gen_in_v6 A LINK_LOCAL_RANGE_V6 rng
      | Scope_Private \<Rightarrow> gen_in_v6 A PRIVATE_RANGE_V6 rng
      | Scope_Multicast \<Rightarrow> gen_in_v6 A MULTICAST_RANGE_V6 rng
      | Scope_Broadcast \<Rightarrow> Inr (rng, 0xff020000000000000000000000000001)
      | Scope_Loopback \<Rightarrow> Inr (rng, 1))"

definition scope_for_v4 :: "'g anon_lib \<Rightarrow> u32 \<Rightarrow> IPScope" where
  "scope_for_v4 A addr =
     (if list_ex (\<lambda>r. v4_contains A r addr) EXAMPLE_RANGES_V4 then Scope_Example
      else if v4_contains A LINK_LOCAL_RANGE_V4 addr then Scope_LinkLocal
      else if list_ex (\<lambda>r. v4_contains A r addr) PRIVATE_RANGES_V4 then Scope_Private
      else if v4_contains A MULTICAST_RANGE_V4 addr then Scope_Multicast
      else if addr = ipv4 255 255 255 255 then Scope_Broadcast
      else if v4_contains A LOOPBACK_RANGE_V4 addr then Scope_Loopback
      else Scope_Public)"

definition scope_for_v6 :: "'g anon_lib \<Rightarrow> u128 \<Rightarrow> IPScope" where
  "scope_for_v6 A addr =
     (if v6_contains A EXAMPLE_RANGE_V6 addr then Scope_Example
      else if v6_contains A LINK_LOCAL_RANGE_V6 addr then Scope_LinkLocal
      else if v6_contains A PRIVATE_RANGE_V6 addr then Scope_Private
      else if v6_contains A MULTICAST_RANGE_V6 addr then Scope_Multicast
      else if addr = 1 then Scope_Loopback
      else Scope_Public)"

datatype IpAddr = IpAddr_V4 Ipv4Addr | IpAddr_V6 Ipv6Addr

definition ip_scope_remap :: "'g anon_lib \<Rightarrow> (IpAddr, 'g) remapping" where
  "ip_scope_remap A rng inp =
     (case inp of
        IpAddr_V4 addr \<Rightarrow> res_bind (next_v4 A (scope_for_v4 A addr) rng) (\<lambda>(rng, new). Inr (rng, Some (IpAddr_V4 new)))
      | IpAddr_V6 addr \<Rightarrow> res_bind (next_v6 A (scope_for_v6 A addr) rng) (\<lambda>(rng, new). Inr (rng, Some (IpAddr_V6 new))))"

datatype MacAddr = MacAddr u8 u8 u8 u8 u8 u8

definition MacAddr_broadcast :: MacAddr where
  "MacAddr_broadcast = MacAddr 0xff 0xff 0xff 0xff 0xff 0xff"

definition LOCALLY_ADMINISTERED :: u8 where
  "LOCALLY_ADMINISTERED = 2"

definition GROUP_ADDR :: u8 where
  "GROUP_ADDR = 1"

fun mac_first :: "MacAddr \<Rightarrow> u8" where
  "mac_first (MacAddr a b c d e f) = a"

definition mac_random_remap :: "'g anon_lib \<Rightarrow> (MacAddr, 'g) remapping" where
  "mac_random_remap A rng inp =
     (if inp = MacAddr_broadcast then Inr (rng, Some MacAddr_broadcast)
      else
        (let (rng, r) = gen_u8 A rng;
             oct1 = ((r AND NOT GROUP_ADDR) OR LOCALLY_ADMINISTERED) OR (mac_first inp AND GROUP_ADDR);
             (rng, b) = gen_u8 A rng; (rng, c) = gen_u8 A rng; (rng, d) = gen_u8 A rng;
             (rng, e) = gen_u8 A rng; (rng, f) = gen_u8 A rng
         in Inr (rng, Some (MacAddr oct1 b c d e f))))"

section \<open>Addresses keep their scope\<close>

text \<open>
  The documented behaviour of the libraries: a range contains the addresses that share its network
  part, and an element is chosen from the slice.
\<close>

definition anon_lib_ok :: "'g anon_lib \<Rightarrow> bool" where
  "anon_lib_ok A \<longleftrightarrow>
     (\<forall>net len a. v4_contains A (net, len) a \<longleftrightarrow> unat a div 2 ^ (32 - len) = unat net div 2 ^ (32 - len))
     \<and> (\<forall>net len a. v6_contains A (net, len) a \<longleftrightarrow> unat a div 2 ^ (128 - len) = unat net div 2 ^ (128 - len))
     \<and> (\<forall>n g. 0 < n \<longrightarrow> snd (choose_index A n g) < n)"

lemma v4_contains_iff:
  "anon_lib_ok A \<Longrightarrow> v4_contains A (net, len) a \<longleftrightarrow> unat a div 2 ^ (32 - len) = unat net div 2 ^ (32 - len)"
  by (simp add: anon_lib_ok_def)

lemma v6_contains_iff:
  "anon_lib_ok A \<Longrightarrow> v6_contains A (net, len) a \<longleftrightarrow> unat a div 2 ^ (128 - len) = unat net div 2 ^ (128 - len)"
  by (simp add: anon_lib_ok_def)

lemma within_range: "unat (net OR (r AND (push_bit k 1 - 1)) :: 'w::len word) div 2 ^ k = unat net div 2 ^ k"
proof -
  have m: "push_bit k 1 - 1 = (mask k :: 'w word)"
    by (simp add: mask_eq_exp_minus_1 push_bit_eq_mult)
  have "drop_bit k (net OR (r AND mask k)) = drop_bit k net"
    by (rule bit_word_eqI) (auto simp: bit_simps)
  then show ?thesis unfolding m by (metis unat_drop_bit_eq drop_bit_eq_div)
qed

lemma random_into_range_v4_ok:
  assumes "anon_lib_ok A"
  shows "\<exists>a. random_into_range_v4 A r net = Inr a
    \<and> unat a div 2 ^ (32 - snd net) = unat (fst net) div 2 ^ (32 - snd net)"
proof -
  obtain n l where net: "net = (n, l)" by (cases net)
  show ?thesis
    using within_range [of n r "32 - l"] v4_contains_iff [OF assms, of n l]
    by (simp add: random_into_range_v4_def Let_def net)
qed

lemma random_into_range_v6_ok:
  assumes "anon_lib_ok A"
  shows "\<exists>a. random_into_range_v6 A r net = Inr a
    \<and> unat a div 2 ^ (128 - snd net) = unat (fst net) div 2 ^ (128 - snd net)"
proof -
  obtain n l where net: "net = (n, l)" by (cases net)
  show ?thesis
    using within_range [of n r "128 - l"] v6_contains_iff [OF assms, of n l]
    by (simp add: random_into_range_v6_def Let_def net)
qed

lemma gen_in_v4_ok:
  assumes "anon_lib_ok A"
  shows "\<exists>rng' a. gen_in_v4 A net rng = Inr (rng', a)
    \<and> unat a div 2 ^ (32 - snd net) = unat (fst net) div 2 ^ (32 - snd net)"
  using random_into_range_v4_ok [OF assms, of "snd (gen_u32 A rng)" net]
  by (auto simp: gen_in_v4_def case_prod_unfold Let_def)

lemma gen_in_v6_ok:
  assumes "anon_lib_ok A"
  shows "\<exists>rng' a. gen_in_v6 A net rng = Inr (rng', a)
    \<and> unat a div 2 ^ (128 - snd net) = unat (fst net) div 2 ^ (128 - snd net)"
  using random_into_range_v6_ok [OF assms, of "snd (gen_u128 A rng)" net]
  by (auto simp: gen_in_v6_def case_prod_unfold Let_def)

lemma choose_in_v4_ok:
  assumes "anon_lib_ok A" and "nets \<noteq> []"
  shows "\<exists>net \<in> set nets. \<exists>rng' a. choose_in_v4 A nets rng = Inr (rng', a)
    \<and> unat a div 2 ^ (32 - snd net) = unat (fst net) div 2 ^ (32 - snd net)"
proof -
  obtain rng1 i where c: "choose_index A (length nets) rng = (rng1, i)" by (cases "choose_index A (length nets) rng")
  have "0 < length nets \<longrightarrow> snd (choose_index A (length nets) rng) < length nets"
    using assms(1) unfolding anon_lib_ok_def by blast
  with c assms(2) have i: "i < length nets" by simp
  from gen_in_v4_ok [OF assms(1), of "nets ! i" rng1] c i show ?thesis
    by (intro bexI [of _ "nets ! i"]) (auto simp: choose_in_v4_def)
qed

text \<open>The ranges as numbers.\<close>

lemmas range_defs = EXAMPLE_RANGES_V4_def PRIVATE_RANGES_V4_def MULTICAST_RANGE_V4_def LINK_LOCAL_RANGE_V4_def
  LOOPBACK_RANGE_V4_def EXAMPLE_RANGE_V6_def PRIVATE_RANGE_V6_def MULTICAST_RANGE_V6_def LINK_LOCAL_RANGE_V6_def
  cidrv4_def cidrv6_def

lemma ipv4_consts:
  "ipv4 192 0 2 0 = 0xC0000200" "ipv4 198 51 100 0 = 0xC6336400" "ipv4 203 0 113 0 = 0xCB007100"
  "ipv4 192 168 0 0 = 0xC0A80000" "ipv4 172 16 0 0 = 0xAC100000" "ipv4 10 0 0 0 = 0x0A000000"
  "ipv4 224 0 0 0 = 0xE0000000" "ipv4 169 254 0 0 = 0xA9FE0000" "ipv4 127 0 0 0 = 0x7F000000"
  "ipv4 255 255 255 255 = 0xFFFFFFFF" "ipv4 127 0 0 1 = 0x7F000001"
  by (simp_all add: ipv4_def push_bit_eq_mult)

lemma group_bits:
  "push_bit k (ucast (ucast (drop_bit k addr AND 0xffff) :: u16) :: u128) = addr AND push_bit k 0xffff"
proof -
  have m: "(0xffff :: u128) = mask 16" by (simp add: mask_eq_exp_minus_1)
  show ?thesis
    unfolding m by (rule bit_word_eqI) (auto simp: bit_simps)
qed

lemma ipv6_identity: "ipv6addr_from_u128 addr = addr"
proof -
  have parts: "addr_part 1 addr = ucast (drop_bit 112 addr AND 0xffff)" "addr_part 2 addr = ucast (drop_bit 96 addr AND 0xffff)"
    "addr_part 3 addr = ucast (drop_bit 80 addr AND 0xffff)" "addr_part 4 addr = ucast (drop_bit 64 addr AND 0xffff)"
    "addr_part 5 addr = ucast (drop_bit 48 addr AND 0xffff)" "addr_part 6 addr = ucast (drop_bit 32 addr AND 0xffff)"
    "addr_part 7 addr = ucast (drop_bit 16 addr AND 0xffff)" "addr_part 8 addr = ucast (addr AND 0xffff)"
    by (simp_all add: addr_part_def)
  have low: "ucast (ucast (addr AND 0xffff) :: u16) = addr AND 0xffff"
    using group_bits [of 0 addr] by simp
  have "ipv6addr_from_u128 addr = addr AND (push_bit 112 0xffff OR push_bit 96 0xffff OR push_bit 80 0xffff
      OR push_bit 64 0xffff OR push_bit 48 0xffff OR push_bit 32 0xffff OR push_bit 16 0xffff OR 0xffff)"
    unfolding ipv6addr_from_u128_def ipv6_def parts low group_bits by (simp only: bit.conj_disj_distrib)
  also have "(push_bit 112 0xffff OR push_bit 96 0xffff OR push_bit 80 0xffff
      OR push_bit 64 0xffff OR push_bit 48 0xffff OR push_bit 32 0xffff OR push_bit 16 0xffff OR 0xffff) = (- 1 :: u128)"
    by (simp add: push_bit_eq_mult)
  finally show ?thesis by simp
qed

text \<open>
  Which scope an address in one of the ranges has.  The network parts of different lengths of one
  address are quotients of each other.
\<close>

lemma quotients_v4:
  fixes x :: nat
  shows "x div 65536 = x div 256 div 256" "x div 1048576 = x div 65536 div 16"
    "x div 16777216 = x div 1048576 div 16" "x div 268435456 = x div 16777216 div 16"
  by (simp_all add: div_mult2_eq [symmetric])

fun scope_by_quotients :: "nat \<Rightarrow> nat \<Rightarrow> nat \<Rightarrow> nat \<Rightarrow> nat \<Rightarrow> bool \<Rightarrow> IPScope" where
  "scope_by_quotients q8 q16 q20 q24 q28 is_broadcast =
    (if q8 = 0xC00002 \<or> q8 = 0xC63364 \<or> q8 = 0xCB0071 then Scope_Example
     else if q16 = 0xA9FE then Scope_LinkLocal
     else if q16 = 0xC0A8 \<or> q20 = 0xAC1 \<or> q24 = 10 then Scope_Private
     else if q28 = 14 then Scope_Multicast
     else if is_broadcast then Scope_Broadcast
     else if q24 = 127 then Scope_Loopback
     else Scope_Public)"

lemma scope_by_quotients_in_range:
  assumes "q16 = q8 div 256" and "q20 = q16 div 16" and "q24 = q20 div 16" and "q28 = q24 div 16"
  shows "q8 = 0xC00002 \<or> q8 = 0xC63364 \<or> q8 = 0xCB0071 \<Longrightarrow> scope_by_quotients q8 q16 q20 q24 q28 b = Scope_Example"
    and "q16 = 0xC0A8 \<or> q20 = 0xAC1 \<or> q24 = 10 \<Longrightarrow> scope_by_quotients q8 q16 q20 q24 q28 b = Scope_Private"
    and "q16 = 0xA9FE \<Longrightarrow> scope_by_quotients q8 q16 q20 q24 q28 b = Scope_LinkLocal"
    and "q28 = 14 \<Longrightarrow> scope_by_quotients q8 q16 q20 q24 q28 b = Scope_Multicast"
proof goal_cases
  case 2
  with assms show ?case by (elim disjE; auto)
qed (use assms in auto)

declare scope_by_quotients.simps [simp del]

lemma scope_v4_num:
  assumes "anon_lib_ok A"
  shows "scope_for_v4 A a = scope_by_quotients (unat a div 256) (unat a div 65536) (unat a div 1048576)
     (unat a div 16777216) (unat a div 268435456) (a = 0xFFFFFFFF)"
  by (simp add: scope_for_v4_def scope_by_quotients.simps range_defs ipv4_consts v4_contains_iff [OF assms])

lemma scope_v4_in_range:
  assumes "anon_lib_ok A"
  shows "unat a div 256 = 0xC00002 \<or> unat a div 256 = 0xC63364 \<or> unat a div 256 = 0xCB0071 \<Longrightarrow> scope_for_v4 A a = Scope_Example"
    and "unat a div 65536 = 0xC0A8 \<or> unat a div 1048576 = 0xAC1 \<or> unat a div 16777216 = 10 \<Longrightarrow> scope_for_v4 A a = Scope_Private"
    and "unat a div 65536 = 0xA9FE \<Longrightarrow> scope_for_v4 A a = Scope_LinkLocal"
    and "unat a div 268435456 = 14 \<Longrightarrow> scope_for_v4 A a = Scope_Multicast"
  unfolding scope_v4_num [OF assms] by (rule scope_by_quotients_in_range [OF quotients_v4]; assumption)+

definition anonymous_scope :: "IPScope \<Rightarrow> IPScope" where
  "anonymous_scope s = (if s = Scope_Public then Scope_Example else s)"

lemma next_v4_scope:
  assumes "anon_lib_ok A"
  shows "\<exists>rng' a. next_v4 A s rng = Inr (rng', a) \<and> scope_for_v4 A a = anonymous_scope s"
proof -
  have ex: "\<exists>rng' a. choose_in_v4 A EXAMPLE_RANGES_V4 rng = Inr (rng', a) \<and> scope_for_v4 A a = Scope_Example"
    using choose_in_v4_ok [OF assms, of EXAMPLE_RANGES_V4 rng]
    by (auto simp: range_defs ipv4_consts intro: scope_v4_in_range [OF assms])
  have pr: "\<exists>rng' a. choose_in_v4 A PRIVATE_RANGES_V4 rng = Inr (rng', a) \<and> scope_for_v4 A a = Scope_Private"
    using choose_in_v4_ok [OF assms, of PRIVATE_RANGES_V4 rng]
    by (auto simp: range_defs ipv4_consts intro: scope_v4_in_range [OF assms])
  have ll: "\<exists>rng' a. gen_in_v4 A LINK_LOCAL_RANGE_V4 rng = Inr (rng', a) \<and> scope_for_v4 A a = Scope_LinkLocal"
    using gen_in_v4_ok [OF assms, of LINK_LOCAL_RANGE_V4 rng]
    by (auto simp: range_defs ipv4_consts intro: scope_v4_in_range [OF assms])
  have mc: "\<exists>rng' a. gen_in_v4 A MULTICAST_RANGE_V4 rng = Inr (rng', a) \<and> scope_for_v4 A a = Scope_Multicast"
    using gen_in_v4_ok [OF assms, of MULTICAST_RANGE_V4 rng]
    by (auto simp: range_defs ipv4_consts intro: scope_v4_in_range [OF assms])
  show ?thesis
    using ex pr ll mc by (cases s) (simp_all add: next_v4_def anonymous_scope_def ipv4_consts scope_v4_num [OF assms] scope_by_quotients.simps)
qed

lemma quotients_v6:
  fixes x :: nat
  shows "x div 79228162514264337593543950336 = x div 18446744073709551616 div 4294967296"
    "x div 1329227995784915872903807060280344576 = x div 79228162514264337593543950336 div 16777216"
    "x div 2658455991569831745807614120560689152 = x div 1329227995784915872903807060280344576 div 2"
  by (simp_all add: div_mult2_eq [symmetric])

fun scope_by_quotients_v6 :: "nat \<Rightarrow> nat \<Rightarrow> nat \<Rightarrow> nat \<Rightarrow> bool \<Rightarrow> IPScope" where
  "scope_by_quotients_v6 q64 q96 q120 q121 is_one =
     (if q96 = 0x20010db8 then Scope_Example
      else if q64 = 0xfe80000000000000 then Scope_LinkLocal
      else if q121 = 126 then Scope_Private
      else if q120 = 255 then Scope_Multicast
      else if is_one then Scope_Loopback
      else Scope_Public)"

lemma scope_by_quotients_v6_in_range:
  assumes "q96 = q64 div 4294967296" and "q120 = q96 div 16777216" and "q121 = q120 div 2"
  shows "q96 = 0x20010db8 \<Longrightarrow> scope_by_quotients_v6 q64 q96 q120 q121 b = Scope_Example"
    and "q64 = 0xfe80000000000000 \<Longrightarrow> scope_by_quotients_v6 q64 q96 q120 q121 b = Scope_LinkLocal"
    and "q121 = 126 \<Longrightarrow> scope_by_quotients_v6 q64 q96 q120 q121 b = Scope_Private"
    and "q120 = 255 \<Longrightarrow> scope_by_quotients_v6 q64 q96 q120 q121 b = Scope_Multicast"
  by (use assms in auto)

declare scope_by_quotients_v6.simps [simp del]

lemma scope_v6_num:
  assumes "anon_lib_ok A"
  shows "scope_for_v6 A a = scope_by_quotients_v6 (unat a div 18446744073709551616)
     (unat a div 79228162514264337593543950336) (unat a div 1329227995784915872903807060280344576)
     (unat a div 2658455991569831745807614120560689152) (a = 1)"
  by (simp add: scope_for_v6_def scope_by_quotients_v6.simps range_defs ipv6_identity v6_contains_iff [OF assms])

lemma scope_v6_in_range:
  assumes "anon_lib_ok A"
  shows "unat a div 79228162514264337593543950336 = 0x20010db8 \<Longrightarrow> scope_for_v6 A a = Scope_Example"
    and "unat a div 18446744073709551616 = 0xfe80000000000000 \<Longrightarrow> scope_for_v6 A a = Scope_LinkLocal"
    and "unat a div 2658455991569831745807614120560689152 = 126 \<Longrightarrow> scope_for_v6 A a = Scope_Private"
    and "unat a div 1329227995784915872903807060280344576 = 255 \<Longrightarrow> scope_for_v6 A a = Scope_Multicast"
  unfolding scope_v6_num [OF assms] by (rule scope_by_quotients_v6_in_range [OF quotients_v6]; assumption)+

lemma next_v6_scope:
  assumes "anon_lib_ok A" and "s \<noteq> Scope_Broadcast"
  shows "\<exists>rng' a. next_v6 A s rng = Inr (rng', a) \<and> scope_for_v6 A a = anonymous_scope s"
proof -
  have ex: "\<exists>rng' a. gen_in_v6 A EXAMPLE_RANGE_V6 rng = Inr (rng', a) \<and> scope_for_v6 A a = Scope_Example"
    using gen_in_v6_ok [OF assms(1), of EXAMPLE_RANGE_V6 rng]
    by (auto simp: range_defs ipv6_identity intro: scope_v6_in_range [OF assms(1)])
  have ll: "\<exists>rng' a. gen_in_v6 A LINK_LOCAL_RANGE_V6 rng = Inr (rng', a) \<and> scope_for_v6 A a = Scope_LinkLocal"
    using gen_in_v6_ok [OF assms(1), of LINK_LOCAL_RANGE_V6 rng]
    by (auto simp: range_defs ipv6_identity intro: scope_v6_in_range [OF assms(1)])
  have pr: "\<exists>rng' a. gen_in_v6 A PRIVATE_RANGE_V6 rng = Inr (rng', a) \<and> scope_for_v6 A a = Scope_Private"
    using gen_in_v6_ok [OF assms(1), of PRIVATE_RANGE_V6 rng]
    by (auto simp: range_defs ipv6_identity intro: scope_v6_in_range [OF assms(1)])
  have mc: "\<exists>rng' a. gen_in_v6 A MULTICAST_RANGE_V6 rng = Inr (rng', a) \<and> scope_for_v6 A a = Scope_Multicast"
    using gen_in_v6_ok [OF assms(1), of MULTICAST_RANGE_V6 rng]
    by (auto simp: range_defs ipv6_identity intro: scope_v6_in_range [OF assms(1)])
  show ?thesis
    using ex pr ll mc assms(2) by (cases s) (simp_all add: next_v6_def anonymous_scope_def scope_v6_num [OF assms(1)] scope_by_quotients_v6.simps)
qed

fun scope_of :: "'g anon_lib \<Rightarrow> IpAddr \<Rightarrow> IPScope" where
  "scope_of A (IpAddr_V4 addr) = scope_for_v4 A addr"
| "scope_of A (IpAddr_V6 addr) = scope_for_v6 A addr"

fun same_family :: "IpAddr \<Rightarrow> IpAddr \<Rightarrow> bool" where
  "same_family (IpAddr_V4 a) (IpAddr_V4 b) = True"
| "same_family (IpAddr_V6 a) (IpAddr_V6 b) = True"
| "same_family a b = False"

lemma ip_scope_remap_scope:
  assumes "anon_lib_ok A"
  shows "\<exists>rng' new. ip_scope_remap A rng inp = Inr (rng', Some new) \<and> same_family inp new
    \<and> scope_of A new = anonymous_scope (scope_of A inp)"
proof (cases inp)
  case (IpAddr_V4 addr)
  with next_v4_scope [OF assms, of "scope_for_v4 A addr" rng] show ?thesis by (auto simp: ip_scope_remap_def)
next
  case (IpAddr_V6 addr)
  have "scope_for_v6 A addr \<noteq> Scope_Broadcast" by (simp add: scope_for_v6_def)
  with next_v6_scope [OF assms, of "scope_for_v6 A addr" rng] IpAddr_V6 show ?thesis by (auto simp: ip_scope_remap_def)
qed

text \<open>
  C34. Remapping keeps the kind of an address: the replacement of an IP address is of the same family
  and has the same scope (link local, private, multicast, broadcast, loopback), except that public
  addresses are replaced by documentation addresses, and the assertion that the replacement lies in
  its range never fails, whatever the random numbers are.
\<close>

theorem ip_remap_keeps_scope:
  assumes "anon_lib_ok A"
  shows "\<exists>rng' new. ip_scope_remap A rng inp = Inr (rng', Some new) \<and> same_family inp new
    \<and> scope_of A new = anonymous_scope (scope_of A inp)"
  using assms by (rule ip_scope_remap_scope)

definition example_anon :: "nat anon_lib" where
  "example_anon =
     \<lparr>v4_contains = (\<lambda>(net, len) a. unat a div 2 ^ (32 - len) = unat net div 2 ^ (32 - len)),
      v6_contains = (\<lambda>(net, len) a. unat a div 2 ^ (128 - len) = unat net div 2 ^ (128 - len)),
      gen_u8 = (\<lambda>n. (n + 1, word_of_nat n)), gen_u32 = (\<lambda>n. (n + 1, word_of_nat n)),
      gen_u128 = (\<lambda>n. (n + 1, word_of_nat n)), choose_index = (\<lambda>k n. (n, 0))\<rparr>"

lemma example_anon_ok: "anon_lib_ok example_anon"
  by (simp add: anon_lib_ok_def example_anon_def)

theorem ip_remap_keeps_scope_witness:
  "\<exists>rng' new. ip_scope_remap example_anon 5 (IpAddr_V4 0x0A010203) = Inr (rng', Some new)
     \<and> same_family (IpAddr_V4 0x0A010203) new \<and> scope_of example_anon new = Scope_Private"
proof -
  have "scope_of example_anon (IpAddr_V4 0x0A010203) = Scope_Private"
    by (simp add: scope_v4_num [OF example_anon_ok] scope_by_quotients.simps)
  with ip_remap_keeps_scope [OF example_anon_ok, of 5 "IpAddr_V4 0x0A010203"] show ?thesis
    by (simp add: anonymous_scope_def)
qed

section \<open>Remapping is stable\<close>

lemma remap_loop_mappings:
  assumes "remap_loop down n inp m = Inr (m', r)"
  shows "mappings m' = (case r of Some v \<Rightarrow> (mappings m)(inp \<mapsto> v) | None \<Rightarrow> mappings m)"
  using assms
proof (induction n arbitrary: m)
  case (Suc n)
  from Suc.prems obtain g x where d: "down (downstream m) inp = Inr (g, x)"
    by (auto simp: res_simps)
  show ?case
    using Suc.prems Suc.IH [of "m\<lparr>downstream := g\<rparr>"]
    by (auto simp: d Let_def split: option.splits if_splits)
qed simp

lemma remap_loop_fresh:
  "remap_loop down n inp m = Inr (m', Some v) \<Longrightarrow> mappings m v = None"
proof (induction n arbitrary: m)
  case (Suc n)
  from Suc.prems obtain g x where d: "down (downstream m) inp = Inr (g, x)"
    by (auto simp: res_simps)
  show ?case
    using Suc.prems Suc.IH [of "m\<lparr>downstream := g\<rparr>"]
    by (auto simp: d Let_def split: option.splits if_splits)
qed simp

lemma mapper_remap_mappings:
  assumes "mapper_remap down inp m = Inr (m', r)"
  shows "mappings m \<subseteq>\<^sub>m mappings m' \<and> (\<forall>v. r = Some v \<longrightarrow> mappings m' inp = Some v)"
proof (cases "mappings m inp")
  case None
  with assms have "remap_loop down 1000 inp m = Inr (m', r)" by (simp add: mapper_remap_def)
  from remap_loop_mappings [OF this] None show ?thesis
    by (auto simp: map_le_def split: option.splits)
qed (use assms in \<open>auto simp: mapper_remap_def\<close>)

fun remap_all :: "('a, 'g) remapping \<Rightarrow> 'a list \<Rightarrow> ('a, 'g) Mapper \<Rightarrow> (('a, 'g) Mapper \<times> 'a option list) res" where
  "remap_all down [] m = Inr (m, [])"
| "remap_all down (inp # inps) m =
     res_bind (mapper_remap down inp m) (\<lambda>(m, r).
     res_bind (remap_all down inps m) (\<lambda>(m, rs). Inr (m, r # rs)))"

lemma remap_all_mappings:
  assumes "remap_all down inps m = Inr (m', rs)"
  shows "mappings m \<subseteq>\<^sub>m mappings m' \<and> length rs = length inps
    \<and> (\<forall>i < length inps. \<forall>v. rs ! i = Some v \<longrightarrow> mappings m' (inps ! i) = Some v)"
  using assms
proof (induction inps arbitrary: m rs)
  case (Cons inp inps)
  from Cons.prems obtain m1 r rs1 where r: "mapper_remap down inp m = Inr (m1, r)"
    and rest: "remap_all down inps m1 = Inr (m', rs1)" and rs: "rs = r # rs1"
    by (auto simp: res_simps)
  note 1 = mapper_remap_mappings [OF r] and 2 = Cons.IH [OF rest]
  have "mappings m' inp = Some v" if "r = Some v" for v
    using 1 2 that by (auto simp: map_le_def dom_def)
  moreover have "mappings m \<subseteq>\<^sub>m mappings m'" using 1 2 map_le_trans by blast
  ultimately show ?case using 2 by (auto simp: rs nth_Cons split: nat.splits)
qed simp

text \<open>
  C35. Remapping is consistent over a run: wherever an address occurs in a sequence of addresses, it is
  replaced by the same address each time it is replaced at all.
\<close>

theorem remap_consistent:
  assumes "remap_all down inps (Mapper_new g) = Inr (m', rs)" and "i < length inps" and "j < length inps"
    and "inps ! i = inps ! j" and "rs ! i = Some v" and "rs ! j = Some w"
  shows "v = w"
proof -
  from remap_all_mappings [OF assms(1)] assms(2-6) have "mappings m' (inps ! j) = Some v" "mappings m' (inps ! j) = Some w"
    by metis+
  then show ?thesis by simp
qed

theorem remap_consistent_witness:
  "\<exists>m' rs. remap_all (\<lambda>g x. Inr (g + 1, Some (g + 100))) [7, 8, 7] (Mapper_new 0) = Inr (m', rs)
     \<and> rs = [Some 100, Some 101, Some (100 :: nat)] \<and> the (rs ! 0) = the (rs ! 2)"
proof -
  obtain m' rs where r: "remap_all (\<lambda>g x. Inr (g + 1, Some (g + 100))) [7, 8, 7] (Mapper_new 0) = Inr (m', rs)"
    "rs = [Some 100, Some 101, Some (100 :: nat)]"
    by (simp add: mapper_remap_def Mapper_new_def numeral_eq_Suc Let_def)
  from remap_consistent [OF r(1), of 0 2 100 100] r show ?thesis by simp
qed

text \<open>
  Remapping is not injective: a replacement is checked against the addresses replaced before, not
  against their replacements, so two addresses may become one.
\<close>

theorem remap_merges_addresses:
  "map_sum id snd (remap_all (\<lambda>g x. Inr (g, Some 9)) [1, 2] (Mapper_new ())) = Inr [Some 9, Some (9 :: nat)]"
  by (simp add: mapper_remap_def Mapper_new_def numeral_eq_Suc Let_def)

text \<open>
  All loopback addresses are replaced by 127.0.0.1, so once that address itself has been seen no
  other loopback address can be replaced, and its packets are dropped.
\<close>

lemma loop_exhausted:
  "(\<And>g. \<exists>g'. down g inp = Inr (g', Some v)) \<Longrightarrow> mappings m v \<noteq> None \<Longrightarrow> \<exists>m'. remap_loop down n inp m = Inr (m', None)"
proof (induction n arbitrary: m)
  case (Suc n)
  obtain g' where "down (downstream m) inp = Inr (g', Some v)" using Suc.prems(1) by blast
  with Suc.IH [OF Suc.prems(1), of "m\<lparr>downstream := g'\<rparr>"] Suc.prems(2) show ?case by (auto simp: Let_def)
qed simp

theorem second_loopback_dropped:
  assumes "mappings m (IpAddr_V4 (ipv4 127 0 0 1)) \<noteq> None" and "mappings m (IpAddr_V4 a) = None"
    and "scope_for_v4 A a = Scope_Loopback"
  shows "\<exists>m'. mapper_remap (ip_scope_remap A) (IpAddr_V4 a) m = Inr (m', None)"
proof -
  have "\<exists>g'. ip_scope_remap A g (IpAddr_V4 a) = Inr (g', Some (IpAddr_V4 (ipv4 127 0 0 1)))" for g
    using assms(3) by (simp add: ip_scope_remap_def next_v4_def)
  from loop_exhausted [where down = "ip_scope_remap A" and v = "IpAddr_V4 (ipv4 127 0 0 1)", OF this assms(1), of 1000] assms(2) show ?thesis by (simp add: mapper_remap_def)
qed

end
