(* ===== verification/Anon_Frames.thy ===== *)
theory Anon_Frames
  imports Anon_Packets Big_Endian
begin

text \<open>
  The rewriting of frames and capture files of \<open>crates/anon_packets/src/lib.rs\<close>.

  The packet views of \<open>pnet_packet\<close> are a parameter: for every kind of packet the check that a byte
  string is long enough, and for every header field a pair of functions that read and write it.  A
  frame that is dropped keeps the addresses remembered so far, so every step returns the anonymiser.
\<close>

section \<open>Packet views\<close>

record 'v field =
  get_field :: "bytes \<Rightarrow> 'v"
  set_field :: "'v \<Rightarrow> bytes \<Rightarrow> bytes"

record pnet =
  eth_new :: "bytes \<Rightarrow> bool"
  eth_type :: "bytes \<Rightarrow> u16"
  eth_source :: "MacAddr field"
  eth_destination :: "MacAddr field"
  eth_payload :: "bytes field"
  ipv4_new :: "bytes \<Rightarrow> bool"
  ipv4_source :: "Ipv4Addr field"
  ipv4_destination :: "Ipv4Addr field"
  ipv4_checksum :: "u16 field"
  ipv4_checksum_of :: "bytes \<Rightarrow> u16"
  ipv4_protocol :: "bytes \<Rightarrow> u8"
  ipv4_payload :: "bytes \<Rightarrow> bytes"
  ipv6_new :: "bytes \<Rightarrow> bool"
  ipv6_source :: "Ipv6Addr field"
  ipv6_destination :: "Ipv6Addr field"
  ipv6_next_header :: "bytes \<Rightarrow> u8"
  ipv6_payload :: "bytes \<Rightarrow> bytes"
  arp_new :: "bytes \<Rightarrow> bool"
  arp_sender_hw :: "MacAddr field"
  arp_target_hw :: "MacAddr field"
  arp_sender_proto :: "Ipv4Addr field"
  arp_target_proto :: "Ipv4Addr field"
  udp_new :: "bytes \<Rightarrow> bool"
  udp_source :: "bytes \<Rightarrow> u16"
  udp_destination :: "bytes \<Rightarrow> u16"
  tcp_new :: "bytes \<Rightarrow> bool"
  tcp_source :: "bytes \<Rightarrow> u16"
  tcp_destination :: "bytes \<Rightarrow> u16"

datatype DropReason =
    FailedToRemapMac MacAddr
  | FailedToRemapIp IpAddr
  | UnkEthertype u16
  | UnkNextHeader u8
  | Icmp6NotSupported
  | BannedProtocol
  | UdpParseFailed
  | TcpParseFailed
  | IpParseFailed
  | ArpParseFailed
  | EthernetParseFailed

section \<open>The anonymiser\<close>

definition BANNED_PORTS :: "u16 list" where
  "BANNED_PORTS = [53]"

record 'g Anonymizer =
  ip_remap :: "(IpAddr, 'g) Mapper"
  mac_remap :: "(MacAddr, 'g) Mapper"

type_synonym ('g, 'a) anon_result = "('g Anonymizer \<times> (DropReason + 'a)) res"

text \<open>The operator \<open>?\<close> on the result of a step.\<close>

definition anon_bind :: "('g, 'a) anon_result \<Rightarrow> ('a \<Rightarrow> 'g Anonymizer \<Rightarrow> ('g, 'b) anon_result) \<Rightarrow> ('g, 'b) anon_result" where
  "anon_bind r f = res_bind r (\<lambda>(z, x). case x of Inl e \<Rightarrow> Inr (z, Inl e) | Inr v \<Rightarrow> f v z)"

definition remap_v4 :: "'g anon_lib \<Rightarrow> Ipv4Addr \<Rightarrow> 'g Anonymizer \<Rightarrow> ('g, Ipv4Addr) anon_result" where
  "remap_v4 A addr z =
     res_bind (mapper_remap (ip_scope_remap A) (IpAddr_V4 addr) (ip_remap z)) (\<lambda>(m, r).
       (let z = z\<lparr>ip_remap := m\<rparr>
        in case r of
             None \<Rightarrow> Inr (z, Inl (FailedToRemapIp (IpAddr_V4 addr)))
           | Some (IpAddr_V4 v) \<Rightarrow> Inr (z, Inr v)
           | Some (IpAddr_V6 v) \<Rightarrow> Inl UnreachableCode))"

definition remap_v6 :: "'g anon_lib \<Rightarrow> Ipv6Addr \<Rightarrow> 'g Anonymizer \<Rightarrow> ('g, Ipv6Addr) anon_result" where
  "remap_v6 A addr z =
     res_bind (mapper_remap (ip_scope_remap A) (IpAddr_V6 addr) (ip_remap z)) (\<lambda>(m, r).
       (let z = z\<lparr>ip_remap := m\<rparr>
        in case r of
             None \<Rightarrow> Inr (z, Inl (FailedToRemapIp (IpAddr_V6 addr)))
           | Some (IpAddr_V6 v) \<Rightarrow> Inr (z, Inr v)
           | Some (IpAddr_V4 v) \<Rightarrow> Inl UnreachableCode))"

definition remap_mac :: "'g anon_lib \<Rightarrow> MacAddr \<Rightarrow> 'g Anonymizer \<Rightarrow> ('g, MacAddr) anon_result" where
  "remap_mac A addr z =
     res_bind (mapper_remap (mac_random_remap A) addr (mac_remap z)) (\<lambda>(m, r).
       (let z = z\<lparr>mac_remap := m\<rparr>
        in case r of None \<Rightarrow> Inr (z, Inl (FailedToRemapMac addr)) | Some v \<Rightarrow> Inr (z, Inr v)))"

definition anonymize_l4_udp :: "pnet \<Rightarrow> bytes \<Rightarrow> DropReason + unit" where
  "anonymize_l4_udp P data =
     (if \<not> udp_new P data then Inl UdpParseFailed
      else if List.member BANNED_PORTS (udp_destination P data) \<or> List.member BANNED_PORTS (udp_source P data)
      then Inl BannedProtocol else Inr ())"

definition anonymize_l4_tcp :: "pnet \<Rightarrow> bytes \<Rightarrow> DropReason + unit" where
  "anonymize_l4_tcp P data =
     (if \<not> tcp_new P data then Inl TcpParseFailed
      else if List.member BANNED_PORTS (tcp_destination P data) \<or> List.member BANNED_PORTS (tcp_source P data)
      then Inl BannedProtocol else Inr ())"

text \<open>Protocol numbers 17, 6 and 58 are UDP, TCP and ICMPv6.\<close>

definition anonymize_l4 :: "pnet \<Rightarrow> u8 \<Rightarrow> bytes \<Rightarrow> DropReason + unit" where
  "anonymize_l4 P protocol data =
     (if protocol = 17 then anonymize_l4_udp P data
      else if protocol = 6 then anonymize_l4_tcp P data
      else if protocol = 58 then Inl Icmp6NotSupported
      else Inl (UnkNextHeader protocol))"

text \<open>Replace the address in a field.\<close>

definition rewrite_field ::
  "('v \<Rightarrow> 'g Anonymizer \<Rightarrow> ('g, 'v) anon_result) \<Rightarrow> 'v field \<Rightarrow> bytes \<Rightarrow> 'g Anonymizer \<Rightarrow> ('g, bytes) anon_result" where
  "rewrite_field remap f data z = anon_bind (remap (get_field f data) z) (\<lambda>v z. Inr (z, Inr (set_field f v data)))"

definition anonymize_l3_ipv4 :: "'g anon_lib \<Rightarrow> pnet \<Rightarrow> bytes \<Rightarrow> 'g Anonymizer \<Rightarrow> ('g, bytes) anon_result" where
  "anonymize_l3_ipv4 A P data z =
     (if \<not> ipv4_new P data then Inr (z, Inl IpParseFailed)
      else
        anon_bind (rewrite_field (remap_v4 A) (ipv4_destination P) data z) (\<lambda>packet z.
        anon_bind (rewrite_field (remap_v4 A) (ipv4_source P) packet z) (\<lambda>packet z.
          (let packet = set_field (ipv4_checksum P) (ipv4_checksum_of P packet) packet
           in Inr (z, map_sum id (\<lambda>_. packet) (anonymize_l4 P (ipv4_protocol P packet) (ipv4_payload P packet)))))))"

definition anonymize_l3_ipv6 :: "'g anon_lib \<Rightarrow> pnet \<Rightarrow> bytes \<Rightarrow> 'g Anonymizer \<Rightarrow> ('g, bytes) anon_result" where
  "anonymize_l3_ipv6 A P data z =
     (if \<not> ipv6_new P data then Inr (z, Inl IpParseFailed)
      else
        anon_bind (rewrite_field (remap_v6 A) (ipv6_destination P) data z) (\<lambda>packet z.
        anon_bind (rewrite_field (remap_v6 A) (ipv6_source P) packet z) (\<lambda>packet z.
          Inr (z, map_sum id (\<lambda>_. packet) (anonymize_l4 P (ipv6_next_header P packet) (ipv6_payload P packet))))))"

definition anonymize_l3_arp :: "'g anon_lib \<Rightarrow> pnet \<Rightarrow> bytes \<Rightarrow> 'g Anonymizer \<Rightarrow> ('g, bytes) anon_result" where
  "anonymize_l3_arp A P data z =
     (if \<not> arp_new P data then Inr (z, Inl ArpParseFailed)
      else
        anon_bind (rewrite_field (remap_mac A) (arp_sender_hw P) data z) (\<lambda>packet z.
        anon_bind (rewrite_field (remap_mac A) (arp_target_hw P) packet z) (\<lambda>packet z.
        anon_bind (rewrite_field (remap_v4 A) (arp_sender_proto P) packet z) (\<lambda>packet z.
        rewrite_field (remap_v4 A) (arp_target_proto P) packet z))))"

text \<open>Ethernet types 0x0800, 0x86dd and 0x0806 are IPv4, IPv6 and ARP.\<close>

definition anonymize_l2_ethernet :: "'g anon_lib \<Rightarrow> pnet \<Rightarrow> bytes \<Rightarrow> 'g Anonymizer \<Rightarrow> ('g, bytes) anon_result" where
  "anonymize_l2_ethernet A P packet z =
     (if \<not> eth_new P packet then Inr (z, Inl EthernetParseFailed)
      else
        (let payload = get_field (eth_payload P) packet;
             ty = eth_type P packet
         in anon_bind
              (if ty = 0x0800 then anonymize_l3_ipv4 A P payload z
               else if ty = 0x86dd then anonymize_l3_ipv6 A P payload z
               else if ty = 0x0806 then anonymize_l3_arp A P payload z
               else Inr (z, Inl (UnkEthertype ty)))
              (\<lambda>payload z.
                 (let packet = set_field (eth_payload P) payload packet
                  in anon_bind (rewrite_field (remap_mac A) (eth_source P) packet z) (\<lambda>packet z.
                     rewrite_field (remap_mac A) (eth_destination P) packet z)))))"

section \<open>Capture files\<close>

text \<open>Blocks by the branches of \<open>anonymize\<close>; a packet block has its header and its data.\<close>

datatype ('h, 'b) anon_block = AB_EnhancedPacket 'h bytes | AB_SimplePacket | AB_NameResolution | AB_Other 'b

datatype ('h, 'b) block_owned = NG "('h, 'b) anon_block" | Legacy | LegacyHeader

datatype block_error = BlockEof | BlockIncomplete | BlockParseError

record ('r, 'p, 'h, 'b, 'e) block_lib =
  bl_new :: "nat \<Rightarrow> 'r \<Rightarrow> 'e + 'p"
  bl_next :: "'p \<Rightarrow> 'p \<times> (block_error + nat \<times> ('h, 'b) block_owned)"
  bl_consume :: "nat \<Rightarrow> 'p \<Rightarrow> 'p"
  epb_to_vec :: "'h \<Rightarrow> bytes \<Rightarrow> bytes option"
  to_vec_raw :: "'b \<Rightarrow> bytes option"

definition anonymize ::
  "'g anon_lib \<Rightarrow> pnet \<Rightarrow> ('r, 'p, 'h, 'b, 'e) block_lib \<Rightarrow> ('h, 'b) anon_block \<Rightarrow> 'g Anonymizer \<Rightarrow> ('g Anonymizer \<times> bytes option) res" where
  "anonymize A P B block z =
     (case block of
        AB_EnhancedPacket epb data \<Rightarrow>
          res_bind (anonymize_l2_ethernet A P data z) (\<lambda>(z, r).
            Inr (z, case r of Inr new_data \<Rightarrow> epb_to_vec B epb new_data | Inl e \<Rightarrow> None))
      | AB_SimplePacket \<Rightarrow> Inr (z, None)
      | AB_NameResolution \<Rightarrow> Inr (z, None)
      | AB_Other b \<Rightarrow> res_bind (unwrap (to_vec_raw B b)) (\<lambda>v. Inr (z, Some v)))"

text \<open>
  The reader and the writer are parameters.  A write gives the number of bytes taken or an error, as
  \<open>io::Write::write\<close> does; errors are boxed, so they have one type.  The loop ends at the first error of
  the reader, returns an error of the writer, and does not look at the number of bytes taken.
\<close>

type_synonym ('w, 'e) io_write = "bytes \<Rightarrow> 'w \<Rightarrow> 'w \<times> ('e + nat)"

partial_function (option) process_loop ::
  "'g anon_lib \<Rightarrow> pnet \<Rightarrow> ('r, 'p, 'h, 'b, 'e) block_lib \<Rightarrow> ('w, 'e) io_write \<Rightarrow> 'p \<Rightarrow> 'g Anonymizer \<Rightarrow> 'w \<Rightarrow>
   (('e + unit) \<times> 'w) res option" where
  "process_loop A P B write reader z w =
     (case bl_next B reader of
        (reader, Inl e) \<Rightarrow> Some (Inr (Inr (), w))
      | (reader, Inr (n, block)) \<Rightarrow>
          (case block of
             NG b \<Rightarrow>
               (case anonymize A P B b z of
                  Inl p \<Rightarrow> Some (Inl p)
                | Inr (z, None) \<Rightarrow> process_loop A P B write (bl_consume B n reader) z w
                | Inr (z, Some v) \<Rightarrow>
                    (case write v w of
                       (w, Inl e) \<Rightarrow> Some (Inr (Inl e, w))
                     | (w, Inr k) \<Rightarrow> process_loop A P B write (bl_consume B n reader) z w))
           | Legacy \<Rightarrow> Some (Inl UnreachableCode)
           | LegacyHeader \<Rightarrow> Some (Inl UnreachableCode)))"

declare process_loop.simps [code]



section \<open>Addresses of a frame\<close>


















section \<open>Steps of the anonymiser\<close>

text \<open>
  Every step returns, only adds replacements, and the replacements of IP addresses keep family and
  scope.
\<close>

definition anon_le :: "'g Anonymizer \<Rightarrow> 'g Anonymizer \<Rightarrow> bool" where
  "anon_le z z' \<longleftrightarrow> mappings (ip_remap z) \<subseteq>\<^sub>m mappings (ip_remap z') \<and> mappings (mac_remap z) \<subseteq>\<^sub>m mappings (mac_remap z')"

definition scopes_ok :: "'g anon_lib \<Rightarrow> 'g Anonymizer \<Rightarrow> bool" where
  "scopes_ok A z \<longleftrightarrow> (\<forall>a b. mappings (ip_remap z) a = Some b \<longrightarrow>
     same_family a b \<and> scope_of A b = anonymous_scope (scope_of A a))"

definition step_ok :: "'g anon_lib \<Rightarrow> 'g Anonymizer \<Rightarrow> ('g, 'a) anon_result \<Rightarrow> bool" where
  "step_ok A z r \<longleftrightarrow> (\<exists>z' x. r = Inr (z', x) \<and> anon_le z z' \<and> scopes_ok A z')"

lemma anon_le_refl [simp]: "anon_le z z"
  by (simp add: anon_le_def)





lemma step_ok_return [simp]: "step_ok A z (Inr (z, x)) \<longleftrightarrow> scopes_ok A z"
  by (auto simp: step_ok_def)











section \<open>The rewritten frame\<close>















section \<open>Dropped frames\<close>














section \<open>The rewritten capture\<close>










text \<open>
  The loop takes every error of the reader for the end of the file.  A reader that holds only a part
  of the next block reports that it is incomplete and has to be refilled; what follows is not written.
\<close>

theorem incomplete_block_ends_output:
  "bl_next B p = (p', Inl BlockIncomplete) \<Longrightarrow> process_loop A P B write p z w = Some (Inr (Inr (), w))"
  by (simp add: process_loop.simps)

text \<open>A write that takes only a part of a block is not continued: the rest of the block is lost.\<close>

theorem short_write_not_continued:
  assumes "bl_next B p = (p', Inr (n, NG (AB_Other b)))" and "to_vec_raw B b = Some v" and "write v w = (w', Inr k)"
  shows "process_loop A P B write p z w = process_loop A P B write (bl_consume B n p') z w'"
  using assms by (subst process_loop.simps) (simp add: anonymize_def unwrap_def)

section \<open>Packet views over byte positions\<close>






















end
