(* ===== verification/Deframer_Refinement.thy ===== *)
theory Deframer_Refinement
  imports Deframer
begin

text \<open>
  The deframer of the code refines the abstract deframer: on a well-formed deframer every operation
  does to the buffer what the abstract one does to the queues, gives the same results and errors, and
  panics only where the record layer does.
\<close>

section \<open>Refinement\<close>

definition joined_payload :: "MessageDeframer \<Rightarrow> HandshakePayloadMeta \<Rightarrow> bytes" where
  "joined_payload d meta = take (payload_len meta) (drop (payload_start meta) (df_buf d))"

definition queues_of :: "MessageDeframer \<Rightarrow> hs_queues" where
  "queues_of d =
     \<lparr>q_error = last_error d,
      q_joined = map_option (\<lambda>meta. (joined_payload d meta, hs_version meta, hs_expected_len meta)) (joining_hs d),
      q_records = drop (next_record d) (take (df_used d) (df_buf d))\<rparr>"

definition meta_ok :: "nat \<Rightarrow> HandshakePayloadMeta \<Rightarrow> bool" where
  "meta_ok used meta \<longleftrightarrow>
     payload_start meta \<le> payload_end meta \<and> payload_end meta \<le> message_end meta
     \<and> 0 < message_end meta \<and> message_end meta \<le> used \<and> \<not> hs_quic meta
     \<and> (\<forall>n. hs_expected_len meta = Some n \<longrightarrow> HEADER_SIZE \<le> n)"

definition deframer_ok :: "MessageDeframer \<Rightarrow> bool" where
  "deframer_ok d \<longleftrightarrow> df_used d \<le> length (df_buf d) \<and> (\<forall>meta. joining_hs d = Some meta \<longrightarrow> meta_ok (df_used d) meta)"

definition refines :: "MessageDeframer \<Rightarrow> hs_queues \<Rightarrow> bool" where
  "refines d q \<longleftrightarrow> deframer_ok d \<and> q = queues_of d"

text \<open>Results of the code and of the abstract deframer, panics included.\<close>

definition refines_step :: "(MessageDeframer \<times> 'a) res \<Rightarrow> (hs_queues \<times> 'a) res \<Rightarrow> bool" where
  "refines_step = rel_sum (=) (\<lambda>(d, x) (q, y). refines d q \<and> x = y)"

lemma drop_record_rest: "n \<le> length (take u xs) \<Longrightarrow> drop n (drop k (take u xs)) = drop (k + n) (take u xs)"
  by (simp add: add.commute)

lemma copy_within_front_take:
  assumes "a \<le> b" and "b \<le> length xs"
  shows "\<exists>ys. copy_within_front a b xs = Inr ys \<and> length ys = length xs \<and> take (b - a) ys = drop a (take b xs)"
  using assms by (simp add: copy_within_front_def slice_range_def drop_take)

lemma discard_refines:
  assumes "deframer_ok d" and "joining_hs d = None" and "n \<le> df_used d"
  obtains d' where "df_discard n d = Inr d'" "deframer_ok d'" "queues_of d' = (queues_of d)\<lparr>q_records := drop n (q_records (queues_of d))\<rparr>"
    "joining_hs d' = None"
proof (cases "n < df_used d")
  case True
  have u: "df_used d \<le> length (df_buf d)" using assms(1) by (simp add: deframer_ok_def)
  from copy_within_front_take [OF assms(3) u] obtain buf where
    b: "copy_within_front n (df_used d) (df_buf d) = Inr buf" "length buf = length (df_buf d)"
       "take (df_used d - n) buf = drop n (take (df_used d) (df_buf d))" by blast
  then show thesis
    using True assms(2) u by (intro that [of "d\<lparr>df_buf := buf, df_used := df_used d - n\<rparr>"])
      (auto simp: df_discard_def deframer_ok_def queues_of_def next_record_def)
next
  case False
  with assms show thesis
    by (intro that [of "d\<lparr>df_used := 0\<rparr>"]) (auto simp: df_discard_def deframer_ok_def queues_of_def next_record_def)
qed

text \<open>Writing behind the joined payload and before the records that follow.\<close>

lemma copy_from_slice_parts:
  assumes "copy_from_slice pos src xs = Inr ys"
  shows "length ys = length xs"
    and "pos + length src \<le> k \<Longrightarrow> drop k (take u ys) = drop k (take u xs)"
    and "a \<le> pos \<Longrightarrow> take (pos + length src - a) (drop a ys) = take (pos - a) (drop a xs) @ src"
proof -
  have p: "pos + length src \<le> length xs" and ys: "ys = take pos xs @ src @ drop (pos + length src) xs"
    using assms by (auto simp: copy_from_slice_def split: if_splits)
  show l: "length ys = length xs" using p ys by simp
  show "drop k (take u ys) = drop k (take u xs)" if "pos + length src \<le> k"
  proof -
    have "drop k ys = drop k xs" using p that by (simp add: ys)
    then show ?thesis by (simp add: drop_take)
  qed
  show "take (pos + length src - a) (drop a ys) = take (pos - a) (drop a xs) @ src" if "a \<le> pos"
    using p that by (simp add: ys drop_take)
qed

lemma payload_size_header: "payload_size bs = Inr (Some n) \<Longrightarrow> HEADER_SIZE \<le> n"
  by (auto simp: payload_size_def split: if_splits sum.splits)

lemma payload_state_queue:
  assumes "used \<le> length buf" and "message_end meta \<le> used"
    and "rest = drop (message_end meta) (take used buf)" and "payload_len meta = length joined"
  shows "(case payload_state meta used of HS_Blocked \<Rightarrow> Pop_Return (Inr None) | HS_Complete len \<Rightarrow> Pop_Break len | HS_Continue \<Rightarrow> Pop_Continue) =
    queue_step (hs_expected_len meta) joined rest"
  using assms by (auto simp: payload_state_def queue_step_def Let_def split: option.splits)

definition step_of :: "Error + HandshakePayloadState \<Rightarrow> pop_step" where
  "step_of r =
     (case r of
        Inl e \<Rightarrow> Pop_Return (Inl e)
      | Inr state \<Rightarrow>
          (case state of HS_Blocked \<Rightarrow> Pop_Return (Inr None) | HS_Complete len \<Rightarrow> Pop_Break len | HS_Continue \<Rightarrow> Pop_Continue))"

lemma append_first_refines:
  assumes ok: "deframer_ok d" and j: "joining_hs d = None"
    and len: "length (pm_payload msg) < end_pos" and e: "end_pos \<le> df_used d"
  shows "\<exists>d' r. append_hs (pm_version msg) (pm_payload msg) end_pos False d = Inr (d', r) \<and> deframer_ok d'
    \<and> queue_append (drop end_pos (take (df_used d) (df_buf d))) msg (queues_of d) = (queues_of d', step_of r)"
proof (cases "payload_size (pm_payload msg)")
  case (Inl err)
  with j ok show ?thesis by (auto simp: append_hs_def queue_append_def queues_of_def step_of_def)
next
  case (Inr expected)
  let ?rest = "drop end_pos (take (df_used d) (df_buf d))"
  have u: "df_used d \<le> length (df_buf d)" using ok by (simp add: deframer_ok_def)
  obtain buf where b: "copy_from_slice 0 (pm_payload msg) (df_buf d) = Inr buf"
    using u len e by (simp add: copy_from_slice_def)
  note parts = copy_from_slice_parts [OF b]
  let ?meta = "\<lparr>message_start = 0, message_end = end_pos, payload_start = 0, payload_end = length (pm_payload msg),
      hs_version = pm_version msg, hs_expected_len = expected, hs_quic = False\<rparr>"
  let ?d = "d\<lparr>df_buf := buf, joining_hs := Some ?meta\<rparr>"
  have a: "append_hs (pm_version msg) (pm_payload msg) end_pos False d = Inr (?d, Inr (payload_state ?meta (df_used d)))"
    using j Inr b by (simp add: append_hs_def Let_def)
  have ok': "deframer_ok ?d"
    using u parts(1) len e Inr payload_size_header by (auto simp: deframer_ok_def meta_ok_def)
  have rest: "drop end_pos (take (df_used d) buf) = ?rest" using parts(2) [of end_pos "df_used d"] len by simp
  have joined: "joined_payload ?d ?meta = pm_payload msg" using parts(3) [of 0] by (simp add: joined_payload_def payload_len_def)
  have "step_of (Inr (payload_state ?meta (df_used d))) = queue_step expected (pm_payload msg) ?rest"
    using payload_state_queue [of "df_used d" buf ?meta ?rest "pm_payload msg"] u parts(1) e rest
    by (simp add: step_of_def payload_len_def)
  then show ?thesis
    using a ok' j Inr rest joined by (auto simp: queue_append_def queues_of_def next_record_def)
qed

lemma append_next_refines:
  assumes ok: "deframer_ok d" and j: "joining_hs d = Some meta"
    and len: "message_end meta + length (pm_payload msg) < end_pos" and e: "end_pos \<le> df_used d"
  shows "\<exists>d' r. append_hs (pm_version msg) (pm_payload msg) end_pos False d = Inr (d', r) \<and> deframer_ok d'
    \<and> queue_append (drop end_pos (take (df_used d) (df_buf d))) msg (queues_of d) = (queues_of d', step_of r)"
proof -
  let ?rest = "drop end_pos (take (df_used d) (df_buf d))" and ?p = "pm_payload msg"
  have u: "df_used d \<le> length (df_buf d)" and m: "meta_ok (df_used d) meta" using ok j by (auto simp: deframer_ok_def)
  note m' = m [unfolded meta_ok_def]
  obtain buf where b: "copy_from_slice (payload_end meta) ?p (df_buf d) = Inr buf"
    using u len e m' by (simp add: copy_from_slice_def)
  note parts = copy_from_slice_parts [OF b]
  let ?meta = "meta\<lparr>message_end := end_pos, payload_end := payload_end meta + length ?p\<rparr>"
  let ?d = "\<lambda>expected. d\<lparr>df_buf := buf, joining_hs := Some (?meta\<lparr>hs_expected_len := expected\<rparr>)\<rparr>"
  let ?joined = "joined_payload d meta @ ?p"
  have rest: "drop end_pos (take (df_used d) buf) = ?rest" using parts(2) [of end_pos "df_used d"] len m' by simp
  have joined: "take (payload_end meta + length ?p - payload_start meta) (drop (payload_start meta) buf) = ?joined"
    using parts(3) [of "payload_start meta"] m' by (simp add: joined_payload_def payload_len_def)
  have l: "payload_len (?meta\<lparr>hs_expected_len := x\<rparr>) = length ?joined" for x
    using m' u by (auto simp: payload_len_def joined_payload_def min_def)
  have okd: "deframer_ok (?d x)" if "\<And>n. x = Some n \<Longrightarrow> HEADER_SIZE \<le> n" for x
    using u parts(1) len e m' that by (auto simp: deframer_ok_def meta_ok_def)
  have q: "queues_of (?d x) = \<lparr>q_error = last_error d, q_joined = Some (?joined, hs_version meta, x), q_records = ?rest\<rparr>" for x
    using rest joined by (simp add: queues_of_def next_record_def joined_payload_def payload_len_def)
  have st: "step_of (Inr (payload_state (?meta\<lparr>hs_expected_len := x\<rparr>) (df_used d))) = queue_step x ?joined ?rest" for x
    using payload_state_queue [of "df_used d" buf "?meta\<lparr>hs_expected_len := x\<rparr>" ?rest ?joined] u parts(1) e rest l
    by (simp add: step_of_def)
  have s: "slice_range (payload_start meta) (payload_end meta + length ?p) buf = Inr ?joined"
    using joined m' u parts(1) len e by (simp add: slice_range_def)
  have qd: "queues_of d = \<lparr>q_error = last_error d, q_joined = Some (joined_payload d meta, hs_version meta, hs_expected_len meta),
      q_records = drop (message_end meta) (take (df_used d) (df_buf d))\<rparr>"
    using j by (simp add: queues_of_def next_record_def)
  show ?thesis
  proof (cases "hs_expected_len meta")
    case (Some n)
    have eq: "?meta = ?meta\<lparr>hs_expected_len := Some n\<rparr>" using Some by simp
    have a: "append_hs (pm_version msg) ?p end_pos False d = Inr (?d (Some n), Inr (payload_state (?meta\<lparr>hs_expected_len := Some n\<rparr>) (df_used d)))"
      using j m' b Some unfolding eq [symmetric] by (simp add: append_hs_def Let_def)
    have "queue_append ?rest msg (queues_of d) = (queues_of (?d (Some n)), step_of (Inr (payload_state (?meta\<lparr>hs_expected_len := Some n\<rparr>) (df_used d))))"
      unfolding q st using Some by (simp add: queue_append_def qd Let_def)
    with a okd [of "Some n"] Some m' show ?thesis by blast
  next
    case None
    show ?thesis
    proof (cases "payload_size ?joined")
      case (Inl err)
      have "append_hs (pm_version msg) ?p end_pos False d = Inr (?d None, Inl err)"
        using j m' b None s Inl by (simp add: append_hs_def Let_def)
      with okd [of None] q None Inl show ?thesis by (simp add: queue_append_def qd step_of_def Let_def)
    next
      case (Inr x)
      have a: "append_hs (pm_version msg) ?p end_pos False d = Inr (?d x, Inr (payload_state (?meta\<lparr>hs_expected_len := x\<rparr>) (df_used d)))"
        using j m' b None s Inr by (simp add: append_hs_def Let_def)
      have "queue_append ?rest msg (queues_of d) = (queues_of (?d x), step_of (Inr (payload_state (?meta\<lparr>hs_expected_len := x\<rparr>) (df_used d))))"
        unfolding q st using None Inr by (simp add: queue_append_def qd Let_def)
      with a okd [of x] Inr payload_size_header show ?thesis by blast
    qed
  qed
qed

lemma append_refines:
  assumes "deframer_ok d" and "next_record d + length (pm_payload msg) < end_pos" and "end_pos \<le> df_used d"
  shows "\<exists>d' r. append_hs (pm_version msg) (pm_payload msg) end_pos False d = Inr (d', r) \<and> deframer_ok d'
    \<and> queue_append (drop end_pos (take (df_used d) (df_buf d))) msg (queues_of d) = (queues_of d', step_of r)"
  using append_first_refines [of d msg end_pos] append_next_refines [of d _ msg end_pos] assms
  by (cases "joining_hs d") (simp_all add: next_record_def)

lemma refines_step_Inr [simp]: "refines_step (Inr (d, x)) (Inr (q, y)) \<longleftrightarrow> refines d q \<and> x = y"
  by (simp add: refines_step_def)

lemma refines_step_Inl [simp]: "refines_step (Inl p) (Inl p)"
  by (simp add: refines_step_def)

lemma refines_step_cases:
  assumes "refines_step x y"
  obtains (panic) p where "x = Inl p" "y = Inl p" | (result) d q a where "x = Inr (d, a)" "y = Inr (q, a)" "refines d q"
  using assms unfolding refines_step_def by (cases x; cases y) auto

lemma refines_step_bind:
  assumes "refines_step x y" and "\<And>d q a. refines d q \<Longrightarrow> refines_step (f (d, a)) (g (q, a))"
  shows "refines_step (res_bind x f) (res_bind y g)"
  using assms(1) by (cases rule: refines_step_cases) (simp_all add: assms(2) res_simps)

lemma refines_discard:
  assumes "deframer_ok d" and "joining_hs d = None" and "n \<le> df_used d"
  shows "\<exists>d'. df_discard n d = Inr d' \<and> refines d' ((queues_of d)\<lparr>q_records := drop n (take (df_used d) (df_buf d))\<rparr>)"
proof -
  from discard_refines [OF assms] obtain d' where "df_discard n d = Inr d'" "deframer_ok d'"
    "queues_of d' = (queues_of d)\<lparr>q_records := drop n (q_records (queues_of d))\<rparr>" by blast
  moreover have "q_records (queues_of d) = take (df_used d) (df_buf d)" using assms(2) by (simp add: queues_of_def next_record_def)
  ultimately show ?thesis by (simp add: refines_def)
qed

lemma queues_of_joined [simp]: "q_joined (queues_of d) = None \<longleftrightarrow> joining_hs d = None"
  by (simp add: queues_of_def)

lemma refines_error: "deframer_ok d \<Longrightarrow> refines (d\<lparr>last_error := Some e\<rparr>) ((queues_of d)\<lparr>q_error := Some e\<rparr>)"
  by (simp add: refines_def deframer_ok_def queues_of_def next_record_def joined_payload_def)

lemma pop_plain_refines:
  assumes "deframer_ok d" and "next_record d + length (pm_payload msg) < end_pos" and "end_pos \<le> df_used d"
  shows "refines_step (pop_plain end_pos msg d) (Inr (queue_plain (drop end_pos (take (df_used d) (df_buf d))) msg (queues_of d)))"
proof (cases "pm_typ msg = CT_Handshake")
  case True
  from append_refines [OF assms] obtain d' r where
    "append_hs (pm_version msg) (pm_payload msg) end_pos False d = Inr (d', r)" "deframer_ok d'"
    "queue_append (drop end_pos (take (df_used d) (df_buf d))) msg (queues_of d) = (queues_of d', step_of r)" by blast
  with True show ?thesis by (simp add: pop_plain_def queue_plain_def res_simps refines_def step_of_def)
next
  case False
  then show ?thesis
    using refines_discard [OF assms(1) _ assms(3)] refines_error [OF assms(1)]
    by (cases "joining_hs d") (auto simp: pop_plain_def queue_plain_def res_simps set_err_def Let_def)
qed

lemma decrypt_incoming_shorter:
  assumes "aead_ok L" and "decrypt_incoming L m rl = Inr (rl', Inr (Some (c, msg)))"
  shows "length (pm_payload msg) \<le> length (om_payload m)"
  using assms decrypt_shorter [OF assms(1), of "message_decrypter rl" m "read_seq rl"]
  by (auto simp: decrypt_incoming_def into_plain_message_def Let_def split: if_split_asm sum.split_asm prod.split_asm)

lemma pop_opaque_refines:
  assumes ok: "deframer_ok d" and L: "aead_ok L" and len: "next_record d + length (om_payload m) < end_pos" and e: "end_pos \<le> df_used d"
  shows "refines_step (pop_opaque L end_pos m d rl) (queue_opaque L (drop end_pos (take (df_used d) (df_buf d))) m (queues_of d) rl)"
proof (cases "om_typ m = CT_ChangeCipherSpec \<and> joining_hs d = None")
  case True
  with refines_discard [OF ok _ e] show ?thesis by (auto simp: pop_opaque_def queue_opaque_def res_simps)
next
  case False
  show ?thesis
  proof (cases "decrypt_incoming L m rl")
    case (Inl p)
    with False show ?thesis by (auto simp: pop_opaque_def queue_opaque_def res_simps)
  next
    case (Inr r)
    obtain rl' x where r: "r = (rl', x)" by (cases r)
    consider (err) err where "x = Inl err" | (none) "x = Inr None" | (msg) c msg where "x = Inr (Some (c, msg))"
      by (cases x) (auto, metis option.exhaust surj_pair)
    then show ?thesis
    proof cases
      case err
      with False Inr r ok show ?thesis by (auto simp: pop_opaque_def queue_opaque_def res_simps refines_def)
    next
      case none
      with False Inr r refines_discard [OF ok _ e] refines_error [OF ok] show ?thesis
        by (cases "joining_hs d") (auto simp: pop_opaque_def queue_opaque_def res_simps set_err_def Let_def)
    next
      case msg
      have "length (pm_payload msg) \<le> length (om_payload m)" using decrypt_incoming_shorter [OF L] Inr r msg by blast
      then have "refines_step (pop_plain end_pos msg d) (Inr (queue_plain (drop end_pos (take (df_used d) (df_buf d))) msg (queues_of d)))"
        using pop_plain_refines [OF ok _ e] len by simp
      then have "refines_step (res_bind (pop_plain end_pos msg d) (\<lambda>(d, step). Inr (d, rl', step)))
          (res_bind (Inr (queue_plain (drop end_pos (take (df_used d) (df_buf d))) msg (queues_of d))) (\<lambda>(q, step). Inr (q, rl', step)))"
        by (rule refines_step_bind) simp
      with False Inr r msg show ?thesis
        by (auto simp: pop_opaque_def queue_opaque_def res_simps Let_def split: prod.splits)
    qed
  qed
qed

lemma next_record_used: "deframer_ok d \<Longrightarrow> next_record d \<le> df_used d"
  by (auto simp: deframer_ok_def meta_ok_def next_record_def split: option.split)

lemma pop_record_refines:
  assumes ok: "deframer_ok d" and L: "aead_ok L"
  shows "refines_step (pop_record L (next_record d) d rl)
    (case OpaqueMessage_read (Reader_init (q_records (queues_of d))) of
       Inl msg_err \<Rightarrow>
         (case invalid_message msg_err of
            None \<Rightarrow> Inr (queues_of d, rl, Pop_Return (Inr None))
          | Some err_kind \<Rightarrow>
              (let e = Error_InvalidMessage err_kind in Inr ((queues_of d)\<lparr>q_error := Some e\<rparr>, rl, Pop_Return (Inl e))))
     | Inr (m, rd) \<Rightarrow> queue_opaque L (drop (rd_used rd) (q_records (queues_of d))) m (queues_of d) rl)"
proof -
  let ?bs = "drop (next_record d) (take (df_used d) (df_buf d))"
  have u: "df_used d \<le> length (df_buf d)" using ok by (simp add: deframer_ok_def)
  have q: "q_records (queues_of d) = ?bs" by (simp add: queues_of_def)
  have s: "slice_range (next_record d) (df_used d) (df_buf d) = Inr ?bs"
    using next_record_used [OF ok] u by (simp add: slice_range_def drop_take)
  show ?thesis
  proof (cases "OpaqueMessage_read (Reader_init ?bs)")
    case (Inl e)
    with s ok refines_error [OF ok] show ?thesis
      by (auto simp: pop_record_def res_simps q set_err_def Let_def refines_def split: option.split)
  next
    case (Inr r)
    obtain m rd where r: "r = (m, rd)" by (cases r)
    note rec = record_read [OF Inr [unfolded r]]
    have "refines_step (pop_opaque L (next_record d + rd_used rd) m d rl)
        (queue_opaque L (drop (next_record d + rd_used rd) (take (df_used d) (df_buf d))) m (queues_of d) rl)"
      using rec(4,5) u by (intro pop_opaque_refines ok L) auto
    moreover have "drop (next_record d + rd_used rd) (take (df_used d) (df_buf d)) = drop (rd_used rd) ?bs"
      by (simp add: add.commute)
    ultimately show ?thesis using s Inr r by (simp add: pop_record_def res_simps q)
  qed
qed

lemma joined_payload_length: "deframer_ok d \<Longrightarrow> joining_hs d = Some meta \<Longrightarrow> length (joined_payload d meta) = payload_len meta"
  by (auto simp: deframer_ok_def meta_ok_def joined_payload_def payload_len_def)

lemma pop_round_refines:
  assumes "refines d q" and L: "aead_ok L"
  shows "refines_step (pop_round L d rl) (queue_round L q rl)"
proof -
  have ok: "deframer_ok d" and q: "q = queues_of d" using assms(1) by (auto simp: refines_def)
  note rec = pop_record_refines [OF ok L, of rl, folded q]
  show ?thesis
  proof (cases "joining_hs d")
    case None
    then have "q_joined q = None" by (simp add: q)
    then show ?thesis
      using rec None by (simp add: pop_round_next queue_round_def)
  next
    case (Some meta)
    have j: "q_joined q = Some (joined_payload d meta, hs_version meta, hs_expected_len meta)" using Some by (simp add: q queues_of_def)
    have nq: "\<not> hs_quic meta" using ok Some by (auto simp: deframer_ok_def meta_ok_def)
    show ?thesis
      using rec Some nq j joined_payload_length [OF ok Some] assms(1)
      by (cases "hs_expected_len meta") (simp_all add: pop_round_next queue_round_def)
  qed
qed

lemma queue_append_breaks:
  "queue_append rest msg q = (q', Pop_Break n) \<Longrightarrow> \<exists>joined v. q_joined q' = Some (joined, v, Some n) \<and> n \<le> length joined"
  by (auto simp: queue_append_def queue_step_def Let_def split: option.split_asm sum.split_asm if_split_asm)

lemma queue_round_breaks:
  assumes "queue_round L q rl = Inr (q', rl', Pop_Break n)"
  shows "\<exists>joined v. q_joined q' = Some (joined, v, Some n) \<and> n \<le> length joined"
proof (cases "case q_joined q of Some (joined, _, Some len) \<Rightarrow> len \<le> length joined | _ \<Rightarrow> False")
  case True
  with assms show ?thesis by (auto simp: queue_round_def split: option.split_asm)
next
  case False
  with assms obtain m rest where "queue_opaque L rest m q rl = Inr (q', rl', Pop_Break n)"
    by (auto simp: queue_round_def Let_def split: sum.split_asm option.split_asm)
  then show ?thesis
    by (auto simp: queue_opaque_def queue_plain_def Let_def elim!: res_bind_InrE dest!: queue_append_breaks
        split: if_split_asm option.split_asm sum.split_asm prod.split_asm)
qed

lemma pop_joined_refines:
  assumes "refines d q" and "q_joined q = Some (joined, v, Some n)" and "n \<le> length joined"
  shows "refines_step (pop_joined n d) (queue_message n q)"
proof -
  have ok: "deframer_ok d" and q: "q = queues_of d" using assms(1) by (auto simp: refines_def)
  from assms(2) obtain meta where meta: "joining_hs d = Some meta" "joined = joined_payload d meta" "v = hs_version meta" "hs_expected_len meta = Some n"
    by (auto simp: q queues_of_def)
  have m: "payload_start meta \<le> payload_end meta" "payload_end meta \<le> message_end meta" "0 < message_end meta" "message_end meta \<le> df_used d"
    "\<not> hs_quic meta" "HEADER_SIZE \<le> n" and u: "df_used d \<le> length (df_buf d)"
    using ok meta by (auto simp: deframer_ok_def meta_ok_def)
  have len: "length joined = payload_len meta" using joined_payload_length [OF ok meta(1)] meta(2) by simp
  have s: "slice_range (payload_start meta) (payload_start meta + n) (df_buf d) = Inr (take n joined)"
    using m u len assms(3) by (simp add: slice_range_def meta(2) joined_payload_def payload_len_def min_def)
  show ?thesis
  proof (cases "n < length joined")
    case True
    let ?meta = "meta\<lparr>payload_start := payload_start meta + n\<rparr>"
    have rest: "slice_range (payload_start meta + n) (payload_end meta) (df_buf d) = Inr (drop n joined)"
      using m u len True by (simp add: slice_range_def meta(2) joined_payload_def payload_len_def drop_take add.commute)
    have ok': "deframer_ok (d\<lparr>joining_hs := Some (?meta\<lparr>hs_expected_len := x\<rparr>)\<rparr>)" if "\<And>k. x = Some k \<Longrightarrow> HEADER_SIZE \<le> k" for x
      using m u len True that by (auto simp: deframer_ok_def meta_ok_def payload_len_def)
    have q': "queues_of (d\<lparr>joining_hs := Some (?meta\<lparr>hs_expected_len := x\<rparr>)\<rparr>) = q\<lparr>q_joined := Some (drop n joined, v, x)\<rparr>" for x
      using meta m u by (simp add: q queues_of_def next_record_def joined_payload_def payload_len_def drop_take add.commute)
    have eq: "?meta = ?meta\<lparr>hs_expected_len := Some n\<rparr>" using meta(4) by simp
    have r: "refines (d\<lparr>joining_hs := Some (?meta\<lparr>hs_expected_len := x\<rparr>)\<rparr>) (q\<lparr>q_joined := Some (drop n joined, v, x)\<rparr>)"
      if "\<And>k. x = Some k \<Longrightarrow> HEADER_SIZE \<le> k" for x
      using ok' q' that by (simp add: refines_def)
    show ?thesis
    proof (cases "payload_size (drop n joined)")
      case (Inl e)
      have "refines (d\<lparr>joining_hs := Some ?meta\<rparr>) (q\<lparr>q_joined := Some (drop n joined, v, Some n)\<rparr>)"
        using r [of "Some n"] m(6) unfolding eq [symmetric] by blast
      then show ?thesis using Inl s rest True len meta assms(2)
        by (simp add: pop_joined_def queue_message_def unwrap_def res_simps Let_def)
    next
      case (Inr x)
      have "refines (d\<lparr>joining_hs := Some (?meta\<lparr>hs_expected_len := x\<rparr>)\<rparr>) (q\<lparr>q_joined := Some (drop n joined, v, x)\<rparr>)"
        using payload_size_header [of "drop n joined"] Inr by (intro r) simp
      then show ?thesis using Inr s rest True len meta assms(2)
        by (simp add: pop_joined_def queue_message_def unwrap_def res_simps Let_def)
    qed
  next
    case False
    let ?d = "d\<lparr>joining_hs := None\<rparr>"
    have "deframer_ok ?d" using u by (simp add: deframer_ok_def)
    from refines_discard [OF this, of "message_end meta"] m obtain d' where
      d': "df_discard (message_end meta) ?d = Inr d'" "refines d' ((queues_of ?d)\<lparr>q_records := drop (message_end meta) (take (df_used d) (df_buf d))\<rparr>)"
      by auto
    moreover have "(queues_of ?d)\<lparr>q_records := drop (message_end meta) (take (df_used d) (df_buf d))\<rparr> = q\<lparr>q_joined := None\<rparr>"
      using meta(1) by (simp add: q queues_of_def next_record_def)
    moreover have "joining_hs d' = None" using df_discard_Inr [OF d'(1)] m by simp
    ultimately show ?thesis using False s len meta assms(2)
      by (simp add: pop_joined_def queue_message_def unwrap_def res_simps Let_def)
  qed
qed

lemma pop_loop_refines:
  assumes "refines d q" and "aead_ok L"
  shows "refines_step (pop_loop L d rl) (queue_loop L q rl)"
  using assms
proof (induction L d rl arbitrary: q rule: pop_loop.induct)
  case (1 L d rl)
  from pop_round_refines [OF "1.prems", of rl] show ?case
  proof (cases rule: refines_step_cases)
    case (panic p)
    then show ?thesis by (simp add: pop_loop.simps [of L d] queue_loop.simps [of L q])
  next
    case (result d' q' a)
    obtain rl' step where a: "a = (rl', step)" by (cases a)
    show ?thesis
    proof (cases step)
      case Pop_Continue
      then have "refines_step (pop_loop L d' rl') (queue_loop L q' rl')"
        using "1.IH" [of "(d', rl', Pop_Continue)" d' "(rl', Pop_Continue)" rl' Pop_Continue q'] result "1.prems"(2) a by simp
      with Pop_Continue result a show ?thesis by (simp add: pop_loop.simps [of L d] queue_loop.simps [of L q])
    next
      case (Pop_Break n)
      with result a queue_round_breaks obtain joined v where "q_joined q' = Some (joined, v, Some n)" "n \<le> length joined" by blast
      then have "refines_step (res_bind (pop_joined n d') (\<lambda>(d, r). Inr (d, rl', r))) (res_bind (queue_message n q') (\<lambda>(q, r). Inr (q, rl', r)))"
        using pop_joined_refines [OF result(3)] by (intro refines_step_bind) auto
      with Pop_Break result a show ?thesis by (simp add: pop_loop.simps [of L d] queue_loop.simps [of L q])
    next
      case Pop_Return
      with result a show ?thesis by (simp add: pop_loop.simps [of L d] queue_loop.simps [of L q])
    qed
  qed
qed

lemma OpaqueMessage_read_Nil: "OpaqueMessage_read (Reader_init []) = Inl ME_TooShortForHeader"
  by (simp add: OpaqueMessage_read_def ContentType_read_def u8_read_def rd_bind_def rd_take_def rd_left_def Reader_init_def)

lemma queue_loop_nothing:
  assumes "q_joined q = None" and "q_records q = []"
  shows "queue_loop L q rl = Inr (q, rl, Inr None)"
proof -
  have "queue_round L q rl = Inr (q, rl, Pop_Return (Inr None))"
    using assms unfolding queue_round_def by (simp add: OpaqueMessage_read_Nil invalid_message_def)
  then show ?thesis by (subst queue_loop.simps) simp
qed

lemma pop_refines:
  assumes "refines d q" and "aead_ok L"
  shows "refines_step (deframer_pop L d rl) (queue_pop L q rl)"
proof -
  have e: "q_error q = last_error d" using assms(1) by (simp add: refines_def queues_of_def)
  have "joining_hs d = None" if "df_used d = 0" using assms(1) that by (cases "joining_hs d") (auto simp: refines_def deframer_ok_def meta_ok_def)
  then have "queue_loop L q rl = Inr (q, rl, Inr None)" if "df_used d = 0"
    using that assms(1) by (intro queue_loop_nothing) (simp_all add: refines_def queues_of_def)
  with pop_loop_refines [OF assms, of rl] e assms(1) show ?thesis
    by (simp add: deframer_pop_def queue_pop_def split: option.split)
qed

section \<open>Reading\<close>

lemma grow_refines:
  assumes ok: "deframer_ok d" and u: "df_used d \<le> used" "used \<le> length buf" and keep: "take (df_used d) buf = take (df_used d) (df_buf d)"
  shows "refines (d\<lparr>df_buf := buf, df_used := used\<rparr>)
    ((queues_of d)\<lparr>q_records := q_records (queues_of d) @ drop (df_used d) (take used buf)\<rparr>)"
proof -
  let ?d = "d\<lparr>df_buf := buf, df_used := used\<rparr>"
  have "joined_payload ?d meta = joined_payload d meta" if "joining_hs d = Some meta" for meta
  proof -
    have m: "payload_start meta \<le> payload_end meta" "payload_end meta \<le> df_used d"
      using ok that by (auto simp: deframer_ok_def meta_ok_def)
    have "joined_payload x meta = drop (payload_start meta) (take (payload_end meta) (take (df_used d) (df_buf x)))" for x
      using m by (simp add: joined_payload_def payload_len_def drop_take min_def)
    from this [of ?d] this [of d] keep show ?thesis by (simp del: take_take)
  qed
  moreover have "take used buf = take (df_used d) (df_buf d) @ drop (df_used d) (take used buf)"
    using u keep by (metis append_take_drop_id min.absorb1 take_take)
  then have "drop (next_record d) (take used buf) = drop (next_record d) (take (df_used d) (df_buf d)) @ drop (df_used d) (take used buf)"
    using next_record_used [OF ok] ok by (metis deframer_ok_def drop_append diff_is_0_eq drop_0 length_take min.absorb2)
  moreover have "deframer_ok ?d" using ok u by (auto simp: deframer_ok_def meta_ok_def)
  ultimately show ?thesis
    by (cases "joining_hs d") (auto simp: refines_def queues_of_def next_record_def)
qed

lemma length_vec_resize [simp]: "length (vec_resize n xs) = n"
  by (simp add: vec_resize_def)

lemma prepare_read_keeps:
  assumes "deframer_ok d" and "prepare_read d = Inr d'"
  shows "\<exists>buf. d' = d\<lparr>df_buf := buf\<rparr> \<and> df_used d < length buf \<and> take (df_used d) buf = take (df_used d) (df_buf d)"
proof -
  let ?max = "case joining_hs d of Some _ \<Rightarrow> unat MAX_HANDSHAKE_SIZE | None \<Rightarrow> MAX_WIRE_SIZE"
  let ?need = "min ?max (df_used d + READ_SIZE)"
  have lt: "df_used d < ?max" using assms(2) by (auto simp: prepare_read_def Let_def split: if_split_asm)
  have need: "df_used d < ?need" using lt by (simp add: READ_SIZE_def)
  have u: "df_used d \<le> length (df_buf d)" using assms(1) by (simp add: deframer_ok_def)
  from assms(2) lt have "d' = d\<lparr>df_buf := vec_resize ?need (df_buf d)\<rparr> \<or> d' = d \<and> ?need \<le> length (df_buf d)"
    unfolding prepare_read_def Let_def by (auto split: if_split_asm)
  then show ?thesis
  proof
    assume "d' = d\<lparr>df_buf := vec_resize ?need (df_buf d)\<rparr>"
    moreover have "df_used d < length (vec_resize ?need (df_buf d))" using need by simp
    moreover have "take (df_used d) (vec_resize ?need (df_buf d)) = take (df_used d) (df_buf d)"
      using need u by (simp add: vec_resize_def min_def)
    ultimately show ?thesis by blast
  next
    assume "d' = d \<and> ?need \<le> length (df_buf d)"
    then have "df_used d < length (df_buf d)" using need by (meson less_le_trans)
    with \<open>d' = d \<and> _\<close> show ?thesis by (intro exI [of _ "df_buf d"]) simp
  qed
qed

text \<open>
  A read moves some bytes from the front of the deque to the end of the records; if it does not fail,
  then it takes at least one byte of a deque that has any.
\<close>

lemma read_refines:
  assumes ok: "deframer_ok d" and front: "front rd \<le> length rd"
  obtains d' taken rest r where "deframer_read front d rd = Inr (d', rest, r)" "rd = taken @ rest"
    "refines d' ((queues_of d)\<lparr>q_records := q_records (queues_of d) @ taken\<rparr>)"
    "(\<exists>e. r = Inl e \<and> taken = []) \<or> r = Inr (length taken) \<and> (taken = [] \<longrightarrow> front rd = 0)"
proof (cases "prepare_read d")
  case (Inl e)
  with ok show thesis by (intro that [of d rd "Inl e" "[]"]) (simp_all add: deframer_read_def refines_def)
next
  case (Inr d1)
  from prepare_read_keeps [OF ok Inr] obtain buf where d1: "d1 = d\<lparr>df_buf := buf\<rparr>" and lt: "df_used d < length buf"
    and keep: "take (df_used d) buf = take (df_used d) (df_buf d)" by blast
  let ?n = "min (length buf - df_used d) (front rd)"
  let ?buf = "take (df_used d) buf @ take ?n rd @ drop (df_used d + ?n) buf"
  have len: "length (take ?n rd) = ?n" using front by simp
  have copy: "copy_from_slice (df_used d) (take ?n rd) buf = Inr ?buf" using lt len by (simp add: copy_from_slice_def)
  have read: "deframer_read front d rd = Inr (d\<lparr>df_buf := ?buf, df_used := df_used d + ?n\<rparr>, drop ?n rd, Inr ?n)"
    using lt copy by (simp add: deframer_read_def Inr d1 slice_range_def res_simps Let_def)
  have "refines (d\<lparr>df_buf := ?buf, df_used := df_used d + ?n\<rparr>)
      ((queues_of d)\<lparr>q_records := q_records (queues_of d) @ drop (df_used d) (take (df_used d + ?n) ?buf)\<rparr>)"
    using lt len by (intro grow_refines [OF ok]) (simp_all add: keep [symmetric])
  moreover have "drop (df_used d) (take (df_used d + ?n) ?buf) = take ?n rd" using lt len by simp
  ultimately show thesis
    using read len lt by (intro that [of _ "drop ?n rd" "Inr ?n" "take ?n rd"]) auto
qed

section \<open>Progress\<close>

definition queued_bytes :: "hs_queues \<Rightarrow> nat" where
  "queued_bytes q = (case q_joined q of Some (joined, _) \<Rightarrow> length joined | None \<Rightarrow> 0) + length (q_records q)"

definition expects_bytes :: "hs_queues \<Rightarrow> bool" where
  "expects_bytes q \<longleftrightarrow> (\<forall>joined v n. q_joined q = Some (joined, v, Some n) \<longrightarrow> 0 < n)"

lemma refines_expects: "refines d q \<Longrightarrow> expects_bytes q"
  by (auto simp: refines_def expects_bytes_def queues_of_def deframer_ok_def meta_ok_def HEADER_SIZE_def)

lemma payload_size_pos: "payload_size bs = Inr (Some n) \<Longrightarrow> 0 < n"
  using payload_size_header [of bs n] by (simp add: HEADER_SIZE_def)

lemma queue_append_bytes:
  assumes "queue_append rest msg q = (q', step)"
  shows "q' = q \<and> (\<exists>e. step = Pop_Return (Inl e))
    \<or> queued_bytes q' = (case q_joined q of Some (joined, _) \<Rightarrow> length joined | None \<Rightarrow> 0) + length (pm_payload msg) + length rest"
    and "expects_bytes q \<Longrightarrow> expects_bytes q'"
  using assms payload_size_pos
  by (auto simp: queue_append_def queued_bytes_def expects_bytes_def Let_def split: option.split_asm sum.split_asm if_split_asm prod.split_asm)

lemma queue_plain_bytes:
  assumes "queue_plain rest msg q = (q', step)" and "length (pm_payload msg) + length rest < length (q_records q)"
  shows "queued_bytes q' < queued_bytes q \<or> queued_bytes q' = queued_bytes q \<and> (\<exists>e. step = Pop_Return (Inl e))"
    and "expects_bytes q \<Longrightarrow> expects_bytes q'"
proof -
  show "queued_bytes q' < queued_bytes q \<or> queued_bytes q' = queued_bytes q \<and> (\<exists>e. step = Pop_Return (Inl e))"
  proof (cases "pm_typ msg = CT_Handshake")
    case True
    with assms queue_append_bytes(1) [of rest msg q q' step] show ?thesis
      by (auto simp: queue_plain_def queued_bytes_def)
  next
    case False
    with assms show ?thesis by (auto simp: queue_plain_def queued_bytes_def Let_def split: if_split_asm)
  qed
  show "expects_bytes q'" if "expects_bytes q"
    using assms(1) that queue_append_bytes(2) [of rest msg q q' step]
    by (auto simp: queue_plain_def expects_bytes_def Let_def split: if_split_asm)
qed

lemma queue_round_bytes:
  assumes L: "aead_ok L" and r: "queue_round L q rl = Inr (q', rl', step)" and e: "expects_bytes q"
  shows "queued_bytes q' \<le> queued_bytes q \<and> expects_bytes q' \<and> (\<forall>m. step = Pop_Return (Inr (Some m)) \<longrightarrow> queued_bytes q' < queued_bytes q)"
proof (cases "(case q_joined q of Some (joined, _, Some len) \<Rightarrow> len \<le> length joined | _ \<Rightarrow> False)
    \<or> (\<exists>err. OpaqueMessage_read (Reader_init (q_records q)) = Inl err)")
  case True
  with r e show ?thesis
    by (auto simp: queue_round_def queued_bytes_def expects_bytes_def Let_def split: if_split_asm option.split_asm)
next
  case False
  then obtain m rd where m: "OpaqueMessage_read (Reader_init (q_records q)) = Inr (m, rd)"
    by (cases "OpaqueMessage_read (Reader_init (q_records q))") auto
  let ?rest = "drop (rd_used rd) (q_records q)"
  have o: "queue_opaque L ?rest m q rl = Inr (q', rl', step)" using False r m by (simp add: queue_round_def)
  have len: "length (om_payload m) + length ?rest < length (q_records q)" using record_read(4,5) [OF m] by simp
  show ?thesis
  proof (cases "\<exists>msg. decrypt_incoming L m rl = Inr (rl', Inr (Some (False, msg))) \<and> queue_plain ?rest msg q = (q', step)")
    case True
    then obtain msg where d: "decrypt_incoming L m rl = Inr (rl', Inr (Some (False, msg)))" "queue_plain ?rest msg q = (q', step)" by blast
    have "length (pm_payload msg) + length ?rest < length (q_records q)" using decrypt_incoming_shorter [OF L d(1)] len by simp
    from queue_plain_bytes [OF d(2) this] e show ?thesis by auto
  next
    case False
    with o have "step \<noteq> Pop_Return (Inr None) \<and> q' = q\<lparr>q_records := ?rest\<rparr>
        \<or> (\<exists>e. step = Pop_Return (Inl e)) \<and> q_joined q' = q_joined q \<and> q_records q' = q_records q"
      by (auto simp: queue_opaque_def Let_def elim!: res_bind_InrE split: if_split_asm option.split_asm sum.split_asm prod.split_asm)
    with len e show ?thesis by (auto simp: queued_bytes_def expects_bytes_def dest!: sym [of "Some _"])
  qed
qed

lemma queue_message_bytes:
  assumes "queue_message n q = Inr (q', r)" and "q_joined q = Some (joined, v, Some n)" and "n \<le> length joined" and "0 < n"
  shows "queued_bytes q' < queued_bytes q"
  using assms by (auto simp: queue_message_def unwrap_def queued_bytes_def res_simps Let_def split: if_split_asm sum.split_asm)

lemma queue_loop_bytes:
  assumes "aead_ok L" and "queue_loop L q rl = Inr (q', rl', r)" and "expects_bytes q"
  shows "queued_bytes q' \<le> queued_bytes q \<and> (\<forall>m. r = Inr (Some m) \<longrightarrow> queued_bytes q' < queued_bytes q)"
  using assms
proof (induction L q rl arbitrary: q' rl' r rule: queue_loop.induct)
  case (1 L q rl)
  from "1.prems"(2) obtain q1 rl1 step where s: "queue_round L q rl = Inr (q1, rl1, step)"
    by (subst (asm) queue_loop.simps) (auto split: sum.split_asm)
  note b = queue_round_bytes [OF "1.prems"(1) s "1.prems"(3)]
  show ?case
  proof (cases step)
    case Pop_Continue
    then have "queue_loop L q1 rl1 = Inr (q', rl', r)" using "1.prems"(2) s by (subst (asm) queue_loop.simps) simp
    with "1.IH" [of "(q1, rl1, Pop_Continue)" q1 "(rl1, Pop_Continue)" rl1 Pop_Continue q' rl' r] s Pop_Continue b "1.prems"(1)
    show ?thesis by fastforce
  next
    case (Pop_Break n)
    then have m: "queue_message n q1 = Inr (q', r)" using "1.prems"(2) s by (subst (asm) queue_loop.simps) (auto simp: res_bind_Inr_iff)
    obtain joined v where j: "q_joined q1 = Some (joined, v, Some n)" "n \<le> length joined"
      using queue_round_breaks s Pop_Break by blast
    then have "0 < n" using b by (auto simp: expects_bytes_def)
    with queue_message_bytes [OF m j] b show ?thesis by simp
  next
    case (Pop_Return x)
    with "1.prems"(2) s b show ?thesis by (subst (asm) queue_loop.simps) auto
  qed
qed

section \<open>Panics\<close>

text \<open>
  The deframer panics only where the record layer does: after so many records that its sequence
  number reaches the limit at which a connection is to be closed.
\<close>

lemma decrypt_incoming_returns:
  assumes "unat (read_seq rl) < unat SEQ_SOFT_LIMIT"
  obtains rl' x where "decrypt_incoming L m rl = Inr (rl', x)" "unat (read_seq rl') \<le> unat (read_seq rl) + 1"
    "\<forall>c msg. x = Inr (Some (c, msg)) \<longrightarrow> \<not> c"
proof -
  have s: "read_seq rl \<noteq> SEQ_SOFT_LIMIT" using assms by auto
  have "read_seq rl \<noteq> - 1" using assms unfolding word_less_nat_alt [symmetric] by (auto dest: word_order.extremum_strict [THEN notE])
  then have n: "unat (read_seq rl + 1) = unat (read_seq rl) + 1" by (subst add.commute, subst unatSuc) (auto simp: eq_neg_iff_add_eq_0 add.commute)
  show thesis
  proof (cases "decrypt_state rl = Dir_Active")
    case False
    then show thesis by (intro that [of rl "Inr (Some (False, into_plain_message m))"]) (simp_all add: decrypt_incoming_def)
  next
    case True
    show thesis
    proof (cases "decrypt L (message_decrypter rl) m (read_seq rl)")
      case (Inr p)
      with True s n \<open>read_seq rl \<noteq> - 1\<close> show thesis
        by (intro that [of "rl\<lparr>read_seq := read_seq rl + 1\<rparr>" "Inr (Some (False, p))"]) (simp_all add: decrypt_incoming_def)
    next
      case (Inl e)
      obtain rl1 t where t: "doing_trial_decryption (length (om_payload m)) rl = (rl1, t)" by (cases "doing_trial_decryption (length (om_payload m)) rl")
      then have "read_seq rl1 = read_seq rl" by (auto simp: doing_trial_decryption_def split: option.split_asm if_split_asm)
      with Inl True t show thesis
        by (intro that [of "if e = DecryptError then rl1 else rl" "if e = DecryptError \<and> t then Inr None else Inl e"])
          (simp_all add: decrypt_incoming_def split: if_split_asm)
    qed
  qed
qed

lemma queue_round_returns:
  assumes "unat (read_seq rl) < unat SEQ_SOFT_LIMIT"
  obtains q' rl' step where "queue_round L q rl = Inr (q', rl', step)" "unat (read_seq rl') \<le> unat (read_seq rl) + 1"
proof -
  have o: "\<exists>q' rl' step. queue_opaque L rest m q rl = Inr (q', rl', step) \<and> unat (read_seq rl') \<le> unat (read_seq rl) + 1" for rest m
  proof -
    obtain rl' x where "decrypt_incoming L m rl = Inr (rl', x)" "unat (read_seq rl') \<le> unat (read_seq rl) + 1"
      "\<forall>c msg. x = Inr (Some (c, msg)) \<longrightarrow> \<not> c"
      by (rule decrypt_incoming_returns [OF assms, of L m])
    then show ?thesis
      by (cases x) (auto simp: queue_opaque_def res_simps Let_def split: option.split prod.split)
  qed
  have "\<exists>q' rl' step. queue_round L q rl = Inr (q', rl', step) \<and> unat (read_seq rl') \<le> unat (read_seq rl) + 1"
    using o by (auto simp: queue_round_def Let_def split: sum.split option.split)
  then show thesis using that by blast
qed

lemma queue_loop_returns:
  assumes "unat (read_seq rl) + length (q_records q) < unat SEQ_SOFT_LIMIT"
  shows "\<exists>x. queue_loop L q rl = Inr x"
  using assms
proof (induction L q rl rule: queue_loop.induct)
  case (1 L q rl)
  have "unat (read_seq rl) < unat SEQ_SOFT_LIMIT" using "1.prems" by simp
  then obtain q1 rl1 step where s: "queue_round L q rl = Inr (q1, rl1, step)" "unat (read_seq rl1) \<le> unat (read_seq rl) + 1"
    by (rule queue_round_returns)
  show ?case
  proof (cases step)
    case Pop_Continue
    then have "length (q_records q1) < length (q_records q)" using queue_round_continues s by blast
    with "1.IH" [of "(q1, rl1, Pop_Continue)" q1 "(rl1, Pop_Continue)" rl1 Pop_Continue] s Pop_Continue "1.prems"
    show ?thesis by (subst queue_loop.simps) simp
  next
    case (Pop_Break n)
    then obtain joined v where "q_joined q1 = Some (joined, v, Some n)" using queue_round_breaks s by blast
    with Pop_Break s show ?thesis
      by (subst queue_loop.simps) (simp add: queue_message_def unwrap_def res_simps Let_def split: sum.split)
  next
    case Pop_Return
    with s show ?thesis by (subst queue_loop.simps) simp
  qed
qed

lemma pop_returns:
  assumes "deframer_ok d" and "aead_ok L" and "unat (read_seq rl) + df_used d < unat SEQ_SOFT_LIMIT"
  shows "\<exists>x. deframer_pop L d rl = Inr x"
proof -
  have "length (q_records (queues_of d)) \<le> df_used d" by (simp add: queues_of_def)
  then have "\<exists>x. queue_pop L (queues_of d) rl = Inr x"
    using queue_loop_returns [of rl "queues_of d" L] assms(3) by (auto simp: queue_pop_def split: option.split)
  moreover have "refines_step (deframer_pop L d rl) (queue_pop L (queues_of d) rl)"
    using assms(1,2) by (intro pop_refines) (simp_all add: refines_def)
  ultimately show ?thesis by (auto elim: refines_step_cases)
qed

section \<open>What the deframer guarantees\<close>

text \<open>
  C14. The deframer implements two byte queues: popping from the buffer gives the result, the error
  or the panic that popping from the queues gives, and leaves a buffer that stands for the queues left;
  reading appends what it takes from the front of the input to the queue of records.
\<close>

theorem deframer_refines_queues:
  assumes "deframer_ok d" and "aead_ok L" and "front rd \<le> length rd"
  shows "refines_step (deframer_pop L d rl) (queue_pop L (queues_of d) rl)
    \<and> (\<exists>d' taken rest r. deframer_read front d rd = Inr (d', rest, r) \<and> rd = taken @ rest
        \<and> refines d' ((queues_of d)\<lparr>q_records := q_records (queues_of d) @ taken\<rparr>))"
proof
  show "refines_step (deframer_pop L d rl) (queue_pop L (queues_of d) rl)"
    using assms(1,2) by (intro pop_refines) (simp_all add: refines_def)
  show "\<exists>d' taken rest r. deframer_read front d rd = Inr (d', rest, r) \<and> rd = taken @ rest
        \<and> refines d' ((queues_of d)\<lparr>q_records := q_records (queues_of d) @ taken\<rparr>)"
    using read_refines [of d front rd, OF assms(1,3)] by metis
qed

lemma default_ok: "deframer_ok MessageDeframer_default"
  by (simp add: deframer_ok_def MessageDeframer_default_def)

theorem deframer_refines_queues_witness:
  "refines_step (deframer_pop tag_only MessageDeframer_default example_layer)
     (queue_pop tag_only (queues_of MessageDeframer_default) example_layer)
   \<and> (\<exists>d' taken rest r. deframer_read length MessageDeframer_default [22, 3, 3] = Inr (d', rest, r) \<and> [22, 3, 3] = taken @ rest
        \<and> refines d' ((queues_of MessageDeframer_default)\<lparr>q_records := q_records (queues_of MessageDeframer_default) @ taken\<rparr>))"
  by (rule deframer_refines_queues [OF default_ok tag_only_ok]) simp

text \<open>The deframers that reads and pops lead to, with any record layer at each pop.\<close>

inductive deframer_reached :: "'k aead \<Rightarrow> MessageDeframer \<Rightarrow> bool" for L where
  reached_new: "deframer_reached L MessageDeframer_default"
| reached_read: "deframer_reached L d \<Longrightarrow> front rd \<le> length rd \<Longrightarrow> deframer_read front d rd = Inr (d', rest, r) \<Longrightarrow> deframer_reached L d'"
| reached_pop: "deframer_reached L d \<Longrightarrow> deframer_pop L d rl = Inr (d', rl', r) \<Longrightarrow> deframer_reached L d'"

lemma reached_ok: "deframer_reached L d \<Longrightarrow> aead_ok L \<Longrightarrow> deframer_ok d"
proof (induction rule: deframer_reached.induct)
  case reached_new
  show ?case by (rule default_ok)
next
  case (reached_read d front rd d' rest r)
  then show ?case using read_refines [of d front rd] by (metis Inr_inject prod.inject refines_def)
next
  case (reached_pop d rl d' rl' r)
  then have "refines_step (deframer_pop L d rl) (queue_pop L (queues_of d) rl)"
    by (intro pop_refines) (simp_all add: refines_def)
  with reached_pop show ?case by (auto elim!: refines_step_cases simp: refines_def)
qed

text \<open>
  C15. The ranges of a deframer stay within its buffer: whatever is read and however popping goes, the
  used part lies in the buffer, the message being joined in the used part, and its payload before the
  next record.  So no read panics, and a pop panics only for a record layer that is within the
  buffered bytes of its limit of records.
\<close>

theorem deframer_stays_well_formed:
  assumes "deframer_reached L d" and "aead_ok L"
  shows "deframer_ok d \<and> (front rd \<le> length rd \<longrightarrow> (\<exists>x. deframer_read front d rd = Inr x))
    \<and> (unat (read_seq rl) + df_used d < unat SEQ_SOFT_LIMIT \<longrightarrow> (\<exists>x. deframer_pop L d rl = Inr x))"
proof -
  have ok: "deframer_ok d" using reached_ok [OF assms] .
  moreover have "\<exists>x. deframer_read front d rd = Inr x" if "front rd \<le> length rd" using read_refines [of d front rd, OF ok that] by metis
  ultimately show ?thesis using pop_returns [OF ok assms(2)] by blast
qed

theorem deframer_stays_well_formed_witness:
  "\<exists>d. df_used d = 3 \<and> deframer_ok d \<and> (\<exists>x. deframer_read length d [0, 1] = Inr x) \<and> (\<exists>x. deframer_pop tag_only d example_layer = Inr x)"
proof -
  let ?d = "\<lparr>last_error = None, df_buf = [22, 3, 3] @ replicate 4093 0, joining_hs = None, df_used = 3\<rparr>"
  have r: "deframer_read length MessageDeframer_default [22, 3, 3] = Inr (?d, [], Inr 3)"
    by (simp add: deframer_read_def prepare_read_def MessageDeframer_default_def MAX_WIRE_SIZE_def READ_SIZE_def vec_resize_def
        slice_range_def copy_from_slice_def res_simps Let_def MAX_PAYLOAD_def OM_HEADER_SIZE_def)
  have "deframer_reached tag_only ?d"
    by (rule reached_read [where front = length and rd = "[22, 3, 3]", OF reached_new _ r]) simp
  from deframer_stays_well_formed [OF this tag_only_ok, of length "[0, 1]" example_layer] show ?thesis
    by (intro exI [of _ ?d]) (simp add: example_layer_def SEQ_SOFT_LIMIT_def)
qed

definition oversized_deframer :: MessageDeframer where
  "oversized_deframer =
     \<lparr>last_error = None, df_buf = [22, 3, 3, 0, 8] @ [8, 0, 0, 0] @ [1, 1, 0, 0], joining_hs = None, df_used = 13\<rparr>"

text \<open>
  An error of \<open>payload_size\<close> does not stick: here the first message is lost with the error, and the
  next pop hands out the header of the message that is too large as a message of its own.
\<close>

lemma oversized_message_delivered:
  "\<exists>d d'. deframer_pop tag_only oversized_deframer RecordLayer_new = Inr (d, RecordLayer_new, Inl (Error_InvalidMessage HandshakePayloadTooLarge))
     \<and> deframer_pop tag_only d RecordLayer_new = Inr (d', RecordLayer_new,
         Inr (Some \<lparr>want_close_before_decrypt = False, aligned = True, trial_decryption_finished = True,
           deframed_message = \<lparr>pm_typ = CT_Handshake, pm_version = TLSv1_2, pm_payload = [1, 1, 0, 0]\<rparr>\<rparr>))"
proof -
  let ?buf = "[22, 3, 3, 0, 8, 8, 0, 0, 0, 1, 1, 0, 0]" and ?joined = "[8, 0, 0, 0, 1, 1, 0, 0, 0, 1, 1, 0, 0]"
  let ?meta = "\<lparr>message_start = 0, message_end = 13, payload_start = 0, payload_end = 8, hs_version = TLSv1_2, hs_expected_len = Some 4, hs_quic = False\<rparr>"
  let ?d = "\<lparr>last_error = None, df_buf = ?joined, joining_hs = Some ?meta, df_used = 13\<rparr>"
  let ?d' = "?d\<lparr>joining_hs := Some (?meta\<lparr>payload_start := 4\<rparr>)\<rparr>"
  have read: "OpaqueMessage_read (Reader_init ?buf) =
      Inr (\<lparr>om_typ = CT_Handshake, om_version = TLSv1_2, om_payload = [8, 0, 0, 0, 1, 1, 0, 0]\<rparr>, \<lparr>rd_buffer = ?buf, rd_cursor = 13\<rparr>)"
    by code_simp
  have size: "payload_size [1, 1, 0, 0] = Inl (Error_InvalidMessage HandshakePayloadTooLarge)"
    "payload_size [8, 0, 0, 0, 1, 1, 0, 0] = Inr (Some 4)" by code_simp+
  have 1: "pop_round tag_only oversized_deframer RecordLayer_new = Inr (?d, RecordLayer_new, Pop_Break 4)"
    by (simp add: oversized_deframer_def pop_round_def pop_record_def slice_range_def read pop_opaque_def decrypt_incoming_def
        RecordLayer_new_def into_plain_message_def pop_plain_def append_hs_def size copy_from_slice_def payload_state_def payload_len_def
        rd_used_def res_simps Let_def)
  have 2: "pop_joined 4 ?d = Inr (?d', Inl (Error_InvalidMessage HandshakePayloadTooLarge))"
    by (simp add: pop_joined_def unwrap_def slice_range_def payload_len_def size res_simps Let_def)
  have 3: "pop_round tag_only ?d' RecordLayer_new = Inr (?d', RecordLayer_new, Pop_Break 4)"
    by (simp add: pop_round_def payload_len_def)
  have 4: "deframer_pop tag_only oversized_deframer RecordLayer_new = Inr (?d', RecordLayer_new, Inl (Error_InvalidMessage HandshakePayloadTooLarge))"
    unfolding deframer_pop_def using 1 2 by (subst pop_loop.simps) (simp add: oversized_deframer_def res_simps)
  have 5: "deframer_pop tag_only ?d' RecordLayer_new = Inr (?d'\<lparr>joining_hs := None, df_used := 0\<rparr>, RecordLayer_new,
      Inr (Some \<lparr>want_close_before_decrypt = False, aligned = True, trial_decryption_finished = True,
           deframed_message = \<lparr>pm_typ = CT_Handshake, pm_version = TLSv1_2, pm_payload = [1, 1, 0, 0]\<rparr>\<rparr>))"
    unfolding deframer_pop_def using 3
    by (subst pop_loop.simps) (simp add: res_simps pop_joined_def unwrap_def slice_range_def payload_len_def df_discard_def Let_def)
  from 4 5 show ?thesis by blast
qed

text \<open>A record that cannot be decrypted stays in front: every pop with the same keys fails on it again.\<close>

lemma undecryptable_record_stays:
  assumes "last_error d = None" and "joining_hs d = None" and "deframer_ok d"
    and "OpaqueMessage_read (Reader_init (take (df_used d) (df_buf d))) = Inr (m, rd)" and "om_typ m \<noteq> CT_ChangeCipherSpec"
    and "decrypt_incoming L m rl = Inr (rl, Inl e)"
  shows "deframer_pop L d rl = Inr (d, rl, Inl e)"
proof -
  have "df_used d \<noteq> 0" using assms(4) by (cases "df_used d") (auto simp: OpaqueMessage_read_Nil)
  moreover have "pop_round L d rl = Inr (d, rl, Pop_Return (Inl e))"
    using assms by (simp add: pop_round_def pop_record_def slice_range_def deframer_ok_def pop_opaque_def res_simps)
  ultimately show ?thesis unfolding deframer_pop_def using assms(1) by (subst pop_loop.simps) simp
qed

end
