(* ===== verification/Tls_Keys.thy ===== *)
theory Tls_Keys
  imports Tls_Common Key_Db
begin

text \<open>
  The key schedule of TLS 1.3 (\<open>tls13/key_schedule.rs\<close>), its stages from the early secret to the
  traffic secrets, the installation of keys in a connection, and the key log file
  (\<open>key_log_file.rs\<close>), without the features for QUIC and for the extraction of secrets.

  HKDF, HMAC and the digests belong to ring and are the fields of the record \<open>ring\<close>, a parameter.  A
  value of type \<open>'p\<close> is a pseudorandom key.  The key log is a function that says which labels are
  logged, and the entries logged are part of the result.

  The secrets that an endpoint logs, read back through the key database, install the keys that the
  endpoint encrypts with.
\<close>

section \<open>Secrets\<close>

record ('k, 'p) ring =
  hkdf_len :: "hash_Algorithm \<Rightarrow> nat"
  prk_new :: "hash_Algorithm \<Rightarrow> bytes \<Rightarrow> 'p"
  salt_extract :: "hash_Algorithm \<Rightarrow> bytes \<Rightarrow> bytes \<Rightarrow> 'p"
  prk_expand :: "'p \<Rightarrow> bytes \<Rightarrow> nat \<Rightarrow> bytes option"
  aead_key_len :: "aead_Algorithm \<Rightarrow> nat"
  aead_key :: "aead_Algorithm \<Rightarrow> bytes \<Rightarrow> 'k"
  digest :: "hash_Algorithm \<Rightarrow> bytes \<Rightarrow> bytes"
  hmac_sign :: "hash_Algorithm \<Rightarrow> bytes \<Rightarrow> bytes \<Rightarrow> bytes"

datatype SecretKind =
    SK_ResumptionPskBinderKey
  | SK_ClientEarlyTrafficSecret
  | SK_ClientHandshakeTrafficSecret
  | SK_ServerHandshakeTrafficSecret
  | SK_ClientApplicationTrafficSecret
  | SK_ServerApplicationTrafficSecret
  | SK_ExporterMasterSecret
  | SK_ResumptionMasterSecret
  | SK_DerivedSecret

fun SecretKind_to_bytes :: "SecretKind \<Rightarrow> bytes" where
  "SecretKind_to_bytes SK_ResumptionPskBinderKey = ascii ''res binder''"
| "SecretKind_to_bytes SK_ClientEarlyTrafficSecret = ascii ''c e traffic''"
| "SecretKind_to_bytes SK_ClientHandshakeTrafficSecret = ascii ''c hs traffic''"
| "SecretKind_to_bytes SK_ServerHandshakeTrafficSecret = ascii ''s hs traffic''"
| "SecretKind_to_bytes SK_ClientApplicationTrafficSecret = ascii ''c ap traffic''"
| "SecretKind_to_bytes SK_ServerApplicationTrafficSecret = ascii ''s ap traffic''"
| "SecretKind_to_bytes SK_ExporterMasterSecret = ascii ''exp master''"
| "SecretKind_to_bytes SK_ResumptionMasterSecret = ascii ''res master''"
| "SecretKind_to_bytes SK_DerivedSecret = ascii ''derived''"

fun log_label :: "SecretKind \<Rightarrow> bytes option" where
  "log_label SK_ClientEarlyTrafficSecret = Some (ascii ''CLIENT_EARLY_TRAFFIC_SECRET'')"
| "log_label SK_ClientHandshakeTrafficSecret = Some (ascii ''CLIENT_HANDSHAKE_TRAFFIC_SECRET'')"
| "log_label SK_ServerHandshakeTrafficSecret = Some (ascii ''SERVER_HANDSHAKE_TRAFFIC_SECRET'')"
| "log_label SK_ClientApplicationTrafficSecret = Some (ascii ''CLIENT_TRAFFIC_SECRET_0'')"
| "log_label SK_ServerApplicationTrafficSecret = Some (ascii ''SERVER_TRAFFIC_SECRET_0'')"
| "log_label SK_ExporterMasterSecret = Some (ascii ''EXPORTER_SECRET'')"
| "log_label _ = None"

text \<open>A line of the key log file, and what is logged: the label, the client random and the secret.\<close>

type_synonym log_entry = "bytes \<times> bytes \<times> bytes"

definition try_write :: "log_entry \<Rightarrow> bytes" where
  "try_write = (\<lambda>(label, client_random, secret).
     label @ [32] @ concat (map fmt_02x client_random) @ [32] @ concat (map fmt_02x secret) @ [10])"

section \<open>Expansion\<close>

definition hkdf_info :: "nat \<Rightarrow> bytes \<Rightarrow> bytes \<Rightarrow> bytes" where
  "hkdf_info len label context =
     (let LABEL_PREFIX = ascii ''tls13 '';
          output_len = be_bytes 2 (word_of_nat len :: u16);
          label_len = be_bytes 1 (word_of_nat (length LABEL_PREFIX + length label) :: u8);
          context_len = be_bytes 1 (word_of_nat (length context) :: u8)
      in output_len @ label_len @ LABEL_PREFIX @ label @ context_len @ context)"

definition hkdf_expand :: "('k, 'p) ring \<Rightarrow> 'p \<Rightarrow> nat \<Rightarrow> bytes \<Rightarrow> bytes \<Rightarrow> bytes res" where
  "hkdf_expand R secret len label context =
     (case prk_expand R secret (hkdf_info len label context) len of None \<Rightarrow> Inl UnwrapFailed | Some okm \<Rightarrow> Inr okm)"

definition derive_traffic_key :: "('k, 'p) ring \<Rightarrow> 'p \<Rightarrow> aead_Algorithm \<Rightarrow> 'k res" where
  "derive_traffic_key R secret alg =
     res_bind (hkdf_expand R secret (aead_key_len R alg) (ascii ''key'') []) (\<lambda>okm. Inr (aead_key R alg okm))"

definition derive_traffic_iv :: "('k, 'p) ring \<Rightarrow> 'p \<Rightarrow> bytes res" where
  "derive_traffic_iv R secret = hkdf_expand R secret 12 (ascii ''iv'') []"

section \<open>The schedule\<close>

record 'p KeySchedule =
  ks_current :: 'p
  ks_suite :: Tls13CipherSuite

definition ks_len :: "('k, 'p) ring \<Rightarrow> 'p KeySchedule \<Rightarrow> nat" where
  "ks_len R ks = hkdf_len R (hkdf_algorithm (ks_suite ks))"

text \<open>A prefix of the array of zeroes, which is as long as the longest digest.\<close>

definition zeroes :: "nat \<Rightarrow> bytes res" where
  "zeroes len = (if len \<le> 64 then Inr (replicate len 0) else Inl SliceOutOfRange)"

definition KeySchedule_new :: "('k, 'p) ring \<Rightarrow> Tls13CipherSuite \<Rightarrow> bytes \<Rightarrow> 'p KeySchedule res" where
  "KeySchedule_new R suite secret =
     res_bind (zeroes (hkdf_len R (hkdf_algorithm suite))) (\<lambda>salt.
       Inr \<lparr>ks_current = salt_extract R (hkdf_algorithm suite) salt secret, ks_suite = suite\<rparr>)"

definition derive_decrypter :: "('k, 'p) ring \<Rightarrow> 'p \<Rightarrow> 'p KeySchedule \<Rightarrow> 'k MessageDecrypter res" where
  "derive_decrypter R secret ks =
     res_bind (derive_traffic_key R secret (csc_aead_algorithm (common13 (ks_suite ks)))) (\<lambda>key.
     res_bind (derive_traffic_iv R secret) (\<lambda>iv. Inr (Tls13MessageDecrypter key iv)))"

definition set_encrypter :: "('k, 'p) ring \<Rightarrow> 'p \<Rightarrow> 'p KeySchedule \<Rightarrow> 'k CommonState \<Rightarrow> 'k CommonState res" where
  "set_encrypter R secret ks common =
     res_bind (derive_traffic_key R secret (csc_aead_algorithm (common13 (ks_suite ks)))) (\<lambda>key.
     res_bind (derive_traffic_iv R secret) (\<lambda>iv.
     res_bind (set_message_encrypter (Tls13MessageEncrypter key iv) (record_layer common)) (\<lambda>rl.
       Inr (common\<lparr>record_layer := rl\<rparr>))))"

definition set_decrypter :: "('k, 'p) ring \<Rightarrow> 'p \<Rightarrow> 'p KeySchedule \<Rightarrow> 'k CommonState \<Rightarrow> 'k CommonState res" where
  "set_decrypter R secret ks common =
     res_bind (derive_decrypter R secret ks) (\<lambda>dec.
     res_bind (set_message_decrypter dec (record_layer common)) (\<lambda>rl. Inr (common\<lparr>record_layer := rl\<rparr>)))"

definition KeySchedule_new_with_empty_secret :: "('k, 'p) ring \<Rightarrow> Tls13CipherSuite \<Rightarrow> 'p KeySchedule res" where
  "KeySchedule_new_with_empty_secret R suite =
     res_bind (zeroes (hkdf_len R (hkdf_algorithm suite))) (KeySchedule_new R suite)"

definition derive :: "('k, 'p) ring \<Rightarrow> nat \<Rightarrow> SecretKind \<Rightarrow> bytes \<Rightarrow> 'p KeySchedule \<Rightarrow> bytes res" where
  "derive R len kind hs_hash ks = hkdf_expand R (ks_current ks) len (SecretKind_to_bytes kind) hs_hash"

definition derive_logged_secret ::
  "('k, 'p) ring \<Rightarrow> (bytes \<Rightarrow> bool) \<Rightarrow> SecretKind \<Rightarrow> bytes \<Rightarrow> bytes \<Rightarrow> 'p KeySchedule \<Rightarrow> ('p \<times> log_entry list) res" where
  "derive_logged_secret R will_log kind hs_hash client_random ks =
     (case log_label kind of
        None \<Rightarrow> Inl ExpectFailed
      | Some label \<Rightarrow>
          res_bind
            (if will_log label
             then res_bind (derive R (ks_len R ks) kind hs_hash ks) (\<lambda>secret. Inr [(label, client_random, secret)])
             else Inr [])
            (\<lambda>log. res_bind (derive R (ks_len R ks) kind hs_hash ks) (\<lambda>okm.
               Inr (prk_new R (hkdf_algorithm (ks_suite ks)) okm, log))))"

definition derive_for_empty_hash :: "('k, 'p) ring \<Rightarrow> SecretKind \<Rightarrow> 'p KeySchedule \<Rightarrow> bytes res" where
  "derive_for_empty_hash R kind ks = derive R (ks_len R ks) kind (digest R (hkdf_algorithm (ks_suite ks)) []) ks"

definition input_secret :: "('k, 'p) ring \<Rightarrow> bytes \<Rightarrow> 'p KeySchedule \<Rightarrow> 'p KeySchedule res" where
  "input_secret R secret ks =
     res_bind (derive_for_empty_hash R SK_DerivedSecret ks) (\<lambda>salt.
       Inr (ks\<lparr>ks_current := salt_extract R (hkdf_algorithm (ks_suite ks)) salt secret\<rparr>))"

definition input_empty :: "('k, 'p) ring \<Rightarrow> 'p KeySchedule \<Rightarrow> 'p KeySchedule res" where
  "input_empty R ks = res_bind (zeroes (ks_len R ks)) (\<lambda>z. input_secret R z ks)"

definition sign_verify_data :: "('k, 'p) ring \<Rightarrow> 'p \<Rightarrow> bytes \<Rightarrow> 'p KeySchedule \<Rightarrow> bytes res" where
  "sign_verify_data R base_key hs_hash ks =
     res_bind (hkdf_expand R base_key (ks_len R ks) (ascii ''finished'') []) (\<lambda>hmac_key.
       Inr (hmac_sign R (hkdf_algorithm (ks_suite ks)) hmac_key hs_hash))"

definition sign_finish :: "('k, 'p) ring \<Rightarrow> 'p \<Rightarrow> bytes \<Rightarrow> 'p KeySchedule \<Rightarrow> bytes res" where
  "sign_finish R base_key hs_hash ks = sign_verify_data R base_key hs_hash ks"

definition derive_next :: "('k, 'p) ring \<Rightarrow> 'p \<Rightarrow> 'p KeySchedule \<Rightarrow> 'p res" where
  "derive_next R base_key ks =
     res_bind (hkdf_expand R base_key (ks_len R ks) (ascii ''traffic upd'') []) (\<lambda>okm.
       Inr (prk_new R (hkdf_algorithm (ks_suite ks)) okm))"

definition derive_ticket_psk :: "('k, 'p) ring \<Rightarrow> 'p \<Rightarrow> bytes \<Rightarrow> 'p KeySchedule \<Rightarrow> bytes res" where
  "derive_ticket_psk R rms nonce ks = hkdf_expand R rms (ks_len R ks) (ascii ''resumption'') nonce"

text \<open>The result is \<open>out_len\<close> bytes.  The \<open>unwrap\<close> in the expansion comes before the error is mapped.\<close>

definition ks_export_keying_material ::
  "('k, 'p) ring \<Rightarrow> 'p \<Rightarrow> nat \<Rightarrow> bytes \<Rightarrow> bytes option \<Rightarrow> 'p KeySchedule \<Rightarrow> (Error + bytes) res" where
  "ks_export_keying_material R current_exporter_secret out_len label context ks =
     (let alg = hkdf_algorithm (ks_suite ks); h_empty = digest R alg []
      in res_bind (hkdf_expand R current_exporter_secret (ks_len R ks) label h_empty) (\<lambda>okm.
           (let secret = prk_new R alg okm; h_context = digest R alg (case context of Some c \<Rightarrow> c | None \<Rightarrow> [])
            in res_bind (hkdf_expand R secret out_len (ascii ''exporter'') h_context) (\<lambda>out. Inr (Inr out)))))"

section \<open>The stages\<close>

record 'p KeyScheduleEarly =
  early_ks :: "'p KeySchedule"

definition KeyScheduleEarly_new :: "('k, 'p) ring \<Rightarrow> Tls13CipherSuite \<Rightarrow> bytes \<Rightarrow> 'p KeyScheduleEarly res" where
  "KeyScheduleEarly_new R suite secret = res_bind (KeySchedule_new R suite secret) (\<lambda>ks. Inr \<lparr>early_ks = ks\<rparr>)"

definition client_early_traffic_secret ::
  "('k, 'p) ring \<Rightarrow> (bytes \<Rightarrow> bool) \<Rightarrow> bytes \<Rightarrow> bytes \<Rightarrow> 'p KeyScheduleEarly \<Rightarrow> 'k CommonState \<Rightarrow> ('k CommonState \<times> log_entry list) res" where
  "client_early_traffic_secret R will_log hs_hash client_random self common =
     res_bind (derive_logged_secret R will_log SK_ClientEarlyTrafficSecret hs_hash client_random (early_ks self)) (\<lambda>(secret, log).
     res_bind (case cs_side common of
                 Side_Client \<Rightarrow> set_encrypter R secret (early_ks self) common
               | Side_Server \<Rightarrow> set_decrypter R secret (early_ks self) common) (\<lambda>common. Inr (common, log)))"

definition resumption_psk_binder_key_and_sign_verify_data :: "('k, 'p) ring \<Rightarrow> bytes \<Rightarrow> 'p KeyScheduleEarly \<Rightarrow> bytes res" where
  "resumption_psk_binder_key_and_sign_verify_data R hs_hash self =
     res_bind (derive_for_empty_hash R SK_ResumptionPskBinderKey (early_ks self)) (\<lambda>okm.
       sign_verify_data R (prk_new R (hkdf_algorithm (ks_suite (early_ks self))) okm) hs_hash (early_ks self))"

record 'p KeySchedulePreHandshake =
  pre_ks :: "'p KeySchedule"

definition KeySchedulePreHandshake_new :: "('k, 'p) ring \<Rightarrow> Tls13CipherSuite \<Rightarrow> 'p KeySchedulePreHandshake res" where
  "KeySchedulePreHandshake_new R suite = res_bind (KeySchedule_new_with_empty_secret R suite) (\<lambda>ks. Inr \<lparr>pre_ks = ks\<rparr>)"

definition KeySchedulePreHandshake_from :: "'p KeyScheduleEarly \<Rightarrow> 'p KeySchedulePreHandshake" where
  "KeySchedulePreHandshake_from early = \<lparr>pre_ks = early_ks early\<rparr>"

record 'p KeyScheduleHandshakeStart =
  start_ks :: "'p KeySchedule"

definition pre_into_handshake :: "('k, 'p) ring \<Rightarrow> bytes \<Rightarrow> 'p KeySchedulePreHandshake \<Rightarrow> 'p KeyScheduleHandshakeStart res" where
  "pre_into_handshake R secret self = res_bind (input_secret R secret (pre_ks self)) (\<lambda>ks. Inr \<lparr>start_ks = ks\<rparr>)"

record 'p KeyScheduleHandshake =
  hs_ks :: "'p KeySchedule"
  client_handshake_traffic_secret :: 'p
  server_handshake_traffic_secret :: 'p

definition into_handshake ::
  "('k, 'p) ring \<Rightarrow> (bytes \<Rightarrow> bool) \<Rightarrow> bytes \<Rightarrow> bytes \<Rightarrow> 'p KeyScheduleHandshakeStart \<Rightarrow> ('p KeyScheduleHandshake \<times> log_entry list) res" where
  "into_handshake R will_log hs_hash client_random self =
     res_bind (derive_logged_secret R will_log SK_ClientHandshakeTrafficSecret hs_hash client_random (start_ks self)) (\<lambda>(client_secret, log1).
     res_bind (derive_logged_secret R will_log SK_ServerHandshakeTrafficSecret hs_hash client_random (start_ks self)) (\<lambda>(server_secret, log2).
       Inr (\<lparr>hs_ks = start_ks self, client_handshake_traffic_secret = client_secret, server_handshake_traffic_secret = server_secret\<rparr>,
            log1 @ log2)))"

definition ks_install_client_handshake_secrets ::
  "('k, 'p) ring \<Rightarrow> bool \<Rightarrow> 'p KeyScheduleHandshake \<Rightarrow> 'k CommonState \<Rightarrow> 'k CommonState res" where
  "ks_install_client_handshake_secrets R early_data_enabled self common =
     res_bind (set_decrypter R (server_handshake_traffic_secret self) (hs_ks self) common) (\<lambda>common.
       if \<not> early_data_enabled then set_encrypter R (client_handshake_traffic_secret self) (hs_ks self) common else Inr common)"

definition ks_install_server_handshake_secrets ::
  "('k, 'p) ring \<Rightarrow> 'p KeyScheduleHandshake \<Rightarrow> 'k CommonState \<Rightarrow> 'k CommonState res" where
  "ks_install_server_handshake_secrets R self common =
     set_decrypter R (client_handshake_traffic_secret self) (hs_ks self) common"

definition derive_client_handshake_secrets ::
  "('k, 'p) ring \<Rightarrow> (bytes \<Rightarrow> bool) \<Rightarrow> bool \<Rightarrow> bytes \<Rightarrow> Tls13CipherSuite \<Rightarrow> bytes \<Rightarrow> 'p KeyScheduleHandshakeStart \<Rightarrow> 'k CommonState \<Rightarrow>
   ('k CommonState \<times> 'p KeyScheduleHandshake \<times> log_entry list) res" where
  "derive_client_handshake_secrets R will_log early_data_enabled hs_hash suite client_random self common =
     (if cs_side common \<noteq> Side_Client then Inl AssertFailed
      else
        res_bind (into_handshake R will_log hs_hash client_random (self\<lparr>start_ks := (start_ks self)\<lparr>ks_suite := suite\<rparr>\<rparr>)) (\<lambda>(new, log).
        res_bind (set_decrypter R (server_handshake_traffic_secret new) (hs_ks new) common) (\<lambda>common.
        res_bind (if \<not> early_data_enabled then set_encrypter R (client_handshake_traffic_secret new) (hs_ks new) common else Inr common)
          (\<lambda>common. Inr (common, new, log)))))"

definition derive_server_handshake_secrets ::
  "('k, 'p) ring \<Rightarrow> (bytes \<Rightarrow> bool) \<Rightarrow> bytes \<Rightarrow> bytes \<Rightarrow> 'p KeyScheduleHandshakeStart \<Rightarrow> 'k CommonState \<Rightarrow>
   ('k CommonState \<times> 'p KeyScheduleHandshake \<times> log_entry list) res" where
  "derive_server_handshake_secrets R will_log hs_hash client_random self common =
     (if cs_side common \<noteq> Side_Server then Inl AssertFailed
      else
        res_bind (into_handshake R will_log hs_hash client_random self) (\<lambda>(new, log).
        res_bind (set_encrypter R (server_handshake_traffic_secret new) (hs_ks new) common) (\<lambda>common.
          Inr (common, new, log))))"

definition KeyScheduleHandshake_from_data ::
  "('k, 'p) ring \<Rightarrow> Tls13CipherSuite \<Rightarrow> bytes \<Rightarrow> bytes \<Rightarrow> 'p KeyScheduleHandshake res" where
  "KeyScheduleHandshake_from_data R suite client_secret server_secret =
     res_bind (KeySchedule_new_with_empty_secret R suite) (\<lambda>ks.
       Inr \<lparr>hs_ks = ks,
            client_handshake_traffic_secret = prk_new R (hkdf_algorithm suite) client_secret,
            server_handshake_traffic_secret = prk_new R (hkdf_algorithm suite) server_secret\<rparr>)"

definition sign_server_finish :: "('k, 'p) ring \<Rightarrow> bytes \<Rightarrow> 'p KeyScheduleHandshake \<Rightarrow> bytes res" where
  "sign_server_finish R hs_hash self = sign_finish R (server_handshake_traffic_secret self) hs_hash (hs_ks self)"

definition set_handshake_encrypter :: "('k, 'p) ring \<Rightarrow> 'p KeyScheduleHandshake \<Rightarrow> 'k CommonState \<Rightarrow> 'k CommonState res" where
  "set_handshake_encrypter R self common =
     (if cs_side common \<noteq> Side_Client then Inl AssertFailed
      else set_encrypter R (client_handshake_traffic_secret self) (hs_ks self) common)"

definition set_handshake_decrypter ::
  "('k, 'p) ring \<Rightarrow> nat option \<Rightarrow> 'p KeyScheduleHandshake \<Rightarrow> 'k CommonState \<Rightarrow> 'k CommonState res" where
  "set_handshake_decrypter R skip_requested self common =
     (if cs_side common \<noteq> Side_Server then Inl AssertFailed
      else let secret = client_handshake_traffic_secret self in
        case skip_requested of
          None \<Rightarrow> set_decrypter R secret (hs_ks self) common
        | Some max_early_data_size \<Rightarrow>
            res_bind (derive_decrypter R secret (hs_ks self)) (\<lambda>dec.
            res_bind (set_message_decrypter_with_trial_decryption dec max_early_data_size (record_layer common)) (\<lambda>rl.
              Inr (common\<lparr>record_layer := rl\<rparr>))))"

record 'p KeyScheduleTraffic =
  tr_ks :: "'p KeySchedule"
  current_client_traffic_secret :: 'p
  current_server_traffic_secret :: 'p
  current_exporter_secret :: 'p

definition KeyScheduleTraffic_new ::
  "('k, 'p) ring \<Rightarrow> (bytes \<Rightarrow> bool) \<Rightarrow> bytes \<Rightarrow> bytes \<Rightarrow> 'p KeySchedule \<Rightarrow> ('p KeyScheduleTraffic \<times> log_entry list) res" where
  "KeyScheduleTraffic_new R will_log hs_hash client_random ks =
     res_bind (input_empty R ks) (\<lambda>ks.
     res_bind (derive_logged_secret R will_log SK_ClientApplicationTrafficSecret hs_hash client_random ks) (\<lambda>(c, log1).
     res_bind (derive_logged_secret R will_log SK_ServerApplicationTrafficSecret hs_hash client_random ks) (\<lambda>(s, log2).
     res_bind (derive_logged_secret R will_log SK_ExporterMasterSecret hs_hash client_random ks) (\<lambda>(e, log3).
       Inr (\<lparr>tr_ks = ks, current_client_traffic_secret = c, current_server_traffic_secret = s, current_exporter_secret = e\<rparr>,
            log1 @ log2 @ log3)))))"

definition KeyScheduleTraffic_from_data ::
  "('k, 'p) ring \<Rightarrow> Tls13CipherSuite \<Rightarrow> bytes \<Rightarrow> bytes \<Rightarrow> bytes \<Rightarrow> 'p KeyScheduleTraffic res" where
  "KeyScheduleTraffic_from_data R suite client_secret server_secret exporter_secret =
     res_bind (KeySchedule_new_with_empty_secret R suite) (\<lambda>ks.
       Inr \<lparr>tr_ks = ks,
            current_client_traffic_secret = prk_new R (hkdf_algorithm suite) client_secret,
            current_server_traffic_secret = prk_new R (hkdf_algorithm suite) server_secret,
            current_exporter_secret = prk_new R (hkdf_algorithm suite) exporter_secret\<rparr>)"

definition ks_load_keys :: "('k, 'p) ring \<Rightarrow> Side \<Rightarrow> 'p KeyScheduleTraffic \<Rightarrow> 'k CommonState \<Rightarrow> 'k CommonState res" where
  "ks_load_keys R side self common =
     (let (enc, dec) = (case side of
            Side_Client \<Rightarrow> (current_client_traffic_secret self, current_server_traffic_secret self)
          | Side_Server \<Rightarrow> (current_server_traffic_secret self, current_client_traffic_secret self))
      in res_bind (set_encrypter R enc (tr_ks self) common) (set_decrypter R dec (tr_ks self)))"

definition next_application_traffic_secret ::
  "('k, 'p) ring \<Rightarrow> Side \<Rightarrow> 'p KeyScheduleTraffic \<Rightarrow> ('p KeyScheduleTraffic \<times> 'p) res" where
  "next_application_traffic_secret R side self =
     (case side of
        Side_Client \<Rightarrow>
          res_bind (derive_next R (current_client_traffic_secret self) (tr_ks self)) (\<lambda>secret.
            Inr (self\<lparr>current_client_traffic_secret := secret\<rparr>, secret))
      | Side_Server \<Rightarrow>
          res_bind (derive_next R (current_server_traffic_secret self) (tr_ks self)) (\<lambda>secret.
            Inr (self\<lparr>current_server_traffic_secret := secret\<rparr>, secret)))"

definition update_encrypter_and_notify ::
  "'k aead \<Rightarrow> ('k, 'p) ring \<Rightarrow> 'p KeyScheduleTraffic \<Rightarrow> 'k CommonState \<Rightarrow> ('p KeyScheduleTraffic \<times> 'k CommonState) res" where
  "update_encrypter_and_notify L R self common =
     res_bind (next_application_traffic_secret R (cs_side common) self) (\<lambda>(self, secret).
     res_bind (enqueue_key_update_notification L common) (\<lambda>common.
     res_bind (set_encrypter R secret (tr_ks self) common) (\<lambda>common. Inr (self, common))))"

definition update_decrypter ::
  "('k, 'p) ring \<Rightarrow> 'p KeyScheduleTraffic \<Rightarrow> 'k CommonState \<Rightarrow> ('p KeyScheduleTraffic \<times> 'k CommonState) res" where
  "update_decrypter R self common =
     res_bind (next_application_traffic_secret R (Side_peer (cs_side common)) self) (\<lambda>(self, secret).
     res_bind (set_decrypter R secret (tr_ks self) common) (\<lambda>common. Inr (self, common)))"

definition resumption_master_secret_and_derive_ticket_psk ::
  "('k, 'p) ring \<Rightarrow> bytes \<Rightarrow> bytes \<Rightarrow> 'p KeyScheduleTraffic \<Rightarrow> bytes res" where
  "resumption_master_secret_and_derive_ticket_psk R hs_hash nonce self =
     res_bind (derive R (ks_len R (tr_ks self)) SK_ResumptionMasterSecret hs_hash (tr_ks self)) (\<lambda>okm.
       derive_ticket_psk R (prk_new R (hkdf_algorithm (ks_suite (tr_ks self))) okm) nonce (tr_ks self))"

definition export_keying_material ::
  "('k, 'p) ring \<Rightarrow> nat \<Rightarrow> bytes \<Rightarrow> bytes option \<Rightarrow> 'p KeyScheduleTraffic \<Rightarrow> (Error + bytes) res" where
  "export_keying_material R out_len label context self =
     ks_export_keying_material R (current_exporter_secret self) out_len label context (tr_ks self)"

record 'p KeyScheduleTrafficWithClientFinishedPending =
  handshake_client_traffic_secret :: 'p
  pending_traffic :: "'p KeyScheduleTraffic"

definition into_traffic_with_client_finished_pending ::
  "('k, 'p) ring \<Rightarrow> (bytes \<Rightarrow> bool) \<Rightarrow> bytes \<Rightarrow> bytes \<Rightarrow> 'p KeyScheduleHandshake \<Rightarrow> 'k CommonState \<Rightarrow>
   ('k CommonState \<times> 'p KeyScheduleTrafficWithClientFinishedPending \<times> log_entry list) res" where
  "into_traffic_with_client_finished_pending R will_log hs_hash client_random self common =
     (if cs_side common \<noteq> Side_Server then Inl AssertFailed
      else
        res_bind (KeyScheduleTraffic_new R will_log hs_hash client_random (hs_ks self)) (\<lambda>(traffic, log).
        res_bind (set_encrypter R (current_server_traffic_secret traffic) (tr_ks traffic) common) (\<lambda>common.
          Inr (common,
               \<lparr>handshake_client_traffic_secret = client_handshake_traffic_secret self, pending_traffic = traffic\<rparr>, log))))"

definition pending_update_decrypter ::
  "('k, 'p) ring \<Rightarrow> 'p KeyScheduleTrafficWithClientFinishedPending \<Rightarrow> 'k CommonState \<Rightarrow> 'k CommonState res" where
  "pending_update_decrypter R self common =
     (if cs_side common \<noteq> Side_Server then Inl AssertFailed
      else set_decrypter R (handshake_client_traffic_secret self) (tr_ks (pending_traffic self)) common)"

definition sign_client_finish ::
  "('k, 'p) ring \<Rightarrow> bytes \<Rightarrow> 'p KeyScheduleTrafficWithClientFinishedPending \<Rightarrow> 'k CommonState \<Rightarrow>
   ('k CommonState \<times> 'p KeyScheduleTraffic \<times> bytes) res" where
  "sign_client_finish R hs_hash self common =
     (if cs_side common \<noteq> Side_Server then Inl AssertFailed
      else
        res_bind (sign_finish R (handshake_client_traffic_secret self) hs_hash (tr_ks (pending_traffic self))) (\<lambda>tag.
        res_bind (set_decrypter R (current_client_traffic_secret (pending_traffic self)) (tr_ks (pending_traffic self)) common)
          (\<lambda>common. Inr (common, pending_traffic self, tag))))"

record 'p KeyScheduleClientBeforeFinished =
  before_traffic :: "'p KeyScheduleTraffic"

definition into_pre_finished_client_traffic ::
  "('k, 'p) ring \<Rightarrow> (bytes \<Rightarrow> bool) \<Rightarrow> bytes \<Rightarrow> bytes \<Rightarrow> bytes \<Rightarrow> 'p KeyScheduleHandshake \<Rightarrow>
   ('p KeyScheduleClientBeforeFinished \<times> bytes \<times> log_entry list) res" where
  "into_pre_finished_client_traffic R will_log pre_finished_hash handshake_hash client_random self =
     res_bind (KeyScheduleTraffic_new R will_log pre_finished_hash client_random (hs_ks self)) (\<lambda>(traffic, log).
     res_bind (sign_finish R (client_handshake_traffic_secret self) handshake_hash (tr_ks traffic)) (\<lambda>tag.
       Inr (\<lparr>before_traffic = traffic\<rparr>, tag, log)))"

definition into_traffic ::
  "('k, 'p) ring \<Rightarrow> 'p KeyScheduleClientBeforeFinished \<Rightarrow> 'k CommonState \<Rightarrow> ('k CommonState \<times> 'p KeyScheduleTraffic) res" where
  "into_traffic R self common =
     (if cs_side common \<noteq> Side_Client then Inl AssertFailed
      else let traffic = before_traffic self in
        res_bind (set_decrypter R (current_server_traffic_secret traffic) (tr_ks traffic) common) (\<lambda>common.
        res_bind (set_encrypter R (current_client_traffic_secret traffic) (tr_ks traffic) common) (\<lambda>common.
          Inr (common, traffic))))"

section \<open>Domain separation\<close>

lemma be_bytes_word_of_nat_inject:
  "n < 2 ^ LENGTH('w) \<Longrightarrow> m < 2 ^ LENGTH('w) \<Longrightarrow> LENGTH('w) \<le> 8 * k \<Longrightarrow>
   be_bytes k (word_of_nat n :: 'w::len word) = be_bytes k (word_of_nat m :: 'w word) \<longleftrightarrow> n = m"
  by (metis (mono_tags) from_be_full word_of_nat_eq_iff take_bit_nat_eq_self)

text \<open>The input of an expansion determines its length, its label and its context.\<close>

lemma hkdf_info_inject:
  assumes "len < 0x10000" "len' < 0x10000" "length label < 250" "length label' < 250" "length ctx < 256" "length ctx' < 256"
  shows "hkdf_info len label ctx = hkdf_info len' label' ctx' \<longleftrightarrow> len = len' \<and> label = label' \<and> ctx = ctx'"
proof
  assume e: "hkdf_info len label ctx = hkdf_info len' label' ctx'"
  have p: "length (ascii ''tls13 '') = 6" by (simp add: ascii_def)
  have 1: "be_bytes 2 (word_of_nat len :: u16) = be_bytes 2 (word_of_nat len' :: u16)"
      "be_bytes 1 (word_of_nat (6 + length label) :: u8) = be_bytes 1 (word_of_nat (6 + length label') :: u8)"
      "label @ be_bytes 1 (word_of_nat (length ctx) :: u8) @ ctx = label' @ be_bytes 1 (word_of_nat (length ctx') :: u8) @ ctx'"
    using e unfolding hkdf_info_def Let_def p by simp_all
  have "len = len'" using 1(1) assms(1,2) by (subst (asm) be_bytes_word_of_nat_inject) simp_all
  moreover have "length label = length label'" using 1(2) assms(3,4) by (subst (asm) be_bytes_word_of_nat_inject) simp_all
  ultimately show "len = len' \<and> label = label' \<and> ctx = ctx'" using 1(3) by simp
qed simp

lemma SecretKind_to_bytes_inject: "SecretKind_to_bytes k = SecretKind_to_bytes k' \<longleftrightarrow> k = k'"
  by (cases k; cases k') (simp_all add: ascii_def)

lemma SecretKind_to_bytes_label:
  "length (SecretKind_to_bytes k) < 250" "SecretKind_to_bytes k \<noteq> ascii ''key''" "SecretKind_to_bytes k \<noteq> ascii ''iv''"
  "SecretKind_to_bytes k \<noteq> ascii ''finished''" "SecretKind_to_bytes k \<noteq> ascii ''traffic upd''"
  by (cases k; simp add: ascii_def)+

section \<open>Installing keys\<close>

text \<open>
  The documented behaviour of ring: digests have at most 64 bytes and keys at most 32, and an expansion
  to at most 255 digests succeeds with as many bytes as were asked for.
\<close>

definition ring_ok :: "('k, 'p) ring \<Rightarrow> bool" where
  "ring_ok R \<longleftrightarrow> (\<forall>alg. hkdf_len R alg \<le> 64) \<and> (\<forall>alg. aead_key_len R alg \<le> 32)
     \<and> (\<forall>p info len. len \<le> 255 * 32 \<longrightarrow> (\<exists>okm. prk_expand R p info len = Some okm \<and> length okm = len))"

lemma hkdf_expand_returns:
  assumes "ring_ok R" and "len \<le> 255 * 32"
  obtains okm where "hkdf_expand R secret len label ctx = Inr okm" "length okm = len"
  using assms unfolding ring_ok_def hkdf_expand_def by (metis option.simps(5))

text \<open>The key and the IV of a traffic secret.\<close>

definition traffic_key :: "('k, 'p) ring \<Rightarrow> Tls13CipherSuite \<Rightarrow> 'p \<Rightarrow> 'k" where
  "traffic_key R suite secret =
     aead_key R (csc_aead_algorithm (common13 suite))
       (projr (hkdf_expand R secret (aead_key_len R (csc_aead_algorithm (common13 suite))) (ascii ''key'') []))"

definition traffic_iv :: "('k, 'p) ring \<Rightarrow> 'p \<Rightarrow> bytes" where
  "traffic_iv R secret = projr (hkdf_expand R secret 12 (ascii ''iv'') [])"

lemma derive_traffic_returns:
  assumes "ring_ok R"
  shows "derive_traffic_key R secret (csc_aead_algorithm (common13 suite)) = Inr (traffic_key R suite secret)"
    and "derive_traffic_iv R secret = Inr (traffic_iv R secret)" and "length (traffic_iv R secret) = 12"
proof -
  let ?alg = "csc_aead_algorithm (common13 suite)"
  have "aead_key_len R ?alg \<le> 32" using assms by (simp add: ring_ok_def)
  then have "aead_key_len R ?alg \<le> 255 * 32" by simp
  from hkdf_expand_returns [OF assms this] obtain okm where "hkdf_expand R secret (aead_key_len R ?alg) (ascii ''key'') [] = Inr okm" by blast
  then show "derive_traffic_key R secret ?alg = Inr (traffic_key R suite secret)"
    by (simp add: derive_traffic_key_def traffic_key_def)
  obtain iv where "hkdf_expand R secret 12 (ascii ''iv'') [] = Inr iv" "length iv = 12"
    by (rule hkdf_expand_returns [OF assms, of 12 secret "ascii ''iv''" "[]"]) simp_all
  then show "derive_traffic_iv R secret = Inr (traffic_iv R secret)" "length (traffic_iv R secret) = 12"
    by (simp_all add: derive_traffic_iv_def traffic_iv_def)
qed

text \<open>The record layers after a key is set.\<close>

definition encrypts_with :: "('k, 'p) ring \<Rightarrow> Tls13CipherSuite \<Rightarrow> 'p \<Rightarrow> 'k RecordLayer \<Rightarrow> 'k RecordLayer" where
  "encrypts_with R suite secret rl =
     rl\<lparr>message_encrypter := Tls13MessageEncrypter (traffic_key R suite secret) (traffic_iv R secret), write_seq := 0, encrypt_state := Dir_Active\<rparr>"

definition decrypts_with :: "('k, 'p) ring \<Rightarrow> Tls13CipherSuite \<Rightarrow> 'p \<Rightarrow> 'k RecordLayer \<Rightarrow> 'k RecordLayer" where
  "decrypts_with R suite secret rl =
     rl\<lparr>message_decrypter := Tls13MessageDecrypter (traffic_key R suite secret) (traffic_iv R secret), read_seq := 0,
        decrypt_state := Dir_Active, trial_decryption_len := None\<rparr>"

lemma set_encrypter_eq:
  "ring_ok R \<Longrightarrow> set_encrypter R secret ks common = Inr (common\<lparr>record_layer := encrypts_with R (ks_suite ks) secret (record_layer common)\<rparr>)"
  by (simp add: set_encrypter_def derive_traffic_returns set_message_encrypter_def start_encrypting_def prepare_message_encrypter_def encrypts_with_def)

lemma set_decrypter_eq:
  "ring_ok R \<Longrightarrow> set_decrypter R secret ks common = Inr (common\<lparr>record_layer := decrypts_with R (ks_suite ks) secret (record_layer common)\<rparr>)"
  by (simp add: set_decrypter_def derive_decrypter_def derive_traffic_returns set_message_decrypter_def start_decrypting_def
      prepare_message_decrypter_def decrypts_with_def)

lemma in_step_same_secret:
  assumes "ring_ok R"
    and "message_encrypter w = Tls13MessageEncrypter (traffic_key R suite secret) (traffic_iv R secret)" "write_seq w = 0"
  shows "in_step w (decrypts_with R suite secret r)"
  using assms derive_traffic_returns(3) by (simp add: in_step_def decrypts_with_def)

lemma zeroes_returns: "ring_ok R \<Longrightarrow> zeroes (hkdf_len R alg) = Inr (replicate (hkdf_len R alg) 0)"
  by (simp add: zeroes_def ring_ok_def)

lemma KeySchedule_new_with_empty_secret_returns:
  "ring_ok R \<Longrightarrow> \<exists>ks. KeySchedule_new_with_empty_secret R suite = Inr ks \<and> ks_suite ks = suite"
  by (simp add: KeySchedule_new_with_empty_secret_def KeySchedule_new_def zeroes_returns)

lemma KeyScheduleHandshake_from_data_returns:
  assumes "ring_ok R"
  obtains ks where "KeyScheduleHandshake_from_data R suite c s = Inr ks" "ks_suite (hs_ks ks) = suite"
    "client_handshake_traffic_secret ks = prk_new R (hkdf_algorithm suite) c"
    "server_handshake_traffic_secret ks = prk_new R (hkdf_algorithm suite) s"
  using KeySchedule_new_with_empty_secret_returns [OF assms, of suite] by (auto simp: KeyScheduleHandshake_from_data_def)

lemma KeyScheduleTraffic_from_data_returns:
  assumes "ring_ok R"
  obtains ks where "KeyScheduleTraffic_from_data R suite c s e = Inr ks" "ks_suite (tr_ks ks) = suite"
    "current_client_traffic_secret ks = prk_new R (hkdf_algorithm suite) c"
    "current_server_traffic_secret ks = prk_new R (hkdf_algorithm suite) s"
  using KeySchedule_new_with_empty_secret_returns [OF assms, of suite] by (auto simp: KeyScheduleTraffic_from_data_def)

section \<open>Logged secrets\<close>

lemma ks_len_le: "ring_ok R \<Longrightarrow> ks_len R ks \<le> 255 * 32"
proof -
  assume "ring_ok R"
  then have "ks_len R ks \<le> 64" by (simp add: ring_ok_def ks_len_def)
  then show ?thesis by simp
qed

lemma derive_logged_secret_logs:
  assumes "ring_ok R" and "log_label kind = Some label" and "will_log label"
  shows "\<exists>secret. derive_logged_secret R will_log kind hs_hash client_random ks =
       Inr (prk_new R (hkdf_algorithm (ks_suite ks)) secret, [(label, client_random, secret)])"
proof -
  obtain okm where "hkdf_expand R (ks_current ks) (ks_len R ks) (SecretKind_to_bytes kind) hs_hash = Inr okm"
    by (rule hkdf_expand_returns [OF assms(1) ks_len_le [OF assms(1)]])
  with assms(2,3) show ?thesis by (intro exI [of _ okm]) (simp add: derive_logged_secret_def derive_def)
qed

lemma input_empty_returns: "ring_ok R \<Longrightarrow> \<exists>ks'. input_empty R ks = Inr ks' \<and> ks_suite ks' = ks_suite ks"
proof -
  assume R: "ring_ok R"
  obtain okm where "derive_for_empty_hash R SK_DerivedSecret ks = Inr okm"
    unfolding derive_for_empty_hash_def derive_def by (rule hkdf_expand_returns [OF R ks_len_le [OF R]])
  with R show ?thesis by (simp add: input_empty_def ks_len_def zeroes_returns input_secret_def)
qed

text \<open>Logging does not change the secrets.\<close>

lemma derive_logged_secret_same:
  "derive_logged_secret R wl kind h cr ks = Inr (p, l) \<Longrightarrow> derive_logged_secret R wl' kind h cr ks = Inr (p', l') \<Longrightarrow> p' = p"
  by (auto simp: derive_logged_secret_def res_bind_Inr_iff split: option.split_asm if_split_asm)

lemma KeyScheduleTraffic_new_Inr:
  assumes "KeyScheduleTraffic_new R wl h cr ks = Inr (t, l)"
  obtains l1 l2 l3 where "input_empty R ks = Inr (tr_ks t)"
    "derive_logged_secret R wl SK_ClientApplicationTrafficSecret h cr (tr_ks t) = Inr (current_client_traffic_secret t, l1)"
    "derive_logged_secret R wl SK_ServerApplicationTrafficSecret h cr (tr_ks t) = Inr (current_server_traffic_secret t, l2)"
    "derive_logged_secret R wl SK_ExporterMasterSecret h cr (tr_ks t) = Inr (current_exporter_secret t, l3)"
  using assms by (auto simp: KeyScheduleTraffic_new_def res_bind_Inr_iff)

lemma KeyScheduleTraffic_new_same:
  assumes "KeyScheduleTraffic_new R wl h cr ks = Inr (t, l)" and "KeyScheduleTraffic_new R wl' h cr ks = Inr (t', l')"
  shows "t' = t"
proof -
  obtain l1 l2 l3 where 1: "input_empty R ks = Inr (tr_ks t)"
    "derive_logged_secret R wl SK_ClientApplicationTrafficSecret h cr (tr_ks t) = Inr (current_client_traffic_secret t, l1)"
    "derive_logged_secret R wl SK_ServerApplicationTrafficSecret h cr (tr_ks t) = Inr (current_server_traffic_secret t, l2)"
    "derive_logged_secret R wl SK_ExporterMasterSecret h cr (tr_ks t) = Inr (current_exporter_secret t, l3)"
    using assms(1) by (rule KeyScheduleTraffic_new_Inr)
  obtain m1 m2 m3 where 2: "input_empty R ks = Inr (tr_ks t')"
    "derive_logged_secret R wl' SK_ClientApplicationTrafficSecret h cr (tr_ks t') = Inr (current_client_traffic_secret t', m1)"
    "derive_logged_secret R wl' SK_ServerApplicationTrafficSecret h cr (tr_ks t') = Inr (current_server_traffic_secret t', m2)"
    "derive_logged_secret R wl' SK_ExporterMasterSecret h cr (tr_ks t') = Inr (current_exporter_secret t', m3)"
    using assms(2) by (rule KeyScheduleTraffic_new_Inr)
  have k: "tr_ks t' = tr_ks t" using 1(1) 2(1) by simp
  show ?thesis
    using k derive_logged_secret_same [OF 1(2) 2(2) [unfolded k]] derive_logged_secret_same [OF 1(3) 2(3) [unfolded k]]
      derive_logged_secret_same [OF 1(4) 2(4) [unfolded k]] by simp
qed

lemma KeyScheduleTraffic_new_logs:
  assumes "ring_ok R" and "\<And>label. will_log label"
  obtains tr c s e where
    "KeyScheduleTraffic_new R will_log hs_hash client_random ks =
       Inr (tr, [(ascii ''CLIENT_TRAFFIC_SECRET_0'', client_random, c), (ascii ''SERVER_TRAFFIC_SECRET_0'', client_random, s),
                 (ascii ''EXPORTER_SECRET'', client_random, e)])"
    "ks_suite (tr_ks tr) = ks_suite ks"
    "current_client_traffic_secret tr = prk_new R (hkdf_algorithm (ks_suite ks)) c"
    "current_server_traffic_secret tr = prk_new R (hkdf_algorithm (ks_suite ks)) s"
proof -
  obtain ks' where k: "input_empty R ks = Inr ks'" "ks_suite ks' = ks_suite ks" using input_empty_returns [OF assms(1)] by blast
  obtain c where "derive_logged_secret R will_log SK_ClientApplicationTrafficSecret hs_hash client_random ks' =
       Inr (prk_new R (hkdf_algorithm (ks_suite ks')) c, [(ascii ''CLIENT_TRAFFIC_SECRET_0'', client_random, c)])"
    using derive_logged_secret_logs [OF assms(1), of SK_ClientApplicationTrafficSecret "ascii ''CLIENT_TRAFFIC_SECRET_0''" will_log hs_hash client_random ks'] assms(2) by auto
  moreover obtain s where "derive_logged_secret R will_log SK_ServerApplicationTrafficSecret hs_hash client_random ks' =
       Inr (prk_new R (hkdf_algorithm (ks_suite ks')) s, [(ascii ''SERVER_TRAFFIC_SECRET_0'', client_random, s)])"
    using derive_logged_secret_logs [OF assms(1), of SK_ServerApplicationTrafficSecret "ascii ''SERVER_TRAFFIC_SECRET_0''" will_log hs_hash client_random ks'] assms(2) by auto
  moreover obtain e where "derive_logged_secret R will_log SK_ExporterMasterSecret hs_hash client_random ks' =
       Inr (prk_new R (hkdf_algorithm (ks_suite ks')) e, [(ascii ''EXPORTER_SECRET'', client_random, e)])"
    using derive_logged_secret_logs [OF assms(1), of SK_ExporterMasterSecret "ascii ''EXPORTER_SECRET''" will_log hs_hash client_random ks'] assms(2) by auto
  ultimately show ?thesis using k
    by (intro that [of "\<lparr>tr_ks = ks', current_client_traffic_secret = prk_new R (hkdf_algorithm (ks_suite ks')) c,
          current_server_traffic_secret = prk_new R (hkdf_algorithm (ks_suite ks')) s,
          current_exporter_secret = prk_new R (hkdf_algorithm (ks_suite ks')) e\<rparr>" c s e])
      (simp_all add: KeyScheduleTraffic_new_def)
qed

text \<open>A line that the key log file gets is a line that the key database writes.\<close>

lemma try_write_log_line:
  "label = fmt_SecretType ty \<Longrightarrow> try_write (label, cr, secret) = log_line (ClientRandom cr) (ty, Secret secret)"
  by (simp add: try_write_def log_line_def Hex_def)

lemma load_written:
  assumes "\<And>bs. hex_decode (Hex bs) = Some bs"
  shows "fst (load_key_log hex_decode (concat (map (log_line (ClientRandom cr)) kss)) db) = add_all (ClientRandom cr) kss db"
  using load_log_lines [OF assms, of "ClientRandom cr" kss "[]" db] by (simp add: load_key_log_def do_line_def)

lemma lookup_traffic_secrets:
  assumes "\<And>bs. hex_decode (Hex bs) = Some bs"
    and "db = fst (load_key_log hex_decode (concat (map try_write
      [(ascii ''CLIENT_TRAFFIC_SECRET_0'', cr, c), (ascii ''SERVER_TRAFFIC_SECRET_0'', cr, s), (ascii ''EXPORTER_SECRET'', cr, e)])) KeyDB_default)"
  shows "lookup_secret db (ClientRandom cr) ClientTrafficSecret0 = Some (Secret c)"
    "lookup_secret db (ClientRandom cr) ServerTrafficSecret0 = Some (Secret s)"
    "lookup_secret db (ClientRandom cr) ExporterSecret = Some (Secret e)"
proof -
  let ?kss = "[(ClientTrafficSecret0, Secret c), (ServerTrafficSecret0, Secret s), (ExporterSecret, Secret e)]"
  have "concat (map try_write
      [(ascii ''CLIENT_TRAFFIC_SECRET_0'', cr, c), (ascii ''SERVER_TRAFFIC_SECRET_0'', cr, s), (ascii ''EXPORTER_SECRET'', cr, e)]) =
      concat (map (log_line (ClientRandom cr)) ?kss)"
    by (simp add: try_write_log_line [of _ ClientTrafficSecret0] try_write_log_line [of _ ServerTrafficSecret0] try_write_log_line [of _ ExporterSecret])
  then have "db = add_all (ClientRandom cr) ?kss KeyDB_default" by (simp only: assms(2) load_written [OF assms(1)])
  then show "lookup_secret db (ClientRandom cr) ClientTrafficSecret0 = Some (Secret c)"
    "lookup_secret db (ClientRandom cr) ServerTrafficSecret0 = Some (Secret s)"
    "lookup_secret db (ClientRandom cr) ExporterSecret = Some (Secret e)"
    by (simp_all add: add_all_def lookup_secret_on_secret)
qed

text \<open>
  A server that switches to its traffic keys and writes its secrets to the key log file, and a client
  that went through the same key schedule, encrypt with keys that the interceptor installs: the text of
  the log, loaded into an empty key database, answers the three lookups, and the schedule made from
  them gives record layers that match the server's and the client's.
\<close>

lemma logged_keys_match:
  assumes "ring_ok R" and "\<And>bs. hex_decode (Hex bs) = Some bs"
    and "into_traffic_with_client_finished_pending R (\<lambda>label. True) hs_hash cr hs b = Inr (b', pending, log)"
    and "into_pre_finished_client_traffic R will_log hs_hash hash cr hs' = Inr (before, tag, log')" and "hs_ks hs' = hs_ks hs"
    and "into_traffic R before a = Inr (a', tr)"
    and "db = fst (load_key_log hex_decode (concat (map try_write log)) KeyDB_default)"
  shows "\<exists>c s e ks x' y'. lookup_secret db (ClientRandom cr) ClientTrafficSecret0 = Some (Secret c)
    \<and> lookup_secret db (ClientRandom cr) ServerTrafficSecret0 = Some (Secret s)
    \<and> lookup_secret db (ClientRandom cr) ExporterSecret = Some (Secret e)
    \<and> KeyScheduleTraffic_from_data R (ks_suite (hs_ks hs)) c s e = Inr ks
    \<and> ks_load_keys R Side_Client ks x = Inr x' \<and> in_step (record_layer b') (record_layer x')
    \<and> ks_load_keys R Side_Server ks y = Inr y' \<and> in_step (record_layer a') (record_layer y')"
proof -
  let ?suite = "ks_suite (hs_ks hs)"
  obtain t c s e where t: "KeyScheduleTraffic_new R (\<lambda>label. True) hs_hash cr (hs_ks hs) =
       Inr (t, [(ascii ''CLIENT_TRAFFIC_SECRET_0'', cr, c), (ascii ''SERVER_TRAFFIC_SECRET_0'', cr, s), (ascii ''EXPORTER_SECRET'', cr, e)])"
      "ks_suite (tr_ks t) = ?suite"
      "current_client_traffic_secret t = prk_new R (hkdf_algorithm ?suite) c"
      "current_server_traffic_secret t = prk_new R (hkdf_algorithm ?suite) s"
    using KeyScheduleTraffic_new_logs [OF assms(1), of "\<lambda>label. True"] by blast
  have tr: "before_traffic before = t" using assms(4,5) KeyScheduleTraffic_new_same [OF t(1)]
    by (auto simp: into_pre_finished_client_traffic_def res_bind_Inr_iff)
  have b: "record_layer b' = encrypts_with R ?suite (prk_new R (hkdf_algorithm ?suite) s) (record_layer b)"
      and log: "log = [(ascii ''CLIENT_TRAFFIC_SECRET_0'', cr, c), (ascii ''SERVER_TRAFFIC_SECRET_0'', cr, s), (ascii ''EXPORTER_SECRET'', cr, e)]"
    using assms(3) t by (auto simp: into_traffic_with_client_finished_pending_def set_encrypter_eq [OF assms(1)] split: if_split_asm)
  have a: "message_encrypter (record_layer a') = Tls13MessageEncrypter (traffic_key R ?suite (prk_new R (hkdf_algorithm ?suite) c))
        (traffic_iv R (prk_new R (hkdf_algorithm ?suite) c))" "write_seq (record_layer a') = 0"
    using assms(6) t(2,3) tr
    by (auto simp: into_traffic_def set_encrypter_eq [OF assms(1)] set_decrypter_eq [OF assms(1)] encrypts_with_def Let_def split: if_split_asm)
  obtain ks where ks: "KeyScheduleTraffic_from_data R ?suite c s e = Inr ks" "ks_suite (tr_ks ks) = ?suite"
      "current_client_traffic_secret ks = prk_new R (hkdf_algorithm ?suite) c" "current_server_traffic_secret ks = prk_new R (hkdf_algorithm ?suite) s"
    by (rule KeyScheduleTraffic_from_data_returns [OF assms(1)])
  have x: "ks_load_keys R Side_Client ks x = Inr (x\<lparr>record_layer := decrypts_with R ?suite (prk_new R (hkdf_algorithm ?suite) s)
      (encrypts_with R ?suite (prk_new R (hkdf_algorithm ?suite) c) (record_layer x))\<rparr>)"
    by (simp add: ks_load_keys_def set_encrypter_eq [OF assms(1)] set_decrypter_eq [OF assms(1)] ks)
  have y: "ks_load_keys R Side_Server ks y = Inr (y\<lparr>record_layer := decrypts_with R ?suite (prk_new R (hkdf_algorithm ?suite) c)
      (encrypts_with R ?suite (prk_new R (hkdf_algorithm ?suite) s) (record_layer y))\<rparr>)"
    by (simp add: ks_load_keys_def set_encrypter_eq [OF assms(1)] set_decrypter_eq [OF assms(1)] ks)
  have "in_step (record_layer b') (decrypts_with R ?suite (prk_new R (hkdf_algorithm ?suite) s) r)" for r
    by (rule in_step_same_secret [OF assms(1)]) (simp_all add: b encrypts_with_def)
  then have xb: "in_step (record_layer b') (record_layer (x\<lparr>record_layer := decrypts_with R ?suite (prk_new R (hkdf_algorithm ?suite) s)
      (encrypts_with R ?suite (prk_new R (hkdf_algorithm ?suite) c) (record_layer x))\<rparr>))" by simp
  have ya: "in_step (record_layer a') (record_layer (y\<lparr>record_layer := decrypts_with R ?suite (prk_new R (hkdf_algorithm ?suite) c)
      (encrypts_with R ?suite (prk_new R (hkdf_algorithm ?suite) s) (record_layer y))\<rparr>))"
    using in_step_same_secret [OF assms(1) a] by simp
  show ?thesis
    using lookup_traffic_secrets [OF assms(2) assms(7) [unfolded log]] ks(1) x xb y ya by blast
qed

lemma into_traffic_with_client_finished_pending_returns:
  assumes "ring_ok R" and "cs_side common = Side_Server"
  shows "\<exists>y. into_traffic_with_client_finished_pending R (\<lambda>label. True) h cr hs common = Inr y"
proof -
  obtain t l where "KeyScheduleTraffic_new R (\<lambda>label. True) h cr (hs_ks hs) = Inr (t, l)"
    using KeyScheduleTraffic_new_logs [OF assms(1), of "\<lambda>label. True"] by blast
  with assms show ?thesis by (simp add: into_traffic_with_client_finished_pending_def set_encrypter_eq)
qed

lemma into_pre_finished_client_traffic_returns:
  assumes "ring_ok R"
  shows "\<exists>y. into_pre_finished_client_traffic R (\<lambda>label. True) h hash cr hs = Inr y"
proof -
  obtain t l where "KeyScheduleTraffic_new R (\<lambda>label. True) h cr (hs_ks hs) = Inr (t, l)"
    using KeyScheduleTraffic_new_logs [OF assms(1), of "\<lambda>label. True"] by blast
  moreover obtain okm where "hkdf_expand R (client_handshake_traffic_secret hs) (ks_len R (tr_ks t)) (ascii ''finished'') [] = Inr okm"
    by (rule hkdf_expand_returns [OF assms ks_len_le [OF assms]])
  ultimately show ?thesis by (simp add: into_pre_finished_client_traffic_def sign_finish_def sign_verify_data_def)
qed

lemma into_traffic_returns: "ring_ok R \<Longrightarrow> cs_side common = Side_Client \<Longrightarrow> \<exists>y. into_traffic R before common = Inr y"
  by (simp add: into_traffic_def Let_def set_encrypter_eq set_decrypter_eq)

text \<open>
  Keying material that is too long to be expanded is not refused with an error: the expansion is
  unwrapped before the error could be mapped.
\<close>

lemma export_too_much_panics:
  assumes "ring_ok R" and "\<And>p info. prk_expand R p info out_len = None"
  shows "export_keying_material R out_len label context tr = Inl UnwrapFailed"
proof -
  obtain okm where "hkdf_expand R (current_exporter_secret tr) (ks_len R (tr_ks tr)) label (digest R (hkdf_algorithm (ks_suite (tr_ks tr))) []) = Inr okm"
    by (rule hkdf_expand_returns [OF assms(1) ks_len_le [OF assms(1)]])
  with assms(2) show ?thesis
    by (simp add: export_keying_material_def ks_export_keying_material_def Let_def hkdf_expand_def)
qed

end
