(* ===== verification/Tls_Intercept.thy ===== *)
theory Tls_Intercept
  imports Tls_Queue Tls_Keys Deframer_Refinement
begin

text \<open>
  The TLS layer on top of the rustls fork: the record \<open>intercept\<close> puts the deframer, the connection
  state, the message parser and the key schedules of the fork where the layer calls them.  What
  remains open is ring (the ciphers and HKDF), the check of server names, and how the deque of received
  bytes is split.

  The contract \<open>deframing\<close> holds for it, so the layer returns from every call; it panics on a message
  in two cases only; and application data that a peer with the same keys sends is handed to the next
  layer, unless a record is longer than what one read takes.
\<close>

section \<open>The fork behind the layer\<close>

definition intercept_read :: "(bytes \<Rightarrow> nat) \<Rightarrow> MessageDeframer \<Rightarrow> bytes \<Rightarrow> (MessageDeframer \<times> bytes) res" where
  "intercept_read front d buf = res_bind (deframer_read front d buf) (\<lambda>(d, rest, r). Inr (d, rest))"

definition intercept_pop ::
  "'k aead \<Rightarrow> MessageDeframer \<Rightarrow> 'k CommonState \<Rightarrow> (MessageDeframer \<times> 'k CommonState \<times> (PlainMessage \<times> bool) option) res" where
  "intercept_pop L d cs =
     res_bind (deframer_pop L d (record_layer cs)) (\<lambda>(d, rl, r).
       Inr (d, cs\<lparr>record_layer := rl\<rparr>,
            case r of Inr (Some x) \<Rightarrow> Some (deframed_message x, trial_decryption_finished x) | _ \<Rightarrow> None))"

definition intercept_message :: "(bytes \<Rightarrow> string option) \<Rightarrow> PlainMessage \<Rightarrow> Message option" where
  "intercept_message try_from_ascii m = (case Message_try_from try_from_ascii m of Some (Inr msg) \<Rightarrow> Some msg | _ \<Rightarrow> None)"

definition intercept ::
  "'k aead \<Rightarrow> (bytes \<Rightarrow> nat) \<Rightarrow> ('k, 'p) ring \<Rightarrow> (bytes \<Rightarrow> string option) \<Rightarrow>
   (MessageDeframer, 'k CommonState, PlainMessage, 'p KeyScheduleHandshake, 'p KeyScheduleTraffic) rustls" where
  "intercept L front R try_from_ascii =
     \<lparr>df_default = MessageDeframer_default, cs_new = CommonState_new, df_read = intercept_read front, df_pop = intercept_pop L,
      finish_trial_decryption = (\<lambda>cs. cs\<lparr>record_layer := rl_finish_trial_decryption (record_layer cs)\<rparr>),
      message_try_from = intercept_message try_from_ascii,
      handshake_from_data = KeyScheduleHandshake_from_data R,
      install_client_handshake_secrets = (\<lambda>ks early. ks_install_client_handshake_secrets R early ks),
      install_server_handshake_secrets = ks_install_server_handshake_secrets R,
      traffic_from_data = KeyScheduleTraffic_from_data R, load_keys = (\<lambda>ks side. ks_load_keys R side ks)\<rparr>"

lemma intercept_simps [simp]:
  "df_default (intercept L front R A) = MessageDeframer_default" "df_read (intercept L front R A) = intercept_read front"
  "df_pop (intercept L front R A) = intercept_pop L" "message_try_from (intercept L front R A) = intercept_message A"
  "finish_trial_decryption (intercept L front R A) = (\<lambda>cs. cs\<lparr>record_layer := rl_finish_trial_decryption (record_layer cs)\<rparr>)"
  by (simp_all add: intercept_def)

section \<open>Termination\<close>











section \<open>Panics\<close>

lemma intercept_installs: "ring_ok R \<Longrightarrow> installs (intercept L front R A)"
  unfolding installs_def intercept_def
  by (auto simp: ks_install_client_handshake_secrets_def ks_install_server_handshake_secrets_def ks_load_keys_def set_encrypter_eq set_decrypter_eq
      split: Side.split intro: KeyScheduleHandshake_from_data_returns KeyScheduleTraffic_from_data_returns)

definition unit_ring :: "(unit, bytes) ring" where
  "unit_ring =
     \<lparr>hkdf_len = (\<lambda>alg. 32), prk_new = (\<lambda>alg b. b), salt_extract = (\<lambda>alg s b. s @ b),
      prk_expand = (\<lambda>p info len. if len \<le> 8160 then Some (replicate len 9) else None),
      aead_key_len = (\<lambda>alg. 16), aead_key = (\<lambda>alg b. ()), digest = (\<lambda>alg b. b), hmac_sign = (\<lambda>alg k b. k)\<rparr>"

lemma unit_ring_ok: "ring_ok unit_ring"
  by (simp add: ring_ok_def unit_ring_def)

section \<open>Records of application data\<close>

lemma record_step:
  assumes "aead_ok L" and "in_step w rl" and "message_encrypter w = Tls13MessageEncrypter k iv" and "encryptable m"
    and "encrypt_outgoing L m w = Inr (w1, r)" and "write_seq w \<noteq> SEQ_SOFT_LIMIT"
  shows "OpaqueMessage_ok r" "om_typ r = CT_ApplicationData"
    "decrypt_incoming L r rl = Inr (rl\<lparr>read_seq := read_seq rl + 1\<rparr>, Inr (Some (False, m\<lparr>pm_version := TLSv1_3\<rparr>)))"
    "in_step w1 (rl\<lparr>read_seq := read_seq rl + 1\<rparr>)" "w1 = w\<lparr>write_seq := write_seq w + 1\<rparr>"
proof -
  note e = assms(5) [unfolded encrypt_outgoing_Inr]
  have t: "tag_len L k = 16" using assms(1) by (simp add: aead_ok_def)
  from e assms(3) obtain sealed where s: "seal L k (make_nonce iv (write_seq w)) (make_tls13_aad (length (pm_payload m) + 1 + 16))
        (pm_payload m @ ContentType_encode (pm_typ m)) = Some sealed"
      "r = \<lparr>om_typ = CT_ApplicationData, om_version = TLSv1_2, om_payload = sealed\<rparr>"
    by (auto simp: tls13_encrypt_def Let_def t split: option.splits)
  have "length sealed = length (pm_payload m) + 17" using unseal_seal [OF assms(1) s(1)] by simp
  with assms(4) show "OpaqueMessage_ok r" "om_typ r = CT_ApplicationData"
    by (simp_all add: s(2) OpaqueMessage_ok_def encryptable_def unat_MAX_PAYLOAD MAX_FRAGMENT_LEN_def ContentType_ok_def ContentType_from_def
        ProtocolVersion_ok_def ProtocolVersion_from_def)
  have "decrypt L (message_decrypter rl) r (read_seq rl) = Inr (m\<lparr>pm_version := TLSv1_3\<rparr>)"
    using decrypt_encrypt [OF assms(1) _ assms(4), of "message_encrypter w" "message_decrypter rl" "write_seq w" r] e assms(2,3) by (simp add: in_step_def)
  then show "decrypt_incoming L r rl = Inr (rl\<lparr>read_seq := read_seq rl + 1\<rparr>, Inr (Some (False, m\<lparr>pm_version := TLSv1_3\<rparr>)))"
    using assms(2,6) e below_hard_limit(1) by (simp add: decrypt_incoming_def in_step_def)
  show "in_step w1 (rl\<lparr>read_seq := read_seq rl + 1\<rparr>)" using e assms(2) by (simp add: in_step_def)
  show "w1 = w\<lparr>write_seq := write_seq w + 1\<rparr>" using e by simp
qed

text \<open>A deframer that holds whole records, with no handshake message begun.\<close>

definition holds_records :: "MessageDeframer \<Rightarrow> bytes \<Rightarrow> bool" where
  "holds_records d bs \<longleftrightarrow> refines d \<lparr>q_error = None, q_joined = None, q_records = bs\<rparr>"

lemma pop_application_data:
  assumes "aead_ok L" and "holds_records d (OpaqueMessage_encode r @ bs)" and "OpaqueMessage_ok r" and "om_typ r = CT_ApplicationData"
    and "decrypt_incoming L r (record_layer cs) = Inr (rl, Inr (Some (False, m)))" and "pm_typ m = CT_ApplicationData"
  obtains d' where "intercept_pop L d cs = Inr (d', cs\<lparr>record_layer := rl\<rparr>, Some (m, False))" "holds_records d' bs"
proof -
  let ?q = "\<lparr>q_error = None, q_joined = None, q_records = OpaqueMessage_encode r @ bs\<rparr>"
  have "OpaqueMessage_read (Reader_init (OpaqueMessage_encode r @ bs)) = Inr (r, advance (length (OpaqueMessage_encode r)) (Reader_init (OpaqueMessage_encode r @ bs)))"
    by (rule OpaqueMessage_read_encode [OF assms(3)]) simp
  then have "queue_round L ?q (record_layer cs) = Inr (?q\<lparr>q_records := bs\<rparr>, rl, Pop_Return (Inr (Some (deframed_whole m))))"
    using assms(4-6) by (simp add: queue_round_def queue_opaque_def queue_plain_def rd_used_def Reader_init_def)
  then have q: "queue_pop L ?q (record_layer cs) = Inr (?q\<lparr>q_records := bs\<rparr>, rl, Inr (Some (deframed_whole m)))"
    unfolding queue_pop_def by (subst queue_loop.simps) simp
  from pop_refines [OF assms(2) [unfolded holds_records_def] assms(1), of "record_layer cs"] obtain d' where
    "deframer_pop L d (record_layer cs) = Inr (d', rl, Inr (Some (deframed_whole m)))" "holds_records d' bs"
    unfolding q by (auto elim!: refines_step_cases simp: holds_records_def)
  then show thesis by (intro that [of d']) (simp_all add: intercept_pop_def deframed_whole_def)
qed

lemma pop_nothing:
  assumes "aead_ok L" and "holds_records d []"
  obtains d' where "intercept_pop L d cs = Inr (d', cs, None)" "holds_records d' []"
proof -
  let ?q = "\<lparr>q_error = None, q_joined = None, q_records = []\<rparr>"
  have q: "queue_pop L ?q (record_layer cs) = Inr (?q, record_layer cs, Inr None)"
    unfolding queue_pop_def by (simp add: queue_loop_nothing)
  from pop_refines [OF assms(2) [unfolded holds_records_def] assms(1), of "record_layer cs"] obtain d' where
    "deframer_pop L d (record_layer cs) = Inr (d', record_layer cs, Inr None)" "holds_records d' []"
    unfolding q by (auto elim!: refines_step_cases simp: holds_records_def)
  then show thesis by (intro that [of d']) (simp_all add: intercept_pop_def)
qed

lemma read_nothing:
  assumes "holds_records d bs" and "front [] = 0"
  obtains d' where "intercept_read front d [] = Inr (d', [])" "holds_records d' bs"
proof -
  have ok: "deframer_ok d" "queues_of d = \<lparr>q_error = None, q_joined = None, q_records = bs\<rparr>"
    using assms(1) by (auto simp: holds_records_def refines_def)
  obtain d' taken rest r where "deframer_read front d [] = Inr (d', rest, r)" "[] = taken @ rest"
    "refines d' ((queues_of d)\<lparr>q_records := q_records (queues_of d) @ taken\<rparr>)"
    using read_refines [of d front "[]", OF ok(1)] assms(2) by (metis le0)
  then show thesis by (intro that [of d']) (simp_all add: intercept_read_def holds_records_def ok(2))
qed

text \<open>An empty deframer takes everything that fits into one read.\<close>

lemma read_all:
  assumes "holds_records d []" and "front buf = length buf" and "length buf \<le> READ_SIZE"
  obtains d' where "intercept_read front d buf = Inr (d', [])" "holds_records d' buf"
proof -
  have ok: "deframer_ok d" "queues_of d = \<lparr>q_error = None, q_joined = None, q_records = []\<rparr>"
    using assms(1) by (auto simp: holds_records_def refines_def)
  have u: "joining_hs d = None" "df_used d = 0"
    using ok by (auto simp: queues_of_def deframer_ok_def next_record_def)
  obtain d' taken rest r where r: "deframer_read front d buf = Inr (d', rest, r)" "buf = taken @ rest"
    "refines d' ((queues_of d)\<lparr>q_records := q_records (queues_of d) @ taken\<rparr>)"
    using read_refines [of d front buf, OF ok(1)] assms(2) by (metis order_refl)
  have "rest = []"
    using r(1) assms(2,3) u
    by (auto simp: deframer_read_def prepare_read_def Let_def READ_SIZE_def MAX_WIRE_SIZE_def vec_resize_def slice_range_def res_bind_Inr_iff
        MAX_PAYLOAD_def OM_HEADER_SIZE_def split: if_split_asm)
  with r show thesis by (intro that [of d']) (simp_all add: intercept_read_def holds_records_def ok(2))
qed

lemma set_flow_side_twice [simp]: "set_flow_side c x (set_flow_side c y entry) = set_flow_side c x entry"
  by (simp add: set_flow_side_def)

lemma application_round:
  assumes "aead_ok L" and "tls_state entry = WaitForFinish su cr cf sf"
    and "intercept_read front (deframer (flow_side c entry)) (read_buffer (flow_side c entry)) = Inr (d, [])"
    and "holds_records d (OpaqueMessage_encode r @ bs)" and "OpaqueMessage_ok r" and "om_typ r = CT_ApplicationData"
    and "decrypt_incoming L r (record_layer (common_state (flow_side c entry))) = Inr (rl, Inr (Some (False, m)))"
    and "pm_typ m = CT_ApplicationData"
  obtains entry' where
    "on_data_round (intercept L front R A) db timing target c entry = Inr (Continue entry' [call_of_event timing target (Next c (pm_payload m))])"
    "holds_records (deframer (flow_side c entry')) bs" "read_buffer (flow_side c entry') = []"
    "record_layer (common_state (flow_side c entry')) = rl" "tls_state entry' = tls_state entry"
proof -
  let ?side = "flow_side c entry" and ?cs = "common_state (flow_side c entry)"
  obtain d' where d': "intercept_pop L d ?cs = Inr (d', ?cs\<lparr>record_layer := rl\<rparr>, Some (m, False))" "holds_records d' bs"
    by (rule pop_application_data [OF assms(1,4,5,6,7,8)])
  let ?side' = "?side\<lparr>deframer := d', read_buffer := [], common_state := ?cs\<lparr>record_layer := rl\<rparr>\<rparr>"
  let ?entry = "set_flow_side c ?side' entry"
  have "read_and_deframe (intercept L front R A) ?side = Inr (?side', Some m)"
    by (simp add: read_and_deframe_def deframe_def assms(3) d'(1))
  moreover have "intercept_message A m = Some \<lparr>msg_version = pm_version m, msg_payload = MP_ApplicationData (pm_payload m)\<rparr>"
    using assms(8) by (simp add: intercept_message_def Message_try_from_def MessagePayload_new_def)
  moreover have "?entry\<lparr>tls_state := Failed, tls_state := WaitForFinish su cr cf sf\<rparr> = ?entry"
    using assms(2) by (simp add: set_flow_side_def)
  ultimately have "on_data_round (intercept L front R A) db timing target c entry =
      Inr (Continue ?entry [call_of_event timing target (Next c (pm_payload m))])"
    using assms(2) by (simp add: on_data_round_def do_message_def drive_WaitForFinish_def Let_def)
  then show thesis using d'(2) assms(2) by (intro that [of ?entry]) simp_all
qed

text \<open>A side of a flow that waits for the next record of a peer.\<close>

definition side_ready :: "('d, 'k CommonState) TLSFlow \<Rightarrow> bool \<Rightarrow> 'k RecordLayer \<Rightarrow> bool" where
  "side_ready entry c w \<longleftrightarrow> in_step w (record_layer (common_state (flow_side c entry)))
     \<and> (\<exists>su cr cf sf. tls_state entry = WaitForFinish su cr cf sf)"

lemma loop_delivers:
  assumes "aead_ok L" and "front [] = 0"
    and "intercept_read front (deframer (flow_side c entry)) (read_buffer (flow_side c entry)) = Inr (d, [])"
    and "holds_records d (concat (map OpaqueMessage_encode rs))"
    and "message_encrypter w = Tls13MessageEncrypter k iv" and "side_ready entry c w"
    and "list_all (\<lambda>m. encryptable m \<and> pm_typ m = CT_ApplicationData) ms" and "encrypt_all L ms w = Inr (w', rs)"
    and "unat (write_seq w) + length ms \<le> unat SEQ_SOFT_LIMIT"
  shows "\<exists>entry'. on_data_loop (intercept L front R A) db timing target c entry out =
      Some (Inr (Ok (), entry', out @ map (\<lambda>m. call_of_event timing target (Next c (pm_payload m))) ms))
    \<and> side_ready entry' c w' \<and> holds_records (deframer (flow_side c entry')) [] \<and> read_buffer (flow_side c entry') = []"
  using assms(3-)
proof (induction ms arbitrary: entry d w rs out)
  case Nil
  let ?cs = "common_state (flow_side c entry)"
  obtain d' where d': "intercept_pop L d ?cs = Inr (d', ?cs, None)" "holds_records d' []"
    using pop_nothing [OF assms(1)] Nil.prems(2,6) by auto
  let ?entry = "set_flow_side c ((flow_side c entry)\<lparr>read_buffer := [], deframer := d'\<rparr>) entry"
  have "on_data_round (intercept L front R A) db timing target c entry = Inr (Break (Ok ()) ?entry [])"
    by (simp add: on_data_round_def read_and_deframe_def deframe_def Nil.prems(1) d'(1))
  then have "on_data_loop (intercept L front R A) db timing target c entry out = Some (Inr (Ok (), ?entry, out))"
    by (subst on_data_loop.simps) simp
  then show ?case using Nil.prems(4,6) d'(2) by (intro exI [of _ ?entry]) (simp add: side_ready_def)
next
  case (Cons m ms)
  obtain w1 r rs1 where r: "encrypt_outgoing L m w = Inr (w1, r)" "encrypt_all L ms w1 = Inr (w', rs1)" "rs = r # rs1"
    using Cons.prems(6) by (auto simp: res_simps)
  obtain su cr cf sf where st: "tls_state entry = WaitForFinish su cr cf sf" using Cons.prems(4) by (auto simp: side_ready_def)
  let ?rl = "record_layer (common_state (flow_side c entry))"
  have m: "encryptable m" "pm_typ m = CT_ApplicationData" using Cons.prems(5) by simp_all
  have lim: "write_seq w \<noteq> SEQ_SOFT_LIMIT" using Cons.prems(7) by auto
  have ins: "in_step w ?rl" using Cons.prems(4) by (simp add: side_ready_def)
  note s = record_step [OF assms(1) ins Cons.prems(3) m(1) r(1) lim]
  have h: "holds_records d (OpaqueMessage_encode r @ concat (map OpaqueMessage_encode rs1))" using Cons.prems(2) r(3) by simp
  have ty: "pm_typ (m\<lparr>pm_version := TLSv1_3\<rparr>) = CT_ApplicationData" and pl: "pm_payload (m\<lparr>pm_version := TLSv1_3\<rparr>) = pm_payload m"
    using m(2) by simp_all
  obtain e1 where e1: "on_data_round (intercept L front R A) db timing target c entry = Inr (Continue e1 [call_of_event timing target (Next c (pm_payload m))])"
      "holds_records (deframer (flow_side c e1)) (concat (map OpaqueMessage_encode rs1))" "read_buffer (flow_side c e1) = []"
      "record_layer (common_state (flow_side c e1)) = ?rl\<lparr>read_seq := read_seq ?rl + 1\<rparr>" "tls_state e1 = tls_state entry"
    by (rule application_round [OF assms(1) st Cons.prems(1) h s(1,2,3) ty, unfolded pl])
  obtain d1 where d1: "intercept_read front (deframer (flow_side c e1)) (read_buffer (flow_side c e1)) = Inr (d1, [])"
      "holds_records d1 (concat (map OpaqueMessage_encode rs1))"
    using read_nothing [where front = front, OF e1(2) assms(2)] e1(3) by auto
  have sr: "side_ready e1 c w1" using s(4) e1(4,5) st by (simp add: side_ready_def)
  have "write_seq w < SEQ_HARD_LIMIT" using r(1) by (simp add: encrypt_outgoing_Inr)
  then have lim1: "unat (write_seq w1) + length ms \<le> unat SEQ_SOFT_LIMIT" using Cons.prems(7) s(5) below_hard_limit(2) by simp
  have me: "message_encrypter w1 = Tls13MessageEncrypter k iv" using Cons.prems(3) s(5) by simp
  have la: "list_all (\<lambda>m. encryptable m \<and> pm_typ m = CT_ApplicationData) ms" using Cons.prems(5) by simp
  obtain e' where "on_data_loop (intercept L front R A) db timing target c e1 (out @ [call_of_event timing target (Next c (pm_payload m))]) =
      Some (Inr (Ok (), e', (out @ [call_of_event timing target (Next c (pm_payload m))]) @ map (\<lambda>m. call_of_event timing target (Next c (pm_payload m))) ms))"
      "side_ready e' c w'" "holds_records (deframer (flow_side c e')) []" "read_buffer (flow_side c e') = []"
    using Cons.IH [OF d1 me sr la r(2) lim1, of "out @ [call_of_event timing target (Next c (pm_payload m))]"] by blast
  then show ?case using e1(1) by (subst on_data_loop.simps) simp
qed

text \<open>What one chunk of records does to a tracker.\<close>

lemma tracker_delivers:
  assumes "aead_ok L" and "front [] = 0" and "front data = length data" and "length data \<le> READ_SIZE"
    and "is_tls target" and "tls_flows t target = Some entry" and "side_ready entry c w"
    and "holds_records (deframer (flow_side c entry)) []" and "read_buffer (flow_side c entry) = []"
    and "message_encrypter w = Tls13MessageEncrypter k iv" and "unat (write_seq w) + length ms \<le> unat SEQ_SOFT_LIMIT"
    and "carries ms bs" and "encrypt_all L ms w = Inr (w', rs)" and "data = concat (map OpaqueMessage_encode rs)"
  shows "\<exists>entry'. tracker_on_data (intercept L front R A) db timing target c data t =
      Some (Inr (t\<lparr>tls_flows := (tls_flows t)(target \<mapsto> entry')\<rparr>, map (\<lambda>m. call_of_event timing target (Next c (pm_payload m))) ms))
    \<and> side_ready entry' c w' \<and> holds_records (deframer (flow_side c entry')) [] \<and> read_buffer (flow_side c entry') = []"
proof -
  let ?e = "set_flow_side c ((flow_side c entry)\<lparr>read_buffer := data\<rparr>) entry"
  obtain d where d: "intercept_read front (deframer (flow_side c entry)) data = Inr (d, [])" "holds_records d data"
    by (rule read_all [where front = front and buf = data, OF assms(8,3,4)])
  have "side_ready ?e c w" using assms(7) by (simp add: side_ready_def)
  moreover have "list_all (\<lambda>m. encryptable m \<and> pm_typ m = CT_ApplicationData) ms" using assms(12) by (simp add: carries_def)
  ultimately obtain entry' where e: "on_data_loop (intercept L front R A) db timing target c ?e [] =
      Some (Inr (Ok (), entry', map (\<lambda>m. call_of_event timing target (Next c (pm_payload m))) ms))"
      "side_ready entry' c w'" "holds_records (deframer (flow_side c entry')) []" "read_buffer (flow_side c entry') = []"
    using loop_delivers [where front = front, OF assms(1,2), of c ?e d rs w k iv ms w' R A db timing target "[]"] d assms(10,11,13,14) by auto
  have "blocked_on_keys (tls_state entry) = None" using assms(7) by (auto simp: side_ready_def)
  then have "tracker_on_data (intercept L front R A) db timing target c data t =
      Some (Inr (t\<lparr>tls_flows := (tls_flows t)(target \<mapsto> entry')\<rparr>, map (\<lambda>m. call_of_event timing target (Next c (pm_payload m))) ms))"
    using e(1) assms(5,6,9) by (simp add: tracker_on_data_def inner_on_data_def tls_entry_def Let_def)
  with e(2-4) show ?thesis by blast
qed

definition call_data :: "bytes listener_call \<Rightarrow> bytes" where
  "call_data call = (case call of OnData timing target c bs \<Rightarrow> bs | OnSideData d \<Rightarrow> [])"

lemma call_data_Next [simp]: "call_data (call_of_event timing target (Next c bs)) = bs"
  by (simp add: call_data_def call_of_event_def)

section \<open>A record longer than a read\<close>

lemma long_record_read:
  assumes "OpaqueMessage_ok r" and "5 \<le> n" and "n < length (OpaqueMessage_encode r)"
  shows "OpaqueMessage_read (Reader_init (take n (OpaqueMessage_encode r))) = Inl ME_TooShortForLength"
proof -
  have ok: "ContentType_ok (om_typ r)" "\<not> (case om_typ r of CT_Unknown _ \<Rightarrow> True | _ \<Rightarrow> False)"
      "ProtocolVersion_ok (om_version r)" "\<not> (case om_version r of PV_Unknown v \<Rightarrow> v AND 0xff00 \<noteq> 0x0300 | _ \<Rightarrow> False)"
    using assms(1) by (auto simp: OpaqueMessage_ok_def split: ContentType.splits ProtocolVersion.splits)
  let ?len = "word_of_nat (length (om_payload r)) :: u16" and ?rd = "Reader_init (take n (OpaqueMessage_encode r))"
  let ?bs = "take (n - 5) (om_payload r)"
  have b: "length (om_payload r) < 18432" using assms(1) by (simp add: OpaqueMessage_ok_def unat_MAX_PAYLOAD)
  then have len: "unat ?len = length (om_payload r)" by (simp add: unat_length)
  with b have l: "\<not> MAX_PAYLOAD \<le> ?len" "?len = 0 \<longleftrightarrow> om_payload r = []"
    by (auto simp: word_le_nat_alt unat_MAX_PAYLOAD unat_eq_0 [symmetric])
  have rem: "remaining ?rd = ContentType_encode (om_typ r) @ ProtocolVersion_encode (om_version r) @ u16_encode ?len @ ?bs"
    using assms(2) by (simp add: OpaqueMessage_encode_def eval_nat_numeral)
  have short: "length ?bs < length (om_payload r)" using assms(2,3) by (simp add: OpaqueMessage_encode_def)
  then have ne: "om_payload r \<noteq> []" by auto
  from rem content_type.read_encode [OF ok(1) rem]
    protocol_version.read_encode [OF ok(3), of "advance (Suc 0) ?rd" "u16_encode ?len @ ?bs"]
    u16.read_encode [OF TrueI, of "advance (Suc (Suc (Suc 0))) ?rd" ?len ?bs]
  show ?thesis
    using ok l ne short by (auto simp: OpaqueMessage_read_def rd_sub_remaining len)
qed

lemma read_part:
  assumes "holds_records d []" and "front buf = length buf" and "READ_SIZE < length buf"
  obtains d' where "intercept_read front d buf = Inr (d', drop READ_SIZE buf)" "holds_records d' (take READ_SIZE buf)"
proof -
  have ok: "deframer_ok d" "queues_of d = \<lparr>q_error = None, q_joined = None, q_records = []\<rparr>"
    using assms(1) by (auto simp: holds_records_def refines_def)
  have u: "joining_hs d = None" "df_used d = 0"
    using ok by (auto simp: queues_of_def deframer_ok_def next_record_def)
  obtain d' taken rest r where r: "deframer_read front d buf = Inr (d', rest, r)" "buf = taken @ rest"
    "refines d' ((queues_of d)\<lparr>q_records := q_records (queues_of d) @ taken\<rparr>)"
    using read_refines [of d front buf, OF ok(1)] assms(2) by (metis order_refl)
  have "rest = drop READ_SIZE buf"
    using r(1) assms(2,3) u
    by (auto simp: deframer_read_def prepare_read_def Let_def READ_SIZE_def MAX_WIRE_SIZE_def vec_resize_def slice_range_def res_bind_Inr_iff
        MAX_PAYLOAD_def OM_HEADER_SIZE_def split: if_split_asm)
  moreover from this r(2) have "taken = take READ_SIZE buf" by (metis append_same_eq append_take_drop_id)
  ultimately show thesis using r(1,3) by (intro that [of d']) (simp_all add: intercept_read_def holds_records_def ok(2))
qed

section \<open>Properties\<close>



text \<open>
  C21. The TLS layer panics on a message in exactly two cases, both while it expects a server hello: on any
  message of the client, and on a server hello that selects one of the TLS 1.2 suites while the
  handshake secrets of TLS 1.3 are known.  In particular installing keys never panics.
\<close>

theorem tls_message_panics_iff:
  assumes "ring_ok R"
  shows "do_message (intercept L front R A) db entry c msg timing target = Inl p \<longleftrightarrow>
     (\<exists>cr. underlying (tls_state entry) = ExpectServerHello cr \<and>
        (if c
         then p = UnimplementedCode
              \<and> (\<exists>shp suite. require_handshake_msg msg HT_ServerHello as_ServerHello = Inr shp
                   \<and> find (\<lambda>s. suite_id s = sh_cipher_suite shp) ALL_CIPHER_SUITES = Some (Suite_Tls12 suite))
              \<and> lookup_secret db cr ClientHandshakeTrafficSecret \<noteq> None
              \<and> lookup_secret db cr ServerHandshakeTrafficSecret \<noteq> None
         else p = UnreachableCode))"
  by (rule do_message_panics_iff [OF intercept_installs [OF assms]])

theorem tls_message_panics_iff_witness:
  "do_message (intercept tag_only length unit_ring (\<lambda>bs. None)) KeyDB_default
     ((TLSFlow_new (intercept tag_only length unit_ring (\<lambda>bs. None)))\<lparr>tls_state := ExpectServerHello (ClientRandom [7])\<rparr>) False (example_message 1)
     example_timing example_target = Inl UnreachableCode"
  by (subst tls_message_panics_iff [OF unit_ring_ok]) simp

text \<open>
  C4. What an endpoint sends the interceptor hands on.  If the record layer of an endpoint, after the
  switch to traffic keys, is in step with the record layer of a flow's side that has no bytes pending,
  and the records in which the endpoint sends its data arrive in one chunk of at most 4096 bytes, then
  the next layer gets exactly the accepted data, in the same direction and from the same flow, and the
  side waits for the next record in step with the endpoint.
\<close>

theorem sent_data_intercepted:
  assumes "aead_ok L" and "seals L" and "\<And>rd. front rd = length rd"
    and "may_send_application_data cs" and "can_send (records_for cs (length data)) cs"
    and "message_encrypter (record_layer cs) = Tls13MessageEncrypter k iv" and "contents (sendable_tls cs) = []"
    and "is_tls target" and "tls_flows t target = Some entry" and "side_ready entry c (record_layer cs)"
    and "holds_records (deframer (flow_side c entry)) []" and "read_buffer (flow_side c entry) = []"
  shows "\<exists>cs' n. send_plain L data limit cs = Some (Inr (cs', n)) \<and> n = accepted data limit cs
    \<and> (length (contents (sendable_tls cs')) \<le> READ_SIZE \<longrightarrow>
        (\<exists>entry' calls. tracker_on_data (intercept L front R A) db timing target c (contents (sendable_tls cs')) t =
            Some (Inr (t\<lparr>tls_flows := (tls_flows t)(target \<mapsto> entry')\<rparr>, calls))
          \<and> (\<forall>call \<in> set calls. \<exists>bs. call = call_of_event timing target (Next c bs)) \<and> concat (map call_data calls) = take n data
          \<and> side_ready entry' c (record_layer cs') \<and> holds_records (deframer (flow_side c entry')) [] \<and> read_buffer (flow_side c entry') = []))"
proof -
  from send_plain_sends [OF assms(2,4), of data 0 limit] assms(5) obtain ms rl rs where
    s: "encrypt_all L ms (record_layer cs) = Inr (rl, rs)" "carries ms (take (accepted data limit cs) data)"
      "send_plain L data limit cs = Some (Inr (with_records rl rs cs, accepted data limit cs))" "can_send 0 (with_records rl rs cs)"
    by auto
  let ?wire = "contents (sendable_tls (with_records rl rs cs))"
  have wire: "?wire = concat (map OpaqueMessage_encode rs)" using assms(7) by simp
  have lim: "unat (write_seq (record_layer cs)) + length ms \<le> unat SEQ_SOFT_LIMIT"
    using encrypt_all_seq [OF s(1)] s(4) by (simp add: can_send_def)
  have "\<exists>entry' calls. tracker_on_data (intercept L front R A) db timing target c ?wire t =
            Some (Inr (t\<lparr>tls_flows := (tls_flows t)(target \<mapsto> entry')\<rparr>, calls))
          \<and> (\<forall>call \<in> set calls. \<exists>bs. call = call_of_event timing target (Next c bs)) \<and> concat (map call_data calls) = take (accepted data limit cs) data
          \<and> side_ready entry' c (record_layer (with_records rl rs cs)) \<and> holds_records (deframer (flow_side c entry')) []
          \<and> read_buffer (flow_side c entry') = []" if "length ?wire \<le> READ_SIZE"
  proof -
    have "front [] = 0" "front ?wire = length ?wire" using assms(3) by simp_all
    from tracker_delivers [where front = front, OF assms(1) this that assms(8-12) assms(6) lim s(2,1) wire, of R A db timing]
    obtain entry' where "tracker_on_data (intercept L front R A) db timing target c ?wire t =
        Some (Inr (t\<lparr>tls_flows := (tls_flows t)(target \<mapsto> entry')\<rparr>, map (\<lambda>m. call_of_event timing target (Next c (pm_payload m))) ms))"
        "side_ready entry' c rl" "holds_records (deframer (flow_side c entry')) []" "read_buffer (flow_side c entry') = []" by blast
    moreover have "concat (map call_data (map (\<lambda>m. call_of_event timing target (Next c (pm_payload m))) ms)) = take (accepted data limit cs) data"
      using s(2) by (simp add: carries_def comp_def)
    ultimately show ?thesis
      by (intro exI [of _ entry'] exI [of _ "map (\<lambda>m. call_of_event timing target (Next c (pm_payload m))) ms"]) auto
  qed
  with s(3) show ?thesis by blast
qed

definition tls13_layer :: "unit RecordLayer" where
  "tls13_layer =
     \<lparr>message_encrypter = Tls13MessageEncrypter () (replicate 12 3), message_decrypter = Tls13MessageDecrypter () (replicate 12 3),
      write_seq = 5, read_seq = 5, encrypt_state = Dir_Active, decrypt_state = Dir_Active, trial_decryption_len = None\<rparr>"

definition sending_endpoint :: "unit CommonState" where
  "sending_endpoint = (CommonState_new Side_Server)\<lparr>record_layer := tls13_layer, may_send_application_data := True\<rparr>"

definition waiting_flow :: "(MessageDeframer, unit CommonState) TLSFlow" where
  "waiting_flow =
     \<lparr>tls_server = \<lparr>common_state = CommonState_new Side_Server, deframer = MessageDeframer_default, read_buffer = []\<rparr>,
      tls_client = \<lparr>common_state = (CommonState_new Side_Client)\<lparr>record_layer := tls13_layer\<rparr>, deframer = MessageDeframer_default, read_buffer = []\<rparr>,
      tls_state = WaitForFinish example_suite (ClientRandom [7]) True True\<rparr>"

lemma waiting_flow_ready:
  "side_ready waiting_flow True (record_layer sending_endpoint)" "holds_records (deframer (flow_side True waiting_flow)) []"
  "read_buffer (flow_side True waiting_flow) = []"
  by (auto simp: side_ready_def waiting_flow_def flow_side_def in_step_def sending_endpoint_def tls13_layer_def holds_records_def refines_def
      deframer_ok_def queues_of_def MessageDeframer_default_def next_record_def)

lemma sending_endpoint_ready:
  "may_send_application_data sending_endpoint" "can_send (records_for sending_endpoint (length [1, 2, 3 :: u8])) sending_endpoint"
  "message_encrypter (record_layer sending_endpoint) = Tls13MessageEncrypter () (replicate 12 3)" "contents (sendable_tls sending_endpoint) = []"
  by (simp_all add: sending_endpoint_def tls13_layer_def can_send_def is_encrypting_def CommonState_new_def records_for_def
      MessageFragmenter_default_def MAX_FRAGMENT_LEN_def SEQ_SOFT_LIMIT_def fragmenter_ok_def)

lemma sending_endpoint_sends:
  "\<exists>cs'. send_plain tag_only [1, 2, 3] Limit_No sending_endpoint = Some (Inr (cs', 3)) \<and> length (contents (sendable_tls cs')) = 25"
proof -
  have f: "fragment_slice CT_ApplicationData TLSv1_2 [1, 2, 3] (message_fragmenter sending_endpoint) = [example_plain [1, 2, 3]]"
    by (simp add: fragment_slice_def sending_endpoint_def CommonState_new_def MessageFragmenter_default_def MAX_FRAGMENT_LEN_def chunks.simps
        example_plain_def)
  obtain rl r where r: "encrypt_outgoing tag_only (example_plain [1, 2, 3]) (record_layer sending_endpoint) = Inr (rl, r)" "length (om_payload r) = 20"
    by (auto simp: encrypt_outgoing_def encrypt_exhausted_def sending_endpoint_def tls13_layer_def tls13_encrypt_def tag_only_def example_plain_def
        SEQ_HARD_LIMIT_def Let_def)
  have "send_single_fragment tag_only (example_plain [1, 2, 3]) sending_endpoint = Some (Inr (queue_tls_message r (sending_endpoint\<lparr>record_layer := rl\<rparr>)))"
    using r(1) by (subst send_single_fragment_eq)
      (auto simp: wants_close_before_encrypt_def encrypt_exhausted_def sending_endpoint_def tls13_layer_def SEQ_SOFT_LIMIT_def SEQ_HARD_LIMIT_def)
  then have "send_plain tag_only [1, 2, 3] Limit_No sending_endpoint = Some (Inr (queue_tls_message r (sending_endpoint\<lparr>record_layer := rl\<rparr>), 3))"
    using sending_endpoint_ready(1,2) by (simp add: send_plain_def send_appdata_encrypt_def f can_send_def ro_return_def)
  moreover have "length (contents (sendable_tls (queue_tls_message r (sending_endpoint\<lparr>record_layer := rl\<rparr>)))) = 25"
    using r(2) sending_endpoint_ready(4) by (simp add: queue_tls_message_def OpaqueMessage_encode_def)
  ultimately show ?thesis by blast
qed

theorem sent_data_intercepted_witness:
  "\<exists>cs' t' calls. send_plain tag_only [1, 2, 3] Limit_No sending_endpoint = Some (Inr (cs', 3))
     \<and> tracker_on_data (intercept tag_only length unit_ring (\<lambda>bs. None)) KeyDB_default example_timing example_target True (contents (sendable_tls cs'))
         (TLSFlowTracker_new\<lparr>tls_flows := [example_target \<mapsto> waiting_flow]\<rparr>) = Some (Inr (t', calls))
     \<and> concat (map call_data calls) = [1, 2, 3]"
proof -
  have t: "is_tls example_target" "tls_flows (TLSFlowTracker_new\<lparr>tls_flows := [example_target \<mapsto> waiting_flow]\<rparr>) example_target = Some waiting_flow"
    by (simp_all add: is_tls_def example_target_def)
  obtain cs' where c: "send_plain tag_only [1, 2, 3] Limit_No sending_endpoint = Some (Inr (cs', 3))" "length (contents (sendable_tls cs')) = 25"
    using sending_endpoint_sends by blast
  from sent_data_intercepted [OF tag_only_ok tag_only_seals refl sending_endpoint_ready t waiting_flow_ready, of Limit_No unit_ring "\<lambda>bs. None" KeyDB_default example_timing]
  show ?thesis using c by (auto simp: accepted_def READ_SIZE_def)
qed

text \<open>
  A record that is longer than one read is not delivered when it arrives.  If a side with no bytes
  pending gets a record of more than 4096 bytes in one chunk, then the layer stops after the first read:
  no call is made, the rest of the record stays in the read buffer, and only the next data of that
  direction makes the layer look at it again.
\<close>

theorem long_record_stalls:
  assumes "aead_ok L" and "\<And>rd. front rd = length rd" and "is_tls target" and "tls_flows t target = Some entry"
    and "blocked_on_keys (tls_state entry) = None"
    and "holds_records (deframer (flow_side c entry)) []" and "read_buffer (flow_side c entry) = []"
    and "OpaqueMessage_ok r" and "READ_SIZE < length (OpaqueMessage_encode r)"
  shows "\<exists>entry'. tracker_on_data (intercept L front R A) db timing target c (OpaqueMessage_encode r) t =
      Some (Inr (t\<lparr>tls_flows := (tls_flows t)(target \<mapsto> entry')\<rparr>, []))
    \<and> read_buffer (flow_side c entry') = drop READ_SIZE (OpaqueMessage_encode r) \<and> read_buffer (flow_side c entry') \<noteq> []
    \<and> common_state (flow_side c entry') = common_state (flow_side c entry)"
proof -
  let ?data = "OpaqueMessage_encode r" and ?cs = "common_state (flow_side c entry)"
  let ?e = "set_flow_side c ((flow_side c entry)\<lparr>read_buffer := ?data\<rparr>) entry"
  obtain d where d: "intercept_read front (deframer (flow_side c entry)) ?data = Inr (d, drop READ_SIZE ?data)" "holds_records d (take READ_SIZE ?data)"
    by (rule read_part [where front = front and buf = ?data, OF assms(6,2,9)])
  let ?q = "\<lparr>q_error = None, q_joined = None, q_records = take READ_SIZE ?data\<rparr>"
  have "OpaqueMessage_read (Reader_init (take READ_SIZE ?data)) = Inl ME_TooShortForLength"
    using assms(8,9) by (intro long_record_read) (simp_all add: READ_SIZE_def)
  then have "queue_round L ?q (record_layer ?cs) = Inr (?q, record_layer ?cs, Pop_Return (Inr None))"
    by (simp add: queue_round_def invalid_message_def)
  then have q: "queue_pop L ?q (record_layer ?cs) = Inr (?q, record_layer ?cs, Inr None)"
    unfolding queue_pop_def by (subst queue_loop.simps) simp
  from pop_refines [OF d(2) [unfolded holds_records_def] assms(1), of "record_layer ?cs"] obtain d' where
    "deframer_pop L d (record_layer ?cs) = Inr (d', record_layer ?cs, Inr None)"
    unfolding q by (auto elim!: refines_step_cases)
  then have p: "intercept_pop L d ?cs = Inr (d', ?cs, None)" by (simp add: intercept_pop_def)
  let ?e' = "set_flow_side c ((flow_side c entry)\<lparr>read_buffer := drop READ_SIZE ?data, deframer := d'\<rparr>) entry"
  have "on_data_round (intercept L front R A) db timing target c ?e = Inr (Break (Ok ()) ?e' [])"
    by (simp add: on_data_round_def read_and_deframe_def deframe_def d(1) p)
  then have "on_data_loop (intercept L front R A) db timing target c ?e [] = Some (Inr (Ok (), ?e', []))"
    by (subst on_data_loop.simps) simp
  then have "tracker_on_data (intercept L front R A) db timing target c ?data t = Some (Inr (t\<lparr>tls_flows := (tls_flows t)(target \<mapsto> ?e')\<rparr>, []))"
    using assms(3,4,5,7) by (simp add: tracker_on_data_def inner_on_data_def tls_entry_def Let_def)
  then show ?thesis using assms(9) by (intro exI [of _ ?e']) simp
qed

theorem long_record_stalls_witness:
  "\<exists>entry'. tracker_on_data (intercept tag_only length unit_ring (\<lambda>bs. None)) KeyDB_default example_timing example_target True
       (OpaqueMessage_encode \<lparr>om_typ = CT_ApplicationData, om_version = TLSv1_2, om_payload = replicate 5000 1\<rparr>)
       (TLSFlowTracker_new\<lparr>tls_flows := [example_target \<mapsto> waiting_flow]\<rparr>) =
     Some (Inr (TLSFlowTracker_new\<lparr>tls_flows := [example_target \<mapsto> entry']\<rparr>, [])) \<and> read_buffer (flow_side True entry') \<noteq> []"
proof -
  let ?r = "\<lparr>om_typ = CT_ApplicationData, om_version = TLSv1_2, om_payload = replicate 5000 1\<rparr>"
  have t: "is_tls example_target" "tls_flows (TLSFlowTracker_new\<lparr>tls_flows := [example_target \<mapsto> waiting_flow]\<rparr>) example_target = Some waiting_flow"
      "blocked_on_keys (tls_state waiting_flow) = None"
    by (simp_all add: is_tls_def example_target_def waiting_flow_def)
  have r: "OpaqueMessage_ok ?r" "READ_SIZE < length (OpaqueMessage_encode ?r)"
    by (simp_all add: OpaqueMessage_ok_def unat_MAX_PAYLOAD ContentType_ok_def ContentType_from_def ProtocolVersion_ok_def ProtocolVersion_from_def
        READ_SIZE_def OpaqueMessage_encode_def)
  from long_record_stalls [OF tag_only_ok refl t waiting_flow_ready(2,3) r, of unit_ring "\<lambda>bs. None" KeyDB_default example_timing]
  show ?thesis by auto
qed

text \<open>
  C5. The secrets that an endpoint logs let the interceptor read both directions.  A server that switches
  to its traffic keys writes its secrets to the key log file; a client goes through the same key
  schedule.  If the text of that log was loaded into the key database, then the finished message of the
  client makes the flow's two sides ready: each is in step with the endpoint whose records it gets, and
  bytes that are pending stay pending.
\<close>

theorem logged_session_readable:
  assumes "ring_ok R" and "\<And>bs. hex_decode (Hex bs) = Some bs"
    and "into_traffic_with_client_finished_pending R (\<lambda>label. True) hs_hash cr hs server = Inr (server', pending, log)"
    and "into_pre_finished_client_traffic R will_log hs_hash hash cr hs' = Inr (before, tag, log')" and "hs_ks hs' = hs_ks hs"
    and "into_traffic R before client = Inr (client', tr)"
    and "db = fst (load_key_log hex_decode (concat (map try_write log)) KeyDB_default)"
    and "underlying (tls_state entry) = WaitForFinish (ks_suite (hs_ks hs)) (ClientRandom cr) cf sf"
    and "msg_payload msg = MP_Handshake \<lparr>hmp_typ = HT_Finished, hmp_payload = p\<rparr> encoded"
  shows "\<exists>entry'. do_message (intercept L front R A) db entry False msg timing target = Inr (Ok True, entry', [])
    \<and> side_ready entry' True (record_layer server') \<and> side_ready entry' False (record_layer client')
    \<and> buffers entry' True = buffers entry True \<and> buffers entry' False = buffers entry False"
proof -
  let ?I = "intercept L front R A" and ?suite = "ks_suite (hs_ks hs)"
  from logged_keys_match [where db = db, OF assms(1-7), of "common_state (tls_client entry)" "common_state (tls_server entry)"]
  obtain c s e ks x y where k: "lookup_secret db (ClientRandom cr) ClientTrafficSecret0 = Some (Secret c)"
      "lookup_secret db (ClientRandom cr) ServerTrafficSecret0 = Some (Secret s)" "lookup_secret db (ClientRandom cr) ExporterSecret = Some (Secret e)"
      "KeyScheduleTraffic_from_data R ?suite c s e = Inr ks"
      "ks_load_keys R Side_Client ks (common_state (tls_client entry)) = Inr x" "in_step (record_layer server') (record_layer x)"
      "ks_load_keys R Side_Server ks (common_state (tls_server entry)) = Inr y" "in_step (record_layer client') (record_layer y)"
    by blast
  let ?entry = "entry\<lparr>tls_server := (tls_server entry)\<lparr>common_state := y\<rparr>, tls_client := (tls_client entry)\<lparr>common_state := x\<rparr>,
      tls_state := WaitForFinish ?suite (ClientRandom cr) cf True\<rparr>"
  have "drive ?I db (tls_state entry) (entry\<lparr>tls_state := Failed\<rparr>) False msg =
      drive_WaitForFinish ?I db ?suite (ClientRandom cr) cf sf (entry\<lparr>tls_state := Failed\<rparr>) False msg"
    by (subst drive_underlying) (simp add: assms(8))
  then have "do_message ?I db entry False msg timing target = Inr (Ok True, ?entry, [])"
    using k by (simp add: do_message_def drive_WaitForFinish_def assms(9) secret_bytes_def intercept_def Let_def)
  then show ?thesis using k(6,8) by (intro exI [of _ ?entry]) (auto simp: side_ready_def flow_side_def buffers_def)
qed

theorem logged_session_readable_witness:
  "\<exists>(server' :: unit CommonState) (client' :: unit CommonState) db entry'. do_message (intercept tag_only length unit_ring (\<lambda>bs. None)) db waiting_flow False (example_message 4) example_timing example_target =
       Inr (Ok True, entry', [])
     \<and> side_ready entry' True (record_layer server') \<and> side_ready entry' False (record_layer client')"
proof -
  let ?hs = "\<lparr>hs_ks = \<lparr>ks_current = [1], ks_suite = example_suite\<rparr>, client_handshake_traffic_secret = [2], server_handshake_traffic_secret = [3]\<rparr>"
  obtain server' :: "unit CommonState" and pend log where
    s: "into_traffic_with_client_finished_pending unit_ring (\<lambda>label. True) [5] [7] ?hs (CommonState_new Side_Server) = Inr (server', pend, log)"
    using into_traffic_with_client_finished_pending_returns [OF unit_ring_ok, of "CommonState_new Side_Server" "[5]" "[7]" ?hs]
    by (auto simp: CommonState_new_def)
  obtain before tag log' where p: "into_pre_finished_client_traffic unit_ring (\<lambda>label. True) [5] [6] [7] ?hs = Inr (before, tag, log')"
    using into_pre_finished_client_traffic_returns [OF unit_ring_ok, of "[5]" "[6]" "[7]" ?hs] by auto
  obtain client' :: "unit CommonState" and tr where c: "into_traffic unit_ring before (CommonState_new Side_Client) = Inr (client', tr)"
    using into_traffic_returns [OF unit_ring_ok, of "CommonState_new Side_Client" before] by (auto simp: CommonState_new_def)
  have w: "underlying (tls_state waiting_flow) = WaitForFinish (ks_suite (hs_ks ?hs)) (ClientRandom [7]) True True" by (simp add: waiting_flow_def)
  have m: "msg_payload (example_message 4) = MP_Handshake \<lparr>hmp_typ = HT_Finished, hmp_payload = HP_Finished []\<rparr> []"
    by (simp add: example_message_def example_handshake_def)
  from logged_session_readable [OF unit_ring_ok decode_pairs_Hex s p refl c refl w m, of tag_only length "\<lambda>bs. None" example_timing example_target]
  show ?thesis by blast
qed

end
