(* ===== verification/Spec2Isabelle.thy ===== *)
theory Spec2Isabelle
  imports Tcp_Follower Key_Db Tls_Queue Http1_Flow Http2_Streams Http_Tracker Pcap Chomp Devtools Anon_Frames Deframer_Refinement Tls_Intercept
begin

text \<open>
  A verification development for clipper, a tool that captures the traffic of programs, decrypts it with
  the secrets they log, and shows the HTTP requests in it to browser developer tools.

  \<^bold>\<open>The program.\<close>  Frames come from a capture file or a live capture (\<open>crates/wire_blahaj\<close>).
  \<open>EthernetChomper\<close> (\<open>crates/net_decode/src/chomp.rs\<close>) takes them apart and gives TCP segments to the
  follower of \<open>tcp_reassemble.rs\<close>, which puts the two byte streams of a connection in order.  A dispatcher
  (\<open>dispatch.rs\<close>) sends streams on port 443 to the TLS layer (\<open>tls.rs\<close>) and those on port 80 to the HTTP
  tracker (\<open>http.rs\<close>).  The TLS layer decrypts passively: it uses the deframer, the record layer and the
  key schedule of the bundled \<open>rustls-intercept/rustls\<close> with secrets from the key database
  (\<open>key_db.rs\<close>), which is filled from key log files, and keeps records whose keys are not known yet in a
  queue.  Plaintext goes to a second HTTP tracker, which follows HTTP/1 and HTTP/2.  Events of requests and
  responses reach the listener of \<open>crates/libclipper/src/devtools.rs\<close>, which buffers them for
  connected clients.  \<open>crates/anon_packets\<close> rewrites the addresses of a capture file.

  \<^bold>\<open>How code is modelled.\<close>  A function that may panic returns \<open>'a res\<close>, the sum of \<open>panic\<close> and its result;
  sequencing is \<open>res_bind\<close>.  A loop that may not end is a \<open>partial_function (option)\<close>: \<open>None\<close> is the
  value of a run that does not return, and theorems that something returns say that it is \<open>Some\<close>.  There is no
  fuel.  Structs are records, enums are datatypes, machine integers are words and overflow that panics in the
  program is a panic here; lengths and indices (\<open>usize\<close>) are natural numbers.  A \<open>BTreeMap\<close> is a sorted
  association list with the laws of the locale \<open>ordered_map\<close>; a hash map is a function into \<open>option\<close>.  The
  listeners of the program call each other; here a listener returns the calls it makes, and \<open>feed\<close> hands
  them on.  Code of other crates is a parameter: a record of operations (\<open>http_lib\<close>, \<open>h2_lib\<close>, \<open>pnet\<close>,
  \<open>pcap_reader\<close>, \<open>block_lib\<close>, \<open>cdp_lib\<close>, \<open>aead\<close>, \<open>ring\<close>) with what is documented of them as named predicates
  (\<open>aead_ok\<close>, \<open>ring_ok\<close>, \<open>pnet_ok\<close>, \<open>reads_blocks\<close>, \<open>in_order_within\<close>), which have instances.  Tracing output
  is left out.

  \<^bold>\<open>Theories.\<close>
  \<^item> \<open>Clipper_Prelude\<close>, \<open>Big_Endian\<close>, \<open>Byte_Text\<close>, \<open>Utf8\<close>: words, panics, ordered maps; big-endian
    numbers; hexadecimal text (\<open>crates/misc\<close>, \<open>crates/hexdump\<close>); UTF-8 checking.
  \<^item> \<open>Key_Db\<close>: the key database; a key log that is written is read back, a secret once known is never
    replaced, and a key log can be loaded in pieces cut at line ends.
  \<^item> \<open>Listener_Stack\<close>, \<open>Dispatch\<close>: flow identities, listener calls, the dispatcher; the locales
    \<open>listener_contract\<close> and \<open>dispatch_contract\<close> carry an invariant through a stack of listeners.
  \<^item> \<open>Tcp_Reassemble\<close>, \<open>Tcp_Follower\<close>: the reorder buffer over 32-bit sequence numbers that wrap around, the passive
    TCP states, the flow table; conversations are reassembled in stream order whatever the order of the
    segments, the handshake establishes a flow, and the panics are characterised.  The locales
    \<open>reassembler_target\<close> and \<open>timed_target\<close> are the interface of what the buffer delivers to.
  \<^item> \<open>Tls_Codec\<close>, \<open>Tls_Parse\<close>, \<open>Tls_Enums\<close>, \<open>Tls_Error\<close>, \<open>Tls_Extensions\<close>, \<open>Tls_Handshake\<close>, \<open>Tls_Message\<close>:
    the wire format of the rustls fork (\<open>msgs/*.rs\<close>, \<open>enums.rs\<close>, \<open>error.rs\<close>, \<open>check.rs\<close>); the locales
    \<open>codec_contract\<close>, \<open>parse_contract\<close> and \<open>element_contract\<close> say that a reader accepts exactly the
    encodings, that lists of elements inherit this, and that every parser returns; each codec is an interpretation.
  \<^item> \<open>Tls_Cipher\<close>: record ciphers and the record layer (\<open>cipher.rs\<close>, \<open>tls12/cipher.rs\<close>, \<open>tls13/mod.rs\<close>,
    \<open>record_layer.rs\<close>); decryption inverts encryption, nonces are not reused, trial decryption is bounded.
  \<^item> \<open>Deframer\<close>, \<open>Deframer_Refinement\<close>: the deframer (\<open>msgs/deframer.rs\<close>) with its one buffer, an
    abstract deframer with two queues, and the refinement of the latter by the former.
  \<^item> \<open>Tls_Suites\<close>, \<open>Chunk_Buffer\<close>, \<open>Tls_Common\<close>, \<open>Tls_Keys\<close>: cipher suites (\<open>suites.rs\<close>), the byte queue of a
    connection (\<open>vecbuf.rs\<close>, locale \<open>byte_queue\<close>), the fragmenter and the state of a connection
    (\<open>msgs/fragmenter.rs\<close>, \<open>common_state.rs\<close>), the TLS 1.3 key schedule and the key log file
    (\<open>tls13/key_schedule.rs\<close>, \<open>key_log_file.rs\<close>); data written to a connection arrives at its peer, and logged
    secrets give the keys of the session.
  \<^item> \<open>Tls_Flow\<close>, \<open>Tls_Queue\<close>, \<open>Tls_Intercept\<close>: the TLS layer over a record of operations, what it guarantees
    for any such record (the queue of waiting records, exact calls on the next layer, idempotent retries), and
    the layer over the models of the fork.  The locale \<open>deframing\<close> says what the layer needs to return
    from every call; its interpretation on the deframer of the fork rests on the refinement above.
  \<^item> \<open>Http1\<close>, \<open>Http1_Flow\<close>, \<open>Http2\<close>, \<open>Http2_Streams\<close>, \<open>Http_Tracker\<close>: the HTTP decoders, the events of
    requests and responses in one or many chunks and of interleaved streams, and request ids.
  \<^item> \<open>Pcap\<close>, \<open>Chomp\<close>: capture files at the level of blocks, frames, and the stack as a whole; a capture
    replays, and a request in frames of any order is reported.
  \<^item> \<open>Event_Buffer\<close>, \<open>Devtools\<close>: the event buffer, whose \<open>send\<close> and \<open>receiver\<close> take two steps each that
    may interleave, the listener, and client connections.
  \<^item> \<open>Anon_Packets\<close>, \<open>Anon_Frames\<close>: address mapping and the rewriting of frames and files.

  \<^bold>\<open>Behaviour shown to be other than meant.\<close>  Theorems without a claim id show inputs on which the
  code loses, repeats or never finishes something; they stand next to the component they concern.

  \<^bold>\<open>Bounds.\<close>  The remapping of an address gives up after 1000 candidates as in the code.  The deframer reads at
  most \<open>READ_SIZE\<close> bytes at a time; the theorem on intercepted data asks for a chunk of at most that size.  Reading a
  capture for anonymisation is described up to the first error of the reader.

  \<^bold>\<open>Not modelled.\<close>  The client and server state machines of the rustls fork and what only they use
  (certificates, signatures, key exchange, tickets, QUIC, extraction of secrets); the HTTP/2 codec \<open>h2-intercept\<close>,
  whose frames are the input of the HTTP/2 decoder; the byte encoding of capture blocks, done by \<open>pcap_parser\<close>;
  the WebSocket server, live capture, namespaces, the command line and the library injected into traced
  programs, which consist of system calls and asynchronous input and output; floating point numbers
  are reals with a rounding function as a parameter.
\<close>

end
